(* ===== verification/Prelude.thy ===== *)
theory Prelude imports Main begin

text \<open>
  Shared vocabulary of the development: the error values that the Go services
  return, the shape of a fallible call, the hint collections the component
  theories add to, and the generic list lemmas they share.
\<close>

section \<open>Error values\<close>

text \<open>
  Every Go \<open>error\<close> that a repository, a service or a client of the program can
  return. The sentinel errors of the four \<open>domain\<close> packages are constructors;
  \<open>ValidationError field message\<close> is the struct of \<open>internal/service/errors.go\<close>
  (user-service and expense-service), \<open>ErrValidation message\<close> the wrapped
  sentinel of budget-service and notification-service; every error that comes
  from a library (MongoDB driver, bcrypt, JWT, HTTP) is \<open>ErrOther\<close> with its text.
\<close>

datatype go_error =
    ErrNotFound
  | ErrDuplicateEmail
  | ErrInvalidCredentials
  | ErrInvalidToken
  | ValidationError string string
  | ErrValidation string
  | ErrOther string

type_synonym 'a res = "go_error + 'a"

text \<open>\<open>ok_of\<close> reads the value of a call that returned a nil error.\<close>

fun ok_of :: "'e + 'a \<Rightarrow> 'a option" where
  "ok_of (Inl e) = None"
| "ok_of (Inr x) = Some x"

lemma ok_of_eq_Some [simp]: "ok_of r = Some x \<longleftrightarrow> r = Inr x"
  by (cases r) auto

lemma ok_of_eq_None [simp]: "ok_of r = None \<longleftrightarrow> (\<exists>e. r = Inl e)"
  by (cases r) auto

text \<open>\<open>on_ok\<close> is \<open>x, err := call(); if err != nil { return err }\<close> and what follows, with the state threaded.\<close>

definition on_ok :: "('e + 'a) \<times> 's \<Rightarrow> ('a \<Rightarrow> 's \<Rightarrow> ('e + 'b) \<times> 's) \<Rightarrow> ('e + 'b) \<times> 's" where
  "on_ok r f = (case r of (Inl e, s) \<Rightarrow> (Inl e, s) | (Inr x, s) \<Rightarrow> f x s)"

lemma on_ok_simps [simp]:
  "on_ok (Inl e, s) f = (Inl e, s)"
  "on_ok (Inr x, s) f = f x s"
  by (simp_all add: on_ok_def)

lemma on_okE:
  assumes "on_ok r f = (q, s')"
  obtains (err) e where "r = (Inl e, s')" "q = Inl e"
  | (ok) x s where "r = (Inr x, s)" "f x s = (q, s')"
  using assms by (cases r; cases "fst r") auto

section \<open>Hint collections\<close>

named_theorems repo_defs \<open>definitions of repository operations\<close>
named_theorems svc_defs \<open>definitions of service operations\<close>
named_theorems http_defs \<open>definitions of HTTP handlers and envelopes\<close>

section \<open>Lists\<close>

lemma filter_split_update:
  assumes "\<not> P d" and "\<not> P d'"
  shows "filter P (xs @ d # ys) = filter P (xs @ d' # ys)"
  using assms by simp

lemma filter_split_delete:
  assumes "\<not> P d"
  shows "filter P (xs @ d # ys) = filter P (xs @ ys)"
  using assms by simp

lemma takeWhile_append_stop:
  assumes "\<forall>x \<in> set xs. P x" and "ys = [] \<or> \<not> P (hd ys)"
  shows "takeWhile P (xs @ ys) = xs" and "dropWhile P (xs @ ys) = ys"
  using assms by (induction xs) (cases ys, auto)+

text \<open>
  A list that is cut into pages of size \<open>n\<close>, the way the paginated list
  endpoints cut their result: page \<open>k\<close> (counted from 0) is
  \<open>take n (drop (k * n) xs)\<close>.
\<close>

definition page_of :: "nat \<Rightarrow> nat \<Rightarrow> 'a list \<Rightarrow> 'a list" where
  "page_of n k xs = take n (drop (k * n) xs)"

lemma page_of_Suc: "page_of n (Suc k) xs = page_of n k (drop n xs)"
  by (simp add: page_of_def add.commute)

lemma concat_pages: "concat (map (\<lambda>k. page_of n k xs) [0..<p]) = take (p * n) xs"
proof (induction p)
  case (Suc p)
  then show ?case
    by (simp add: page_of_def take_add add.commute [of n])
qed simp

lemma length_page_le: "length (page_of n k xs) \<le> n"
  by (simp add: page_of_def)

lemma short_page_last:
  assumes "length (page_of n k xs) < n"
  shows "length xs \<le> Suc k * n"
  using assms by (auto simp: page_of_def min_def split: if_splits)

end
