(* ===== verification/Go_Float.thy ===== *)
theory Go_Float imports Prelude begin

text \<open>
  Go's \<open>float64\<close>, the type of every amount the services store: IEEE 754 binary64
  with round-to-nearest-even. A finite value is a sign and a magnitude counted in
  units of 2^-1074, the least subnormal, so that every finite value is a natural
  number of units and the arithmetic the program uses (addition, subtraction,
  comparison, absolute value) is exact integer arithmetic followed by one rounding.
  NaN, the infinities and the negative zero are values of their own.
\<close>

section \<open>Values\<close>

datatype f64 = NaN | Inf bool | Fin bool nat

abbreviation f0 :: f64 where "f0 \<equiv> Fin False 0"

fun bit_length :: "nat \<Rightarrow> nat" where
  "bit_length n = (if n = 0 then 0 else Suc (bit_length (n div 2)))"

declare bit_length.simps [simp del]

lemma bit_length_0 [simp]: "bit_length 0 = 0"
  by (simp add: bit_length.simps)

lemma bit_length_bounds: "0 < n \<Longrightarrow> 2 ^ (bit_length n - 1) \<le> n \<and> n < 2 ^ bit_length n \<and> 0 < bit_length n"
proof (induction n rule: bit_length.induct)
  case (1 n)
  show ?case
  proof (cases "n div 2 = 0")
    case True
    with "1.prems" have "n = 1" by simp
    then show ?thesis by (simp add: bit_length.simps)
  next
    case False
    with 1 have ih: "2 ^ (bit_length (n div 2) - 1) \<le> n div 2" "n div 2 < 2 ^ bit_length (n div 2)"
      "0 < bit_length (n div 2)" by auto
    have eq: "bit_length n = Suc (bit_length (n div 2))"
      using "1.prems" by (simp add: bit_length.simps [of n])
    from ih(1,3) have "2 ^ bit_length (n div 2) \<le> 2 * (n div 2)"
      by (cases "bit_length (n div 2)") auto
    moreover have "2 * (n div 2) \<le> n" by simp
    moreover have "n < 2 * 2 ^ bit_length (n div 2)" using ih(2) by linarith
    ultimately show ?thesis by (simp add: eq)
  qed
qed

lemma bit_length_less: "n < 2 ^ bit_length n"
  using bit_length_bounds [of n] by (cases "n = 0") auto

lemma bit_length_eqI: "2 ^ k \<le> n \<Longrightarrow> n < 2 ^ Suc k \<Longrightarrow> bit_length n = Suc k"
proof -
  assume a: "2 ^ k \<le> n" and b: "n < 2 ^ Suc k"
  then have pos: "0 < n" by (metis gr0I not_one_le_zero one_le_numeral one_le_power le_zero_eq)
  note bl = bit_length_bounds [OF pos]
  have "(2::nat) ^ k < 2 ^ bit_length n" using a bl by linarith
  then have "k < bit_length n" by simp
  moreover have "(2::nat) ^ (bit_length n - 1) < 2 ^ Suc k" using b bl by linarith
  then have "bit_length n - 1 < Suc k" by (simp del: power_Suc)
  ultimately show ?thesis by simp
qed

lemma bit_length_mono: "m \<le> n \<Longrightarrow> bit_length m \<le> bit_length n"
proof (cases "m = 0")
  case False
  assume le: "m \<le> n"
  with False have "(2::nat) ^ (bit_length m - 1) < 2 ^ bit_length n"
    using bit_length_bounds [of m] bit_length_less [of n] by linarith
  then show ?thesis by simp
qed simp

section \<open>Rounding\<close>

text \<open>\<open>rne n d\<close> is \<open>n / d\<close> rounded to the nearest natural number, ties to even.\<close>

definition rne :: "nat \<Rightarrow> nat \<Rightarrow> nat" where
  "rne n d = (let q = n div d; r = n mod d
     in if 2 * r < d \<or> (2 * r = d \<and> even q) then q else Suc q)"

text \<open>
  \<open>round_ratio s n d\<close> is the float nearest to \<open>n / d\<close> units: at most 53 significant
  bits are kept, and 2^1024 (that is 2^2098 units) and above is an infinity.
\<close>

definition f64_limit :: nat where
  "f64_limit = 2 ^ 2098"

definition round_ratio :: "bool \<Rightarrow> nat \<Rightarrow> nat \<Rightarrow> f64" where
  "round_ratio s n d = (let e = bit_length (n div d) - 53; m = rne n (d * 2 ^ e) * 2 ^ e
     in if m < f64_limit then Fin s m else Inf s)"

definition round_units :: "bool \<Rightarrow> nat \<Rightarrow> f64" where
  "round_units s n = round_ratio s n 1"

lemma round_units_eq:
  "round_units s n = (let e = bit_length n - 53; m = rne n (2 ^ e) * 2 ^ e
     in if m < f64_limit then Fin s m else Inf s)"
  by (simp add: round_units_def round_ratio_def)

text \<open>The magnitudes that are exactly representable.\<close>

definition rep53 :: "nat \<Rightarrow> bool" where
  "rep53 m \<longleftrightarrow> 2 ^ (bit_length m - 53) dvd m"

fun wf_f64 :: "f64 \<Rightarrow> bool" where
  "wf_f64 (Fin s m) \<longleftrightarrow> rep53 m \<and> m < f64_limit"
| "wf_f64 _ \<longleftrightarrow> True"

lemma rne_mult: "0 < d \<Longrightarrow> rne (k * d) d = k"
  by (simp add: rne_def)

lemma rne_ge: "n div d \<le> rne n d"
  by (simp add: rne_def Let_def)

lemma rne_le: "rne n d \<le> Suc (n div d)"
  by (simp add: rne_def Let_def)

lemma rne_mono:
  assumes "n \<le> n'" and "0 < d"
  shows "rne n d \<le> rne n' d"
proof (cases "n div d < n' div d")
  case True
  then show ?thesis using rne_le [of n d] rne_ge [of n' d] by linarith
next
  case False
  with assms have q: "n div d = n' div d" by (simp add: div_le_mono le_antisym not_less)
  have "n mod d \<le> n' mod d"
  proof -
    have "d * (n div d) + n mod d \<le> d * (n' div d) + n' mod d"
      using assms by (simp only: mult_div_mod_eq)
    with q show ?thesis by (simp only: add_le_cancel_left)
  qed
  with q show ?thesis by (auto simp: rne_def Let_def)
qed

lemma round_exact: "rep53 m \<Longrightarrow> m < f64_limit \<Longrightarrow> round_units s m = Fin s m"
proof -
  assume rep: "rep53 m" and lt: "m < f64_limit"
  define e where "e = bit_length m - 53"
  from rep obtain k where k: "m = k * 2 ^ e" unfolding rep53_def e_def by (metis dvdE mult.commute)
  have "rne m (2 ^ e) * 2 ^ e = m" unfolding k by (subst rne_mult) auto
  with lt show ?thesis by (simp add: round_units_eq Let_def e_def)
qed

text \<open>A nonzero number of units never rounds to zero: gradual underflow.\<close>

lemma round_pos:
  assumes "0 < n"
  shows "round_units s n = Inf s \<or> (\<exists>m. round_units s n = Fin s m \<and> 0 < m)"
proof -
  define e where "e = bit_length n - 53"
  have "(2::nat) ^ e \<le> 2 ^ (bit_length n - 1)" by (rule power_increasing) (auto simp: e_def)
  with bit_length_bounds [OF assms] have "2 ^ e \<le> n" by linarith
  then have "1 \<le> n div 2 ^ e" by (simp add: div_greater_zero_iff Suc_leI)
  with rne_ge [of n "2 ^ e"] have "0 < rne n (2 ^ e) * 2 ^ e" by simp
  then show ?thesis by (auto simp: round_units_eq Let_def e_def)
qed

section \<open>Arithmetic and comparison\<close>

fun sval :: "f64 \<Rightarrow> int" where
  "sval (Fin s m) = (if s then - int m else int m)"
| "sval _ = 0"

fun fneg :: "f64 \<Rightarrow> f64" where
  "fneg NaN = NaN"
| "fneg (Inf s) = Inf (\<not> s)"
| "fneg (Fin s m) = Fin (\<not> s) m"

fun fabs :: "f64 \<Rightarrow> f64" where
  "fabs NaN = NaN"
| "fabs (Inf s) = Inf False"
| "fabs (Fin s m) = Fin False m"

fun fadd :: "f64 \<Rightarrow> f64 \<Rightarrow> f64" where
  "fadd NaN y = NaN"
| "fadd x NaN = NaN"
| "fadd (Inf s) (Inf t) = (if s = t then Inf s else NaN)"
| "fadd (Inf s) (Fin t n) = Inf s"
| "fadd (Fin s m) (Inf t) = Inf t"
| "fadd (Fin s m) (Fin t n) =
     (let z = sval (Fin s m) + sval (Fin t n)
      in if z = 0 then Fin (s \<and> t) 0 else round_units (z < 0) (nat \<bar>z\<bar>))"

definition fsub :: "f64 \<Rightarrow> f64 \<Rightarrow> f64" where
  "fsub x y = fadd x (fneg y)"

fun flt :: "f64 \<Rightarrow> f64 \<Rightarrow> bool" where
  "flt NaN y = False"
| "flt x NaN = False"
| "flt (Inf s) (Inf t) = (s \<and> \<not> t)"
| "flt (Inf s) (Fin t n) = s"
| "flt (Fin s m) (Inf t) = (\<not> t)"
| "flt (Fin s m) (Fin t n) = (sval (Fin s m) < sval (Fin t n))"

fun feq :: "f64 \<Rightarrow> f64 \<Rightarrow> bool" where
  "feq NaN y = False"
| "feq x NaN = False"
| "feq (Inf s) (Inf t) = (s = t)"
| "feq (Inf s) (Fin t n) = False"
| "feq (Fin s m) (Inf t) = False"
| "feq (Fin s m) (Fin t n) = (sval (Fin s m) = sval (Fin t n))"

definition fle :: "f64 \<Rightarrow> f64 \<Rightarrow> bool" where
  "fle x y \<longleftrightarrow> flt x y \<or> feq x y"

text \<open>The float of an integer constant of the source.\<close>

definition f64_one :: nat where
  "f64_one = 2 ^ 1074"

definition f64_of_nat :: "nat \<Rightarrow> f64" where
  "f64_of_nat n = round_units False (n * f64_one)"

fun is_finite :: "f64 \<Rightarrow> bool" where
  "is_finite (Fin s m) = True"
| "is_finite _ = False"

lemma compare_NaN [simp]: "\<not> flt x NaN" "\<not> feq x NaN" "\<not> fle NaN x" "\<not> fle x NaN"
  by (cases x; simp add: fle_def)+

lemma flt_f0_Fin [simp]: "flt (Fin s m) f0 \<longleftrightarrow> s \<and> 0 < m"
  by simp

text \<open>
  The sign of a difference is exact, although the difference itself is rounded:
  \<open>x - y < 0\<close> is the same test as \<open>x < y\<close>, for every pair of floats.
\<close>

lemma flt_fsub_zero: "flt (fsub x y) f0 \<longleftrightarrow> flt x y"
proof (cases x; cases y)
  fix s m t n assume xy: "x = Fin s m" "y = Fin t n"
  define z where "z = sval x - sval y"
  have sub: "fsub x y = (if z = 0 then Fin (s \<and> \<not> t) 0 else round_units (z < 0) (nat \<bar>z\<bar>))"
    by (cases t) (auto simp: fsub_def xy z_def Let_def)
  show ?thesis
  proof (cases "z = 0")
    case True
    then show ?thesis unfolding sub by (simp add: xy z_def)
  next
    case False
    then have "0 < nat \<bar>z\<bar>" by simp
    from round_pos [OF this, of "z < 0"] False
    have "flt (fsub x y) f0 \<longleftrightarrow> z < 0" unfolding sub by (auto split: if_splits)
    then show ?thesis by (simp add: xy z_def)
  qed
qed (auto simp: fsub_def)

section \<open>Monotonicity\<close>

lemma rep53_rounded: "rep53 (rne n (2 ^ (bit_length n - 53)) * 2 ^ (bit_length n - 53))"
proof (cases "bit_length n \<le> 53")
  case True
  then have "rne n (2 ^ (bit_length n - 53)) * 2 ^ (bit_length n - 53) = n"
    using rne_mult [of 1 n] by simp
  with True show ?thesis by (simp add: rep53_def)
next
  case False
  define e where "e = bit_length n - 53"
  define q where "q = rne n (2 ^ e)"
  have "n < 2 ^ (53 + e)" using bit_length_less [of n] False by (simp add: e_def)
  then have "n div 2 ^ e < 2 ^ 53" by (simp add: div_less_iff_less_mult power_add)
  then have qle: "q \<le> 2 ^ 53" using rne_le [of n "2 ^ e"] by (simp add: q_def)
  show ?thesis
  proof (cases "q = 2 ^ 53")
    case True
    have "bit_length (2 ^ 53 * 2 ^ e) = Suc (53 + e)"
      by (rule bit_length_eqI) (simp_all add: power_add)
    then show ?thesis unfolding e_def [symmetric] q_def [symmetric] True rep53_def
      by (simp flip: power_add)
  next
    case False
    with qle have "q * 2 ^ e < 2 ^ (53 + e)" by (simp add: power_add)
    then have "bit_length (q * 2 ^ e) \<le> 53 + e"
    proof -
      assume lt: "q * 2 ^ e < 2 ^ (53 + e)"
      show ?thesis
      proof (cases "q * 2 ^ e = 0")
        case False
        then have "(2::nat) ^ (bit_length (q * 2 ^ e) - 1) < 2 ^ (53 + e)"
          using bit_length_bounds [of "q * 2 ^ e"] lt by linarith
        then show ?thesis by simp
      qed simp
    qed
    then have "2 ^ (bit_length (q * 2 ^ e) - 53) dvd (2::nat) ^ e"
      by (intro le_imp_power_dvd) simp
    then show ?thesis unfolding e_def [symmetric] q_def [symmetric] rep53_def
      by (rule dvd_mult)
  qed
qed

lemma wf_round: "wf_f64 (round_units s n)"
  using rep53_rounded [of n] by (simp add: round_units_eq Let_def)

lemma wf_fadd: "wf_f64 x \<Longrightarrow> wf_f64 y \<Longrightarrow> wf_f64 (fadd x y)"
  by (cases x; cases y) (auto simp: Let_def wf_round rep53_def)

text \<open>
  Rounding keeps the order of magnitudes, so that adding a value that is not
  negative to a representable value never gives less.
\<close>

lemma rounded_ge_rep:
  assumes "rep53 m" and "m \<le> n"
  shows "m \<le> rne n (2 ^ (bit_length n - 53)) * 2 ^ (bit_length n - 53)"
proof -
  define e where "e = bit_length n - 53"
  show ?thesis
  proof (cases "2 ^ e dvd m")
    case True
    then obtain k where k: "m = k * 2 ^ e" by (metis dvdE mult.commute)
    have "k = rne m (2 ^ e)" unfolding k by (simp add: rne_mult)
    also have "\<dots> \<le> rne n (2 ^ e)" using assms(2) by (intro rne_mono) auto
    finally show ?thesis unfolding k e_def by simp
  next
    case False
    have "bit_length m < bit_length n"
    proof (rule ccontr)
      assume "\<not> bit_length m < bit_length n"
      then have "(2::nat) ^ e dvd 2 ^ (bit_length m - 53)"
        unfolding e_def by (intro le_imp_power_dvd) simp
      from dvd_trans [OF this] assms(1) have "2 ^ e dvd m" unfolding rep53_def by blast
      with False show False by simp
    qed
    then have "bit_length m \<le> bit_length n - 1" and pos: "0 < n"
      by (auto intro: gr0I)
    then have "(2::nat) ^ bit_length m \<le> 2 ^ (bit_length n - 1)" by (intro power_increasing) auto
    then have mlt: "m < 2 ^ (bit_length n - 1)" using bit_length_less [of m] by linarith
    have "e > 0" using False by (cases e) auto
    then have bl: "bit_length n - 1 = 52 + e" by (simp add: e_def)
    have "2 ^ (52 + e) \<le> n" using bit_length_bounds [OF pos] bl by simp
    then have "2 ^ 52 \<le> n div 2 ^ e" by (simp add: less_eq_div_iff_mult_less_eq power_add)
    then have "2 ^ 52 \<le> rne n (2 ^ e)" using rne_ge le_trans by blast
    then have "2 ^ 52 * 2 ^ e \<le> rne n (2 ^ e) * 2 ^ e" by (rule mult_le_mono1)
    then have "2 ^ (52 + e) \<le> rne n (2 ^ e) * 2 ^ e" by (simp only: power_add)
    with mlt show ?thesis unfolding bl e_def [symmetric] by linarith
  qed
qed

fun nonneg :: "f64 \<Rightarrow> bool" where
  "nonneg NaN = False"
| "nonneg (Inf s) = (\<not> s)"
| "nonneg (Fin s m) = (\<not> s \<or> m = 0)"

lemma nonneg_fadd: "nonneg x \<Longrightarrow> nonneg y \<Longrightarrow> nonneg (fadd x y)"
  by (cases x; cases y) (auto simp: Let_def round_units_eq)

lemma fadd_ge:
  assumes "wf_f64 x" and "nonneg x" and "nonneg y"
  shows "fle x (fadd x y)"
proof (cases x; cases y)
  fix s m t n assume xy: "x = Fin s m" "y = Fin t n"
  have vals: "sval x = int m" "sval y = int n" using assms xy by auto
  show ?thesis
  proof (cases "m + n = 0")
    case True
    then show ?thesis by (simp add: xy fle_def)
  next
    case False
    have sum: "sval x + sval y = int (m + n)" using vals by simp
    have z: "fadd x y = round_units False (m + n)"
      unfolding xy fadd.simps Let_def using sum False unfolding xy
      by (simp only: of_nat_eq_0_iff if_False abs_of_nat nat_int of_nat_less_0_iff)
    define r where "r = rne (m + n) (2 ^ (bit_length (m + n) - 53)) * 2 ^ (bit_length (m + n) - 53)"
    have "m \<le> r" unfolding r_def using assms(1) xy by (intro rounded_ge_rep) auto
    then show ?thesis using vals unfolding z fle_def
      by (auto simp: round_units_eq Let_def xy r_def [symmetric])
  qed
qed (use assms in \<open>auto simp: fle_def\<close>)

lemma fle_refl [simp]: "x \<noteq> NaN \<Longrightarrow> fle x x"
  by (cases x) (auto simp: fle_def)

lemma fle_trans [trans]: "fle x y \<Longrightarrow> fle y z \<Longrightarrow> fle x z"
  by (cases x; cases y; cases z) (auto simp: fle_def split: if_splits)

lemma nonneg_not_NaN: "nonneg x \<Longrightarrow> x \<noteq> NaN"
  by auto

lemma fpos_nonneg: "flt f0 x \<Longrightarrow> nonneg x"
  by (cases x) (auto split: if_splits)

section \<open>Sums\<close>

text \<open>The sum of a list of floats from left to right, as a Go \<open>for\<close> loop adds.\<close>

definition fsum :: "f64 \<Rightarrow> f64 list \<Rightarrow> f64" where
  "fsum a xs = foldl fadd a xs"

lemma fsum_simps [simp]: "fsum a [] = a" "fsum a (x # xs) = fsum (fadd a x) xs"
  by (simp_all add: fsum_def)

lemma fsum_append: "fsum a (xs @ ys) = fsum (fsum a xs) ys"
  by (simp add: fsum_def)

lemma fsum_nonneg_ge:
  assumes "wf_f64 a" and "nonneg a" and "\<forall>x \<in> set xs. nonneg x \<and> wf_f64 x"
  shows "nonneg (fsum a xs) \<and> wf_f64 (fsum a xs) \<and> fle a (fsum a xs)"
  using assms
proof (induction xs arbitrary: a)
  case Nil
  then show ?case by (auto intro: fle_refl dest: nonneg_not_NaN)
next
  case (Cons x xs)
  then have "nonneg (fadd a x)" "wf_f64 (fadd a x)" "fle a (fadd a x)"
    by (auto intro: nonneg_fadd wf_fadd fadd_ge)
  with Cons.IH [of "fadd a x"] Cons.prems(3) show ?case by (auto intro: fle_trans)
qed

section \<open>Exact constants\<close>

lemma rep53_shift: "m < 2 ^ 53 \<Longrightarrow> rep53 (m * 2 ^ k)"
proof (cases "m = 0")
  case False
  assume lt: "m < 2 ^ 53"
  then have "m * 2 ^ k < 2 ^ (53 + k)" by (simp add: power_add)
  moreover have "2 ^ (bit_length (m * 2 ^ k) - 1) \<le> m * 2 ^ k"
    using False bit_length_bounds [of "m * 2 ^ k"] by simp
  ultimately have "(2::nat) ^ (bit_length (m * 2 ^ k) - 1) < 2 ^ (53 + k)" by linarith
  then have "bit_length (m * 2 ^ k) - 53 \<le> k" by simp
  then show ?thesis unfolding rep53_def by (intro dvd_mult le_imp_power_dvd)
qed (simp add: rep53_def)

lemma f64_of_nat_exact:
  assumes "n < 2 ^ 53"
  shows "f64_of_nat n = Fin False (n * f64_one)"
proof -
  have "n * 2 ^ 1074 < 2 ^ 53 * (2::nat) ^ 1074" using assms by (intro mult_strict_right_mono) auto
  also have "\<dots> \<le> (2::nat) ^ 2098" unfolding power_add [symmetric] by (intro power_increasing) auto
  finally have "n * f64_one < f64_limit" by (simp only: f64_one_def f64_limit_def)
  then show ?thesis
    unfolding f64_of_nat_def using assms by (intro round_exact) (simp_all only: f64_one_def rep53_shift)
qed

end
