(* ===== verification/Go_Strings.thy ===== *)
theory Go_Strings imports Go_Float "HOL-Library.Word" begin

text \<open>
  The functions of Go's \<open>strings\<close>, \<open>strconv\<close> and \<open>fmt\<close> that the services call, on
  Go strings as lists of bytes. Unicode tables are not part of the model: where a
  function needs them (case mapping, case folding and quoting of text outside
  ASCII) it calls the corresponding field of \<open>unicode\<close>, a parameter.
\<close>

record unicode =
  u_lower :: "string \<Rightarrow> string"
  u_fold :: "string \<Rightarrow> string \<Rightarrow> bool"
  u_quote :: "string \<Rightarrow> string"

type_synonym int64 = "64 word"

section \<open>Characters\<close>

definition ord :: "char \<Rightarrow> nat" where
  "ord c = of_char c"

definition is_digit :: "char \<Rightarrow> bool" where
  "is_digit c \<longleftrightarrow> 48 \<le> ord c \<and> ord c \<le> 57"

definition digit_val :: "char \<Rightarrow> nat" where
  "digit_val c = ord c - 48"

definition digit_char :: "nat \<Rightarrow> char" where
  "digit_char d = char_of (48 + d)"

definition is_ascii :: "char \<Rightarrow> bool" where
  "is_ascii c \<longleftrightarrow> ord c < 128"

definition ascii_lower :: "char \<Rightarrow> char" where
  "ascii_lower c = (if 65 \<le> ord c \<and> ord c \<le> 90 then char_of (ord c + 32) else c)"

lemma ord_digit_char [simp]: "d < 10 \<Longrightarrow> ord (digit_char d) = 48 + d"
  by (simp add: ord_def digit_char_def take_bit_eq_mod)

lemma digit_char_props [simp]:
  assumes "d < 10"
  shows "is_digit (digit_char d)" "digit_val (digit_char d) = d"
  using assms by (simp_all add: is_digit_def digit_val_def)

lemma digit_char_0: "digit_char 0 = CHR ''0''"
  by code_simp

lemma ord_char_of: "n < 256 \<Longrightarrow> ord (char_of n) = n"
  by (simp add: ord_def take_bit_eq_mod)

lemma ascii_lower_idem [simp]: "ascii_lower (ascii_lower c) = ascii_lower c"
  by (auto simp: ascii_lower_def ord_char_of)

lemma is_ascii_lower [simp]: "is_ascii (ascii_lower c) = is_ascii c"
  by (auto simp: ascii_lower_def is_ascii_def ord_char_of)

section \<open>strings\<close>

text \<open>The UTF-8 encodings of the runes for which \<open>unicode.IsSpace\<close> holds.\<close>

definition space_runes :: "string list" where
  "space_runes =
    [[CHR 0x20], [CHR 0x09], [CHR 0x0A], [CHR 0x0B], [CHR 0x0C], [CHR 0x0D],
     [CHR 0xC2, CHR 0x85], [CHR 0xC2, CHR 0xA0], [CHR 0xE1, CHR 0x9A, CHR 0x80],
     [CHR 0xE2, CHR 0x80, CHR 0x80], [CHR 0xE2, CHR 0x80, CHR 0x81],
     [CHR 0xE2, CHR 0x80, CHR 0x82], [CHR 0xE2, CHR 0x80, CHR 0x83],
     [CHR 0xE2, CHR 0x80, CHR 0x84], [CHR 0xE2, CHR 0x80, CHR 0x85],
     [CHR 0xE2, CHR 0x80, CHR 0x86], [CHR 0xE2, CHR 0x80, CHR 0x87],
     [CHR 0xE2, CHR 0x80, CHR 0x88], [CHR 0xE2, CHR 0x80, CHR 0x89],
     [CHR 0xE2, CHR 0x80, CHR 0x8A], [CHR 0xE2, CHR 0x80, CHR 0xA8],
     [CHR 0xE2, CHR 0x80, CHR 0xA9], [CHR 0xE2, CHR 0x80, CHR 0xAF],
     [CHR 0xE2, CHR 0x81, CHR 0x9F], [CHR 0xE3, CHR 0x80, CHR 0x80]]"

fun is_prefix :: "string \<Rightarrow> string \<Rightarrow> bool" where
  "is_prefix [] s = True"
| "is_prefix (x # xs) [] = False"
| "is_prefix (x # xs) (y # ys) = (x = y \<and> is_prefix xs ys)"

definition cut_any :: "string list \<Rightarrow> string \<Rightarrow> string option" where
  "cut_any ws s = map_option (\<lambda>w. drop (length w) s) (find (\<lambda>w. is_prefix w s) ws)"

lemma is_prefix_append: "is_prefix w s \<longleftrightarrow> (\<exists>t. s = w @ t)"
  by (induction w s rule: is_prefix.induct) auto

lemma cut_any_None: "cut_any ws s = None \<longleftrightarrow> (\<forall>w \<in> set ws. \<not> is_prefix w s)"
  by (auto simp: cut_any_def find_None_iff)

lemma cut_any_Some:
  "cut_any ws s = Some t \<Longrightarrow> \<exists>w \<in> set ws. s = w @ t"
  by (auto simp: cut_any_def find_Some_iff is_prefix_append)

text \<open>
  \<open>strip ws s\<close> removes leading members of \<open>ws\<close>, each not empty, while there is one.
\<close>

function strip :: "string list \<Rightarrow> string \<Rightarrow> string" where
  "strip ws s = (if [] \<in> set ws then s
     else case cut_any ws s of None \<Rightarrow> s | Some t \<Rightarrow> strip ws t)"
  by pat_completeness auto
termination
  by (relation "measure (length \<circ> snd)") (auto dest!: cut_any_Some)

declare strip.simps [simp del]

definition trim_left :: "string \<Rightarrow> string" where
  "trim_left s = strip space_runes s"

definition trim_right :: "string \<Rightarrow> string" where
  "trim_right s = rev (strip (map rev space_runes) (rev s))"

text \<open>\<open>strings.TrimSpace\<close>\<close>

definition trim_space :: "string \<Rightarrow> string" where
  "trim_space s = trim_right (trim_left s)"

lemma strip_done: "[] \<notin> set ws \<Longrightarrow> cut_any ws (strip ws s) = None"
proof (induction ws s rule: strip.induct)
  case (1 ws s)
  then show ?case
    by (cases "cut_any ws s") (auto simp: strip.simps [of ws s])
qed

lemma strip_stop: "cut_any ws s = None \<Longrightarrow> strip ws s = s"
  by (subst strip.simps) simp

lemma strip_suffix: "\<exists>p. s = p @ strip ws s"
proof (induction ws s rule: strip.induct)
  case (1 ws s)
  show ?case
  proof (cases "[] \<in> set ws \<or> cut_any ws s = None")
    case True
    then show ?thesis by (auto simp: strip.simps [of ws s])
  next
    case False
    then obtain t where t: "cut_any ws s = Some t" by auto
    with 1 False obtain p where "t = p @ strip ws t" by auto
    moreover from cut_any_Some [OF t] obtain w where "s = w @ t" by auto
    moreover have "strip ws s = strip ws t" using False t by (simp add: strip.simps [of ws s])
    ultimately show ?thesis by (intro exI [of _ "w @ p"]) simp
  qed
qed

lemma space_runes_nonempty [simp]: "[] \<notin> set space_runes" "[] \<notin> rev ` set space_runes"
  by (auto simp: space_runes_def)

lemma trim_space_idem [simp]: "trim_space (trim_space s) = trim_space s"
proof -
  define l where "l = trim_left s"
  define r where "r = trim_space s"
  have l: "cut_any space_runes l = None"
    unfolding l_def trim_left_def by (rule strip_done) simp
  have rr: "cut_any (map rev space_runes) (rev r) = None"
    unfolding r_def trim_space_def trim_right_def rev_rev_ident by (rule strip_done) simp
  obtain p where "rev l = p @ rev r"
    using strip_suffix [of "rev l" "map rev space_runes"]
    by (auto simp: r_def trim_space_def trim_right_def l_def)
  then have "l = r @ rev p" by (metis rev_append rev_rev_ident)
  with l have "cut_any space_runes r = None"
    by (auto simp: cut_any_None is_prefix_append)
  then have "trim_left r = r" by (simp add: trim_left_def strip_stop)
  moreover have "trim_right r = r" using rr by (simp add: trim_right_def strip_stop)
  ultimately have "trim_space r = r" by (simp add: trim_space_def)
  then show ?thesis by (simp only: r_def)
qed

lemma strip_Nil [simp]: "strip ws [] = []"
  using strip_suffix [of "[]" ws] by simp

lemma trim_space_Nil [simp]: "trim_space [] = []"
  by (simp add: trim_space_def trim_left_def trim_right_def)

text \<open>\<open>strings.ToLower\<close>: the ASCII fast path, else the Unicode tables.\<close>

definition to_lower :: "unicode \<Rightarrow> string \<Rightarrow> string" where
  "to_lower U s = (if list_all is_ascii s then map ascii_lower s else u_lower U s)"

text \<open>\<open>strings.EqualFold\<close>\<close>

definition equal_fold :: "unicode \<Rightarrow> string \<Rightarrow> string \<Rightarrow> bool" where
  "equal_fold U s t = (if list_all is_ascii s \<and> list_all is_ascii t
     then map ascii_lower s = map ascii_lower t else u_fold U s t)"

text \<open>\<open>strings.HasPrefix\<close> is \<open>is_prefix p s\<close>; \<open>strings.HasSuffix\<close>, \<open>TrimPrefix\<close> and
  \<open>TrimSuffix\<close>:\<close>

definition has_suffix :: "string \<Rightarrow> string \<Rightarrow> bool" where
  "has_suffix p s = is_prefix (rev p) (rev s)"

definition trim_prefix :: "string \<Rightarrow> string \<Rightarrow> string" where
  "trim_prefix p s = (if is_prefix p s then drop (length p) s else s)"

definition trim_suffix :: "string \<Rightarrow> string \<Rightarrow> string" where
  "trim_suffix p s = (if has_suffix p s then take (length s - length p) s else s)"

text \<open>\<open>strings.Split\<close> with a one-byte separator.\<close>

fun split_on :: "char \<Rightarrow> string \<Rightarrow> string list" where
  "split_on c [] = [[]]"
| "split_on c (x # xs) = (if x = c then [] # split_on c xs
     else case split_on c xs of [] \<Rightarrow> [[x]] | w # ws \<Rightarrow> (x # w) # ws)"

lemma split_on_nonempty [simp]: "split_on c s \<noteq> []"
  by (induction s) (auto split: list.splits)

lemma split_on_sep: "x \<in> set (split_on c s) \<Longrightarrow> c \<notin> set x"
  by (induction s arbitrary: x) (auto split: list.splits if_splits)

section \<open>strconv: decimal integers\<close>

fun digits_rev :: "nat \<Rightarrow> string" where
  "digits_rev n = (if n < 10 then [digit_char n] else digit_char (n mod 10) # digits_rev (n div 10))"

declare digits_rev.simps [simp del]

definition show_nat :: "nat \<Rightarrow> string" where
  "show_nat n = rev (digits_rev n)"

definition show_int :: "int \<Rightarrow> string" where
  "show_int z = (if z < 0 then CHR ''-'' # show_nat (nat (- z)) else show_nat (nat z))"

definition read_digits :: "string \<Rightarrow> nat" where
  "read_digits s = foldl (\<lambda>a c. 10 * a + digit_val c) 0 s"

lemma read_digits_snoc: "read_digits (s @ [c]) = 10 * read_digits s + digit_val c"
  by (simp add: read_digits_def)

lemma read_digits_rev: "read_digits (rev (digits_rev n)) = n"
proof (induction n rule: digits_rev.induct)
  case (1 n)
  then show ?case
    by (subst digits_rev.simps) (auto simp: read_digits_snoc read_digits_def)
qed

lemma digits_rev_props: "digits_rev n \<noteq> [] \<and> list_all is_digit (digits_rev n)"
proof (induction n rule: digits_rev.induct)
  case (1 n)
  then show ?case by (subst (1 2) digits_rev.simps) auto
qed

lemma read_show_nat [simp]: "read_digits (show_nat n) = n"
  by (simp add: show_nat_def read_digits_rev)

lemma show_nat_digits [simp]: "show_nat n \<noteq> []" "list_all is_digit (show_nat n)"
  using digits_rev_props [of n] by (auto simp: show_nat_def list_all_iff)

text \<open>
  \<open>strconv.Atoi\<close>: an optional sign and decimal digits, in the range of a 64-bit
  \<open>int\<close>; \<open>None\<close> is a non-nil error.
\<close>

definition atoi :: "string \<Rightarrow> int64 option" where
  "atoi s = (let neg = is_prefix ''-'' s; ds = (if neg \<or> is_prefix ''+'' s then tl s else s);
     n = read_digits ds
     in if ds = [] \<or> \<not> list_all is_digit ds then None
        else if neg then (if n \<le> 2 ^ 63 then Some (- of_nat n) else None)
        else if n < 2 ^ 63 then Some (of_nat n) else None)"

text \<open>\<open>strconv.Itoa\<close>\<close>

definition itoa :: "int64 \<Rightarrow> string" where
  "itoa i = show_int (sint i)"

lemma show_nat_no_sign:
  "\<not> is_prefix ''-'' (show_nat n)" "\<not> is_prefix ''+'' (show_nat n)"
  using show_nat_digits [of n]
  by (cases "show_nat n"; auto simp: is_digit_def ord_def)+

lemma atoi_show_nat: "n < 2 ^ 63 \<Longrightarrow> atoi (show_nat n) = Some (of_nat n)"
  by (simp add: atoi_def show_nat_no_sign)

lemma atoi_itoa_nat:
  assumes "n < 2 ^ 63"
  shows "atoi (itoa (of_nat n)) = Some (of_nat n)"
proof -
  have "int n < 2 ^ 63" using assms by simp
  then have "sint (of_nat n :: int64) = int n"
    by (simp add: signed_of_nat signed_take_bit_int_eq_self)
  then show ?thesis using atoi_show_nat [OF assms] by (simp add: itoa_def show_int_def)
qed

end
