(* ===== verification/Go_ParseFloat.thy ===== *)
theory Go_ParseFloat imports Go_Strings begin

text \<open>
  \<open>strconv.ParseFloat(s, 64)\<close> as the statement importer uses it, and the \<open>%.2f\<close> verb
  of \<open>fmt\<close>. \<open>None\<close> is a non-nil error: a syntax error, or a magnitude out of range.
  Accepted are decimal and hexadecimal literals with optional sign, point, exponent
  and digit-separating underscores, and the words for NaN and the infinities.
\<close>

section \<open>Special values\<close>

definition parse_special :: "string \<Rightarrow> f64 option" where
  "parse_special s =
    (let l = map ascii_lower s; neg = is_prefix ''-'' l;
         u = (if neg \<or> is_prefix ''+'' l then tl l else l)
     in if u = ''inf'' \<or> u = ''infinity'' then Some (Inf neg)
        else if l = ''nan'' then Some NaN else None)"

section \<open>Scanning\<close>

definition is_hex_letter :: "char \<Rightarrow> bool" where
  "is_hex_letter c \<longleftrightarrow> 97 \<le> ord (ascii_lower c) \<and> ord (ascii_lower c) \<le> 102"

definition hex_val :: "char \<Rightarrow> nat" where
  "hex_val c = (if is_digit c then digit_val c else ord (ascii_lower c) - 87)"

text \<open>
  The mantissa: \<open>(D, fd, saw digits, saw underscore, rest)\<close>, where \<open>D\<close> is the number
  all its digits form and \<open>fd\<close> how many of them follow the point.
\<close>

fun scan_mant :: "bool \<Rightarrow> bool \<Rightarrow> string \<Rightarrow> nat \<Rightarrow> nat \<Rightarrow> bool \<Rightarrow> bool \<Rightarrow>
    nat \<times> nat \<times> bool \<times> bool \<times> string" where
  "scan_mant hex dot [] D fd sd us = (D, fd, sd, us, [])"
| "scan_mant hex dot (c # cs) D fd sd us =
    (if c = CHR ''_'' then scan_mant hex dot cs D fd sd True
     else if c = CHR ''.'' then
       (if dot then (D, fd, sd, us, c # cs) else scan_mant hex True cs D fd sd us)
     else if is_digit c \<or> hex \<and> is_hex_letter c then
       scan_mant hex dot cs ((if hex then 16 else 10) * D + hex_val c) (if dot then Suc fd else fd) True us
     else (D, fd, sd, us, c # cs))"

fun scan_exp :: "string \<Rightarrow> nat \<Rightarrow> bool \<Rightarrow> nat \<times> bool \<times> string" where
  "scan_exp [] e us = (e, us, [])"
| "scan_exp (c # cs) e us =
    (if c = CHR ''_'' then scan_exp cs e True
     else if is_digit c then scan_exp cs (if e < 10000 then 10 * e + digit_val c else e) us
     else (e, us, c # cs))"

datatype seen = SeenStart | SeenDigit | SeenUnder | SeenOther

fun underscores_ok :: "bool \<Rightarrow> seen \<Rightarrow> string \<Rightarrow> bool" where
  "underscores_ok hex saw [] = (saw \<noteq> SeenUnder)"
| "underscores_ok hex saw (c # cs) =
    (if is_digit c \<or> hex \<and> is_hex_letter c then underscores_ok hex SeenDigit cs
     else if c = CHR ''_'' then saw = SeenDigit \<and> underscores_ok hex SeenUnder cs
     else saw \<noteq> SeenUnder \<and> underscores_ok hex SeenOther cs)"

definition unsign :: "string \<Rightarrow> string" where
  "unsign s = (if is_prefix ''-'' s \<or> is_prefix ''+'' s then tl s else s)"

definition underscore_ok :: "string \<Rightarrow> bool" where
  "underscore_ok s =
    (let u = unsign s; p = map ascii_lower (take 2 u)
     in if p = ''0b'' \<or> p = ''0o'' \<or> p = ''0x'' then underscores_ok (p = ''0x'') SeenDigit (drop 2 u)
        else underscores_ok False SeenStart u)"

section \<open>ParseFloat\<close>

definition in_range :: "f64 \<Rightarrow> f64 option" where
  "in_range f = (case f of Fin s m \<Rightarrow> Some f | _ \<Rightarrow> None)"

definition scale :: "bool \<Rightarrow> nat \<Rightarrow> nat \<Rightarrow> int \<Rightarrow> f64" where
  "scale neg b D e = (if 0 \<le> e then round_ratio neg (D * b ^ nat e * f64_one) 1
     else round_ratio neg (D * f64_one) (b ^ nat (- e)))"

text \<open>
  The exponent part after the mantissa: \<open>Some (e, saw underscore)\<close> when it is well
  formed and nothing follows it. A hexadecimal literal must have one.
\<close>

definition read_exp :: "bool \<Rightarrow> string \<Rightarrow> (int \<times> bool) option" where
  "read_exp hex s = (case s of
      [] \<Rightarrow> if hex then None else Some (0, False)
    | c # cs \<Rightarrow>
        if ascii_lower c \<noteq> (if hex then CHR ''p'' else CHR ''e'') then None
        else (let ds = unsign cs in
          if ds = [] \<or> \<not> is_digit (hd ds) then None
          else (case scan_exp ds 0 False of (e, us, rest) \<Rightarrow>
            if rest = [] then Some (if is_prefix ''-'' cs then - int e else int e, us) else None)))"

definition parse_float :: "string \<Rightarrow> f64 option" where
  "parse_float s = (case parse_special s of Some f \<Rightarrow> Some f | None \<Rightarrow>
    (let neg = is_prefix ''-'' s; u = unsign s;
         hex = (2 < length u \<and> map ascii_lower (take 2 u) = ''0x'')
     in case scan_mant hex False (if hex then drop 2 u else u) 0 0 False False of
       (D, fd, sd, us, rest) \<Rightarrow>
         if \<not> sd then None
         else (case read_exp hex rest of None \<Rightarrow> None
           | Some (e, us') \<Rightarrow>
             if (us \<or> us') \<and> \<not> underscore_ok s then None
             else in_range (if hex then scale neg 2 D (e - 4 * int fd)
                            else scale neg 10 D (e - int fd)))))"

lemma parse_special_cases: "parse_special s = Some f \<Longrightarrow> f = NaN \<or> (\<exists>b. f = Inf b)"
  by (auto simp: parse_special_def Let_def split: if_splits)

lemma in_range_finite: "in_range x = Some f \<Longrightarrow> is_finite f"
  by (auto simp: in_range_def split: f64.splits)

lemma parse_float_cases:
  "parse_float s = Some f \<Longrightarrow> parse_special s = Some f \<or> is_finite f"
  by (auto simp: parse_float_def Let_def dest: in_range_finite
      split: option.splits prod.splits if_splits)

text \<open>A string of decimal digits parses to the nearest float of the number.\<close>

lemma scan_mant_digits:
  "list_all is_digit s \<Longrightarrow>
    scan_mant False False s D 0 sd us = (foldl (\<lambda>a c. 10 * a + digit_val c) D s, 0, sd \<or> s \<noteq> [], us, [])"
proof (induction s arbitrary: D sd)
  case (Cons c s)
  then have "c \<noteq> CHR ''_''" "c \<noteq> CHR ''.''" by (auto simp: is_digit_def ord_def)
  with Cons show ?case by (simp add: hex_val_def)
qed simp

lemma parse_special_digits:
  assumes "s \<noteq> []" and "list_all is_digit s"
  shows "parse_special s = None" "unsign s = s" "\<not> is_prefix ''-'' s"
proof -
  obtain c cs where s: "s = c # cs" and c: "is_digit c" using assms by (cases s) auto
  then have "ascii_lower c = c" by (simp add: ascii_lower_def is_digit_def)
  then show "parse_special s = None" "unsign s = s" "\<not> is_prefix ''-'' s"
    using s c by (auto simp: parse_special_def unsign_def Let_def is_digit_def ord_def)
qed

lemma parse_float_nat:
  assumes "n < 2 ^ 53"
  shows "parse_float (show_nat n) = Some (f64_of_nat n)"
proof -
  have ds: "show_nat n \<noteq> []" "list_all is_digit (show_nat n)" by simp_all
  note sp = parse_special_digits [OF ds]
  have nothex: "map ascii_lower (take 2 (show_nat n)) \<noteq> ''0x''"
  proof
    assume h: "map ascii_lower (take 2 (show_nat n)) = ''0x''"
    then obtain a b cs where s: "show_nat n = a # b # cs"
      by (cases "show_nat n"; cases "tl (show_nat n)") auto
    with ds h have "is_digit b" "ascii_lower b = CHR ''x''" by auto
    then show False by (auto simp: ascii_lower_def is_digit_def ord_def split: if_splits)
  qed
  have "foldl (\<lambda>a c. 10 * a + digit_val c) 0 (show_nat n) = n"
    using read_show_nat [of n] unfolding read_digits_def .
  then show ?thesis
    using ds scan_mant_digits [OF ds(2), of 0 False False] f64_of_nat_exact [OF assms]
    by (simp add: parse_float_def sp nothex read_exp_def scale_def in_range_def f64_of_nat_def
        round_units_def)
qed

section \<open>The verb \<open>%.2f\<close>\<close>

definition show_fixed2 :: "f64 \<Rightarrow> string" where
  "show_fixed2 f = (case f of
      NaN \<Rightarrow> ''NaN''
    | Inf s \<Rightarrow> if s then ''-Inf'' else ''+Inf''
    | Fin s m \<Rightarrow> let c = rne (m * 100) f64_one in
        (if s then ''-'' else '''') @ show_nat (c div 100) @ ''.'' @
        [digit_char (c mod 100 div 10), digit_char (c mod 10)])"

lemma show_fixed2_nat:
  assumes "n < 2 ^ 53"
  shows "show_fixed2 (f64_of_nat n) = show_nat n @ ''.00''"
proof -
  have "n * f64_one * 100 = (n * 100) * f64_one" by simp
  then have "rne (n * f64_one * 100) f64_one = n * 100"
    by (simp only: rne_mult f64_one_def zero_less_power zero_less_numeral)
  then show ?thesis
    by (simp add: show_fixed2_def f64_of_nat_exact [OF assms] digit_char_0)
qed

end
