(* ===== verification/Go_Time.thy ===== *)
theory Go_Time imports Go_Strings begin

text \<open>
  Go's \<open>time.Time\<close> as the services use it: an instant (seconds since the Unix epoch and
  nanoseconds) and the offset of its location, the proleptic Gregorian calendar that
  \<open>time.Date\<close> and the field accessors compute with, and \<open>time.Parse\<close> / \<open>Format\<close> for the
  layouts in the source. Days are counted from 1970-01-01.
\<close>

record gotime =
  t_sec :: int
  t_nsec :: int
  t_off :: int

definition time_before :: "gotime \<Rightarrow> gotime \<Rightarrow> bool" where
  "time_before a b \<longleftrightarrow> t_sec a < t_sec b \<or> (t_sec a = t_sec b \<and> t_nsec a < t_nsec b)"

definition time_after :: "gotime \<Rightarrow> gotime \<Rightarrow> bool" where
  "time_after a b \<longleftrightarrow> time_before b a"

definition time_equal :: "gotime \<Rightarrow> gotime \<Rightarrow> bool" where
  "time_equal a b \<longleftrightarrow> t_sec a = t_sec b \<and> t_nsec a = t_nsec b"

text \<open>The zero \<open>Time\<close> is 0001-01-01T00:00:00Z.\<close>

definition zero_time :: gotime where
  "zero_time = \<lparr>t_sec = -62135596800, t_nsec = 0, t_off = 0\<rparr>"

definition is_zero_time :: "gotime \<Rightarrow> bool" where
  "is_zero_time t \<longleftrightarrow> time_equal t zero_time"

definition utc :: "gotime \<Rightarrow> gotime" where
  "utc t = t\<lparr>t_off := 0\<rparr>"

section \<open>The calendar\<close>

text \<open>Months run from March here, so that the leap day ends the year.\<close>

definition days_from_civil :: "int \<Rightarrow> int \<Rightarrow> int \<Rightarrow> int" where
  "days_from_civil y m d =
    (let y' = (if m \<le> 2 then y - 1 else y); era = y' div 400; yoe = y' mod 400;
         mp = (m + 9) mod 12; doy = (153 * mp + 2) div 5 + d - 1;
         doe = 365 * yoe + yoe div 4 - yoe div 100 + doy
     in 146097 * era + doe - 719468)"

text \<open>The year of a day in a 400-year era: the century, the 4-year cycle, the year.\<close>

definition year_of_era :: "int \<Rightarrow> int \<times> int" where
  "year_of_era doe =
    (let c = min 3 (doe div 36524); r = doe - 36524 * c;
         q = r div 1461; r' = r - 1461 * q; k = min 3 (r' div 365)
     in (100 * c + 4 * q + k, r' - 365 * k))"

definition civil_from_days :: "int \<Rightarrow> int \<times> int \<times> int" where
  "civil_from_days z =
    (let era = (z + 719468) div 146097; doe = (z + 719468) mod 146097;
         (yoe, doy) = year_of_era doe; mp = (5 * doy + 2) div 153;
         d = doy - (153 * mp + 2) div 5 + 1; m = (if mp < 10 then mp + 3 else mp - 9)
     in (yoe + 400 * era + (if m \<le> 2 then 1 else 0), m, d))"

definition is_leap :: "int \<Rightarrow> bool" where
  "is_leap y \<longleftrightarrow> y mod 4 = 0 \<and> (y mod 100 \<noteq> 0 \<or> y mod 400 = 0)"

definition days_in :: "int \<Rightarrow> int \<Rightarrow> int" where
  "days_in y m = (if m = 2 then (if is_leap y then 29 else 28)
     else if m \<in> {4, 6, 9, 11} then 30 else 31)"

lemma year_of_era_props:
  assumes "0 \<le> doe" and "doe < 146097" and "year_of_era doe = (yoe, doy)"
  shows "0 \<le> yoe" "yoe < 400" "0 \<le> doy" "doy \<le> 365"
    "365 * yoe + yoe div 4 - yoe div 100 + doy = doe"
proof -
  define c where "c = min 3 (doe div 36524)"
  define r where "r = doe - 36524 * c"
  define q where "q = r div 1461"
  define r' where "r' = r - 1461 * q"
  define k where "k = min 3 (r' div 365)"
  have eq: "yoe = 100 * c + 4 * q + k" "doy = r' - 365 * k"
    using assms(3) by (auto simp: year_of_era_def Let_def c_def r_def q_def r'_def k_def)
  have c: "0 \<le> c" "c \<le> 3" using assms by (auto simp: c_def)
  have r: "0 \<le> r" "r \<le> 36524" unfolding r_def c_def using assms by linarith+
  have q: "0 \<le> q" "q \<le> 24" unfolding q_def using r by linarith+
  have r': "0 \<le> r'" "r' \<le> 1460" unfolding r'_def q_def using r by linarith+
  have k: "0 \<le> k" "k \<le> 3" unfolding k_def using r' by linarith+
  show "0 \<le> doy" "doy \<le> 365" unfolding eq k_def using r' by linarith+
  show "0 \<le> yoe" "yoe < 400" using c q k eq by linarith+
  have "yoe div 4 = 25 * c + q" using k eq by linarith
  moreover have "yoe div 100 = c" using q k eq by linarith
  ultimately show "365 * yoe + yoe div 4 - yoe div 100 + doy = doe"
    using eq unfolding r'_def r_def by linarith
qed

lemma days_from_civil_day: "days_from_civil y m d = days_from_civil y m 1 + (d - 1)"
  by (simp add: days_from_civil_def Let_def)

text \<open>Every day number is the day of its civil date.\<close>

lemma days_civil [simp]:
  assumes "civil_from_days z = (y, m, d)"
  shows "days_from_civil y m d = z"
proof -
  define era where "era = (z + 719468) div 146097"
  define doe where "doe = (z + 719468) mod 146097"
  obtain yoe doy where yd: "year_of_era doe = (yoe, doy)" by (cases "year_of_era doe")
  have doe: "0 \<le> doe" "doe < 146097" by (simp_all add: doe_def)
  note p = year_of_era_props [OF doe yd]
  define mp where "mp = (5 * doy + 2) div 153"
  have mp: "0 \<le> mp" "mp \<le> 11" unfolding mp_def using p(3,4) by linarith+
  have md: "m = (if mp < 10 then mp + 3 else mp - 9)" "d = doy - (153 * mp + 2) div 5 + 1"
    "y = yoe + 400 * era + (if m \<le> 2 then 1 else 0)"
    using assms unfolding civil_from_days_def Let_def era_def [symmetric] doe_def [symmetric] yd
    by (auto simp: mp_def [symmetric])
  have m: "(m + 9) mod 12 = mp" using mp md(1) by (cases "mp < 10") auto
  have y: "(if m \<le> 2 then y - 1 else y) = yoe + 400 * era" using md(3) by auto
  have dm: "(yoe + 400 * era) div 400 = era" "(yoe + 400 * era) mod 400 = yoe" using p(1,2) by auto
  have "z + 719468 = 146097 * era + doe" by (simp add: era_def doe_def)
  then show ?thesis
    unfolding days_from_civil_def Let_def y dm m using p(5) md(2) by linarith
qed

lemma civil_bounds:
  assumes "civil_from_days z = (y, m, d)"
  shows "1 \<le> m" "m \<le> 12" "1 \<le> d" "d \<le> 31"
proof -
  define doe where "doe = (z + 719468) mod 146097"
  obtain yoe doy where yd: "year_of_era doe = (yoe, doy)" by (cases "year_of_era doe")
  have doe: "0 \<le> doe" "doe < 146097" by (simp_all add: doe_def)
  note p = year_of_era_props [OF doe yd]
  define mp where "mp = (5 * doy + 2) div 153"
  have mp: "0 \<le> mp" "mp \<le> 11" unfolding mp_def using p(3,4) by linarith+
  have md: "m = (if mp < 10 then mp + 3 else mp - 9)" "d = doy - (153 * mp + 2) div 5 + 1"
    using assms unfolding civil_from_days_def Let_def doe_def [symmetric] yd
    by (auto simp: mp_def [symmetric])
  show "1 \<le> m" "m \<le> 12" using mp md by auto
  show "1 \<le> d" "d \<le> 31" unfolding md mp_def by linarith+
qed

lemma year_of_era_leap:
  assumes "0 \<le> doe" and "doe < 146097" and "year_of_era doe = (yoe, doy)" and "doy = 365"
  shows "is_leap (yoe + 1 + 400 * era)"
proof -
  define c where "c = min 3 (doe div 36524)"
  define r where "r = doe - 36524 * c"
  define q where "q = r div 1461"
  define r' where "r' = r - 1461 * q"
  define k where "k = min 3 (r' div 365)"
  have eq: "yoe = 100 * c + 4 * q + k" "doy = r' - 365 * k"
    using assms(3) by (auto simp: year_of_era_def Let_def c_def r_def q_def r'_def k_def)
  have r: "0 \<le> r" "r \<le> 36524" unfolding r_def c_def using assms by linarith+
  have q: "0 \<le> q" "q \<le> 24" unfolding q_def using r by linarith+
  have r': "0 \<le> r'" "r' \<le> 1460" unfolding r'_def q_def using r by linarith+
  have k: "k = 3" "r' = 1460" using r' assms(4) eq(2) unfolding k_def by linarith+
  have y4: "yoe + 1 + 400 * era = 4 * (25 * c + q + 1 + 100 * era)" using eq k by simp
  show ?thesis
  proof (cases "q = 24")
    case True
    with k have "r = 36524" by (simp add: r'_def)
    then have "c = 3" unfolding r_def c_def using assms(1,2) by linarith
    with True eq k have "yoe + 1 + 400 * era = 400 * (era + 1)" by simp
    then show ?thesis by (simp add: is_leap_def mod_mult_eq)
  next
    case False
    have "yoe + 1 + 400 * era = 4 * q + 4 + 100 * (c + 4 * era)" using eq k by simp
    then have "(yoe + 1 + 400 * era) mod 100 = (4 * q + 4) mod 100" by (simp only: mod_mult_self2)
    moreover have "(4 * q + 4) mod 100 = 4 * q + 4" using q False by (intro mod_pos_pos_trivial) auto
    ultimately have "(yoe + 1 + 400 * era) mod 100 \<noteq> 0" using q by linarith
    moreover have "(yoe + 1 + 400 * era) mod 4 = 0" unfolding y4 by simp
    ultimately show ?thesis by (simp add: is_leap_def)
  qed
qed

lemma month_lengths:
  assumes "0 \<le> (doy::int)" "doy \<le> 365" and mp: "mp = (5 * doy + 2) div 153"
    and d: "d = doy - (153 * mp + 2) div 5 + 1" and m: "m = (if mp < 10 then mp + 3 else mp - 9)"
    and leap: "doy = 365 \<Longrightarrow> m = 2 \<Longrightarrow> is_leap y"
  shows "1 \<le> d \<and> d \<le> days_in y m"
proof -
  have "0 \<le> mp" "mp \<le> 11" unfolding mp using assms(1,2) by linarith+
  then have "mp = 0 \<or> mp = 1 \<or> mp = 2 \<or> mp = 3 \<or> mp = 4 \<or> mp = 5 \<or> mp = 6 \<or> mp = 7 \<or>
    mp = 8 \<or> mp = 9 \<or> mp = 10 \<or> mp = 11" by presburger
  then consider "mp = 0" | "mp = 1" | "mp = 2" | "mp = 3" | "mp = 4" | "mp = 5" | "mp = 6"
    | "mp = 7" | "mp = 8" | "mp = 9" | "mp = 10" | "mp = 11" by blast
  then show ?thesis
  proof cases
    case 12
    with m have "m = 2" by simp
    then show ?thesis using 12 leap assms(1,2) d mp
      by (cases "doy = 365") (simp_all add: days_in_def)
  qed (use mp d m in \<open>auto simp: days_in_def\<close>)
qed

definition valid_ymd :: "int \<Rightarrow> int \<Rightarrow> int \<Rightarrow> bool" where
  "valid_ymd y m d \<longleftrightarrow> 1 \<le> m \<and> m \<le> 12 \<and> 1 \<le> d \<and> d \<le> days_in y m"

lemma civil_valid:
  assumes "civil_from_days z = (y, m, d)"
  shows "valid_ymd y m d"
proof -
  define era where "era = (z + 719468) div 146097"
  define doe where "doe = (z + 719468) mod 146097"
  obtain yoe doy where yd: "year_of_era doe = (yoe, doy)" by (cases "year_of_era doe")
  have doe: "0 \<le> doe" "doe < 146097" by (simp_all add: doe_def)
  note p = year_of_era_props [OF doe yd]
  define mp where "mp = (5 * doy + 2) div 153"
  have md: "m = (if mp < 10 then mp + 3 else mp - 9)" "d = doy - (153 * mp + 2) div 5 + 1"
    "y = yoe + 400 * era + (if m \<le> 2 then 1 else 0)"
    using assms unfolding civil_from_days_def Let_def era_def [symmetric] doe_def [symmetric] yd
    by (auto simp: mp_def [symmetric])
  have "is_leap y" if "doy = 365" "m = 2"
    using year_of_era_leap [OF doe yd that(1), of era] md(3) that(2) by (simp add: ac_simps)
  from month_lengths [OF p(3,4) mp_def md(2,1) this] show ?thesis
    using civil_bounds [OF assms] by (simp add: valid_ymd_def)
qed

text \<open>Valid dates are ordered as their day numbers are, so the civil date of a day is unique.\<close>

definition year_start :: "int \<Rightarrow> int" where
  "year_start y = 365 * y + y div 4 - y div 100 + y div 400"

lemma days_from_civil_alt:
  "days_from_civil y m d = year_start (if m \<le> 2 then y - 1 else y) +
    (153 * ((m + 9) mod 12) + 2) div 5 + d - 1 - 719468"
proof -
  define Y where "Y = (if m \<le> 2 then y - 1 else y)"
  define e where "e = Y div 400"
  define r where "r = Y mod 400"
  have Y: "Y = 400 * e + r" by (simp add: e_def r_def)
  have "Y div 4 = 100 * e + r div 4" "Y div 100 = 4 * e + r div 100" unfolding Y by simp_all
  then have "year_start Y = 146097 * e + 365 * r + r div 4 - r div 100"
    unfolding year_start_def e_def [symmetric] using Y by linarith
  then show ?thesis
    unfolding days_from_civil_def Let_def Y_def [symmetric] e_def [symmetric] r_def [symmetric] by simp
qed

lemma div_step:
  assumes "0 < (k::int)"
  shows "(y + 1) div k = y div k + (if (y + 1) mod k = 0 then 1 else 0)"
proof -
  have y: "y + 1 = (y mod k + 1) + k * (y div k)" by simp
  have b: "0 \<le> y mod k" "y mod k < k" using assms by auto
  show ?thesis
  proof (cases "y mod k + 1 = k")
    case True
    with y have "y + 1 = k * (y div k + 1)" by (simp add: distrib_left)
    then have "(y + 1) div k = y div k + 1" "(y + 1) mod k = 0" using assms by simp_all
    then show ?thesis by simp
  next
    case False
    with b have s: "0 \<le> y mod k + 1" "y mod k + 1 < k" by auto
    have "(y + 1) div k = y div k"
      using s assms by (subst y, subst div_mult_self2) auto
    moreover have "(y + 1) mod k = y mod k + 1"
      using s assms by (subst y, subst mod_mult_self2) auto
    ultimately show ?thesis using b by simp
  qed
qed

lemma leap_days_step:
  "(h \<longrightarrow> c) \<Longrightarrow> (c \<longrightarrow> f) \<Longrightarrow>
    365 * (y + 1) + (a + (if f then 1 else 0)) - (b + (if c then 1 else 0)) + (e + (if h then 1 else 0)) =
    365 * y + a - b + e + 365 + (if f \<and> (\<not> c \<or> h) then 1 else (0::int))"
  by (cases f; cases c; cases h; simp)

lemma year_start_Suc: "year_start (y + 1) = year_start y + 365 + (if is_leap (y + 1) then 1 else 0)"
proof -
  have f: "(y + 1) mod 100 = 0 \<longrightarrow> (y + 1) mod 4 = 0" and h: "(y + 1) mod 400 = 0 \<longrightarrow> (y + 1) mod 100 = 0"
    unfolding mod_eq_0_iff_dvd by (auto intro: dvd_trans [of 4 100] dvd_trans [of 100 400])
  have s: "(y + 1) div 4 = y div 4 + (if (y + 1) mod 4 = 0 then 1 else 0)"
    "(y + 1) div 100 = y div 100 + (if (y + 1) mod 100 = 0 then 1 else 0)"
    "(y + 1) div 400 = y div 400 + (if (y + 1) mod 400 = 0 then 1 else 0)"
    by (rule div_step, simp)+
  show ?thesis
    unfolding year_start_def is_leap_def s by (rule leap_days_step [OF h f])
qed

lemma year_start_mono: "y \<le> y' \<Longrightarrow> year_start y \<le> year_start y'"
  by (induction y' rule: int_ge_induct) (auto simp: year_start_Suc)

text \<open>The day of the March-based year, and its length.\<close>

definition march_year :: "int \<Rightarrow> int \<Rightarrow> int" where
  "march_year y m = (if m \<le> 2 then y - 1 else y)"

definition march_doy :: "int \<Rightarrow> int \<Rightarrow> int" where
  "march_doy m d = (153 * ((m + 9) mod 12) + 2) div 5 + d - 1"

lemma months12: "1 \<le> (m::int) \<Longrightarrow> m \<le> 12 \<Longrightarrow> m = 1 \<or> m = 2 \<or> m = 3 \<or> m = 4 \<or>
    m = 5 \<or> m = 6 \<or> m = 7 \<or> m = 8 \<or> m = 9 \<or> m = 10 \<or> m = 11 \<or> m = 12"
  by presburger

text \<open>The first day of each month in the year that starts in March.\<close>

lemma march_doy_table:
  "march_doy 1 d = 305 + d" "march_doy 2 d = 336 + d" "march_doy 3 d = d - 1" "march_doy 4 d = 30 + d"
  "march_doy 5 d = 60 + d" "march_doy 6 d = 91 + d" "march_doy 7 d = 121 + d" "march_doy 8 d = 152 + d"
  "march_doy 9 d = 183 + d" "march_doy 10 d = 213 + d" "march_doy 11 d = 244 + d" "march_doy 12 d = 274 + d"
  by (simp_all add: march_doy_def)


lemma march_doy_bounds:
  assumes "valid_ymd y m d"
  shows "0 \<le> march_doy m d" "march_doy m d \<le> (if is_leap (march_year y m + 1) then 365 else 364)"
proof -
  have m: "1 \<le> m" "m \<le> 12" and d: "1 \<le> d" "d \<le> days_in y m" using assms by (auto simp: valid_ymd_def)
  from months12 [OF m] d show "0 \<le> march_doy m d"
    by (elim disjE) (simp_all add: march_doy_table)
  from months12 [OF m] d show "march_doy m d \<le> (if is_leap (march_year y m + 1) then 365 else 364)"
    by (elim disjE) (auto simp: march_doy_table march_year_def days_in_def split: if_splits)
qed

lemma march_doy_inj:
  assumes "valid_ymd y m d" and "valid_ymd y' m' d'"
    and "march_year y m = march_year y' m'" and "march_doy m d = march_doy m' d'"
  shows "y = y' \<and> m = m' \<and> d = d'"
proof -
  have b: "1 \<le> d" "d \<le> 31" "1 \<le> d'" "d' \<le> 31" "1 \<le> m" "m \<le> 12" "1 \<le> m'" "m' \<le> 12"
    "d \<le> days_in 4 m" "d' \<le> days_in 4 m'"
    using assms(1,2) by (auto simp: valid_ymd_def days_in_def is_leap_def split: if_splits)
  have "m = m' \<and> d = d'"
    using months12 [OF b(5,6)] months12 [OF b(7,8)] b(1-4,9,10) assms(4)
    by (elim disjE; simp add: march_doy_table days_in_def)
  with assms(3) show ?thesis by (auto simp: march_year_def split: if_splits)
qed

lemma days_from_civil_march:
  "days_from_civil y m d = year_start (march_year y m) + march_doy m d - 719468"
  by (simp add: days_from_civil_alt march_year_def march_doy_def)

lemma days_from_civil_inj:
  assumes "valid_ymd y m d" and "valid_ymd y' m' d'" and "days_from_civil y m d = days_from_civil y' m' d'"
  shows "y = y' \<and> m = m' \<and> d = d'"
proof -
  have less: "days_from_civil a b c < days_from_civil a' b' c'"
    if v: "valid_ymd a b c" "valid_ymd a' b' c'" and lt: "march_year a b < march_year a' b'" for a b c a' b' c'
  proof -
    have "year_start (march_year a b + 1) \<le> year_start (march_year a' b')"
      using lt by (intro year_start_mono) simp
    then show ?thesis
      using march_doy_bounds [OF v(1)] march_doy_bounds [OF v(2)]
      by (auto simp: days_from_civil_march year_start_Suc split: if_splits)
  qed
  have "march_year y m = march_year y' m'"
    using less [OF assms(1,2)] less [OF assms(2,1)] assms(3) by linarith
  then show ?thesis
    using assms by (intro march_doy_inj) (auto simp: days_from_civil_march)
qed

lemma civil_days:
  assumes "valid_ymd y m d"
  shows "civil_from_days (days_from_civil y m d) = (y, m, d)"
proof -
  obtain y' m' d' where c: "civil_from_days (days_from_civil y m d) = (y', m', d')"
    by (cases "civil_from_days (days_from_civil y m d)")
  have "y' = y \<and> m' = m \<and> d' = d"
    by (rule days_from_civil_inj [OF civil_valid [OF c] assms days_civil [OF c]])
  with c show ?thesis by blast
qed

text \<open>The weekday, Sunday = 0; 1970-01-01 was a Thursday.\<close>

definition weekday_of :: "int \<Rightarrow> int" where
  "weekday_of z = (z + 4) mod 7"

definition local_days :: "gotime \<Rightarrow> int" where
  "local_days t = (t_sec t + t_off t) div 86400"

definition time_date :: "gotime \<Rightarrow> int \<times> int \<times> int" where
  "time_date t = civil_from_days (local_days t)"

definition time_weekday :: "gotime \<Rightarrow> int" where
  "time_weekday t = weekday_of (local_days t)"

text \<open>\<open>time.Date(y, m, d, h, mi, s, ns, loc)\<close> for a location of fixed offset.\<close>

definition go_date :: "int \<Rightarrow> int \<Rightarrow> int \<Rightarrow> int \<Rightarrow> int \<Rightarrow> int \<Rightarrow> int \<Rightarrow> int \<Rightarrow> gotime" where
  "go_date y m d h mi s ns off =
    \<lparr>t_sec = days_from_civil y m d * 86400 + h * 3600 + mi * 60 + s - off, t_nsec = ns, t_off = off\<rparr>"

text \<open>\<open>Time.AddDate(0, 0, days)\<close>\<close>

definition add_days :: "gotime \<Rightarrow> int \<Rightarrow> gotime" where
  "add_days t n = t\<lparr>t_sec := t_sec t + 86400 * n\<rparr>"

section \<open>Parsing\<close>

definition getnum :: "bool \<Rightarrow> string \<Rightarrow> (int \<times> string) option" where
  "getnum fixed s = (case s of
      [] \<Rightarrow> None
    | a # s' \<Rightarrow> if \<not> is_digit a then None else
        (case s' of
           b # r \<Rightarrow> if is_digit b then Some (int (10 * digit_val a + digit_val b), r)
                    else if fixed then None else Some (int (digit_val a), b # r)
         | [] \<Rightarrow> if fixed then None else Some (int (digit_val a), [])))"

definition getyear :: "string \<Rightarrow> (int \<times> string) option" where
  "getyear s = (if 4 \<le> length s \<and> list_all is_digit (take 4 s)
     then Some (int (read_digits (take 4 s)), drop 4 s) else None)"

fun expect :: "char \<Rightarrow> string \<Rightarrow> string option" where
  "expect c [] = None"
| "expect c (x # xs) = (if x = c then Some xs else None)"

text \<open>The date part \<open>2006-01-02\<close>, and what follows it.\<close>

definition scan_ymd :: "string \<Rightarrow> ((int \<times> int \<times> int) \<times> string) option" where
  "scan_ymd s =
    Option.bind (getyear s) (\<lambda>(y, s1).
    Option.bind (expect CHR ''-'' s1) (\<lambda>s2.
    Option.bind (getnum True s2) (\<lambda>(m, s3).
    Option.bind (expect CHR ''-'' s3) (\<lambda>s4.
    Option.bind (getnum True s4) (\<lambda>(d, s5).
      if valid_ymd y m d then Some ((y, m, d), s5) else None)))))"

text \<open>Layout \<open>2006-01-02\<close>\<close>

definition parse_ymd :: "string \<Rightarrow> gotime option" where
  "parse_ymd s = Option.bind (scan_ymd s) (\<lambda>((y, m, d), r).
     if r = [] then Some (go_date y m d 0 0 0 0 0) else None)"

text \<open>Layouts \<open>01/02/2006\<close> (\<open>fixed\<close>) and \<open>1/2/2006\<close>\<close>

definition parse_mdy :: "bool \<Rightarrow> string \<Rightarrow> gotime option" where
  "parse_mdy fixed s =
    Option.bind (getnum fixed s) (\<lambda>(m, s1).
    Option.bind (expect CHR ''/'' s1) (\<lambda>s2.
    Option.bind (getnum fixed s2) (\<lambda>(d, s3).
    Option.bind (expect CHR ''/'' s3) (\<lambda>s4.
    Option.bind (getyear s4) (\<lambda>(y, s5).
      if s5 = [] \<and> valid_ymd y m d then Some (go_date y m d 0 0 0 0 0) else None)))))"

text \<open>A fraction of a second is accepted after the seconds although no layout names it.\<close>

definition scan_frac :: "string \<Rightarrow> int \<times> string" where
  "scan_frac s = (case s of
      c # d # r \<Rightarrow>
        if (c = CHR ''.'' \<or> c = CHR '','') \<and> is_digit d then
          (let ds = takeWhile is_digit (d # r); k = take 9 ds
           in (int (read_digits k * 10 ^ (9 - length k)), dropWhile is_digit (d # r)))
        else (0, s)
    | _ \<Rightarrow> (0, s))"

text \<open>The zone of RFC 3339: \<open>Z\<close>, or a sign and hours and minutes; its offset in seconds.\<close>

definition parse_zone :: "string \<Rightarrow> int option" where
  "parse_zone s = (if s = ''Z'' then Some 0
     else if length s = 6 \<and> s ! 3 = CHR '':'' then
       Option.bind (getnum True (take 2 (drop 1 s))) (\<lambda>(h, _).
       Option.bind (getnum True (drop 4 s)) (\<lambda>(m, _).
         if 24 < h \<or> 60 < m then None
         else if s ! 0 = CHR ''+'' then Some (h * 3600 + m * 60)
         else if s ! 0 = CHR ''-'' then Some (- (h * 3600 + m * 60)) else None))
     else None)"

text \<open>Layout \<open>time.RFC3339\<close>\<close>

definition parse_rfc3339 :: "string \<Rightarrow> gotime option" where
  "parse_rfc3339 s =
    Option.bind (scan_ymd s) (\<lambda>((y, mo, d), s1).
    Option.bind (expect CHR ''T'' s1) (\<lambda>s2.
    Option.bind (getnum False s2) (\<lambda>(h, s3).
    Option.bind (expect CHR '':'' s3) (\<lambda>s4.
    Option.bind (getnum True s4) (\<lambda>(mi, s5).
    Option.bind (expect CHR '':'' s5) (\<lambda>s6.
    Option.bind (getnum True s6) (\<lambda>(sec, s7).
      (case scan_frac s7 of (ns, s8) \<Rightarrow>
      Option.bind (parse_zone s8) (\<lambda>off.
        if h < 24 \<and> mi < 60 \<and> sec < 60
        then Some (go_date y mo d h mi sec ns off) else None)))))))))"

section \<open>Formatting\<close>

definition pad :: "nat \<Rightarrow> nat \<Rightarrow> string" where
  "pad w n = replicate (w - length (show_nat n)) CHR ''0'' @ show_nat n"

text \<open>\<open>t.Format(time.RFC3339)\<close>\<close>

definition format_zone :: "int \<Rightarrow> string" where
  "format_zone off = (if off = 0 then ''Z'' else
     let z = nat (\<bar>off\<bar> div 60)
     in (if off \<le> -60 then CHR ''-'' else CHR ''+'') # pad 2 (z div 60) @ '':'' @ pad 2 (z mod 60))"

definition format_rfc3339 :: "gotime \<Rightarrow> string" where
  "format_rfc3339 t = (case time_date t of (y, m, d) \<Rightarrow>
     let s = nat ((t_sec t + t_off t) mod 86400)
     in (if y < 0 then ''-'' else '''') @ pad 4 (nat \<bar>y\<bar>) @ ''-'' @ pad 2 (nat m) @ ''-'' @ pad 2 (nat d) @
        ''T'' @ pad 2 (s div 3600) @ '':'' @ pad 2 (s div 60 mod 60) @ '':'' @ pad 2 (s mod 60) @
        format_zone (t_off t))"

section \<open>Round trips\<close>

lemma show_nat_1: "n < 10 \<Longrightarrow> show_nat n = [digit_char n]"
  by (simp add: show_nat_def digits_rev.simps)

lemma show_nat_snoc: "10 \<le> n \<Longrightarrow> show_nat n = show_nat (n div 10) @ [digit_char (n mod 10)]"
  by (simp add: show_nat_def digits_rev.simps [of n])

lemma pad_2: "n < 100 \<Longrightarrow> pad 2 n = [digit_char (n div 10), digit_char (n mod 10)]"
  by (cases "n < 10") (simp_all add: pad_def show_nat_1 show_nat_snoc digit_char_0)

lemma pad_4:
  assumes "n < 10000"
  shows "pad 4 n = [digit_char (n div 1000), digit_char (n div 100 mod 10),
    digit_char (n div 10 mod 10), digit_char (n mod 10)]"
proof -
  have d: "n div 10 div 10 = n div 100" "n div 10 div 10 div 10 = n div 1000" by (simp_all flip: div_mult2_eq)
  consider "n < 10" | "10 \<le> n" "n < 100" | "100 \<le> n" "n < 1000" | "1000 \<le> n" by linarith
  then show ?thesis
  proof cases
    case 1
    then show ?thesis by (simp add: pad_def show_nat_1 digit_char_0 numeral_3_eq_3)
  next
    case 2
    then have "n div 10 < 10" "n div 100 = 0" "n div 1000 = 0" by auto
    with 2 show ?thesis by (simp add: pad_def show_nat_snoc [of n] show_nat_1 digit_char_0 numeral_2_eq_2)
  next
    case 3
    then have "n div 100 < 10" "n div 1000 = 0" "10 \<le> n div 10" by auto
    with 3 show ?thesis
      by (simp add: pad_def show_nat_snoc [of n] show_nat_snoc [of "n div 10"] d show_nat_1 digit_char_0)
  next
    case 4
    then have "n div 1000 < 10" "10 \<le> n div 100" "10 \<le> n div 10" using assms by auto
    with 4 show ?thesis
      by (simp add: pad_def show_nat_snoc [of n] show_nat_snoc [of "n div 10"] d show_nat_snoc [of "n div 100"]
          show_nat_1 flip: div_mult2_eq)
  qed
qed

lemma getnum_pad [simp]: "n < 100 \<Longrightarrow> getnum f (pad 2 n @ s) = Some (int n, s)"
  by (simp add: pad_2 getnum_def)

lemma getyear_digits:
  "a < 10 \<Longrightarrow> b < 10 \<Longrightarrow> c < 10 \<Longrightarrow> d < 10 \<Longrightarrow>
    getyear ([digit_char a, digit_char b, digit_char c, digit_char d] @ s) =
      Some (int (10 * (10 * (10 * a + b) + c) + d), s)"
  by (simp add: getyear_def read_digits_def numeral_eq_Suc)

lemma digits4_sum:
  "a * 10 + b = n \<Longrightarrow> c * 10 + d = a \<Longrightarrow> e * 10 + f = c \<Longrightarrow>
    10 * (10 * (10 * e + f) + d) + b = (n::nat)"
  by (simp add: algebra_simps)

lemma getyear_pad [simp]:
  assumes "n < 10000"
  shows "getyear (pad 4 n @ s) = Some (int n, s)"
proof -
  have "10 * (10 * (10 * (n div 1000) + n div 100 mod 10) + n div 10 mod 10) + n mod 10 = n"
  proof -
    have q: "n div 100 = n div 10 div 10" "n div 1000 = n div 10 div 10 div 10"
      by (simp_all flip: div_mult2_eq)
    show ?thesis unfolding q by (rule digits4_sum) (rule div_mult_mod_eq)+
  qed
  moreover have "n div 1000 < 10" using assms by auto
  ultimately show ?thesis
    unfolding pad_4 [OF assms] by (subst getyear_digits) auto
qed

lemma scan_ymd_pad:
  assumes "0 \<le> y" "y < 10000" "valid_ymd y m d"
  shows "scan_ymd (pad 4 (nat y) @ ''-'' @ pad 2 (nat m) @ ''-'' @ pad 2 (nat d) @ s) = Some ((y, m, d), s)"
proof -
  have "nat y < 10000" "nat m < 100" "nat d < 100"
    using assms by (auto simp: valid_ymd_def days_in_def split: if_splits)
  with assms show ?thesis by (auto simp: scan_ymd_def valid_ymd_def)
qed

lemma parse_zone_digits:
  assumes "h \<le> 24" and "m < 60"
  shows "parse_zone ((if neg then CHR ''-'' else CHR ''+'') # pad 2 h @ '':'' @ pad 2 m) =
    Some (if neg then - (int h * 3600 + int m * 60) else int h * 3600 + int m * 60)"
proof -
  have b: "h < 100" "m < 100" using assms by auto
  have g: "getnum True (pad 2 h) = Some (int h, [])" "getnum True (pad 2 m) = Some (int m, [])"
    using getnum_pad [OF b(1), of True "[]"] getnum_pad [OF b(2), of True "[]"] by auto
  have l: "length (pad 2 h) = 2" "length (pad 2 m) = 2" using b by (simp_all add: pad_2)
  have parts: "length (c # pad 2 h @ '':'' @ pad 2 m) = 6" "(c # pad 2 h @ '':'' @ pad 2 m) ! 3 = CHR '':''"
    "take 2 (drop 1 (c # pad 2 h @ '':'' @ pad 2 m)) = pad 2 h"
    "drop 4 (c # pad 2 h @ '':'' @ pad 2 m) = pad 2 m" for c
    using l by (simp_all add: nth_append)
  have "\<not> (24 < int h \<or> 60 < int m)" using assms by simp
  then show ?thesis unfolding parse_zone_def parts by (auto simp: g)
qed

lemma parse_zone_format:
  assumes "off mod 60 = 0" and "\<bar>off\<bar> < 90000"
  shows "parse_zone (format_zone off) = Some off"
proof (cases "off = 0")
  case False
  have "60 dvd \<bar>off\<bar>" using assms(1) by (simp add: mod_0_imp_dvd)
  then obtain q where q: "\<bar>off\<bar> = 60 * q" by (elim dvdE)
  then have "0 \<le> q" by linarith
  then obtain k where k: "\<bar>off\<bar> = 60 * int k" using q by (metis nonneg_int_cases)
  then have z: "nat (\<bar>off\<bar> div 60) = k" and lt: "k div 60 \<le> 24" using assms(2) by auto
  have neg: "off \<le> -60 \<longleftrightarrow> off < 0" using q by presburger
  have "int (k div 60) * 3600 + int (k mod 60) * 60 = int (k div 60 * 60 + k mod 60) * 60"
    by (simp only: of_nat_add of_nat_mult algebra_simps of_nat_numeral)
  also have "\<dots> = \<bar>off\<bar>" using k by (simp only: div_mult_mod_eq)
  finally have sum: "int (k div 60) * 3600 + int (k mod 60) * 60 = \<bar>off\<bar>" .
  have "format_zone off = (if off < 0 then CHR ''-'' else CHR ''+'') # pad 2 (k div 60) @ '':'' @ pad 2 (k mod 60)"
    using False by (simp add: format_zone_def Let_def z neg)
  then show ?thesis
    using parse_zone_digits [OF lt, of "k mod 60" "off < 0"] sum by (simp only: mod_less_divisor zero_less_numeral) auto
qed (simp add: format_zone_def parse_zone_def)

lemma hms_sum: "q = h * 60 + m \<Longrightarrow> s = q * 60 + r \<Longrightarrow> h * 3600 + m * 60 + r = (s::nat)"
  by simp

lemma hms_split: "(s::nat) = s div 3600 * 3600 + s div 60 mod 60 * 60 + s mod 60"
proof -
  have "s div 60 div 60 = s div 3600" by (simp flip: div_mult2_eq)
  then have "s div 60 = s div 3600 * 60 + s div 60 mod 60" by (metis div_mult_mod_eq)
  moreover have "s = s div 60 * 60 + s mod 60" by (simp only: div_mult_mod_eq)
  ultimately show ?thesis by (rule hms_sum [symmetric])
qed

text \<open>
  A time that is formatted and parsed again is the same instant in the same zone,
  to the second; the nanoseconds are lost. The year must have four digits and the
  offset must be whole minutes, as the layout prints nothing else.
\<close>

lemma parse_format_rfc3339:
  assumes year: "0 \<le> fst (time_date t)" "fst (time_date t) < 10000"
    and off: "t_off t mod 60 = 0" "\<bar>t_off t\<bar> < 90000"
  shows "parse_rfc3339 (format_rfc3339 t) = Some (t\<lparr>t_nsec := 0\<rparr>)"
proof -
  obtain y m d where ymd: "time_date t = (y, m, d)" by (cases "time_date t")
  define L where "L = t_sec t + t_off t"
  define s where "s = nat (L mod 86400)"
  have y: "0 \<le> y" "y < 10000" "valid_ymd y m d" using year ymd civil_valid [of "local_days t" y m d]
    by (auto simp: time_date_def)
  have s: "s < 86400" by (simp add: s_def)
  then have b: "s div 3600 < 24" "s div 60 mod 60 < 60" "s mod 60 < 60" by auto
  have fmt: "format_rfc3339 t = pad 4 (nat y) @ ''-'' @ pad 2 (nat m) @ ''-'' @ pad 2 (nat d) @
      ''T'' @ pad 2 (s div 3600) @ '':'' @ pad 2 (s div 60 mod 60) @ '':'' @ pad 2 (s mod 60) @ format_zone (t_off t)"
    using y by (simp add: format_rfc3339_def ymd s_def L_def Let_def)
  have frac: "scan_frac (format_zone (t_off t)) = (0, format_zone (t_off t))"
    by (auto simp: format_zone_def scan_frac_def Let_def split: list.splits)
  have days: "days_from_civil y m d = L div 86400"
    using days_civil [of "local_days t"] ymd by (simp add: time_date_def local_days_def L_def)
  have "L mod 86400 = int s" by (simp add: s_def)
  also have "\<dots> = int (s div 3600 * 3600 + s div 60 mod 60 * 60 + s mod 60)"
    by (rule arg_cong [OF hms_split])
  also have "\<dots> = int (s div 3600) * 3600 + int (s div 60 mod 60) * 60 + int (s mod 60)"
    by (simp only: of_nat_add of_nat_mult of_nat_numeral)
  finally have "L mod 86400 = int (s div 3600) * 3600 + int (s div 60 mod 60) * 60 + int (s mod 60)" .
  then have sec: "days_from_civil y m d * 86400 + int (s div 3600) * 3600 + int (s div 60 mod 60) * 60 + int (s mod 60) = L"
    unfolding days using div_mult_mod_eq [of L 86400] by linarith
  have "parse_rfc3339 (format_rfc3339 t) =
      Some (go_date y m d (int (s div 3600)) (int (s div 60 mod 60)) (int (s mod 60)) 0 (t_off t))"
    unfolding parse_rfc3339_def fmt scan_ymd_pad [OF y] using b
    by (simp add: frac parse_zone_format [OF off])
  then show ?thesis using sec by (simp add: go_date_def L_def)
qed

end
