(* ===== verification/Mongo.thy ===== *)
theory Mongo imports Prelude Go_Strings Go_Time "HOL-Library.Multiset" begin

text \<open>
  The MongoDB driver as the repositories use it. The driver is a third-party
  package, so its operations are a parameter: a record of functions on a
  collection, where a collection is its documents and an environment that
  decides everything the documents do not (which call fails, how ties are
  ordered). A filter is a predicate on documents and an update (\<open>$set\<close>) a
  function on them. The documented behaviour that the code relies on is the
  predicate \<open>lawful\<close>; the end of the theory gives an in-memory driver, with a
  schedule of failing calls, that satisfies it.
\<close>

section \<open>Documents, collections and drivers\<close>

type_synonym oid = "96 word"

datatype db_error = NoDocuments | DuplicateKey | DbFault string

record ('e, 'd) coll =
  docs :: "'d list"
  env :: 'e

record 'd find_opts =
  sort_desc :: "'d \<Rightarrow> int"
  skip_of :: int
  limit_of :: nat

record ('e, 'd) driver =
  hex :: "oid \<Rightarrow> string"
  from_hex :: "string \<Rightarrow> oid option"
  insert_one :: "'d \<Rightarrow> ('e, 'd) coll \<Rightarrow> (db_error + unit) \<times> ('e, 'd) coll"
  find_one :: "('d \<Rightarrow> bool) \<Rightarrow> ('e, 'd) coll \<Rightarrow> (db_error + 'd) \<times> ('e, 'd) coll"
  find_all :: "('d \<Rightarrow> bool) \<Rightarrow> 'd find_opts \<Rightarrow> ('e, 'd) coll \<Rightarrow> (db_error + 'd list) \<times> ('e, 'd) coll"
  count_docs :: "('d \<Rightarrow> bool) \<Rightarrow> ('e, 'd) coll \<Rightarrow> (db_error + nat) \<times> ('e, 'd) coll"
  update_one :: "('d \<Rightarrow> bool) \<Rightarrow> ('d \<Rightarrow> 'd) \<Rightarrow> ('e, 'd) coll \<Rightarrow> (db_error + nat) \<times> ('e, 'd) coll"
  find_update :: "('d \<Rightarrow> bool) \<Rightarrow> ('d \<Rightarrow> 'd) \<Rightarrow> ('e, 'd) coll \<Rightarrow> (db_error + 'd) \<times> ('e, 'd) coll"
  update_many :: "('d \<Rightarrow> bool) \<Rightarrow> ('d \<Rightarrow> 'd) \<Rightarrow> ('e, 'd) coll \<Rightarrow> (db_error + nat) \<times> ('e, 'd) coll"
  upsert_one :: "('d \<Rightarrow> bool) \<Rightarrow> ('d \<Rightarrow> 'd) \<Rightarrow> 'd \<Rightarrow> ('e, 'd) coll \<Rightarrow> (db_error + unit) \<times> ('e, 'd) coll"
  delete_one :: "('d \<Rightarrow> bool) \<Rightarrow> ('e, 'd) coll \<Rightarrow> (db_error + nat) \<times> ('e, 'd) coll"

text \<open>Without a limit (0) and a skip, the whole result is returned.\<close>

definition find_sorted :: "('d \<Rightarrow> int) \<Rightarrow> 'd find_opts" where
  "find_sorted k = \<lparr>sort_desc = k, skip_of = 0, limit_of = 0\<rparr>"

definition page_cut :: "'d find_opts \<Rightarrow> 'd list \<Rightarrow> 'd list" where
  "page_cut fo ys = (let zs = drop (nat (skip_of fo)) ys in if limit_of fo = 0 then zs else take (limit_of fo) zs)"

text \<open>An error of the driver that the repository passes on unchanged.\<close>

fun db_err :: "db_error \<Rightarrow> go_error" where
  "db_err NoDocuments = ErrOther ''mongo: no documents in result''"
| "db_err DuplicateKey = ErrOther ''E11000 duplicate key error''"
| "db_err (DbFault s) = ErrOther s"

lemma db_err_other [simp]: "\<exists>s. db_err e = ErrOther s" "db_err e \<noteq> ErrNotFound"
  "db_err e \<noteq> ErrDuplicateEmail" "db_err e \<noteq> ErrInvalidCredentials" "db_err e \<noteq> ErrInvalidToken"
  "db_err e \<noteq> ValidationError x y" "db_err e \<noteq> ErrValidation x"
  "ErrNotFound \<noteq> db_err e"
  by (cases e; simp)+

text \<open>\<open>bson\<close> stores a \<open>time.Time\<close> as milliseconds and decodes it to UTC.\<close>

definition bson_time :: "gotime \<Rightarrow> int" where
  "bson_time t = t_sec t * 1000 + t_nsec t div 1000000"

definition time_of_bson :: "int \<Rightarrow> gotime" where
  "time_of_bson ms = \<lparr>t_sec = ms div 1000, t_nsec = ms mod 1000 * 1000000, t_off = 0\<rparr>"

lemma bson_time_of_bson [simp]: "bson_time (time_of_bson ms) = ms"
  by (simp add: bson_time_def time_of_bson_def)

definition ms_time :: "gotime \<Rightarrow> gotime" where
  "ms_time t = time_of_bson (bson_time t)"

lemma ms_time_of_bson [simp]: "ms_time (time_of_bson ms) = time_of_bson ms"
  by (simp add: ms_time_def)

section \<open>What the driver promises\<close>

text \<open>
  A write that fails with a fault may or may not have been applied; a write
  that is refused for a duplicate key is not. \<open>conflict\<close> is the relation of the
  unique indexes of the collection.
\<close>

definition law_hex :: "('e, 'd) driver \<Rightarrow> bool" where
  "law_hex M \<longleftrightarrow> (\<forall>i. from_hex M (hex M i) = Some i)"

definition law_insert :: "('d \<Rightarrow> 'd \<Rightarrow> bool) \<Rightarrow> ('e, 'd) driver \<Rightarrow> bool" where
  "law_insert conflict M \<longleftrightarrow> (\<forall>d c r c'. insert_one M d c = (r, c') \<longrightarrow>
     (case r of
        Inr _ \<Rightarrow> docs c' = docs c @ [d] \<and> (\<forall>x \<in> set (docs c). \<not> conflict x d)
      | Inl DuplicateKey \<Rightarrow> docs c' = docs c \<and> (\<exists>x \<in> set (docs c). conflict x d)
      | Inl (DbFault _) \<Rightarrow> docs c' = docs c \<or>
          (docs c' = docs c @ [d] \<and> (\<forall>x \<in> set (docs c). \<not> conflict x d))
      | Inl NoDocuments \<Rightarrow> False))"

definition law_find_one :: "('e, 'd) driver \<Rightarrow> bool" where
  "law_find_one M \<longleftrightarrow> (\<forall>P c r c'. find_one M P c = (r, c') \<longrightarrow> docs c' = docs c \<and>
     (case r of
        Inr d \<Rightarrow> d \<in> set (docs c) \<and> P d
      | Inl NoDocuments \<Rightarrow> (\<forall>d \<in> set (docs c). \<not> P d)
      | Inl DuplicateKey \<Rightarrow> False
      | Inl (DbFault _) \<Rightarrow> True))"

definition law_find_all :: "('e, 'd) driver \<Rightarrow> bool" where
  "law_find_all M \<longleftrightarrow> (\<forall>P fo c r c'. find_all M P fo c = (r, c') \<longrightarrow> docs c' = docs c \<and>
     (case r of
        Inr ds \<Rightarrow> 0 \<le> skip_of fo \<and> (\<exists>ys. mset ys = mset (filter P (docs c)) \<and>
          sorted_wrt (\<lambda>a b. sort_desc fo b \<le> sort_desc fo a) ys \<and> ds = page_cut fo ys)
      | Inl e \<Rightarrow> (\<exists>s. e = DbFault s)))"

definition law_count :: "('e, 'd) driver \<Rightarrow> bool" where
  "law_count M \<longleftrightarrow> (\<forall>P c r c'. count_docs M P c = (r, c') \<longrightarrow> docs c' = docs c \<and>
     (case r of Inr n \<Rightarrow> n = length (filter P (docs c)) | Inl e \<Rightarrow> (\<exists>s. e = DbFault s)))"

definition one_updated :: "('d \<Rightarrow> bool) \<Rightarrow> ('d \<Rightarrow> 'd) \<Rightarrow> 'd list \<Rightarrow> 'd list \<Rightarrow> bool" where
  "one_updated P f ds ds' \<longleftrightarrow> (\<exists>xs d ys. ds = xs @ d # ys \<and> P d \<and> ds' = xs @ f d # ys)"

definition one_deleted :: "('d \<Rightarrow> bool) \<Rightarrow> 'd list \<Rightarrow> 'd list \<Rightarrow> bool" where
  "one_deleted P ds ds' \<longleftrightarrow> (\<exists>xs d ys. ds = xs @ d # ys \<and> P d \<and> ds' = xs @ ys)"

definition law_update_one :: "('e, 'd) driver \<Rightarrow> bool" where
  "law_update_one M \<longleftrightarrow> (\<forall>P f c r c'. update_one M P f c = (r, c') \<longrightarrow>
     (case r of
        Inr n \<Rightarrow> (n = 0 \<and> docs c' = docs c \<and> (\<forall>d \<in> set (docs c). \<not> P d)) \<or>
                 (n = 1 \<and> one_updated P f (docs c) (docs c'))
      | Inl e \<Rightarrow> e \<noteq> NoDocuments \<and> (docs c' = docs c \<or> one_updated P f (docs c) (docs c'))))"

text \<open>\<open>FindOneAndUpdate\<close> with \<open>ReturnDocument(After)\<close>: the document as it was written.\<close>

definition law_find_update :: "('e, 'd) driver \<Rightarrow> bool" where
  "law_find_update M \<longleftrightarrow> (\<forall>P f c r c'. find_update M P f c = (r, c') \<longrightarrow>
     (case r of
        Inr d' \<Rightarrow> (\<exists>xs d ys. docs c = xs @ d # ys \<and> P d \<and> d' = f d \<and> docs c' = xs @ d' # ys)
      | Inl NoDocuments \<Rightarrow> docs c' = docs c \<and> (\<forall>d \<in> set (docs c). \<not> P d)
      | Inl e \<Rightarrow> docs c' = docs c \<or> one_updated P f (docs c) (docs c')))"

definition law_update_many :: "('e, 'd) driver \<Rightarrow> bool" where
  "law_update_many M \<longleftrightarrow> (\<forall>P f c r c'. update_many M P f c = (r, c') \<longrightarrow>
     (case r of
        Inr n \<Rightarrow> n = length (filter P (docs c)) \<and> docs c' = map (\<lambda>d. if P d then f d else d) (docs c)
      | Inl e \<Rightarrow> e \<noteq> NoDocuments \<and> list_all2 (\<lambda>d d'. d' = d \<or> (P d \<and> d' = f d)) (docs c) (docs c')))"

definition law_upsert :: "('e, 'd) driver \<Rightarrow> bool" where
  "law_upsert M \<longleftrightarrow> (\<forall>P f n c r c'. upsert_one M P f n c = (r, c') \<longrightarrow>
     (let applied = (one_updated P f (docs c) (docs c') \<or>
                     ((\<forall>d \<in> set (docs c). \<not> P d) \<and> docs c' = docs c @ [n]))
      in case r of
        Inr _ \<Rightarrow> applied
      | Inl e \<Rightarrow> e \<noteq> NoDocuments \<and> (docs c' = docs c \<or> applied)))"

definition law_delete :: "('e, 'd) driver \<Rightarrow> bool" where
  "law_delete M \<longleftrightarrow> (\<forall>P c r c'. delete_one M P c = (r, c') \<longrightarrow>
     (case r of
        Inr n \<Rightarrow> (n = 0 \<and> docs c' = docs c \<and> (\<forall>d \<in> set (docs c). \<not> P d)) \<or>
                 (n = 1 \<and> one_deleted P (docs c) (docs c'))
      | Inl e \<Rightarrow> (\<exists>s. e = DbFault s) \<and> (docs c' = docs c \<or> one_deleted P (docs c) (docs c'))))"

definition lawful :: "('d \<Rightarrow> 'd \<Rightarrow> bool) \<Rightarrow> ('e, 'd) driver \<Rightarrow> bool" where
  "lawful conflict M \<longleftrightarrow> law_hex M \<and> law_insert conflict M \<and> law_find_one M \<and> law_find_all M \<and>
     law_count M \<and> law_update_one M \<and> law_find_update M \<and> law_update_many M \<and> law_upsert M \<and> law_delete M"

section \<open>Consequences for one call\<close>

lemma hex_roundtrip: "lawful cf M \<Longrightarrow> from_hex M (hex M i) = Some i"
  by (simp add: lawful_def law_hex_def)

lemma hex_inj: "lawful cf M \<Longrightarrow> hex M i = hex M j \<Longrightarrow> i = j"
  by (metis hex_roundtrip option.inject)

text \<open>Each law as a rule, at one call.\<close>

lemma insertD:
  assumes "lawful cf M" and "insert_one M d c = (r, c')"
  shows "case r of
        Inr _ \<Rightarrow> docs c' = docs c @ [d] \<and> (\<forall>x \<in> set (docs c). \<not> cf x d)
      | Inl DuplicateKey \<Rightarrow> docs c' = docs c \<and> (\<exists>x \<in> set (docs c). cf x d)
      | Inl (DbFault _) \<Rightarrow> docs c' = docs c \<or>
          (docs c' = docs c @ [d] \<and> (\<forall>x \<in> set (docs c). \<not> cf x d))
      | Inl NoDocuments \<Rightarrow> False"
proof -
  have "law_insert cf M" using assms(1) by (simp only: lawful_def)
  then show ?thesis using assms(2) unfolding law_insert_def by blast
qed

lemma find_oneD:
  assumes "lawful cf M" and "find_one M P c = (r, c')"
  shows "docs c' = docs c \<and>
     (case r of
        Inr d \<Rightarrow> d \<in> set (docs c) \<and> P d
      | Inl NoDocuments \<Rightarrow> (\<forall>d \<in> set (docs c). \<not> P d)
      | Inl DuplicateKey \<Rightarrow> False
      | Inl (DbFault _) \<Rightarrow> True)"
proof -
  have "law_find_one M" using assms(1) by (simp only: lawful_def)
  then show ?thesis using assms(2) unfolding law_find_one_def by blast
qed

lemma find_allD:
  assumes "lawful cf M" and "find_all M P fo c = (r, c')"
  shows "docs c' = docs c \<and>
     (case r of
        Inr ds \<Rightarrow> 0 \<le> skip_of fo \<and> (\<exists>ys. mset ys = mset (filter P (docs c)) \<and>
          sorted_wrt (\<lambda>a b. sort_desc fo b \<le> sort_desc fo a) ys \<and> ds = page_cut fo ys)
      | Inl e \<Rightarrow> (\<exists>s. e = DbFault s))"
proof -
  have "law_find_all M" using assms(1) by (simp only: lawful_def)
  then show ?thesis using assms(2) unfolding law_find_all_def by blast
qed

lemma countD:
  assumes "lawful cf M" and "count_docs M P c = (r, c')"
  shows "docs c' = docs c \<and>
     (case r of Inr n \<Rightarrow> n = length (filter P (docs c)) | Inl e \<Rightarrow> (\<exists>s. e = DbFault s))"
proof -
  have "law_count M" using assms(1) by (simp only: lawful_def)
  then show ?thesis using assms(2) unfolding law_count_def by blast
qed

lemma update_oneD:
  assumes "lawful cf M" and "update_one M P f c = (r, c')"
  shows "case r of
        Inr n \<Rightarrow> (n = 0 \<and> docs c' = docs c \<and> (\<forall>d \<in> set (docs c). \<not> P d)) \<or>
                 (n = 1 \<and> one_updated P f (docs c) (docs c'))
      | Inl e \<Rightarrow> e \<noteq> NoDocuments \<and> (docs c' = docs c \<or> one_updated P f (docs c) (docs c'))"
proof -
  have "law_update_one M" using assms(1) by (simp only: lawful_def)
  then show ?thesis using assms(2) unfolding law_update_one_def by blast
qed

lemma find_updateD:
  assumes "lawful cf M" and "find_update M P f c = (r, c')"
  shows "case r of
        Inr d' \<Rightarrow> (\<exists>xs d ys. docs c = xs @ d # ys \<and> P d \<and> d' = f d \<and> docs c' = xs @ d' # ys)
      | Inl NoDocuments \<Rightarrow> docs c' = docs c \<and> (\<forall>d \<in> set (docs c). \<not> P d)
      | Inl e \<Rightarrow> docs c' = docs c \<or> one_updated P f (docs c) (docs c')"
proof -
  have "law_find_update M" using assms(1) by (simp only: lawful_def)
  then show ?thesis using assms(2) unfolding law_find_update_def by blast
qed

lemma update_manyD:
  assumes "lawful cf M" and "update_many M P f c = (r, c')"
  shows "case r of
        Inr n \<Rightarrow> n = length (filter P (docs c)) \<and> docs c' = map (\<lambda>d. if P d then f d else d) (docs c)
      | Inl e \<Rightarrow> e \<noteq> NoDocuments \<and> list_all2 (\<lambda>d d'. d' = d \<or> (P d \<and> d' = f d)) (docs c) (docs c')"
proof -
  have "law_update_many M" using assms(1) by (simp only: lawful_def)
  then show ?thesis using assms(2) unfolding law_update_many_def by blast
qed

lemma upsertD:
  assumes "lawful cf M" and "upsert_one M P f n c = (r, c')"
  shows "let applied = (one_updated P f (docs c) (docs c') \<or>
                     ((\<forall>d \<in> set (docs c). \<not> P d) \<and> docs c' = docs c @ [n]))
      in case r of
        Inr _ \<Rightarrow> applied
      | Inl e \<Rightarrow> e \<noteq> NoDocuments \<and> (docs c' = docs c \<or> applied)"
proof -
  have "law_upsert M" using assms(1) by (simp only: lawful_def)
  then show ?thesis using assms(2) unfolding law_upsert_def by blast
qed

lemma deleteD:
  assumes "lawful cf M" and "delete_one M P c = (r, c')"
  shows "case r of
        Inr n \<Rightarrow> (n = 0 \<and> docs c' = docs c \<and> (\<forall>d \<in> set (docs c). \<not> P d)) \<or>
                 (n = 1 \<and> one_deleted P (docs c) (docs c'))
      | Inl e \<Rightarrow> (\<exists>s. e = DbFault s) \<and> (docs c' = docs c \<or> one_deleted P (docs c) (docs c'))"
proof -
  have "law_delete M" using assms(1) by (simp only: lawful_def)
  then show ?thesis using assms(2) unfolding law_delete_def by blast
qed

lemma insert_ok:
  assumes "lawful cf M" and "insert_one M d c = (Inr u, c')"
  shows "docs c' = docs c @ [d]" and "\<forall>x \<in> set (docs c). \<not> cf x d"
  using insertD [OF assms] by auto

lemma insert_any:
  assumes "lawful cf M" and "insert_one M d c = (r, c')"
  shows "docs c' = docs c \<or> (docs c' = docs c @ [d] \<and> (\<forall>x \<in> set (docs c). \<not> cf x d))"
  using insertD [OF assms] by (auto split: sum.splits db_error.splits)

lemma insert_dup:
  assumes "lawful cf M" and "insert_one M d c = (Inl DuplicateKey, c')"
  shows "docs c' = docs c" and "\<exists>x \<in> set (docs c). cf x d"
  using insertD [OF assms] by auto

lemma find_one_docs:
  assumes "lawful cf M" and "find_one M P c = (r, c')"
  shows "docs c' = docs c"
  using find_oneD [OF assms] by simp

lemma find_one_ok:
  assumes "lawful cf M" and "find_one M P c = (Inr d, c')"
  shows "d \<in> set (docs c)" and "P d"
  using find_oneD [OF assms] by auto

lemma find_one_none:
  assumes "lawful cf M" and "find_one M P c = (Inl NoDocuments, c')"
  shows "\<forall>d \<in> set (docs c). \<not> P d"
  using find_oneD [OF assms] by auto

lemma find_all_docs:
  assumes "lawful cf M" and "find_all M P fo c = (r, c')"
  shows "docs c' = docs c"
  using find_allD [OF assms] by simp

lemma find_all_ok:
  assumes "lawful cf M" and "find_all M P fo c = (Inr ds, c')"
  obtains ys where "mset ys = mset (filter P (docs c))"
    "sorted_wrt (\<lambda>a b. sort_desc fo b \<le> sort_desc fo a) ys" "ds = page_cut fo ys" "0 \<le> skip_of fo"
  using find_allD [OF assms] by auto

lemma find_all_neg_skip:
  assumes "lawful cf M" and "skip_of fo < 0"
  shows "\<exists>s c'. find_all M P fo c = (Inl (DbFault s), c') \<and> docs c' = docs c"
proof (cases "find_all M P fo c")
  case (Pair r c')
  show ?thesis
    using find_allD [OF assms(1) Pair] assms(2) Pair by (cases r) auto
qed

lemma page_cut_sorted [simp]: "page_cut (find_sorted k) ys = ys"
  by (simp add: page_cut_def find_sorted_def)

lemma find_sorted_ok:
  assumes "lawful cf M" and "find_all M P (find_sorted k) c = (Inr ds, c')"
  shows "mset ds = mset (filter P (docs c))" and "sorted_wrt (\<lambda>a b. k b \<le> k a) ds"
proof -
  obtain ys where "mset ys = mset (filter P (docs c))"
    "sorted_wrt (\<lambda>a b. k b \<le> k a) ys" "ds = page_cut (find_sorted k) ys"
    by (rule find_all_ok [OF assms]) (simp add: find_sorted_def)
  then show "mset ds = mset (filter P (docs c))" "sorted_wrt (\<lambda>a b. k b \<le> k a) ds" by auto
qed

lemma count_docs_docs:
  assumes "lawful cf M" and "count_docs M P c = (r, c')"
  shows "docs c' = docs c"
  using countD [OF assms] by simp

lemma count_docs_ok:
  assumes "lawful cf M" and "count_docs M P c = (Inr n, c')"
  shows "n = length (filter P (docs c))"
  using countD [OF assms] by simp

lemma update_one_cases:
  assumes "lawful cf M" and "update_one M P f c = (r, c')"
  shows "docs c' = docs c \<or> one_updated P f (docs c) (docs c')"
  using update_oneD [OF assms] by (auto split: sum.splits)

lemma update_one_ok:
  assumes "lawful cf M" and "update_one M P f c = (Inr n, c')"
  shows "(n = 0 \<and> docs c' = docs c \<and> (\<forall>d \<in> set (docs c). \<not> P d)) \<or>
         (n = 1 \<and> one_updated P f (docs c) (docs c'))"
  using update_oneD [OF assms] by simp

lemma delete_one_cases:
  assumes "lawful cf M" and "delete_one M P c = (r, c')"
  shows "docs c' = docs c \<or> one_deleted P (docs c) (docs c')"
  using deleteD [OF assms] by (auto split: sum.splits)

lemma delete_one_ok:
  assumes "lawful cf M" and "delete_one M P c = (Inr n, c')"
  shows "(n = 0 \<and> docs c' = docs c \<and> (\<forall>d \<in> set (docs c). \<not> P d)) \<or>
         (n = 1 \<and> one_deleted P (docs c) (docs c'))"
  using deleteD [OF assms] by simp

lemma update_many_cases:
  assumes "lawful cf M" and "update_many M P f c = (r, c')"
  shows "list_all2 (\<lambda>d d'. d' = d \<or> (P d \<and> d' = f d)) (docs c) (docs c')"
  using update_manyD [OF assms] by (cases r) (auto simp: list_all2_map2 intro!: list.rel_refl_strong)

lemma update_many_ok:
  assumes "lawful cf M" and "update_many M P f c = (Inr n, c')"
  shows "docs c' = map (\<lambda>d. if P d then f d else d) (docs c)" and "n = length (filter P (docs c))"
  using update_manyD [OF assms] by simp_all

lemma upsert_cases:
  assumes "lawful cf M" and "upsert_one M P f n c = (r, c')"
  shows "docs c' = docs c \<or> one_updated P f (docs c) (docs c') \<or>
         ((\<forall>d \<in> set (docs c). \<not> P d) \<and> docs c' = docs c @ [n])"
  using upsertD [OF assms] by (cases r) (auto simp: Let_def)

lemma upsert_ok:
  assumes "lawful cf M" and "upsert_one M P f n c = (Inr u, c')"
  shows "one_updated P f (docs c) (docs c') \<or>
         ((\<forall>d \<in> set (docs c). \<not> P d) \<and> docs c' = docs c @ [n])"
  using upsertD [OF assms] by (simp add: Let_def)

text \<open>Calls that leave the documents of another owner alone.\<close>

lemma one_updated_filter:
  assumes "one_updated P f ds ds'" and "\<And>d. P d \<Longrightarrow> \<not> Q d \<and> \<not> Q (f d)"
  shows "filter Q ds' = filter Q ds"
  using assms by (auto simp: one_updated_def)

lemma one_deleted_filter:
  assumes "one_deleted P ds ds'" and "\<And>d. P d \<Longrightarrow> \<not> Q d"
  shows "filter Q ds' = filter Q ds"
  using assms by (auto simp: one_deleted_def)

lemma many_updated_filter:
  assumes "list_all2 (\<lambda>d d'. d' = d \<or> (P d \<and> d' = f d)) ds ds'"
    and "\<And>d. P d \<Longrightarrow> \<not> Q d \<and> \<not> Q (f d)"
  shows "filter Q ds' = filter Q ds"
  using assms(1) by (induction rule: list_all2_induct) (auto simp: assms(2))

lemma many_updated_set:
  assumes "list_all2 (\<lambda>d d'. d' = d \<or> (P d \<and> d' = f d)) ds ds'" and "d' \<in> set ds'"
  shows "\<exists>d \<in> set ds. d' = d \<or> (P d \<and> d' = f d)"
  using assms by (induction rule: list_all2_induct) auto

lemma one_updated_set:
  assumes "one_updated P f ds ds'" and "d' \<in> set ds'"
  shows "d' \<in> set ds \<or> (\<exists>d \<in> set ds. P d \<and> d' = f d)"
  using assms by (auto simp: one_updated_def)

lemma one_deleted_set:
  assumes "one_deleted P ds ds'" and "d' \<in> set ds'"
  shows "d' \<in> set ds"
  using assms by (auto simp: one_deleted_def)

lemma one_updated_map:
  assumes "one_updated P f ds ds'" and "\<And>d. P d \<Longrightarrow> g (f d) = g d"
  shows "map g ds' = map g ds"
  using assms by (auto simp: one_updated_def)

section \<open>An in-memory driver\<close>

text \<open>
  The environment is a schedule: the head says whether the next call fails, and
  a failing call changes nothing. It is the driver of the witnesses.
\<close>

definition hexchar :: "nat \<Rightarrow> char" where
  "hexchar n = ''0123456789abcdef'' ! n"

definition hexval :: "char \<Rightarrow> nat option" where
  "hexval c = map_option snd (find (\<lambda>p. fst p = c) (zip ''0123456789abcdef'' [0..<16]))"

fun hexn :: "nat \<Rightarrow> nat \<Rightarrow> string" where
  "hexn 0 n = []"
| "hexn (Suc k) n = hexn k (n div 16) @ [hexchar (n mod 16)]"

fun unhex :: "nat \<Rightarrow> string \<Rightarrow> nat option" where
  "unhex a [] = Some a"
| "unhex a (c # s) = (case hexval c of None \<Rightarrow> None | Some v \<Rightarrow> unhex (a * 16 + v) s)"

definition mem_hex :: "oid \<Rightarrow> string" where
  "mem_hex i = hexn 24 (unat i)"

definition mem_from_hex :: "string \<Rightarrow> oid option" where
  "mem_from_hex s = (if length s = 24 then map_option of_nat (unhex 0 s) else None)"

fun find_map :: "('d \<Rightarrow> bool) \<Rightarrow> ('d \<Rightarrow> 'd list) \<Rightarrow> 'd list \<Rightarrow> nat \<times> 'd list" where
  "find_map P f [] = (0, [])"
| "find_map P f (d # ds) = (if P d then (1, f d @ ds) else (case find_map P f ds of (n, ds') \<Rightarrow> (n, d # ds')))"

type_synonym 'd mem = "(bool list, 'd) coll"

definition mem_call :: "('d mem \<Rightarrow> (db_error + 'a) \<times> 'd list) \<Rightarrow> 'd mem \<Rightarrow> (db_error + 'a) \<times> 'd mem" where
  "mem_call op c = (case env c of
       True # fs \<Rightarrow> (Inl (DbFault ''connection lost''), c\<lparr>env := fs\<rparr>)
     | _ \<Rightarrow> (case op c of (r, ds) \<Rightarrow> (r, c\<lparr>docs := ds, env := drop 1 (env c)\<rparr>)))"

definition mem_driver :: "('d \<Rightarrow> 'd \<Rightarrow> bool) \<Rightarrow> (bool list, 'd) driver" where
  "mem_driver cf = \<lparr>
     hex = mem_hex,
     from_hex = mem_from_hex,
     insert_one = (\<lambda>d. mem_call (\<lambda>c.
       if list_ex (\<lambda>x. cf x d) (docs c) then (Inl DuplicateKey, docs c) else (Inr (), docs c @ [d]))),
     find_one = (\<lambda>P. mem_call (\<lambda>c.
       (case find P (docs c) of None \<Rightarrow> Inl NoDocuments | Some d \<Rightarrow> Inr d, docs c))),
     find_all = (\<lambda>P fo. mem_call (\<lambda>c.
       (if skip_of fo < 0 then Inl (DbFault ''skip is negative'')
        else Inr (page_cut fo (sort_key (\<lambda>d. - sort_desc fo d) (filter P (docs c)))), docs c))),
     count_docs = (\<lambda>P. mem_call (\<lambda>c. (Inr (length (filter P (docs c))), docs c))),
     update_one = (\<lambda>P f. mem_call (\<lambda>c.
       (case find_map P (\<lambda>d. [f d]) (docs c) of (n, ds) \<Rightarrow> (Inr n, ds)))),
     find_update = (\<lambda>P f. mem_call (\<lambda>c.
       (case find P (docs c) of None \<Rightarrow> Inl NoDocuments | Some d \<Rightarrow> Inr (f d), snd (find_map P (\<lambda>d. [f d]) (docs c))))),
     update_many = (\<lambda>P f. mem_call (\<lambda>c.
       (Inr (length (filter P (docs c))), map (\<lambda>d. if P d then f d else d) (docs c)))),
     upsert_one = (\<lambda>P f n. mem_call (\<lambda>c.
       (case find_map P (\<lambda>d. [f d]) (docs c) of (k, ds) \<Rightarrow> (Inr (), if k = 0 then docs c @ [n] else ds)))),
     delete_one = (\<lambda>P. mem_call (\<lambda>c.
       (case find_map P (\<lambda>d. []) (docs c) of (n, ds) \<Rightarrow> (Inr n, ds))))\<rparr>"

definition mem_coll :: "'d list \<Rightarrow> 'd mem" where
  "mem_coll ds = \<lparr>docs = ds, env = []\<rparr>"

lemma hexval_hexchar: "n < 16 \<Longrightarrow> hexval (hexchar n) = Some n"
proof -
  have "\<forall>n \<in> set [0..<16]. hexval (hexchar n) = Some n" by code_simp
  then show "n < 16 \<Longrightarrow> hexval (hexchar n) = Some n" by simp
qed

lemma unhex_append: "unhex a (s @ t) = (case unhex a s of None \<Rightarrow> None | Some b \<Rightarrow> unhex b t)"
  by (induction s arbitrary: a) (auto split: option.splits)

lemma unhex_hexn: "unhex 0 (hexn k n) = Some (n mod 16 ^ k)"
proof (induction k arbitrary: n)
  case (Suc k)
  have "n mod (16 * 16 ^ k) = 16 * (n div 16 mod 16 ^ k) + n mod 16" by (rule mod_mult2_eq)
  then show ?case by (simp add: unhex_append Suc hexval_hexchar mult.commute)
qed simp

lemma length_hexn [simp]: "length (hexn k n) = k"
  by (induction k arbitrary: n) auto

lemma mem_hex_roundtrip [simp]: "mem_from_hex (mem_hex i) = Some i"
proof -
  have "unat i < 2 ^ LENGTH(96)" by (rule unsigned_less)
  then have "unat i < 2 ^ 96" by simp
  also have "(2::nat) ^ 96 = 16 ^ 24" by simp
  finally show ?thesis by (simp add: mem_hex_def mem_from_hex_def unhex_hexn)
qed

lemma find_map_cases:
  assumes "find_map P f ds = (n, ds')"
  shows "(n = 0 \<and> ds' = ds \<and> (\<forall>d \<in> set ds. \<not> P d)) \<or>
         (n = 1 \<and> (\<exists>xs d ys. ds = xs @ d # ys \<and> P d \<and> ds' = xs @ f d @ ys))"
  using assms
proof (induction ds arbitrary: n ds')
  case (Cons a ds)
  show ?case
  proof (cases "P a")
    case True
    with Cons.prems have "n = 1" "a # ds = [] @ a # ds" "ds' = [] @ f a @ ds" by auto
    with True show ?thesis by blast
  next
    case False
    obtain m es where m: "find_map P f ds = (m, es)" by (cases "find_map P f ds")
    with Cons.prems False have n: "n = m" "ds' = a # es" by auto
    from Cons.IH [OF m] show ?thesis
    proof
      assume "m = 0 \<and> es = ds \<and> (\<forall>d \<in> set ds. \<not> P d)"
      with False n show ?thesis by simp
    next
      assume "m = 1 \<and> (\<exists>xs d ys. ds = xs @ d # ys \<and> P d \<and> es = xs @ f d @ ys)"
      then obtain xs d ys where "m = 1" "a # ds = (a # xs) @ d # ys" "P d" "ds' = (a # xs) @ f d @ ys"
        using n by auto
      with n show ?thesis by blast
    qed
  qed
qed simp

lemma find_map_update:
  assumes "find_map P (\<lambda>d. [f d]) ds = (n, ds')"
  shows "(n = 0 \<and> ds' = ds \<and> (\<forall>d \<in> set ds. \<not> P d)) \<or> (n = 1 \<and> one_updated P f ds ds')"
  using find_map_cases [OF assms] by (simp add: one_updated_def)

lemma find_map_delete:
  assumes "find_map P (\<lambda>d. []) ds = (n, ds')"
  shows "(n = 0 \<and> ds' = ds \<and> (\<forall>d \<in> set ds. \<not> P d)) \<or> (n = 1 \<and> one_deleted P ds ds')"
  using find_map_cases [OF assms] by (simp add: one_deleted_def)

lemma find_map_find:
  "find P ds = Some d \<Longrightarrow> \<exists>xs ys. ds = xs @ d # ys \<and> P d \<and> snd (find_map P (\<lambda>d. [f d]) ds) = xs @ f d # ys"
  "find P ds = None \<Longrightarrow> snd (find_map P (\<lambda>d. [f d]) ds) = ds \<and> (\<forall>d \<in> set ds. \<not> P d)"
proof (induction ds)
  case (Cons a ds)
  {
    case 1
    show ?case
    proof (cases "P a")
      case True
      with 1 have "a # ds = [] @ d # ds \<and> P d \<and> snd (find_map P (\<lambda>d. [f d]) (a # ds)) = [] @ f d # ds" by simp
      then show ?thesis by blast
    next
      case False
      with 1 Cons.IH(1) obtain xs ys where "ds = xs @ d # ys" "P d" "snd (find_map P (\<lambda>d. [f d]) ds) = xs @ f d # ys" by auto
      with False have "a # ds = (a # xs) @ d # ys \<and> P d \<and> snd (find_map P (\<lambda>d. [f d]) (a # ds)) = (a # xs) @ f d # ys"
        by (cases "find_map P (\<lambda>d. [f d]) ds") simp
      then show ?thesis by blast
    qed
  next
    case 2
    with Cons.IH(2) show ?case by (auto split: if_splits prod.splits)
  }
qed simp_all

lemma sort_key_desc: "sorted_wrt (\<lambda>a b. k b \<le> (k a :: int)) (sort_key (\<lambda>d. - k d) xs)"
  using sorted_sort_key [of "\<lambda>d. - k d" xs] by (simp add: sorted_map)

lemma mem_call_cases:
  assumes "mem_call op c = (r, c')"
  shows "(r = Inl (DbFault ''connection lost'') \<and> docs c' = docs c) \<or>
         (op c = (r, docs c'))"
  using assms by (auto simp: mem_call_def split: list.splits bool.splits prod.splits)

lemma mem_laws:
  shows "law_hex (mem_driver cf)" "law_insert cf (mem_driver cf)" "law_find_one (mem_driver cf)"
    "law_find_all (mem_driver cf)" "law_count (mem_driver cf)" "law_update_one (mem_driver cf)"
    "law_find_update (mem_driver cf)" "law_update_many (mem_driver cf)" "law_upsert (mem_driver cf)" "law_delete (mem_driver cf)"
proof -
  show "law_hex (mem_driver cf)" by (simp add: law_hex_def mem_driver_def)
  show "law_insert cf (mem_driver cf)"
    by (auto simp: law_insert_def mem_driver_def list_ex_iff dest!: mem_call_cases split: if_splits)
  show "law_find_one (mem_driver cf)"
    by (auto simp: law_find_one_def mem_driver_def find_None_iff find_Some_iff
        dest!: mem_call_cases split: option.splits)
  show "law_find_all (mem_driver cf)"
    by (auto simp: law_find_all_def mem_driver_def dest!: mem_call_cases split: if_splits
        intro!: exI [of _ "sort_key (\<lambda>d. - sort_desc fo d) (filter P ds)" for fo P ds] sort_key_desc)
  show "law_count (mem_driver cf)"
    by (auto simp: law_count_def mem_driver_def dest!: mem_call_cases)
  show "law_update_one (mem_driver cf)"
    unfolding law_update_one_def mem_driver_def
    by (auto dest!: mem_call_cases find_map_update split: prod.splits sum.splits)
  show "law_find_update (mem_driver cf)"
    unfolding law_find_update_def
  proof (intro allI impI)
    fix P f c r c' assume "find_update (mem_driver cf) P f c = (r, c')"
    then show "case r of
        Inr d' \<Rightarrow> (\<exists>xs d ys. docs c = xs @ d # ys \<and> P d \<and> d' = f d \<and> docs c' = xs @ d' # ys)
      | Inl NoDocuments \<Rightarrow> docs c' = docs c \<and> (\<forall>d \<in> set (docs c). \<not> P d)
      | Inl e \<Rightarrow> docs c' = docs c \<or> one_updated P f (docs c) (docs c')"
      using find_map_find(1) [of P "docs c" _ f] find_map_find(2) [of P "docs c" f]
      by (cases "find P (docs c)") (simp_all add: mem_driver_def, (drule mem_call_cases; fastforce)+)
  qed
  show "law_update_many (mem_driver cf)"
    by (auto simp: law_update_many_def mem_driver_def list.rel_refl dest!: mem_call_cases)
  show "law_upsert (mem_driver cf)"
    unfolding law_upsert_def mem_driver_def Let_def
    by (auto dest!: mem_call_cases find_map_update split: prod.splits sum.splits if_splits)
  show "law_delete (mem_driver cf)"
    unfolding law_delete_def mem_driver_def
    by (auto dest!: mem_call_cases find_map_delete split: prod.splits sum.splits)
qed

theorem lawful_mem [simp]: "lawful cf (mem_driver cf)"
  by (simp add: lawful_def mem_laws)

end
