(* ===== verification/Paging.thy ===== *)
theory Paging imports Go_Strings begin

text \<open>
  The standard pagination of the list endpoints (architecture/api-contracts.md), as
  expense-service and notification-service apply it: the defaults and caps on page and
  page size, and the offset \<open>(page - 1) * pageSize\<close> computed in \<open>int64\<close>.
\<close>

text \<open>A page parameter that is absent or not a number is left at the zero value.\<close>

definition query_int :: "string \<Rightarrow> int64" where
  "query_int v = (if v = '''' then 0 else (case atoi v of None \<Rightarrow> 0 | Some p \<Rightarrow> p))"

text \<open>The page and the size that a service applies.\<close>

definition applied_page :: "int64 \<Rightarrow> int64" where
  "applied_page p = (if p <s 1 then 1 else p)"

definition applied_size :: "int64 \<Rightarrow> int64" where
  "applied_size n = (if n <s 1 then 20 else if 100 <s n then 100 else n)"

lemma sint_consts: "sint (1 :: int64) = 1" "sint (100 :: int64) = 100" "sint (20 :: int64) = 20" "sint (0 :: int64) = 0"
  by code_simp+

lemma applied_bounds: "1 \<le> sint (applied_page p)" "1 \<le> sint (applied_size n)" "sint (applied_size n) \<le> 100"
  by (auto simp: applied_page_def applied_size_def word_sless_alt sint_consts)

lemma skip_exact:
  assumes "(sint (applied_page p) - 1) * sint (applied_size n) < 2 ^ 63"
  shows "sint ((applied_page p - 1) * applied_size n) = (sint (applied_page p) - 1) * sint (applied_size n)"
proof -
  note b = applied_bounds(1) [of p] applied_bounds(2,3) [of n]
  have r: "signed_take_bit 63 x = x" if "0 \<le> x" "x < 2 ^ 63" for x :: int
    using that by (simp add: signed_take_bit_int_eq_self_iff)
  have "sint (applied_page p) < 2 ^ 63" using sint_lt [of "applied_page p"] by simp
  then have "sint (applied_page p - 1) = sint (applied_page p) - 1"
    using b(1) by (simp add: sint_word_ariths(2) sint_consts r)
  moreover have "0 \<le> (sint (applied_page p) - 1) * sint (applied_size n)" using b by simp
  ultimately show ?thesis using assms by (simp add: sint_word_ariths(3) r)
qed

end
