(* ===== verification/Repo_Spec.thy ===== *)
theory Repo_Spec imports Mongo begin

text \<open>
  The interface that the services rely on: a repository whose every query
  carries the owner, as the \<open>domain\<close> packages declare it
  (\<open>Create\<close>, \<open>GetByIDForUser\<close>), and its extensions by \<open>ListByUser\<close> and by \<open>Update\<close> and
  \<open>DeleteByIDForUser\<close>. The laws are stated over the documents of the
  collection; what the services use of them is proved once, here. The
  repositories of expense-service, budget-service and notification-service
  interpret the locales.
\<close>

text \<open>The documents of one owner, and a collection whose ids are distinct.\<close>

definition view :: "('d \<Rightarrow> string) \<Rightarrow> string \<Rightarrow> ('e, 'd) coll \<Rightarrow> 'd list" where
  "view owner u c = filter (\<lambda>d. owner d = u) (docs c)"

definition ids_distinct :: "('d \<Rightarrow> oid) \<Rightarrow> ('e, 'd) coll \<Rightarrow> bool" where
  "ids_distinct did c \<longleftrightarrow> distinct (map did (docs c))"

definition same_id :: "('d \<Rightarrow> oid) \<Rightarrow> 'd \<Rightarrow> 'd \<Rightarrow> bool" where
  "same_id did x y \<longleftrightarrow> did x = did y"

lemma ids_distinct_unique:
  "ids_distinct did c \<Longrightarrow> x \<in> set (docs c) \<Longrightarrow> y \<in> set (docs c) \<Longrightarrow> did x = did y \<Longrightarrow> x = y"
  by (auto simp: ids_distinct_def distinct_map dest: inj_onD)

lemma view_docs_cong: "docs c' = docs c \<Longrightarrow> view owner u c' = view owner u c"
  by (simp add: view_def)

text \<open>
  A well-formed collection, and what one call on behalf of \<open>u\<close> may do to it: a
  well-formed collection stays so, and the documents of everybody else are as before.
\<close>

definition coll_ok :: "('d \<Rightarrow> oid) \<Rightarrow> ('d \<Rightarrow> bool) \<Rightarrow> ('e, 'd) coll \<Rightarrow> bool" where
  "coll_ok did wfd c \<longleftrightarrow> ids_distinct did c \<and> (\<forall>d \<in> set (docs c). wfd d)"

definition moves :: "('d \<Rightarrow> string) \<Rightarrow> ('d \<Rightarrow> oid) \<Rightarrow> ('d \<Rightarrow> bool) \<Rightarrow> string \<Rightarrow> ('e, 'd) coll \<Rightarrow> ('e, 'd) coll \<Rightarrow> bool" where
  "moves owner did wfd u c c' \<longleftrightarrow> (coll_ok did wfd c \<longrightarrow> coll_ok did wfd c') \<and>
     (\<forall>v. v \<noteq> u \<longrightarrow> view owner v c' = view owner v c)"

lemma coll_ok_docs: "docs c' = docs c \<Longrightarrow> coll_ok did wfd c' = coll_ok did wfd c"
  by (simp add: coll_ok_def ids_distinct_def)

lemma moves_docs: "docs c' = docs c \<Longrightarrow> moves owner did wfd u c c'"
  by (simp add: moves_def coll_ok_def ids_distinct_def view_def)

lemma moves_refl [simp]: "moves owner did wfd u c c"
  by (simp add: moves_docs)

lemma moves_trans: "moves owner did wfd u a b \<Longrightarrow> moves owner did wfd u b c \<Longrightarrow> moves owner did wfd u a c"
  by (simp add: moves_def)

text \<open>One document updated where the ids are distinct: which one, and to what.\<close>

lemma one_updated_unique:
  assumes "ids_distinct did c" and "one_updated (\<lambda>d. did d = i \<and> P d) f (docs c) (docs c')" and "\<And>d. did (f d) = did d"
    and "d \<in> set (docs c)" and "did d = i"
  shows "ids_distinct did c'" and "f d \<in> set (docs c')" and "x \<in> set (docs c') \<Longrightarrow> did x = i \<Longrightarrow> x = f d"
proof -
  obtain xs e ys where e: "docs c = xs @ e # ys" "did e = i" "docs c' = xs @ f e # ys" using assms(2) by (auto simp: one_updated_def)
  have "e = d" by (rule ids_distinct_unique [OF assms(1) _ assms(4)]) (use e assms(5) in auto)
  with e show f: "f d \<in> set (docs c')" by simp
  show ids: "ids_distinct did c'" using assms(1) e by (simp add: ids_distinct_def assms(3))
  show "x = f d" if "x \<in> set (docs c')" "did x = i"
    by (rule ids_distinct_unique [OF ids that(1) f]) (simp add: assms(3,5) that(2))
qed

section \<open>The shape of a repository method\<close>

text \<open>
  Every repository writes its methods out in the same five shapes; these lemmas
  read the laws of the driver through each shape.
\<close>

lemma create_shape:
  assumes "lawful (same_id did) M"
    and "(case insert_one M d c of (Inl e, c') \<Rightarrow> (Inl (db_err e), c') | (Inr _, c') \<Rightarrow> (Inr b, c')) = (r, c')"
  shows "docs c' = docs c \<or> (docs c' = docs c @ [d] \<and> (\<forall>x \<in> set (docs c). did x \<noteq> did d))"
    and "r = Inr b' \<Longrightarrow> b' = b \<and> docs c' = docs c @ [d] \<and> (\<forall>x \<in> set (docs c). did x \<noteq> did d)"
    and "r = Inl e' \<Longrightarrow> \<exists>m. e' = ErrOther m"
proof -
  obtain q c0 where q: "insert_one M d c = (q, c0)" by (cases "insert_one M d c")
  with assms(2) have c0: "c0 = c'" by (cases q) auto
  from insert_any [OF assms(1) q]
  show "docs c' = docs c \<or> (docs c' = docs c @ [d] \<and> (\<forall>x \<in> set (docs c). did x \<noteq> did d))"
    by (simp add: c0 same_id_def)
  show "r = Inr b' \<Longrightarrow> b' = b \<and> docs c' = docs c @ [d] \<and> (\<forall>x \<in> set (docs c). did x \<noteq> did d)"
    using insert_ok [OF assms(1), of d c _ c'] q assms(2) by (cases q) (auto simp: same_id_def)
  show "r = Inl e' \<Longrightarrow> \<exists>m. e' = ErrOther m"
    using q assms(2) db_err_other(1) by (cases q) auto
qed

lemma list_shape:
  assumes "lawful cf M"
    and "(case find_all M P (find_sorted k) c of
            (Inl e, c') \<Rightarrow> (Inl (db_err e), c') | (Inr ds, c') \<Rightarrow> (Inr (map g ds), c')) = (r, c')"
  shows "docs c' = docs c"
    and "r = Inr as \<Longrightarrow> mset as = mset (map g (filter P (docs c)))"
    and "r = Inr as \<Longrightarrow> \<exists>ds. as = map g ds \<and> mset ds = mset (filter P (docs c)) \<and> sorted_wrt (\<lambda>a b. k b \<le> k a) ds"
    and "r = Inl e' \<Longrightarrow> \<exists>m. e' = ErrOther m"
proof -
  obtain q c0 where q: "find_all M P (find_sorted k) c = (q, c0)" by (cases "find_all M P (find_sorted k) c")
  with assms(2) have c0: "c0 = c'" by (cases q) auto
  show "docs c' = docs c" using find_all_docs [OF assms(1) q] c0 by simp
  show l: "r = Inr as \<Longrightarrow> \<exists>ds. as = map g ds \<and> mset ds = mset (filter P (docs c)) \<and> sorted_wrt (\<lambda>a b. k b \<le> k a) ds"
    using find_sorted_ok [OF assms(1)] q assms(2) by (cases q) auto
  show "r = Inr as \<Longrightarrow> mset as = mset (map g (filter P (docs c)))"
    using l by (metis mset_map)
  show "r = Inl e' \<Longrightarrow> \<exists>m. e' = ErrOther m"
    using q assms(2) db_err_other(1) by (cases q) auto
qed

lemma get_shape:
  assumes "lawful cf M"
    and "(case from_hex M s of None \<Rightarrow> (Inl ErrNotFound, c)
     | Some i \<Rightarrow>
        (case find_one M (\<lambda>d. did d = i \<and> owner d = u) c of
           (Inl NoDocuments, c') \<Rightarrow> (Inl ErrNotFound, c')
         | (Inl DuplicateKey, c') \<Rightarrow> (Inl (db_err DuplicateKey), c')
         | (Inl (DbFault m), c') \<Rightarrow> (Inl (db_err (DbFault m)), c')
         | (Inr d, c') \<Rightarrow> (Inr (g d), c'))) = (r, c')"
  shows "docs c' = docs c"
    and "r = Inr a \<Longrightarrow> \<exists>d \<in> set (docs c). from_hex M s = Some (did d) \<and> owner d = u \<and> a = g d"
    and "r = Inl ErrNotFound \<Longrightarrow> \<forall>d \<in> set (docs c). \<not> (from_hex M s = Some (did d) \<and> owner d = u)"
    and "r = Inl e' \<Longrightarrow> e' = ErrNotFound \<or> (\<exists>m. e' = ErrOther m)"
proof -
  let ?P = "\<lambda>i d. did d = i \<and> owner d = u"
  have *: "docs c' = docs c \<and>
    (r = Inr a \<longrightarrow> (\<exists>d \<in> set (docs c). from_hex M s = Some (did d) \<and> owner d = u \<and> a = g d)) \<and>
    (r = Inl ErrNotFound \<longrightarrow> (\<forall>d \<in> set (docs c). \<not> (from_hex M s = Some (did d) \<and> owner d = u))) \<and>
    (r = Inl e' \<longrightarrow> e' = ErrNotFound \<or> (\<exists>m. e' = ErrOther m))"
  proof (cases "from_hex M s")
    case None
    then show ?thesis using assms(2) by auto
  next
    case (Some i)
    obtain q c0 where q: "find_one M (?P i) c = (q, c0)" by (cases "find_one M (?P i) c")
    from find_oneD [OF assms(1) q] show ?thesis
      using assms(2) Some q by (auto split: sum.splits db_error.splits)
  qed
  then show "docs c' = docs c"
    and "r = Inr a \<Longrightarrow> \<exists>d \<in> set (docs c). from_hex M s = Some (did d) \<and> owner d = u \<and> a = g d"
    and "r = Inl ErrNotFound \<Longrightarrow> \<forall>d \<in> set (docs c). \<not> (from_hex M s = Some (did d) \<and> owner d = u)"
    and "r = Inl e' \<Longrightarrow> e' = ErrNotFound \<or> (\<exists>m. e' = ErrOther m)"
    by blast+
qed

lemma update_shape:
  assumes "lawful cf M"
    and "(case from_hex M s of None \<Rightarrow> (Inl ErrNotFound, c)
     | Some i \<Rightarrow>
        (case update_one M (\<lambda>d. did d = i \<and> owner d = u) f c of
           (Inl e, c') \<Rightarrow> (Inl (db_err e), c')
         | (Inr n, c') \<Rightarrow> if n = 0 then (Inl ErrNotFound, c') else (Inr (), c'))) = (r, c')"
  shows "docs c' = docs c \<or> (\<exists>i. from_hex M s = Some i \<and>
      one_updated (\<lambda>d. did d = i \<and> owner d = u) f (docs c) (docs c'))"
    and "r = Inr w \<Longrightarrow> \<exists>i. from_hex M s = Some i \<and>
      one_updated (\<lambda>d. did d = i \<and> owner d = u) f (docs c) (docs c')"
    and "r = Inl ErrNotFound \<Longrightarrow> docs c' = docs c \<and>
      (\<forall>d \<in> set (docs c). \<not> (from_hex M s = Some (did d) \<and> owner d = u))"
    and "r = Inl e' \<Longrightarrow> e' = ErrNotFound \<or> (\<exists>m. e' = ErrOther m)"
proof -
  let ?P = "\<lambda>i d. did d = i \<and> owner d = u"
  have *: "(docs c' = docs c \<or> (\<exists>i. from_hex M s = Some i \<and> one_updated (?P i) f (docs c) (docs c'))) \<and>
    (r = Inr w \<longrightarrow> (\<exists>i. from_hex M s = Some i \<and> one_updated (?P i) f (docs c) (docs c'))) \<and>
    (r = Inl ErrNotFound \<longrightarrow> docs c' = docs c \<and>
      (\<forall>d \<in> set (docs c). \<not> (from_hex M s = Some (did d) \<and> owner d = u))) \<and>
    (r = Inl e' \<longrightarrow> e' = ErrNotFound \<or> (\<exists>m. e' = ErrOther m))"
  proof (cases "from_hex M s")
    case None
    then show ?thesis using assms(2) by auto
  next
    case (Some i)
    obtain q c0 where q: "update_one M (?P i) f c = (q, c0)" by (cases "update_one M (?P i) f c")
    from update_oneD [OF assms(1) q] show ?thesis
      using assms(2) Some q by (auto split: sum.splits if_splits)
  qed
  then show "docs c' = docs c \<or> (\<exists>i. from_hex M s = Some i \<and>
      one_updated (\<lambda>d. did d = i \<and> owner d = u) f (docs c) (docs c'))"
    and "r = Inr w \<Longrightarrow> \<exists>i. from_hex M s = Some i \<and>
      one_updated (\<lambda>d. did d = i \<and> owner d = u) f (docs c) (docs c')"
    and "r = Inl ErrNotFound \<Longrightarrow> docs c' = docs c \<and>
      (\<forall>d \<in> set (docs c). \<not> (from_hex M s = Some (did d) \<and> owner d = u))"
    and "r = Inl e' \<Longrightarrow> e' = ErrNotFound \<or> (\<exists>m. e' = ErrOther m)"
    by blast+
qed

lemma delete_shape:
  assumes "lawful cf M"
    and "(case from_hex M s of None \<Rightarrow> (Inl ErrNotFound, c)
     | Some i \<Rightarrow>
        (case delete_one M (\<lambda>d. did d = i \<and> owner d = u) c of
           (Inl e, c') \<Rightarrow> (Inl (db_err e), c')
         | (Inr n, c') \<Rightarrow> if n = 0 then (Inl ErrNotFound, c') else (Inr (), c'))) = (r, c')"
  shows "docs c' = docs c \<or> (\<exists>i. from_hex M s = Some i \<and>
      one_deleted (\<lambda>d. did d = i \<and> owner d = u) (docs c) (docs c'))"
    and "r = Inr w \<Longrightarrow> \<exists>i. from_hex M s = Some i \<and>
      one_deleted (\<lambda>d. did d = i \<and> owner d = u) (docs c) (docs c')"
    and "r = Inl ErrNotFound \<Longrightarrow> docs c' = docs c \<and>
      (\<forall>d \<in> set (docs c). \<not> (from_hex M s = Some (did d) \<and> owner d = u))"
    and "r = Inl e' \<Longrightarrow> e' = ErrNotFound \<or> (\<exists>m. e' = ErrOther m)"
proof -
  let ?P = "\<lambda>i d. did d = i \<and> owner d = u"
  have *: "(docs c' = docs c \<or> (\<exists>i. from_hex M s = Some i \<and> one_deleted (?P i) (docs c) (docs c'))) \<and>
    (r = Inr w \<longrightarrow> (\<exists>i. from_hex M s = Some i \<and> one_deleted (?P i) (docs c) (docs c'))) \<and>
    (r = Inl ErrNotFound \<longrightarrow> docs c' = docs c \<and>
      (\<forall>d \<in> set (docs c). \<not> (from_hex M s = Some (did d) \<and> owner d = u))) \<and>
    (r = Inl e' \<longrightarrow> e' = ErrNotFound \<or> (\<exists>m. e' = ErrOther m))"
  proof (cases "from_hex M s")
    case None
    then show ?thesis using assms(2) by auto
  next
    case (Some i)
    obtain q c0 where q: "delete_one M (?P i) c = (q, c0)" by (cases "delete_one M (?P i) c")
    from deleteD [OF assms(1) q] show ?thesis
      using assms(2) Some q by (auto split: sum.splits if_splits)
  qed
  then show "docs c' = docs c \<or> (\<exists>i. from_hex M s = Some i \<and>
      one_deleted (\<lambda>d. did d = i \<and> owner d = u) (docs c) (docs c'))"
    and "r = Inr w \<Longrightarrow> \<exists>i. from_hex M s = Some i \<and>
      one_deleted (\<lambda>d. did d = i \<and> owner d = u) (docs c) (docs c')"
    and "r = Inl ErrNotFound \<Longrightarrow> docs c' = docs c \<and>
      (\<forall>d \<in> set (docs c). \<not> (from_hex M s = Some (did d) \<and> owner d = u))"
    and "r = Inl e' \<Longrightarrow> e' = ErrNotFound \<or> (\<exists>m. e' = ErrOther m)"
    by blast+
qed

section \<open>The interfaces\<close>

locale owned_repo =
  fixes wf :: "('e, 'd) driver \<Rightarrow> bool"
    and owner :: "'d \<Rightarrow> string"
    and did :: "'d \<Rightarrow> oid"
    and dom_of :: "('e, 'd) driver \<Rightarrow> 'd \<Rightarrow> 'a"
    and owner_of :: "'a \<Rightarrow> string"
    and create :: "('e, 'd) driver \<Rightarrow> oid \<Rightarrow> 'a \<Rightarrow> ('e, 'd) coll \<Rightarrow> 'a res \<times> ('e, 'd) coll"
    and get :: "('e, 'd) driver \<Rightarrow> string \<Rightarrow> string \<Rightarrow> ('e, 'd) coll \<Rightarrow> 'a res \<times> ('e, 'd) coll"
  assumes hex_from: "wf M \<Longrightarrow> from_hex M (hex M i) = Some i"
    and owner_dom: "owner_of (dom_of M d) = owner d"
    and create_any: "wf M \<Longrightarrow> create M i a c = (r, c') \<Longrightarrow>
      docs c' = docs c \<or> (\<exists>d. docs c' = docs c @ [d] \<and> owner d = owner_of a \<and> did d = i \<and>
        (\<forall>x \<in> set (docs c). did x \<noteq> i))"
    and create_ok: "wf M \<Longrightarrow> create M i a c = (Inr b, c') \<Longrightarrow>
      \<exists>d. docs c' = docs c @ [d] \<and> owner d = owner_of a \<and> did d = i \<and> (\<forall>x \<in> set (docs c). did x \<noteq> i)"
    and create_other: "wf M \<Longrightarrow> create M i a c = (Inl e, c') \<Longrightarrow> \<exists>m. e = ErrOther m"
    and get_docs: "wf M \<Longrightarrow> get M s u c = (r, c') \<Longrightarrow> docs c' = docs c"
    and get_ok: "wf M \<Longrightarrow> get M s u c = (Inr a, c') \<Longrightarrow>
      \<exists>d \<in> set (docs c). from_hex M s = Some (did d) \<and> owner d = u \<and> a = dom_of M d"
    and get_none: "wf M \<Longrightarrow> get M s u c = (Inl ErrNotFound, c') \<Longrightarrow>
      \<forall>d \<in> set (docs c). \<not> (from_hex M s = Some (did d) \<and> owner d = u)"
    and get_other: "wf M \<Longrightarrow> get M s u c = (Inl e, c') \<Longrightarrow> e = ErrNotFound \<or> (\<exists>m. e = ErrOther m)"
begin

lemma get_owner:
  assumes "wf M" and "get M s u c = (Inr a, c')"
  shows "owner_of a = u"
  using get_ok [OF assms] owner_dom by auto

text \<open>A document of somebody else is reported exactly like a missing one.\<close>

lemma get_foreign:
  assumes "wf M" and "\<forall>d \<in> set (docs c). from_hex M s = Some (did d) \<longrightarrow> owner d \<noteq> u"
  shows "\<exists>e c'. get M s u c = (Inl e, c') \<and> docs c' = docs c \<and> (e = ErrNotFound \<or> (\<exists>m. e = ErrOther m))"
proof (cases "get M s u c")
  case (Pair r c')
  show ?thesis
  proof (cases r)
    case (Inl e)
    with Pair get_docs [OF assms(1)] get_other [OF assms(1)] show ?thesis by blast
  next
    case (Inr a)
    with Pair get_ok [OF assms(1)] assms(2) show ?thesis by blast
  qed
qed

lemma get_unique:
  assumes wf: "wf M" and c: "ids_distinct did c" and d: "d \<in> set (docs c)" "owner d = u"
    and get: "get M (hex M (did d)) u c = (r, c')"
  shows "r = Inr (dom_of M d) \<or> (\<exists>m. r = Inl (ErrOther m))"
proof (cases r)
  case (Inl e)
  moreover have "e \<noteq> ErrNotFound"
    using get_none [OF wf, of "hex M (did d)" u c c'] get Inl d hex_from [OF wf] by blast
  ultimately have "\<exists>m. e = ErrOther m" using get_other [OF wf] get by blast
  with Inl show ?thesis by simp
next
  case (Inr a)
  obtain x where x: "x \<in> set (docs c)" "did x = did d" "a = dom_of M x"
    using get_ok [OF wf] get hex_from [OF wf] unfolding Inr by fastforce
  have "x = d" by (rule ids_distinct_unique [OF c x(1) d(1) x(2)])
  with x(3) Inr show ?thesis by simp
qed

lemma create_distinct:
  assumes "wf M" and "create M i a c = (r, c')" and "ids_distinct did c"
  shows "ids_distinct did c'"
  using create_any [OF assms(1,2)] assms(3)
  by (elim disjE exE conjE) (simp_all add: ids_distinct_def image_iff, metis)

lemma create_foreign:
  assumes "wf M" and "create M i a c = (r, c')" and "v \<noteq> owner_of a"
  shows "view owner v c' = view owner v c"
  using create_any [OF assms(1,2)] assms(3) by (auto simp: view_def)

lemma create_moves:
  assumes "wf M" and "create M i a c = (r, c')" and "\<And>d. docs c' = docs c @ [d] \<Longrightarrow> wfd d" and "owner_of a = u"
  shows "moves owner did wfd u c c'"
proof -
  have "coll_ok did wfd c \<longrightarrow> (\<forall>d \<in> set (docs c'). wfd d)"
    using create_any [OF assms(1,2)] assms(3) by (auto simp: coll_ok_def)
  then show ?thesis using create_distinct [OF assms(1,2)] create_foreign [OF assms(1,2)] assms(4)
    by (auto simp: moves_def coll_ok_def)
qed

end

locale listed_repo = owned_repo wf owner did dom_of owner_of create get
  for wf :: "('e, 'd) driver \<Rightarrow> bool"
    and owner :: "'d \<Rightarrow> string"
    and did :: "'d \<Rightarrow> oid"
    and dom_of :: "('e, 'd) driver \<Rightarrow> 'd \<Rightarrow> 'a"
    and owner_of :: "'a \<Rightarrow> string"
    and create :: "('e, 'd) driver \<Rightarrow> oid \<Rightarrow> 'a \<Rightarrow> ('e, 'd) coll \<Rightarrow> 'a res \<times> ('e, 'd) coll"
    and get :: "('e, 'd) driver \<Rightarrow> string \<Rightarrow> string \<Rightarrow> ('e, 'd) coll \<Rightarrow> 'a res \<times> ('e, 'd) coll" +
  fixes list_user :: "('e, 'd) driver \<Rightarrow> string \<Rightarrow> ('e, 'd) coll \<Rightarrow> 'a list res \<times> ('e, 'd) coll"
  assumes list_other: "wf M \<Longrightarrow> list_user M u c = (Inl e, c') \<Longrightarrow> \<exists>m. e = ErrOther m"
    and list_docs: "wf M \<Longrightarrow> list_user M u c = (q, c') \<Longrightarrow> docs c' = docs c"
    and list_ok: "wf M \<Longrightarrow> list_user M u c = (Inr as, c') \<Longrightarrow>
      mset as = mset (map (dom_of M) (view owner u c))"
begin

lemma list_owner:
  assumes "wf M" and "list_user M u c = (Inr as, c')" and "a \<in> set as"
  shows "owner_of a = u"
proof -
  have "set as = set (map (dom_of M) (view owner u c))"
    by (rule mset_eq_setD [OF list_ok [OF assms(1,2)]])
  with assms(3) show ?thesis by (auto simp: view_def owner_dom)
qed

text \<open>What Get returns is in the list, and the list holds nothing that Get would not find.\<close>

lemma get_in_list:
  assumes "wf M" and "get M s u c = (Inr a, c1)" and "list_user M u c = (Inr as, c2)"
  shows "a \<in> set as"
proof -
  have "set as = set (map (dom_of M) (view owner u c))"
    by (rule mset_eq_setD [OF list_ok [OF assms(1,3)]])
  with get_ok [OF assms(1,2)] show ?thesis by (auto simp: view_def)
qed

end

locale mutable_repo = owned_repo wf owner did dom_of owner_of create get
  for wf :: "('e, 'd) driver \<Rightarrow> bool"
    and owner :: "'d \<Rightarrow> string"
    and did :: "'d \<Rightarrow> oid"
    and dom_of :: "('e, 'd) driver \<Rightarrow> 'd \<Rightarrow> 'a"
    and owner_of :: "'a \<Rightarrow> string"
    and create :: "('e, 'd) driver \<Rightarrow> oid \<Rightarrow> 'a \<Rightarrow> ('e, 'd) coll \<Rightarrow> 'a res \<times> ('e, 'd) coll"
    and get :: "('e, 'd) driver \<Rightarrow> string \<Rightarrow> string \<Rightarrow> ('e, 'd) coll \<Rightarrow> 'a res \<times> ('e, 'd) coll" +
  fixes id_of :: "'a \<Rightarrow> string"
    and set_doc :: "'a \<Rightarrow> 'd \<Rightarrow> 'd"
    and update :: "('e, 'd) driver \<Rightarrow> 'a \<Rightarrow> ('e, 'd) coll \<Rightarrow> unit res \<times> ('e, 'd) coll"
    and delete :: "('e, 'd) driver \<Rightarrow> string \<Rightarrow> string \<Rightarrow> ('e, 'd) coll \<Rightarrow> unit res \<times> ('e, 'd) coll"
  assumes set_doc_id: "did (set_doc a d) = did d"
    and set_doc_owner: "owner (set_doc a d) = owner d"
    and update_any: "wf M \<Longrightarrow> update M a c = (q, c') \<Longrightarrow> docs c' = docs c \<or>
      (\<exists>i. from_hex M (id_of a) = Some i \<and>
        one_updated (\<lambda>d. did d = i \<and> owner d = owner_of a) (set_doc a) (docs c) (docs c'))"
    and update_ok: "wf M \<Longrightarrow> update M a c = (Inr w, c') \<Longrightarrow>
      \<exists>i. from_hex M (id_of a) = Some i \<and>
        one_updated (\<lambda>d. did d = i \<and> owner d = owner_of a) (set_doc a) (docs c) (docs c')"
    and update_none: "wf M \<Longrightarrow> update M a c = (Inl ErrNotFound, c') \<Longrightarrow> docs c' = docs c \<and>
      (\<forall>d \<in> set (docs c). \<not> (from_hex M (id_of a) = Some (did d) \<and> owner d = owner_of a))"
    and update_other: "wf M \<Longrightarrow> update M a c = (Inl e, c') \<Longrightarrow> e = ErrNotFound \<or> (\<exists>m. e = ErrOther m)"
    and delete_other: "wf M \<Longrightarrow> delete M s u c = (Inl e, c') \<Longrightarrow> e = ErrNotFound \<or> (\<exists>m. e = ErrOther m)"
    and delete_any: "wf M \<Longrightarrow> delete M s u c = (q, c') \<Longrightarrow> docs c' = docs c \<or>
      (\<exists>i. from_hex M s = Some i \<and> one_deleted (\<lambda>d. did d = i \<and> owner d = u) (docs c) (docs c'))"
    and delete_ok: "wf M \<Longrightarrow> delete M s u c = (Inr w, c') \<Longrightarrow>
      \<exists>i. from_hex M s = Some i \<and> one_deleted (\<lambda>d. did d = i \<and> owner d = u) (docs c) (docs c')"
    and delete_none: "wf M \<Longrightarrow> delete M s u c = (Inl ErrNotFound, c') \<Longrightarrow> docs c' = docs c \<and>
      (\<forall>d \<in> set (docs c). \<not> (from_hex M s = Some (did d) \<and> owner d = u))"
begin

lemma update_foreign:
  assumes "wf M" and "update M a c = (q, c')" and "v \<noteq> owner_of a"
  shows "view owner v c' = view owner v c"
  using update_any [OF assms(1,2)]
proof (elim disjE exE conjE)
  fix i
  assume "one_updated (\<lambda>d. did d = i \<and> owner d = owner_of a) (set_doc a) (docs c) (docs c')"
  then show ?thesis
    unfolding view_def by (rule one_updated_filter) (use assms(3) set_doc_owner in auto)
qed (rule view_docs_cong)

lemma delete_foreign:
  assumes "wf M" and "delete M s u c = (q, c')" and "v \<noteq> u"
  shows "view owner v c' = view owner v c"
  using delete_any [OF assms(1,2)]
proof (elim disjE exE conjE)
  fix i
  assume "one_deleted (\<lambda>d. did d = i \<and> owner d = u) (docs c) (docs c')"
  then show ?thesis
    unfolding view_def by (rule one_deleted_filter) (use assms(3) in auto)
qed (rule view_docs_cong)

lemma update_distinct:
  assumes "wf M" and "update M a c = (q, c')" and "ids_distinct did c"
  shows "ids_distinct did c'"
  using update_any [OF assms(1,2)]
proof (elim disjE exE conjE)
  fix i
  assume "one_updated (\<lambda>d. did d = i \<and> owner d = owner_of a) (set_doc a) (docs c) (docs c')"
  then have "map did (docs c') = map did (docs c)" by (rule one_updated_map) (rule set_doc_id)
  with assms(3) show ?thesis by (simp add: ids_distinct_def)
qed (use assms(3) in \<open>simp add: ids_distinct_def\<close>)

lemma delete_distinct:
  assumes "wf M" and "delete M s u c = (q, c')" and "ids_distinct did c"
  shows "ids_distinct did c'"
  using delete_any [OF assms(1,2)] assms(3) by (auto simp: ids_distinct_def one_deleted_def)

lemma update_moves:
  assumes "wf M" and "update M a c = (q, c')" and "\<And>d. d \<in> set (docs c) \<Longrightarrow> wfd d \<Longrightarrow> wfd (set_doc a d)" and "owner_of a = u"
  shows "moves owner did wfd u c c'"
proof -
  have "coll_ok did wfd c \<longrightarrow> (\<forall>d \<in> set (docs c'). wfd d)"
    using update_any [OF assms(1,2)] assms(3) by (auto simp: coll_ok_def dest: one_updated_set)
  then show ?thesis using update_distinct [OF assms(1,2)] update_foreign [OF assms(1,2)] assms(4)
    by (auto simp: moves_def coll_ok_def)
qed

lemma delete_moves:
  assumes "wf M" and "delete M s u c = (q, c')"
  shows "moves owner did wfd u c c'"
  using delete_distinct [OF assms(1,2)] delete_foreign [OF assms(1,2)] delete_any [OF assms(1,2)]
  by (auto simp: moves_def coll_ok_def dest: one_deleted_set)

text \<open>After a successful delete the id is gone, for its owner and for everybody else.\<close>

lemma delete_gone:
  assumes wf: "wf M" and c: "ids_distinct did c" and del: "delete M s u c = (Inr w, c')"
    and get: "get M s v c' = (r, c'')"
  shows "\<exists>e. r = Inl e \<and> (e = ErrNotFound \<or> (\<exists>m. e = ErrOther m))"
proof -
  obtain xs d ys where d: "docs c = xs @ d # ys" "from_hex M s = Some (did d)" "docs c' = xs @ ys"
    using delete_ok [OF wf del] by (auto simp: one_deleted_def)
  have "\<forall>x \<in> set (docs c'). did x \<noteq> did d" using c d by (auto simp: ids_distinct_def image_iff)
  then have "\<forall>x \<in> set (docs c'). from_hex M s = Some (did x) \<longrightarrow> owner x \<noteq> v" using d(2) by auto
  from get_foreign [OF wf this] get show ?thesis by auto
qed

text \<open>A successful update is what the next read returns.\<close>

lemma update_then_get:
  assumes wf: "wf M" and c: "ids_distinct did c" and upd: "update M a c = (Inr w, c')"
    and get: "get M (id_of a) (owner_of a) c' = (r, c'')"
  shows "(\<exists>d \<in> set (docs c). from_hex M (id_of a) = Some (did d) \<and> owner d = owner_of a \<and>
            r = Inr (dom_of M (set_doc a d))) \<or> (\<exists>m. r = Inl (ErrOther m))"
proof -
  obtain xs d ys where d: "docs c = xs @ d # ys" "from_hex M (id_of a) = Some (did d)"
    "owner d = owner_of a" "docs c' = xs @ set_doc a d # ys"
    using update_ok [OF wf upd] by (auto simp: one_updated_def)
  have c': "ids_distinct did c'" by (rule update_distinct [OF wf upd c])
  have in_c': "set_doc a d \<in> set (docs c')" using d(4) by simp
  show ?thesis
  proof (cases r)
    case (Inl e)
    have "from_hex M (id_of a) = Some (did (set_doc a d)) \<and> owner (set_doc a d) = owner_of a"
      using d(2,3) set_doc_id set_doc_owner by simp
    with in_c' have "e \<noteq> ErrNotFound"
      using get_none [OF wf, of "id_of a" "owner_of a" c' c''] get Inl by blast
    then have "\<exists>m. e = ErrOther m" using get_other [OF wf] get Inl by blast
    with Inl show ?thesis by simp
  next
    case (Inr b)
    obtain x where x: "x \<in> set (docs c')" "from_hex M (id_of a) = Some (did x)" "b = dom_of M x"
      using get_ok [OF wf] get unfolding Inr by blast
    have "x = set_doc a d"
      by (rule ids_distinct_unique [OF c' x(1) in_c']) (use x(2) d(2) set_doc_id in auto)
    with x(3) Inr d show ?thesis by auto
  qed
qed

end

end
