(* ===== verification/Outbox.thy ===== *)
theory Outbox imports Mongo Go_Float begin

text \<open>
  shared/outbox: the store of queued events and the relay that publishes them
  (\<open>shared/outbox/outbox.go\<close>). The publisher (NATS behind
  \<open>shared/eventbus\<close>) is a parameter: a function on a state of its own. A payload is
  the JSON value that was marshalled; \<open>json_float\<close> is where \<open>json.Marshal\<close> refuses
  a value.
\<close>

section \<open>JSON values\<close>

datatype json =
    JNull
  | JBool bool
  | JInt int
  | JNum f64
  | JStr string
  | JArr "json list"
  | JObj "(string \<times> json) list"

text \<open>\<open>json.Marshal\<close> has no text for NaN and the infinities.\<close>

definition json_float :: "f64 \<Rightarrow> json option" where
  "json_float x = (if is_finite x then Some (JNum x) else None)"

definition obj_get :: "string \<Rightarrow> (string \<times> json) list \<Rightarrow> json" where
  "obj_get k kvs = (case map_of kvs k of None \<Rightarrow> JNull | Some v \<Rightarrow> v)"

section \<open>Store\<close>

record outbox_event =
  ev_id :: oid
  ev_subject :: string
  ev_msg_id :: string
  ev_payload :: json
  ev_created :: int
  ev_published :: "int option"

type_synonym 'e outbox_coll = "('e, outbox_event) coll"
type_synonym 'e outbox_driver = "('e, outbox_event) driver"

definition Store_Enqueue ::
  "'e outbox_driver \<Rightarrow> gotime \<Rightarrow> oid \<Rightarrow> string \<Rightarrow> json \<Rightarrow> string \<Rightarrow> 'e outbox_coll \<Rightarrow>
   unit res \<times> 'e outbox_coll" where
  "Store_Enqueue M now i subject payload msg_id c =
    (case insert_one M \<lparr>ev_id = i, ev_subject = subject, ev_msg_id = msg_id, ev_payload = payload,
                        ev_created = bson_time (utc now), ev_published = None\<rparr> c of
       (Inl e, c') \<Rightarrow> (Inl (db_err e), c')
     | (Inr _, c') \<Rightarrow> (Inr (), c'))"

section \<open>Relay\<close>

type_synonym 'p publisher = "string \<Rightarrow> json \<Rightarrow> string \<Rightarrow> 'p \<Rightarrow> (string + unit) \<times> 'p"

definition set_published :: "gotime \<Rightarrow> outbox_event \<Rightarrow> outbox_event" where
  "set_published now ev = ev\<lparr>ev_published := Some (bson_time (utc now))\<rparr>"

text \<open>
  The body of the loop of \<open>RelayOnce\<close> for one event: publish, then mark. A failure
  of either is logged and the loop goes on.
\<close>

definition relay_event ::
  "'e outbox_driver \<Rightarrow> 'p publisher \<Rightarrow> gotime \<Rightarrow> outbox_event \<Rightarrow> 'e outbox_coll \<times> 'p \<Rightarrow> 'e outbox_coll \<times> 'p" where
  "relay_event M pub now ev = (\<lambda>(c, p).
    case pub (ev_subject ev) (ev_payload ev) (ev_msg_id ev) p of
      (Inl _, p') \<Rightarrow> (c, p')
    | (Inr _, p') \<Rightarrow>
        (case update_one M (\<lambda>d. ev_id d = ev_id ev) (set_published now) c of (_, c') \<Rightarrow> (c', p')))"

text \<open>
  One pass. \<open>delivered\<close> is the number of events the cursor hands out before it ends:
  \<open>cursor.Next\<close> also ends the loop on an error or a cancelled context.
\<close>

definition Relay_RelayOnce ::
  "'e outbox_driver \<Rightarrow> 'p publisher \<Rightarrow> gotime \<Rightarrow> nat \<Rightarrow> 'e outbox_coll \<times> 'p \<Rightarrow> 'e outbox_coll \<times> 'p" where
  "Relay_RelayOnce M pub now delivered = (\<lambda>(c, p).
    case find_all M (\<lambda>d. ev_published d = None) (find_sorted (\<lambda>_. 0)) c of
      (Inl _, c') \<Rightarrow> (c', p)
    | (Inr evs, c') \<Rightarrow> fold (relay_event M pub now) (take delivered evs) (c', p))"

text \<open>\<open>Run\<close>: one pass per tick of the ticker until the context is cancelled.\<close>

definition Relay_Run ::
  "'e outbox_driver \<Rightarrow> 'p publisher \<Rightarrow> (gotime \<times> nat) list \<Rightarrow> 'e outbox_coll \<times> 'p \<Rightarrow> 'e outbox_coll \<times> 'p" where
  "Relay_Run M pub ticks st = fold (\<lambda>(now, n). Relay_RelayOnce M pub now n) ticks st"

section \<open>What the relay guarantees\<close>

text \<open>
  \<open>sent p\<close> are the messages that the bus has acknowledged; a publisher is honest when
  it acknowledges only what it keeps.
\<close>

definition honest :: "('p \<Rightarrow> (string \<times> json \<times> string) set) \<Rightarrow> 'p publisher \<Rightarrow> bool" where
  "honest sent pub \<longleftrightarrow> (\<forall>s d m p r p'. pub s d m p = (r, p') \<longrightarrow> sent p \<subseteq> sent p' \<and>
     (r = Inr () \<longrightarrow> (s, d, m) \<in> sent p'))"

definition message :: "outbox_event \<Rightarrow> string \<times> json \<times> string" where
  "message ev = (ev_subject ev, ev_payload ev, ev_msg_id ev)"

definition outbox_inv :: "('p \<Rightarrow> (string \<times> json \<times> string) set) \<Rightarrow> 'e outbox_coll \<Rightarrow> 'p \<Rightarrow> bool" where
  "outbox_inv sent c p \<longleftrightarrow> distinct (map ev_id (docs c)) \<and>
     (\<forall>d \<in> set (docs c). ev_published d \<noteq> None \<longrightarrow> message d \<in> sent p)"

text \<open>The queue as a consumer of the guarantee sees it: ids and messages, without the marks.\<close>

definition queue_of :: "'e outbox_coll \<Rightarrow> (oid \<times> string \<times> json \<times> string) list" where
  "queue_of c = map (\<lambda>d. (ev_id d, message d)) (docs c)"

lemma message_set_published [simp]: "message (set_published now d) = message d" "ev_id (set_published now d) = ev_id d"
  by (simp_all add: message_def set_published_def)

lemma queue_mem: "d \<in> set (docs c) \<Longrightarrow> (ev_id d, message d) \<in> set (queue_of c)"
  by (force simp: queue_of_def)

lemma queue_ids: "map fst (queue_of c) = map ev_id (docs c)"
  by (simp add: queue_of_def comp_def)

lemma queue_length: "length (queue_of c) = length (docs c)"
  by (simp add: queue_of_def)

lemma relay_event_cases:
  assumes "lawful cf M" and "relay_event M pub now ev (c, p) = (c', p')"
  obtains e where "pub (ev_subject ev) (ev_payload ev) (ev_msg_id ev) p = (Inl e, p')" "c' = c"
  | "pub (ev_subject ev) (ev_payload ev) (ev_msg_id ev) p = (Inr (), p')"
    "docs c' = docs c \<or> one_updated (\<lambda>d. ev_id d = ev_id ev) (set_published now) (docs c) (docs c')"
proof -
  obtain r q where r: "pub (ev_subject ev) (ev_payload ev) (ev_msg_id ev) p = (r, q)"
    by (cases "pub (ev_subject ev) (ev_payload ev) (ev_msg_id ev) p")
  obtain s c1 where s: "update_one M (\<lambda>d. ev_id d = ev_id ev) (set_published now) c = (s, c1)"
    by (cases "update_one M (\<lambda>d. ev_id d = ev_id ev) (set_published now) c")
  show ?thesis
  proof (cases r)
    case (Inl e)
    with r assms(2) that(1) show ?thesis by (simp add: relay_event_def)
  next
    case (Inr u)
    with r s assms(2) update_one_cases [OF assms(1) s] that(2) show ?thesis
      by (simp add: relay_event_def)
  qed
qed

lemma relay_event_queue:
  assumes "lawful cf M" and "relay_event M pub now ev (c, p) = (c', p')"
  shows "queue_of c' = queue_of c"
  using assms
proof (cases rule: relay_event_cases)
  case 2
  from 2(2) show ?thesis
  proof
    assume "one_updated (\<lambda>d. ev_id d = ev_id ev) (set_published now) (docs c) (docs c')"
    then show ?thesis unfolding queue_of_def by (rule one_updated_map) simp
  qed (simp add: queue_of_def)
qed simp

text \<open>A mark that follows the acknowledgement of the message that is queued under that id.\<close>

lemma mark_inv:
  assumes M: "lawful cf M" and inv: "outbox_inv sent c p" and ev: "(ev_id ev, message ev) \<in> set (queue_of c)" and s: "message ev \<in> sent p"
    and u: "update_one M (\<lambda>d. ev_id d = ev_id ev) (set_published now) c = (r, c')"
  shows "outbox_inv sent c' p" and "queue_of c' = queue_of c"
proof -
  have pub: "relay_event M (\<lambda>_ _ _ p. (Inr (), p)) now ev (c, p) = (c', p)" using u by (simp add: relay_event_def)
  show q: "queue_of c' = queue_of c" by (rule relay_event_queue [OF M pub])
  have "message d \<in> sent p" if d: "d \<in> set (docs c')" "ev_published d \<noteq> None" for d
  proof (cases "d \<in> set (docs c)")
    case True
    with d(2) inv show ?thesis by (simp add: outbox_inv_def)
  next
    case False
    with d(1) update_one_cases [OF M u] obtain x where x: "x \<in> set (docs c)" "ev_id x = ev_id ev" "d = set_published now x"
      using one_updated_set by fastforce
    obtain y where y: "y \<in> set (docs c)" "ev_id y = ev_id ev" "message y = message ev" using ev by (auto simp: queue_of_def)
    have "x = y" using inv x(1,2) y(1,2) by (simp add: outbox_inv_def distinct_map inj_on_def)
    with x(3) y(3) s show ?thesis by simp
  qed
  moreover have "map ev_id (docs c') = map ev_id (docs c)" using q queue_ids by metis
  ultimately show "outbox_inv sent c' p" using inv by (simp add: outbox_inv_def)
qed

lemma relay_event_inv:
  assumes M: "lawful cf M" and h: "honest sent pub" and inv: "outbox_inv sent c p"
    and ev: "(ev_id ev, message ev) \<in> set (queue_of c)"
    and step: "relay_event M pub now ev (c, p) = (c', p')"
  shows "outbox_inv sent c' p' \<and> sent p \<subseteq> sent p'"
proof -
  obtain r q where r: "pub (ev_subject ev) (ev_payload ev) (ev_msg_id ev) p = (r, q)"
    by (cases "pub (ev_subject ev) (ev_payload ev) (ev_msg_id ev) p")
  then have s: "sent p \<subseteq> sent q" "r = Inr () \<Longrightarrow> message ev \<in> sent q" using h unfolding honest_def message_def by blast+
  then have iq: "outbox_inv sent c q" using inv by (auto simp: outbox_inv_def)
  obtain w c1 where w: "update_one M (\<lambda>d. ev_id d = ev_id ev) (set_published now) c = (w, c1)"
    by (cases "update_one M (\<lambda>d. ev_id d = ev_id ev) (set_published now) c")
  show ?thesis
  proof (cases r)
    case (Inl e)
    with r step iq s show ?thesis by (simp add: relay_event_def)
  next
    case (Inr u)
    with r w step mark_inv(1) [OF M iq ev _ w] s show ?thesis by (simp add: relay_event_def)
  qed
qed

lemma relay_events_inv:
  assumes M: "lawful cf M" and h: "honest sent pub"
  shows "outbox_inv sent c p \<Longrightarrow> \<forall>ev \<in> set evs. (ev_id ev, message ev) \<in> set (queue_of c) \<Longrightarrow>
    fold (relay_event M pub now) evs (c, p) = (c', p') \<Longrightarrow>
    outbox_inv sent c' p' \<and> queue_of c' = queue_of c \<and> sent p \<subseteq> sent p'"
proof (induction evs arbitrary: c p)
  case (Cons ev evs)
  obtain c1 p1 where s: "relay_event M pub now ev (c, p) = (c1, p1)" by (cases "relay_event M pub now ev (c, p)")
  have i1: "outbox_inv sent c1 p1 \<and> sent p \<subseteq> sent p1"
    by (rule relay_event_inv [OF M h Cons.prems(1) _ s]) (use Cons.prems(2) in simp)
  have q1: "queue_of c1 = queue_of c" by (rule relay_event_queue [OF M s])
  have "outbox_inv sent c' p' \<and> queue_of c' = queue_of c1 \<and> sent p1 \<subseteq> sent p'"
    by (rule Cons.IH) (use i1 q1 Cons.prems(2,3) s in simp_all)
  with i1 q1 show ?case by auto
qed simp

lemma relay_once_inv:
  assumes M: "lawful cf M" and h: "honest sent pub" and inv: "outbox_inv sent c p"
    and step: "Relay_RelayOnce M pub now n (c, p) = (c', p')"
  shows "outbox_inv sent c' p' \<and> queue_of c' = queue_of c \<and> sent p \<subseteq> sent p'"
proof -
  obtain r c1 where r: "find_all M (\<lambda>d. ev_published d = None) (find_sorted (\<lambda>_. 0)) c = (r, c1)"
    by (cases "find_all M (\<lambda>d. ev_published d = None) (find_sorted (\<lambda>_. 0)) c")
  have d1: "docs c1 = docs c" by (rule find_all_docs [OF M r])
  then have i1: "outbox_inv sent c1 p" "queue_of c1 = queue_of c" using inv by (simp_all add: outbox_inv_def queue_of_def)
  show ?thesis
  proof (cases r)
    case (Inl e)
    with r step i1 show ?thesis by (simp add: Relay_RelayOnce_def)
  next
    case (Inr evs)
    have "set evs \<subseteq> set (docs c)"
      using find_sorted_ok(1) [OF M r [unfolded Inr]] by (metis filter_is_subset mset_eq_setD)
    then have "\<forall>ev \<in> set (take n evs). (ev_id ev, message ev) \<in> set (queue_of c1)"
      using i1(2) queue_mem by (metis in_set_takeD subsetD)
    from relay_events_inv [OF M h i1(1) this, of now c' p'] r step Inr i1(2) show ?thesis
      by (simp add: Relay_RelayOnce_def)
  qed
qed

lemma enqueue_inv:
  assumes "lawful (\<lambda>x y. ev_id x = ev_id y) M" and "outbox_inv sent c p"
    and "Store_Enqueue M now i s d m c = (r, c')"
  shows "outbox_inv sent c' p"
proof -
  let ?ev = "\<lparr>ev_id = i, ev_subject = s, ev_msg_id = m, ev_payload = d, ev_created = bson_time (utc now), ev_published = None\<rparr>"
  obtain q c1 where q: "insert_one M ?ev c = (q, c1)" by (cases "insert_one M ?ev c")
  with assms(3) have "c1 = c'" by (cases q) (auto simp: Store_Enqueue_def)
  with insert_any [OF assms(1) q] assms(2) show ?thesis by (auto simp: outbox_inv_def)
qed

section \<open>Properties\<close>

text \<open>
  Safety: whatever fails and however often the relay runs, no queued event is lost or changed,
  and an event is marked as published only when the bus has acknowledged that very message.
\<close>

theorem relay_run_safe:
  assumes M: "lawful cf M" and h: "honest sent pub" and inv: "outbox_inv sent c p"
    and run: "Relay_Run M pub ticks (c, p) = (c', p')"
  shows "outbox_inv sent c' p' \<and> queue_of c' = queue_of c \<and> sent p \<subseteq> sent p'"
  using inv run
proof (induction ticks arbitrary: c p)
  case (Cons t ticks)
  obtain now n where t: "t = (now, n)" by (cases t)
  obtain c1 p1 where s: "Relay_RelayOnce M pub now n (c, p) = (c1, p1)" by (cases "Relay_RelayOnce M pub now n (c, p)")
  have 1: "outbox_inv sent c1 p1 \<and> queue_of c1 = queue_of c \<and> sent p \<subseteq> sent p1"
    by (rule relay_once_inv [OF M h Cons.prems(1) s])
  have "outbox_inv sent c' p' \<and> queue_of c' = queue_of c1 \<and> sent p1 \<subseteq> sent p'"
    by (rule Cons.IH) (use 1 Cons.prems(2) s t in \<open>simp_all add: Relay_Run_def\<close>)
  with 1 show ?case by auto
qed (simp add: Relay_Run_def)

text \<open>A bus that keeps a log of what it acknowledged and refuses while it is down.\<close>

definition demo_bus :: "(bool list \<times> (string \<times> json \<times> string) list) publisher" where
  "demo_bus s d m = (\<lambda>(up, log). case up of False # rest \<Rightarrow> (Inl ''nats: no responders'', (rest, log))
     | _ \<Rightarrow> (Inr (), (drop 1 up, (s, d, m) # log)))"

definition demo_outbox :: "outbox_event mem" where
  "demo_outbox = mem_coll
     [\<lparr>ev_id = 1, ev_subject = ''finora.transaction.created'', ev_msg_id = ''t1'', ev_payload = JNull, ev_created = 1, ev_published = None\<rparr>,
      \<lparr>ev_id = 2, ev_subject = ''finora.transaction.created'', ev_msg_id = ''t2'', ev_payload = JNull, ev_created = 2, ev_published = None\<rparr>]"

lemma honest_demo: "honest (\<lambda>(up, log). set log) demo_bus"
  by (auto simp: honest_def demo_bus_def split: list.splits bool.splits)

lemma demo_outbox_inv: "outbox_inv (\<lambda>(up, log). set log) demo_outbox (up, [])"
  by (simp add: outbox_inv_def demo_outbox_def mem_coll_def)

theorem relay_run_safe_witness:
  "\<exists>c' p'. Relay_Run (mem_driver (\<lambda>x y. ev_id x = ev_id y)) demo_bus [(zero_time, 9), (zero_time, 9)]
      (demo_outbox, ([False], [])) = (c', p') \<and> outbox_inv (\<lambda>(up, log). set log) c' p'"
proof -
  let ?M = "mem_driver (\<lambda>x y. ev_id x = ev_id y)"
  obtain c' p' where r: "Relay_Run ?M demo_bus [(zero_time, 9), (zero_time, 9)] (demo_outbox, ([False], [])) = (c', p')"
    by (cases "Relay_Run ?M demo_bus [(zero_time, 9), (zero_time, 9)] (demo_outbox, ([False], []))")
  from relay_run_safe [OF lawful_mem honest_demo demo_outbox_inv r] r show ?thesis
    by (intro exI [of _ c'] exI [of _ p']) simp
qed

text \<open>
  C7. Liveness: one pass with a reachable database and bus, whose cursor hands out the whole result,
  leaves every event of the collection delivered, whether or not the marking updates succeed.
\<close>

theorem relay_once_delivers:
  assumes M: "lawful cf M" and h: "honest sent pub" and inv: "outbox_inv sent c p"
    and up: "\<And>s d m q. fst (pub s d m q) = Inr ()"
    and find: "find_all M (\<lambda>d. ev_published d = None) (find_sorted (\<lambda>_. 0)) c = (Inr evs, c1)" "length evs \<le> n"
    and step: "Relay_RelayOnce M pub now n (c, p) = (c', p')"
  shows "\<forall>d \<in> set (docs c'). message d \<in> sent p'"
proof -
  have pub: "\<exists>q'. pub s d m q = (Inr (), q') \<and> sent q \<subseteq> sent q' \<and> (s, d, m) \<in> sent q'" for s d m q
    using h up [of s d m q] unfolding honest_def by (cases "pub s d m q") auto
  have all: "fold (relay_event M pub now) es (x, q) = (x', q') \<Longrightarrow> sent q \<subseteq> sent q' \<and> (\<forall>e \<in> set es. message e \<in> sent q')"
    for es x q x' q'
  proof (induction es arbitrary: x q)
    case (Cons e es)
    obtain q1 where q1: "pub (ev_subject e) (ev_payload e) (ev_msg_id e) q = (Inr (), q1)" "sent q \<subseteq> sent q1" "message e \<in> sent q1"
      using pub [of "ev_subject e" "ev_payload e" "ev_msg_id e" q] by (auto simp: message_def)
    obtain x1 where "relay_event M pub now e (x, q) = (x1, q1)"
      using q1(1) by (cases "update_one M (\<lambda>d. ev_id d = ev_id e) (set_published now) x") (simp add: relay_event_def)
    with Cons.prems Cons.IH [of x1 q1] q1(2,3) show ?case by auto
  qed simp
  have run: "fold (relay_event M pub now) evs (c1, p) = (c', p')"
    using step find by (simp add: Relay_RelayOnce_def)
  have p: "sent p \<subseteq> sent p'" "\<forall>e \<in> set evs. message e \<in> sent p'" using all [OF run] by auto
  have q: "queue_of c' = queue_of c" using relay_once_inv [OF M h inv step] by simp
  have "set evs = set (filter (\<lambda>d. ev_published d = None) (docs c))"
    by (rule mset_eq_setD [OF find_sorted_ok(1) [OF M find(1)]])
  then have "\<forall>d \<in> set (docs c). message d \<in> sent p'"
    using p inv by (fastforce simp: outbox_inv_def)
  then have "\<forall>x \<in> set (queue_of c). snd x \<in> sent p'" by (auto simp: queue_of_def)
  then show ?thesis using q queue_mem by (metis snd_conv)
qed

definition up_bus :: "(string \<times> json \<times> string) list publisher" where
  "up_bus s d m log = (Inr (), (s, d, m) # log)"

theorem relay_once_delivers_witness:
  "\<exists>c' p'. Relay_RelayOnce (mem_driver (\<lambda>x y. ev_id x = ev_id y)) up_bus zero_time 5 (demo_outbox, []) = (c', p') \<and>
     (\<forall>d \<in> set (docs c'). message d \<in> set p') \<and> length (docs c') = 2"
proof -
  let ?M = "mem_driver (\<lambda>x y. ev_id x = ev_id y)"
  have h: "honest set up_bus" by (auto simp: honest_def up_bus_def)
  have i: "outbox_inv set demo_outbox []" by (simp add: outbox_inv_def demo_outbox_def mem_coll_def)
  have "case find_all ?M (\<lambda>d. ev_published d = None) (find_sorted (\<lambda>_. 0)) demo_outbox of
      (Inr es, c) \<Rightarrow> length es \<le> 5 | _ \<Rightarrow> False" by code_simp
  then obtain es c1 where f: "find_all ?M (\<lambda>d. ev_published d = None) (find_sorted (\<lambda>_. 0)) demo_outbox = (Inr es, c1)"
    "length es \<le> 5" by (auto split: prod.splits sum.splits)
  obtain c' p' where s: "Relay_RelayOnce ?M up_bus zero_time 5 (demo_outbox, []) = (c', p')"
    by (cases "Relay_RelayOnce ?M up_bus zero_time 5 (demo_outbox, [])")
  have "queue_of c' = queue_of demo_outbox" using relay_once_inv [OF lawful_mem h i s] by simp
  then have "length (docs c') = 2"
    using queue_length [of c'] queue_length [of demo_outbox] by (simp add: demo_outbox_def mem_coll_def)
  moreover have "\<forall>d \<in> set (docs c'). message d \<in> set p'"
    by (rule relay_once_delivers [OF lawful_mem h i _ f s]) (simp add: up_bus_def)
  ultimately show ?thesis using s by blast
qed

end
