(* ===== verification/Httpx.thy ===== *)
theory Httpx imports Go_Strings begin

text \<open>
  shared/httpx and shared/middleware: the response envelope of every service, the
  request-id and identity middleware, recovery, CORS, the body limit and the rate
  limiter. gin's context is an explicit argument: what a middleware reads (headers,
  client IP) comes in, and what follows it (\<open>c.Next()\<close>) is a function that it may call.
\<close>

section \<open>The envelope\<close>

text \<open>The details of an error: a map of strings (\<open>gin.H\<close>) or a bare string.\<close>

datatype details = Fields "(string \<times> string) list" | Text string

record error_body =
  eb_code :: string
  eb_message :: string
  eb_details :: "details option"

record 'a envelope =
  en_success :: bool
  en_data :: "'a option"
  en_error :: "error_body option"
  en_request_id :: string

text \<open>A status alone (\<open>c.Status(204)\<close>) has no body.\<close>

record 'a response =
  re_status :: nat
  re_body :: "'a envelope option"

definition CodeValidation :: string where "CodeValidation = ''VALIDATION_ERROR''"
definition CodeUnauthorized :: string where "CodeUnauthorized = ''UNAUTHORIZED''"
definition CodeForbidden :: string where "CodeForbidden = ''FORBIDDEN''"
definition CodeNotFound :: string where "CodeNotFound = ''NOT_FOUND''"
definition CodeConflict :: string where "CodeConflict = ''CONFLICT''"
definition CodeInternal :: string where "CodeInternal = ''INTERNAL_ERROR''"
definition CodeRateLimited :: string where "CodeRateLimited = ''RATE_LIMITED''"

definition httpx_Success :: "string \<Rightarrow> nat \<Rightarrow> 'a \<Rightarrow> 'a response" where
  [http_defs]: "httpx_Success rid status x = \<lparr>re_status = status,
     re_body = Some \<lparr>en_success = True, en_data = Some x, en_error = None, en_request_id = rid\<rparr>\<rparr>"

definition httpx_Fail :: "string \<Rightarrow> nat \<Rightarrow> string \<Rightarrow> string \<Rightarrow> details option \<Rightarrow> 'a response" where
  [http_defs]: "httpx_Fail rid status code msg details = \<lparr>re_status = status,
     re_body = Some \<lparr>en_success = False, en_data = None,
       en_error = Some \<lparr>eb_code = code, eb_message = msg, eb_details = details\<rparr>, en_request_id = rid\<rparr>\<rparr>"

definition no_content :: "'a response" where
  [http_defs]: "no_content = \<lparr>re_status = 204, re_body = None\<rparr>"

text \<open>The shape that architecture/api-contracts.md promises to every client.\<close>

definition contract_ok :: "string \<Rightarrow> 'a response \<Rightarrow> bool" where
  "contract_ok rid r \<longleftrightarrow> (case re_body r of
       None \<Rightarrow> re_status r = 204
     | Some e \<Rightarrow> en_request_id e = rid \<and>
         (if en_success e then 200 \<le> re_status r \<and> re_status r < 300 \<and> en_data e \<noteq> None \<and> en_error e = None
          else 400 \<le> re_status r \<and> en_data e = None \<and> en_error e \<noteq> None))"

lemma contract_Success [simp]: "contract_ok rid (httpx_Success rid st x) \<longleftrightarrow> 200 \<le> st \<and> st < 300"
  by (simp add: contract_ok_def httpx_Success_def)

lemma contract_Fail [simp]: "contract_ok rid (httpx_Fail rid st code m d) \<longleftrightarrow> 400 \<le> st"
  by (simp add: contract_ok_def httpx_Fail_def)

lemma contract_no_content [simp]: "contract_ok rid no_content"
  by (simp add: contract_ok_def no_content_def)

section \<open>Middleware\<close>

text \<open>\<open>RequestID\<close>: the header, or a fresh UUID when it is empty.\<close>

definition RequestID :: "string \<Rightarrow> string \<Rightarrow> string" where
  [http_defs]: "RequestID fresh header = (if header = '''' then fresh else header)"

text \<open>\<open>RequireIdentity\<close>: without the header of the gateway nothing behind it runs.\<close>

definition RequireIdentity :: "string \<Rightarrow> string \<Rightarrow> (string \<Rightarrow> 's \<Rightarrow> 'a response \<times> 's) \<Rightarrow> 's \<Rightarrow> 'a response \<times> 's" where
  [http_defs]: "RequireIdentity rid header next s =
    (if header = '''' then (httpx_Fail rid 401 CodeUnauthorized ''missing user identity'' None, s)
     else next header s)"

text \<open>\<open>Recovery\<close>: a handler that panics (\<open>None\<close>) leaves its state behind and answers 500.\<close>

definition Recovery :: "string \<Rightarrow> 'a response option \<times> 's \<Rightarrow> 'a response \<times> 's" where
  [http_defs]: "Recovery rid rs = (case rs of
      (Some r, s) \<Rightarrow> (r, s)
    | (None, s) \<Rightarrow> (httpx_Fail rid 500 CodeInternal ''internal server error'' None, s))"

text \<open>\<open>CORS\<close>: the headers it sets, and whether the request goes on or is answered with 204.\<close>

definition cors_allowed :: "string list \<Rightarrow> string \<Rightarrow> bool" where
  "cors_allowed origins org \<longleftrightarrow> (let allowed = map trim_space origins in ''*'' \<in> set allowed \<or> org \<in> set allowed)"

definition CORS :: "string list \<Rightarrow> string \<Rightarrow> string \<Rightarrow> (string \<times> string) list \<times> bool" where
  [http_defs]: "CORS origins method origin =
    ((if origin \<noteq> '''' \<and> cors_allowed origins origin
      then [(''Access-Control-Allow-Origin'', origin),
            (''Access-Control-Allow-Credentials'', ''true''),
            (''Access-Control-Allow-Methods'', ''GET, POST, PUT, PATCH, DELETE, OPTIONS''),
            (''Access-Control-Allow-Headers'', ''Origin, Content-Type, Authorization, X-Request-Id'')]
      else []), method \<noteq> ''OPTIONS'')"

text \<open>\<open>BodyLimit\<close>: the limit that the reader of the body enforces, if any.\<close>

definition BodyLimit :: "int64 \<Rightarrow> int64 option" where
  [http_defs]: "BodyLimit maxBytes = (if maxBytes <=s 0 then None else Some maxBytes)"

end
