(* ===== verification/Expense_Account.thy ===== *)
theory Expense_Account imports Repo_Spec Go_Float begin

text \<open>
  expense-service, accounts: the domain types of \<open>domain/account.go\<close>, the
  MongoDB repository \<open>repository/mongo_account.go\<close> and the service
  \<open>service/account_service.go\<close>. \<open>time.Now()\<close> and \<open>primitive.NewObjectID()\<close> are
  arguments (\<open>now\<close>, \<open>i\<close>). The repository interprets \<open>mutable_repo\<close>; the service
  lemmas rest on that interpretation.
\<close>

section \<open>Domain\<close>

record account =
  a_id :: string
  a_user :: string
  a_name :: string
  a_type :: string
  a_currency :: string
  a_balance :: f64
  a_created :: gotime
  a_updated :: gotime

record create_account_input =
  ca_name :: string
  ca_type :: string
  ca_currency :: string

record update_account_input =
  ua_name :: string
  ua_type :: string
  ua_currency :: string
  ua_balance :: "f64 option"

definition ValidAccountType :: "string \<Rightarrow> bool" where
  "ValidAccountType t \<longleftrightarrow> t = ''checking'' \<or> t = ''savings'' \<or> t = ''credit'' \<or> t = ''cash''"

section \<open>Repository\<close>

record account_doc =
  ad_id :: oid
  ad_user :: string
  ad_name :: string
  ad_type :: string
  ad_currency :: string
  ad_balance :: f64
  ad_created :: int
  ad_updated :: int

type_synonym 'e account_coll = "('e, account_doc) coll"
type_synonym 'e account_driver = "('e, account_doc) driver"

definition account_toDomain :: "'e account_driver \<Rightarrow> account_doc \<Rightarrow> account" where
  "account_toDomain M d = \<lparr>
     a_id = hex M (ad_id d), a_user = ad_user d, a_name = ad_name d, a_type = ad_type d,
     a_currency = ad_currency d, a_balance = ad_balance d,
     a_created = time_of_bson (ad_created d), a_updated = time_of_bson (ad_updated d)\<rparr>"

definition account_newDoc :: "oid \<Rightarrow> account \<Rightarrow> account_doc" where
  "account_newDoc i a = \<lparr>
     ad_id = i, ad_user = a_user a, ad_name = a_name a, ad_type = a_type a,
     ad_currency = a_currency a, ad_balance = a_balance a,
     ad_created = bson_time (a_created a), ad_updated = bson_time (a_updated a)\<rparr>"

definition account_set :: "account \<Rightarrow> account_doc \<Rightarrow> account_doc" where
  "account_set a d = d\<lparr>
     ad_name := a_name a, ad_type := a_type a, ad_currency := a_currency a,
     ad_balance := a_balance a, ad_updated := bson_time (a_updated a)\<rparr>"

definition AccountRepository_Create ::
  "'e account_driver \<Rightarrow> oid \<Rightarrow> account \<Rightarrow> 'e account_coll \<Rightarrow> account res \<times> 'e account_coll" where
  [repo_defs]: "AccountRepository_Create M i a c =
    (case insert_one M (account_newDoc i a) c of
       (Inl e, c') \<Rightarrow> (Inl (db_err e), c')
     | (Inr _, c') \<Rightarrow> (Inr (a\<lparr>a_id := hex M i\<rparr>), c'))"

definition AccountRepository_ListByUser ::
  "'e account_driver \<Rightarrow> string \<Rightarrow> 'e account_coll \<Rightarrow> account list res \<times> 'e account_coll" where
  [repo_defs]: "AccountRepository_ListByUser M u c =
    (case find_all M (\<lambda>d. ad_user d = u) (find_sorted ad_created) c of
       (Inl e, c') \<Rightarrow> (Inl (db_err e), c')
     | (Inr ds, c') \<Rightarrow> (Inr (map (account_toDomain M) ds), c'))"

definition AccountRepository_GetByIDForUser ::
  "'e account_driver \<Rightarrow> string \<Rightarrow> string \<Rightarrow> 'e account_coll \<Rightarrow> account res \<times> 'e account_coll" where
  [repo_defs]: "AccountRepository_GetByIDForUser M s u c =
    (case from_hex M s of
       None \<Rightarrow> (Inl ErrNotFound, c)
     | Some i \<Rightarrow>
        (case find_one M (\<lambda>d. ad_id d = i \<and> ad_user d = u) c of
           (Inl NoDocuments, c') \<Rightarrow> (Inl ErrNotFound, c')
         | (Inl e, c') \<Rightarrow> (Inl (db_err e), c')
         | (Inr d, c') \<Rightarrow> (Inr (account_toDomain M d), c')))"

definition AccountRepository_Update ::
  "'e account_driver \<Rightarrow> account \<Rightarrow> 'e account_coll \<Rightarrow> unit res \<times> 'e account_coll" where
  [repo_defs]: "AccountRepository_Update M a c =
    (case from_hex M (a_id a) of
       None \<Rightarrow> (Inl ErrNotFound, c)
     | Some i \<Rightarrow>
        (case update_one M (\<lambda>d. ad_id d = i \<and> ad_user d = a_user a) (account_set a) c of
           (Inl e, c') \<Rightarrow> (Inl (db_err e), c')
         | (Inr n, c') \<Rightarrow> if n = 0 then (Inl ErrNotFound, c') else (Inr (), c')))"

definition AccountRepository_DeleteByIDForUser ::
  "'e account_driver \<Rightarrow> string \<Rightarrow> string \<Rightarrow> 'e account_coll \<Rightarrow> unit res \<times> 'e account_coll" where
  [repo_defs]: "AccountRepository_DeleteByIDForUser M s u c =
    (case from_hex M s of
       None \<Rightarrow> (Inl ErrNotFound, c)
     | Some i \<Rightarrow>
        (case delete_one M (\<lambda>d. ad_id d = i \<and> ad_user d = u) c of
           (Inl e, c') \<Rightarrow> (Inl (db_err e), c')
         | (Inr n, c') \<Rightarrow> if n = 0 then (Inl ErrNotFound, c') else (Inr (), c')))"

interpretation acc: mutable_repo "lawful (same_id ad_id)" ad_user ad_id account_toDomain a_user
  AccountRepository_Create AccountRepository_GetByIDForUser
  a_id account_set AccountRepository_Update AccountRepository_DeleteByIDForUser
proof (unfold_locales, goal_cases)
  case (1 M i) then show ?case by (rule hex_roundtrip)
next
  case (2 M d) show ?case by (simp add: account_toDomain_def)
next
  case (3 M i a c r c')
  from create_shape(1) [OF 3 [unfolded AccountRepository_Create_def]]
  show ?case by (auto simp: account_newDoc_def)
next
  case (4 M i a c b c')
  from create_shape(2) [OF 4 [unfolded AccountRepository_Create_def]]
  show ?case by (auto simp: account_newDoc_def)
next
  case (5 M i a c e c') then show ?case unfolding AccountRepository_Create_def by (rule create_shape) simp
next
  case (6 M s u c r c') then show ?case unfolding AccountRepository_GetByIDForUser_def by (rule get_shape)
next
  case (7 M s u c a c') then show ?case
    unfolding AccountRepository_GetByIDForUser_def by (rule get_shape) simp
next
  case (8 M s u c c') then show ?case
    unfolding AccountRepository_GetByIDForUser_def by (rule get_shape) simp
next
  case (9 M s u c e c') then show ?case
    unfolding AccountRepository_GetByIDForUser_def by (rule get_shape) simp
next
  case (10 a d) show ?case by (simp add: account_set_def)
next
  case (11 a d) show ?case by (simp add: account_set_def)
next
  case (12 M a c q c') then show ?case unfolding AccountRepository_Update_def by (rule update_shape)
next
  case (13 M a c w c') then show ?case
    unfolding AccountRepository_Update_def by (rule update_shape) simp
next
  case (14 M a c c') then show ?case
    unfolding AccountRepository_Update_def by (rule update_shape) simp
next
  case (15 M a c e c') then show ?case
    unfolding AccountRepository_Update_def by (rule update_shape) simp
next
  case (16 M s u c e c') then show ?case
    unfolding AccountRepository_DeleteByIDForUser_def by (rule delete_shape) simp
next
  case (17 M s u c q c') then show ?case
    unfolding AccountRepository_DeleteByIDForUser_def by (rule delete_shape)
next
  case (18 M s u c w c') then show ?case
    unfolding AccountRepository_DeleteByIDForUser_def by (rule delete_shape) simp
next
  case (19 M s u c c') then show ?case
    unfolding AccountRepository_DeleteByIDForUser_def by (rule delete_shape) simp
qed

interpretation accl: listed_repo "lawful (same_id ad_id)" ad_user ad_id account_toDomain a_user
  AccountRepository_Create AccountRepository_GetByIDForUser AccountRepository_ListByUser
proof (unfold_locales, goal_cases)
  case (1 M u c e c') then show ?case unfolding AccountRepository_ListByUser_def by (rule list_shape) simp
next
  case (2 M u c q c') then show ?case unfolding AccountRepository_ListByUser_def by (rule list_shape)
next
  case (3 M u c as c') then show ?case
    unfolding AccountRepository_ListByUser_def view_def by (rule list_shape) simp
qed

section \<open>Service\<close>

definition accountService_Create ::
  "'e account_driver \<Rightarrow> gotime \<Rightarrow> oid \<Rightarrow> string \<Rightarrow> create_account_input \<Rightarrow> 'e account_coll \<Rightarrow>
   account res \<times> 'e account_coll" where
  [svc_defs]: "accountService_Create M now i u inp c =
    (let name = trim_space (ca_name inp) in
     if name = '''' then (Inl (ValidationError ''name'' ''name is required''), c)
     else if \<not> ValidAccountType (ca_type inp) then
       (Inl (ValidationError ''type'' ''type must be one of: checking, savings, credit, cash''), c)
     else
       (let currency = trim_space (ca_currency inp) in
        if currency = '''' then (Inl (ValidationError ''currency'' ''currency is required''), c)
        else
          AccountRepository_Create M i
            \<lparr>a_id = '''', a_user = u, a_name = name, a_type = ca_type inp, a_currency = currency,
             a_balance = Fin False 0, a_created = utc now, a_updated = utc now\<rparr> c))"

definition accountService_List ::
  "'e account_driver \<Rightarrow> string \<Rightarrow> 'e account_coll \<Rightarrow> account list res \<times> 'e account_coll" where
  [svc_defs]: "accountService_List M u c = AccountRepository_ListByUser M u c"

definition accountService_Get ::
  "'e account_driver \<Rightarrow> string \<Rightarrow> string \<Rightarrow> 'e account_coll \<Rightarrow> account res \<times> 'e account_coll" where
  [svc_defs]: "accountService_Get M u s c = AccountRepository_GetByIDForUser M s u c"

definition accountService_Update ::
  "'e account_driver \<Rightarrow> gotime \<Rightarrow> string \<Rightarrow> string \<Rightarrow> update_account_input \<Rightarrow> 'e account_coll \<Rightarrow>
   account res \<times> 'e account_coll" where
  [svc_defs]: "accountService_Update M now u s inp c =
    on_ok (AccountRepository_GetByIDForUser M s u c) (\<lambda>acct c1.
     let name = trim_space (ua_name inp) in
     if name = '''' then (Inl (ValidationError ''name'' ''name is required''), c1)
     else if \<not> ValidAccountType (ua_type inp) then
       (Inl (ValidationError ''type'' ''type must be one of: checking, savings, credit, cash''), c1)
     else
       (let currency = trim_space (ua_currency inp) in
        if currency = '''' then (Inl (ValidationError ''currency'' ''currency is required''), c1)
        else
          (let acct1 = acct\<lparr>a_name := name, a_type := ua_type inp, a_currency := currency,
                         a_balance := (case ua_balance inp of None \<Rightarrow> a_balance acct | Some b \<Rightarrow> b),
                         a_updated := utc now\<rparr>
           in on_ok (AccountRepository_Update M acct1 c1) (\<lambda>_ c2. (Inr acct1, c2)))))"

definition accountService_Delete ::
  "'e account_driver \<Rightarrow> string \<Rightarrow> string \<Rightarrow> 'e account_coll \<Rightarrow> unit res \<times> 'e account_coll" where
  [svc_defs]: "accountService_Delete M u s c = AccountRepository_DeleteByIDForUser M s u c"

subsection \<open>The invariant of the stored accounts\<close>

definition wf_account_doc :: "account_doc \<Rightarrow> bool" where
  "wf_account_doc d \<longleftrightarrow> ad_name d \<noteq> '''' \<and> trim_space (ad_name d) = ad_name d \<and>
     ValidAccountType (ad_type d) \<and> ad_currency d \<noteq> '''' \<and> trim_space (ad_currency d) = ad_currency d"

definition accounts_inv :: "'e account_coll \<Rightarrow> bool" where
  "accounts_inv c \<longleftrightarrow> ids_distinct ad_id c \<and> (\<forall>d \<in> set (docs c). wf_account_doc d)"

lemma accounts_inv_docs: "docs c' = docs c \<Longrightarrow> accounts_inv c \<Longrightarrow> accounts_inv c'"
  by (simp add: accounts_inv_def ids_distinct_def)

text \<open>Create and Update, split at the call of the repository that writes.\<close>

lemma accountService_Create_cases:
  assumes "accountService_Create M now i u inp c = (r, c')"
  obtains (refused) f m where "r = Inl (ValidationError f m)" "c' = c"
    "trim_space (ca_name inp) = '''' \<or> \<not> ValidAccountType (ca_type inp) \<or> trim_space (ca_currency inp) = ''''"
  | (called) a where "AccountRepository_Create M i a c = (r, c')"
    "a = \<lparr>a_id = '''', a_user = u, a_name = trim_space (ca_name inp), a_type = ca_type inp,
          a_currency = trim_space (ca_currency inp), a_balance = Fin False 0,
          a_created = utc now, a_updated = utc now\<rparr>"
    "wf_account_doc (account_newDoc i a)"
proof (cases "trim_space (ca_name inp) = '''' \<or> \<not> ValidAccountType (ca_type inp) \<or> trim_space (ca_currency inp) = ''''")
  case True
  then show ?thesis
    using assms refused by (auto simp: accountService_Create_def Let_def split: if_splits)
next
  case False
  then show ?thesis
    using assms called by (simp add: accountService_Create_def Let_def wf_account_doc_def account_newDoc_def)
qed

lemma accountService_Update_cases:
  assumes M: "lawful (same_id ad_id) M" and upd: "accountService_Update M now u s inp c = (r, c')"
  obtains (refused) e where "r = Inl e" "docs c' = docs c"
  | (called) a b c1 q where "AccountRepository_GetByIDForUser M s u c = (Inr b, c1)" "docs c1 = docs c"
    "AccountRepository_Update M a c1 = (q, c')" "r = (case q of Inl e \<Rightarrow> Inl e | Inr _ \<Rightarrow> Inr a)"
    "a = b\<lparr>a_name := trim_space (ua_name inp), a_type := ua_type inp,
           a_currency := trim_space (ua_currency inp),
           a_balance := (case ua_balance inp of None \<Rightarrow> a_balance b | Some x \<Rightarrow> x), a_updated := utc now\<rparr>"
    "\<And>d. wf_account_doc (account_set a d)"
  using upd [unfolded accountService_Update_def]
proof (cases rule: on_okE)
  case (err e)
  then show ?thesis using refused acc.get_docs [OF M] by blast
next
  case (ok b c1)
  have c1: "docs c1 = docs c" by (rule acc.get_docs [OF M ok(1)])
  let ?a = "b\<lparr>a_name := trim_space (ua_name inp), a_type := ua_type inp,
    a_currency := trim_space (ua_currency inp),
    a_balance := (case ua_balance inp of None \<Rightarrow> a_balance b | Some x \<Rightarrow> x), a_updated := utc now\<rparr>"
  show ?thesis
  proof (cases "trim_space (ua_name inp) = '''' \<or> \<not> ValidAccountType (ua_type inp) \<or> trim_space (ua_currency inp) = ''''")
    case True
    then show ?thesis using ok(2) refused c1 by (auto simp: Let_def split: if_splits)
  next
    case False
    obtain q c2 where q: "AccountRepository_Update M ?a c1 = (q, c2)" by (cases "AccountRepository_Update M ?a c1")
    have "c2 = c'" "r = (case q of Inl e \<Rightarrow> Inl e | Inr _ \<Rightarrow> Inr ?a)"
      using ok(2) False q by (cases q; simp add: Let_def)+
    moreover have "wf_account_doc (account_set ?a d)" for d
      using False by (simp add: wf_account_doc_def account_set_def)
    ultimately show ?thesis using called [OF ok(1) c1 q [unfolded \<open>c2 = c'\<close>]] by blast
  qed
qed

subsection \<open>Sequences of calls\<close>

text \<open>
  One call of the account service, with the caller, and a run of such calls by
  any number of users.
\<close>

datatype account_op =
    AccCreate gotime oid create_account_input
  | AccList
  | AccGet string
  | AccUpdate gotime string update_account_input
  | AccDelete string

fun account_step :: "'e account_driver \<Rightarrow> string \<times> account_op \<Rightarrow> 'e account_coll \<Rightarrow> 'e account_coll" where
  "account_step M (u, AccCreate now i inp) c = snd (accountService_Create M now i u inp c)"
| "account_step M (u, AccList) c = snd (accountService_List M u c)"
| "account_step M (u, AccGet s) c = snd (accountService_Get M u s c)"
| "account_step M (u, AccUpdate now s inp) c = snd (accountService_Update M now u s inp c)"
| "account_step M (u, AccDelete s) c = snd (accountService_Delete M u s c)"

definition account_run :: "'e account_driver \<Rightarrow> (string \<times> account_op) list \<Rightarrow> 'e account_coll \<Rightarrow> 'e account_coll" where
  "account_run M ops c = fold (account_step M) ops c"

lemma account_step_inv:
  assumes M: "lawful (same_id ad_id) M" and inv: "accounts_inv c"
  shows "accounts_inv (account_step M (u, op) c)"
proof (cases op)
  case (AccCreate now i inp)
  obtain r c' where r: "accountService_Create M now i u inp c = (r, c')"
    by (cases "accountService_Create M now i u inp c")
  from r have "accounts_inv c'"
  proof (cases rule: accountService_Create_cases)
    case (called a)
    from create_shape(1) [OF M called(1) [unfolded AccountRepository_Create_def]] called(3) inv
    have "\<forall>d \<in> set (docs c'). wf_account_doc d" by (auto simp: accounts_inv_def)
    moreover have "ids_distinct ad_id c'"
      using acc.create_distinct [OF M called(1)] inv by (simp add: accounts_inv_def)
    ultimately show ?thesis by (simp add: accounts_inv_def)
  qed (use inv in simp)
  with r AccCreate show ?thesis by simp
next
  case AccList
  obtain r c' where "AccountRepository_ListByUser M u c = (r, c')" by (cases "AccountRepository_ListByUser M u c")
  with accl.list_docs [OF M] AccList inv show ?thesis
    by (auto simp: accountService_List_def intro: accounts_inv_docs)
next
  case (AccGet s)
  obtain r c' where "AccountRepository_GetByIDForUser M s u c = (r, c')"
    by (cases "AccountRepository_GetByIDForUser M s u c")
  with acc.get_docs [OF M] AccGet inv show ?thesis
    by (auto simp: accountService_Get_def intro: accounts_inv_docs)
next
  case (AccUpdate now s inp)
  obtain r c' where r: "accountService_Update M now u s inp c = (r, c')"
    by (cases "accountService_Update M now u s inp c")
  from M r have "accounts_inv c'"
  proof (cases rule: accountService_Update_cases)
    case (refused e)
    with inv accounts_inv_docs show ?thesis by blast
  next
    case (called a b c1 q)
    have inv1: "accounts_inv c1" by (rule accounts_inv_docs [OF called(2) inv])
    then have "ids_distinct ad_id c'" using acc.update_distinct [OF M called(3)] by (simp add: accounts_inv_def)
    moreover have "\<forall>d \<in> set (docs c'). wf_account_doc d"
      using acc.update_any [OF M called(3)] inv1 called(6)
      by (auto simp: accounts_inv_def dest: one_updated_set)
    ultimately show ?thesis by (simp add: accounts_inv_def)
  qed
  with r AccUpdate show ?thesis by simp
next
  case (AccDelete s)
  obtain r c' where r: "AccountRepository_DeleteByIDForUser M s u c = (r, c')"
    by (cases "AccountRepository_DeleteByIDForUser M s u c")
  have "ids_distinct ad_id c'" using acc.delete_distinct [OF M r] inv by (simp add: accounts_inv_def)
  moreover have "\<forall>d \<in> set (docs c'). wf_account_doc d"
    using acc.delete_any [OF M r] inv by (auto simp: accounts_inv_def dest: one_deleted_set)
  ultimately show ?thesis using r AccDelete by (simp add: accounts_inv_def accountService_Delete_def)
qed

lemma account_step_foreign:
  assumes M: "lawful (same_id ad_id) M" and uv: "u \<noteq> v"
  shows "view ad_user v (account_step M (u, op) c) = view ad_user v c"
proof (cases op)
  case (AccCreate now i inp)
  obtain r c' where r: "accountService_Create M now i u inp c = (r, c')"
    by (cases "accountService_Create M now i u inp c")
  from r have "view ad_user v c' = view ad_user v c"
  proof (cases rule: accountService_Create_cases)
    case (called a)
    then show ?thesis using uv acc.create_foreign [OF M called(1)] by simp
  qed simp
  with r AccCreate show ?thesis by simp
next
  case AccList
  obtain r c' where "AccountRepository_ListByUser M u c = (r, c')" by (cases "AccountRepository_ListByUser M u c")
  with accl.list_docs [OF M] AccList show ?thesis by (auto simp: accountService_List_def intro: view_docs_cong)
next
  case (AccGet s)
  obtain r c' where "AccountRepository_GetByIDForUser M s u c = (r, c')"
    by (cases "AccountRepository_GetByIDForUser M s u c")
  with acc.get_docs [OF M] AccGet show ?thesis by (auto simp: accountService_Get_def intro: view_docs_cong)
next
  case (AccUpdate now s inp)
  obtain r c' where r: "accountService_Update M now u s inp c = (r, c')"
    by (cases "accountService_Update M now u s inp c")
  from M r have "view ad_user v c' = view ad_user v c"
  proof (cases rule: accountService_Update_cases)
    case (refused e)
    then show ?thesis by (intro view_docs_cong) simp
  next
    case (called a b c1 q)
    have "a_user b = u" by (rule acc.get_owner [OF M called(1)])
    then have "view ad_user v c' = view ad_user v c1"
      using acc.update_foreign [OF M called(3)] called(5) uv by simp
    with view_docs_cong [OF called(2)] show ?thesis by simp
  qed
  with r AccUpdate show ?thesis by simp
next
  case (AccDelete s)
  obtain r c' where r: "AccountRepository_DeleteByIDForUser M s u c = (r, c')"
    by (cases "AccountRepository_DeleteByIDForUser M s u c")
  with acc.delete_foreign [OF M r] uv AccDelete show ?thesis by (simp add: accountService_Delete_def)
qed

subsection \<open>Properties\<close>

definition demo_accounts :: "account_doc mem" where
  "demo_accounts = mem_coll
     [\<lparr>ad_id = 7, ad_user = ''ann'', ad_name = ''Main'', ad_type = ''checking'', ad_currency = ''USD'',
       ad_balance = Fin False 0, ad_created = 1000, ad_updated = 1000\<rparr>,
      \<lparr>ad_id = 8, ad_user = ''bob'', ad_name = ''Cash'', ad_type = ''cash'', ad_currency = ''EUR'',
       ad_balance = Fin False 0, ad_created = 2000, ad_updated = 2000\<rparr>]"

lemma demo_accounts_inv: "accounts_inv demo_accounts"
  by code_simp

text \<open>
  Invariant: no sequence of account requests, by any users, with any failures of the database,
  stores an account with a blank or untrimmed name or currency, an unknown type or a duplicate id.
\<close>

theorem account_run_inv:
  assumes "lawful (same_id ad_id) M" and "accounts_inv c"
  shows "accounts_inv (account_run M ops c)"
proof -
  have "\<forall>c. accounts_inv c \<longrightarrow> accounts_inv (fold (account_step M) ops c)"
    using account_step_inv [OF assms(1)] by (induction ops) auto
  with assms(2) show ?thesis by (simp add: account_run_def)
qed

theorem account_run_inv_witness:
  "accounts_inv (account_run (mem_driver (same_id ad_id))
     [(''ann'', AccCreate zero_time 9 \<lparr>ca_name = '' Trip '', ca_type = ''cash'', ca_currency = ''USD''\<rparr>),
      (''bob'', AccDelete (mem_hex 8))] demo_accounts)"
  by (rule account_run_inv [OF lawful_mem demo_accounts_inv])

text \<open>
  Functional: an account that Create returned is what its owner reads back, with the trimmed name
  and currency, the requested type, a zero balance and the timestamps cut to milliseconds; unless the
  database fails. Nobody else can read it.
\<close>

theorem account_create_get:
  assumes M: "lawful (same_id ad_id) M" and inv: "accounts_inv c"
    and create: "accountService_Create M now i u inp c = (Inr a, c')"
    and get: "accountService_Get M v (a_id a) c' = (r, c'')"
  shows "if v = u
    then r = Inr \<lparr>a_id = hex M i, a_user = u, a_name = trim_space (ca_name inp), a_type = ca_type inp,
                  a_currency = trim_space (ca_currency inp), a_balance = Fin False 0,
                  a_created = ms_time now, a_updated = ms_time now\<rparr> \<or> (\<exists>m. r = Inl (ErrOther m))
    else r = Inl ErrNotFound \<or> (\<exists>m. r = Inl (ErrOther m))"
proof -
  from create obtain b where b: "AccountRepository_Create M i b c = (Inr a, c')"
    "b = \<lparr>a_id = '''', a_user = u, a_name = trim_space (ca_name inp), a_type = ca_type inp,
          a_currency = trim_space (ca_currency inp), a_balance = Fin False 0,
          a_created = utc now, a_updated = utc now\<rparr>"
    by (rule accountService_Create_cases) auto
  have "a = b\<lparr>a_id := hex M i\<rparr> \<and> docs c' = docs c @ [account_newDoc i b]"
    using create_shape(2) [OF M b(1) [unfolded AccountRepository_Create_def]] by simp
  then have a: "a_id a = hex M i" and c': "docs c' = docs c @ [account_newDoc i b]" by auto
  have dist: "ids_distinct ad_id c'"
    using acc.create_distinct [OF M b(1)] inv by (simp add: accounts_inv_def)
  have d: "account_newDoc i b \<in> set (docs c')" "ad_id (account_newDoc i b) = i" "ad_user (account_newDoc i b) = u"
    by (simp_all add: c' account_newDoc_def b(2))
  show ?thesis
  proof (cases "v = u")
    case True
    have "AccountRepository_GetByIDForUser M (hex M (ad_id (account_newDoc i b))) u c' = (r, c'')"
      using get True a d(2) by (simp add: accountService_Get_def)
    from acc.get_unique [OF M dist d(1,3) this] True show ?thesis
      by (simp add: account_toDomain_def account_newDoc_def b(2) ms_time_def bson_time_def utc_def)
  next
    case False
    have "\<forall>x \<in> set (docs c'). from_hex M (hex M i) = Some (ad_id x) \<longrightarrow> ad_user x \<noteq> v"
      using ids_distinct_unique [OF dist _ d(1)] d(2,3) False hex_roundtrip [OF M] by auto
    from acc.get_foreign [OF M this] get a False show ?thesis by (auto simp: accountService_Get_def)
  qed
qed

theorem account_create_get_witness:
  "\<exists>a c' r c''. accountService_Create (mem_driver (same_id ad_id)) zero_time 9 ''ann''
       \<lparr>ca_name = '' Trip '', ca_type = ''cash'', ca_currency = ''USD''\<rparr> demo_accounts = (Inr a, c') \<and>
     accountService_Get (mem_driver (same_id ad_id)) ''bob'' (a_id a) c' = (r, c'') \<and>
     (r = Inl ErrNotFound \<or> (\<exists>m. r = Inl (ErrOther m)))"
proof -
  let ?M = "mem_driver (same_id ad_id)"
  let ?r = "accountService_Create ?M zero_time 9 ''ann''
       \<lparr>ca_name = '' Trip '', ca_type = ''cash'', ca_currency = ''USD''\<rparr> demo_accounts"
  have "case ?r of (Inr a, c') \<Rightarrow> True | _ \<Rightarrow> False" by code_simp
  then obtain a c' where c: "?r = (Inr a, c')" by (auto split: prod.splits sum.splits)
  obtain r c'' where g: "accountService_Get ?M ''bob'' (a_id a) c' = (r, c'')"
    by (cases "accountService_Get ?M ''bob'' (a_id a) c'")
  from account_create_get [OF lawful_mem demo_accounts_inv c g] c g show ?thesis by auto
qed

text \<open>
  Functional: after a successful Update the next read by its owner returns exactly the account
  that Update returned (up to the milliseconds of \<open>updated_at\<close>), unless the database fails.
\<close>

theorem account_update_get:
  assumes M: "lawful (same_id ad_id) M" and inv: "accounts_inv c"
    and upd: "accountService_Update M now u s inp c = (Inr a, c')"
    and get: "accountService_Get M u s c' = (r, c'')"
  shows "a_user a = u \<and> from_hex M s = from_hex M (a_id a) \<and>
    (r = Inr (a\<lparr>a_updated := ms_time (a_updated a)\<rparr>) \<or> (\<exists>m. r = Inl (ErrOther m)))"
  using M upd
proof (cases rule: accountService_Update_cases)
  case (called a' b c1 q)
  then have q: "q = Inr ()" "a' = a" by (cases q; auto)+
  note upd1 = called(3) [unfolded q]
  have inv1: "ids_distinct ad_id c1" using accounts_inv_docs [OF called(2) inv] by (simp add: accounts_inv_def)
  obtain d where d: "d \<in> set (docs c)" "from_hex M s = Some (ad_id d)" "ad_user d = u" "b = account_toDomain M d"
    using acc.get_ok [OF M called(1)] by blast
  have a: "a_user a = u" "a_id a = hex M (ad_id d)" "from_hex M (a_id a) = from_hex M s" "a_created a = time_of_bson (ad_created d)"
    using called(5) q(2) d hex_roundtrip [OF M] by (simp_all add: account_toDomain_def)
  have "AccountRepository_GetByIDForUser M (a_id a) (a_user a) c' = (r, c'')"
    using get a by (simp add: accountService_Get_def AccountRepository_GetByIDForUser_def)
  from acc.update_then_get [OF M inv1 upd1 this]
  have "(\<exists>x \<in> set (docs c1). from_hex M (a_id a) = Some (ad_id x) \<and> r = Inr (account_toDomain M (account_set a x))) \<or>
      (\<exists>m. r = Inl (ErrOther m))" by auto
  moreover have "account_toDomain M (account_set a x) = a\<lparr>a_updated := ms_time (a_updated a)\<rparr>"
    if x: "x \<in> set (docs c1)" "from_hex M (a_id a) = Some (ad_id x)" for x
  proof -
    have "x = d" using ids_distinct_unique [OF inv1 x(1)] d x(2) a(3) called(2) by auto
    with a d(3) show ?thesis by (simp add: account_toDomain_def account_set_def ms_time_def)
  qed
  ultimately show ?thesis using a by auto
qed simp

theorem account_update_get_witness:
  "\<exists>a c' r c''. accountService_Update (mem_driver (same_id ad_id)) zero_time ''ann'' (mem_hex 7)
       \<lparr>ua_name = ''New'', ua_type = ''cash'', ua_currency = ''USD'', ua_balance = None\<rparr> demo_accounts = (Inr a, c') \<and>
     accountService_Get (mem_driver (same_id ad_id)) ''ann'' (mem_hex 7) c' = (r, c'') \<and> a_user a = ''ann''"
proof -
  let ?M = "mem_driver (same_id ad_id)"
  let ?r = "accountService_Update ?M zero_time ''ann'' (mem_hex 7)
       \<lparr>ua_name = ''New'', ua_type = ''cash'', ua_currency = ''USD'', ua_balance = None\<rparr> demo_accounts"
  have "case ?r of (Inr a, c') \<Rightarrow> True | _ \<Rightarrow> False" by code_simp
  then obtain a c' where c: "?r = (Inr a, c')" by (auto split: prod.splits sum.splits)
  obtain r c'' where g: "accountService_Get ?M ''ann'' (mem_hex 7) c' = (r, c'')"
    by (cases "accountService_Get ?M ''ann'' (mem_hex 7) c'")
  from account_update_get [OF lawful_mem demo_accounts_inv c g] c g show ?thesis by auto
qed

end
