(* ===== verification/Account_Spec.thy ===== *)
theory Account_Spec imports Expense_Account begin

text \<open>
  What the account service promises, and that it keeps the promise. The abstract state is an
  account book: a map from owner and id to the account. \<open>account_spec\<close> is a relation between
  a call, the book before, the outcome that the caller sees and the book after; a failure of
  the database leaves open whether a write took effect. The refinement theorem says that every call
  of the service, seen through \<open>account_book\<close>, is a step of that specification.
\<close>

section \<open>Books\<close>

definition book :: "('d \<Rightarrow> string) \<Rightarrow> ('d \<Rightarrow> oid) \<Rightarrow> ('d \<Rightarrow> 'a) \<Rightarrow> 'd list \<Rightarrow> (string \<times> oid \<rightharpoonup> 'a)" where
  "book owner did dm ds = map_of (map (\<lambda>d. ((owner d, did d), dm d)) ds)"


lemma book_SomeD: "book owner did dm ds (u, i) = Some a \<Longrightarrow> \<exists>d \<in> set ds. owner d = u \<and> did d = i \<and> a = dm d"
  unfolding book_def by (drule map_of_SomeD) auto

lemma book_unique:
  assumes "distinct (map did ds)" and "d \<in> set ds"
  shows "book owner did dm ds (owner d, did d) = Some (dm d)"
proof -
  have "distinct (map fst (map (\<lambda>d. ((owner d, did d), dm d)) ds))"
    using assms(1) by (auto simp: distinct_map inj_on_def)
  with assms(2) show ?thesis unfolding book_def by (intro map_of_is_SomeI) auto
qed

lemma book_None: "book owner did dm ds (u, i) = None \<longleftrightarrow> (\<forall>d \<in> set ds. \<not> (owner d = u \<and> did d = i))"
  unfolding book_def map_of_eq_None_iff by force

lemma book_snoc:
  assumes "\<forall>x \<in> set ds. did x \<noteq> did d"
  shows "book owner did dm (ds @ [d]) = (book owner did dm ds)((owner d, did d) \<mapsto> dm d)"
proof
  fix k
  have "book owner did dm ds (owner d, did d) = None" using assms by (auto simp: book_None)
  then show "book owner did dm (ds @ [d]) k = ((book owner did dm ds)((owner d, did d) \<mapsto> dm d)) k"
    by (auto simp: book_def map_add_def split: option.splits)
qed

lemma book_around:
  assumes "distinct (map did (xs @ d # ys))" and "did d' = did d" and "owner d' = owner d"
  shows "book owner did dm (xs @ d' # ys) = (book owner did dm (xs @ d # ys))((owner d, did d) \<mapsto> dm d')"
    and "book owner did dm (xs @ ys) = (book owner did dm (xs @ d # ys))((owner d, did d) := None)"
proof -
  have "map_of (map (\<lambda>d. ((owner d, did d), dm d)) ys) (owner d, did d) = None"
    using assms(1) by (auto simp: map_of_eq_None_iff)
  with assms show "book owner did dm (xs @ d' # ys) = (book owner did dm (xs @ d # ys))((owner d, did d) \<mapsto> dm d')"
    and "book owner did dm (xs @ ys) = (book owner did dm (xs @ d # ys))((owner d, did d) := None)"
    by (induction xs) (auto simp: book_def fun_eq_iff)
qed

section \<open>The specification\<close>

type_synonym account_book = "string \<times> oid \<rightharpoonup> account"

datatype account_outcome =
    Stored account
  | Found account
  | Listed "account list"
  | Deleted
  | Refused string
  | Missing
  | Failed

definition good_fields :: "string \<Rightarrow> string \<Rightarrow> string \<Rightarrow> bool" where
  "good_fields name ty currency \<longleftrightarrow> trim_space name \<noteq> '''' \<and> ValidAccountType ty \<and> trim_space currency \<noteq> ''''"

text \<open>The first field that is wrong, in the order in which the service looks at them.\<close>

definition bad_field :: "string \<Rightarrow> string \<Rightarrow> string \<Rightarrow> string" where
  "bad_field name ty currency =
    (if trim_space name = '''' then ''name'' else if \<not> ValidAccountType ty then ''type'' else ''currency'')"

definition opened :: "string \<Rightarrow> string \<Rightarrow> gotime \<Rightarrow> create_account_input \<Rightarrow> account" where
  "opened k u t inp = \<lparr>a_id = k, a_user = u, a_name = trim_space (ca_name inp), a_type = ca_type inp,
     a_currency = trim_space (ca_currency inp), a_balance = Fin False 0, a_created = t, a_updated = t\<rparr>"

definition edited :: "update_account_input \<Rightarrow> account \<Rightarrow> account" where
  "edited inp a = a\<lparr>a_name := trim_space (ua_name inp), a_type := ua_type inp, a_currency := trim_space (ua_currency inp),
     a_balance := (case ua_balance inp of None \<Rightarrow> a_balance a | Some b \<Rightarrow> b)\<rparr>"

text \<open>
  Ids are looked up as \<open>parse\<close> reads them and shown as \<open>print\<close> writes them. The caller sees the
  time of the call in full, the book keeps its milliseconds.
\<close>

inductive account_spec ::
  "(string \<Rightarrow> oid option) \<Rightarrow> (oid \<Rightarrow> string) \<Rightarrow> string \<Rightarrow> account_op \<Rightarrow> account_book \<Rightarrow> account_outcome \<Rightarrow> account_book \<Rightarrow> bool"
  for parse print u where
  create: "good_fields (ca_name inp) (ca_type inp) (ca_currency inp) \<Longrightarrow> \<forall>v. A (v, i) = None \<Longrightarrow>
    account_spec parse print u (AccCreate now i inp) A (Stored (opened (print i) u (utc now) inp))
      (A((u, i) \<mapsto> opened (print i) u (ms_time now) inp))"
| create_refused: "\<not> good_fields (ca_name inp) (ca_type inp) (ca_currency inp) \<Longrightarrow>
    account_spec parse print u (AccCreate now i inp) A (Refused (bad_field (ca_name inp) (ca_type inp) (ca_currency inp))) A"
| create_failed: "A' = A \<or> (\<forall>v. A (v, i) = None) \<and> A' = A((u, i) \<mapsto> opened (print i) u (ms_time now) inp) \<Longrightarrow>
    good_fields (ca_name inp) (ca_type inp) (ca_currency inp) \<Longrightarrow>
    account_spec parse print u (AccCreate now i inp) A Failed A'"
| listing: "(\<And>a. a \<in> set as \<longleftrightarrow> (\<exists>i. A (u, i) = Some a)) \<Longrightarrow> distinct as \<Longrightarrow> account_spec parse print u AccList A (Listed as) A"
| list_failed: "account_spec parse print u AccList A Failed A"
| get: "parse s = Some i \<Longrightarrow> A (u, i) = Some a \<Longrightarrow> account_spec parse print u (AccGet s) A (Found a) A"
| update: "parse s = Some i \<Longrightarrow> A (u, i) = Some a \<Longrightarrow> good_fields (ua_name inp) (ua_type inp) (ua_currency inp) \<Longrightarrow>
    account_spec parse print u (AccUpdate now s inp) A (Stored ((edited inp a)\<lparr>a_updated := utc now\<rparr>))
      (A((u, i) \<mapsto> (edited inp a)\<lparr>a_updated := ms_time now\<rparr>))"
| update_refused: "parse s = Some i \<Longrightarrow> A (u, i) = Some a \<Longrightarrow> \<not> good_fields (ua_name inp) (ua_type inp) (ua_currency inp) \<Longrightarrow>
    account_spec parse print u (AccUpdate now s inp) A (Refused (bad_field (ua_name inp) (ua_type inp) (ua_currency inp))) A"
| update_failed: "A' = A \<or> (\<exists>i a. parse s = Some i \<and> A (u, i) = Some a \<and> good_fields (ua_name inp) (ua_type inp) (ua_currency inp) \<and>
      A' = A((u, i) \<mapsto> (edited inp a)\<lparr>a_updated := ms_time now\<rparr>)) \<Longrightarrow>
    account_spec parse print u (AccUpdate now s inp) A Failed A'"
| delete: "parse s = Some i \<Longrightarrow> A (u, i) = Some a \<Longrightarrow> account_spec parse print u (AccDelete s) A Deleted (A((u, i) := None))"
| delete_failed: "A' = A \<or> (\<exists>i. parse s = Some i \<and> A (u, i) \<noteq> None \<and> A' = A((u, i) := None)) \<Longrightarrow>
    account_spec parse print u (AccDelete s) A Failed A'"
| missing: "op = AccGet s \<or> op = AccDelete s \<or> op = AccUpdate now s inp \<Longrightarrow> \<forall>i. parse s = Some i \<longrightarrow> A (u, i) = None \<Longrightarrow>
    account_spec parse print u op A Missing A"
| get_failed: "account_spec parse print u (AccGet s) A Failed A"

inductive_cases spec_createE: "account_spec parse print u (AccCreate now i inp) A out A'"
inductive_cases spec_getE: "account_spec parse print u (AccGet s) A out A'"
inductive_cases spec_deleteE: "account_spec parse print u (AccDelete s) A out A'"
inductive_cases spec_storedE: "account_spec parse print u op A (Stored a) A'"

text \<open>The specification never touches the accounts of anybody but the caller.\<close>

lemma account_spec_foreign: "account_spec parse print u op A out A' \<Longrightarrow> v \<noteq> u \<Longrightarrow> A' (v, i) = A (v, i)"
  by (induction rule: account_spec.induct) auto

section \<open>The service, seen through its book\<close>

definition account_book :: "'e account_driver \<Rightarrow> 'e account_coll \<Rightarrow> account_book" where
  "account_book M c = book ad_user ad_id (account_toDomain M) (docs c)"

fun outcome_of :: "('a \<Rightarrow> account_outcome) \<Rightarrow> 'a res \<Rightarrow> account_outcome" where
  "outcome_of f (Inr x) = f x"
| "outcome_of f (Inl ErrNotFound) = Missing"
| "outcome_of f (Inl (ValidationError field m)) = Refused field"
| "outcome_of f (Inl _) = Failed"

fun account_call :: "'e account_driver \<Rightarrow> string \<Rightarrow> account_op \<Rightarrow> 'e account_coll \<Rightarrow> account_outcome \<times> 'e account_coll" where
  "account_call M u (AccCreate now i inp) c = map_prod (outcome_of Stored) id (accountService_Create M now i u inp c)"
| "account_call M u AccList c = map_prod (outcome_of Listed) id (accountService_List M u c)"
| "account_call M u (AccGet s) c = map_prod (outcome_of Found) id (accountService_Get M u s c)"
| "account_call M u (AccUpdate now s inp) c = map_prod (outcome_of Stored) id (accountService_Update M now u s inp c)"
| "account_call M u (AccDelete s) c = map_prod (outcome_of (\<lambda>_. Deleted)) id (accountService_Delete M u s c)"

lemma book_get:
  assumes M: "lawful (same_id ad_id) M" and c: "ids_distinct ad_id c" and d: "d \<in> set (docs c)" "from_hex M s = Some (ad_id d)" "ad_user d = u"
  shows "account_book M c (u, ad_id d) = Some (account_toDomain M d)"
  using book_unique [of ad_id "docs c" d ad_user "account_toDomain M"] c d by (simp add: account_book_def ids_distinct_def)

lemma book_missing:
  "\<forall>d \<in> set (docs c). \<not> (from_hex M s = Some (ad_id d) \<and> ad_user d = u) \<Longrightarrow> \<forall>i. from_hex M s = Some i \<longrightarrow> account_book M c (u, i) = None"
  by (auto simp: account_book_def book_None)

lemma account_book_docs: "docs c' = docs c \<Longrightarrow> account_book M c' = account_book M c"
  by (simp add: account_book_def)

lemma book_updated:
  assumes "ids_distinct ad_id c" and "one_updated (\<lambda>d. ad_id d = i \<and> ad_user d = u) (account_set a) (docs c) (docs c')"
  shows "\<exists>d. account_book M c (u, i) = Some (account_toDomain M d) \<and>
    account_book M c' = (account_book M c)((u, i) \<mapsto> account_toDomain M (account_set a d))"
proof -
  obtain xs d ys where d: "docs c = xs @ d # ys" "ad_id d = i" "ad_user d = u" "docs c' = xs @ account_set a d # ys"
    using assms(2) by (auto simp: one_updated_def)
  have dist: "distinct (map ad_id (xs @ d # ys))" using assms(1) d(1) by (simp add: ids_distinct_def)
  have "book ad_user ad_id (account_toDomain M) (xs @ d # ys) (u, i) = Some (account_toDomain M d)"
    using book_unique [OF dist, of d ad_user "account_toDomain M"] d(2,3) by simp
  moreover have "book ad_user ad_id (account_toDomain M) (xs @ account_set a d # ys) =
      (book ad_user ad_id (account_toDomain M) (xs @ d # ys))((u, i) \<mapsto> account_toDomain M (account_set a d))"
    using book_around(1) [OF dist, of "account_set a d" ad_user] d(2,3) by (simp add: account_set_def)
  ultimately show ?thesis by (auto simp: account_book_def d(1,4))
qed

lemma book_deleted:
  assumes "ids_distinct ad_id c" and "one_deleted (\<lambda>d. ad_id d = i \<and> ad_user d = u) (docs c) (docs c')"
  shows "\<exists>a. account_book M c (u, i) = Some a" and "account_book M c' = (account_book M c)((u, i) := None)"
proof -
  obtain xs d ys where d: "docs c = xs @ d # ys" "ad_id d = i" "ad_user d = u" "docs c' = xs @ ys"
    using assms(2) by (auto simp: one_deleted_def)
  have dist: "distinct (map ad_id (xs @ d # ys))" using assms(1) d(1) by (simp add: ids_distinct_def)
  show "\<exists>a. account_book M c (u, i) = Some a"
    using book_unique [OF dist, of d ad_user "account_toDomain M"] d(2,3) by (simp add: account_book_def d(1))
  show "account_book M c' = (account_book M c)((u, i) := None)"
    using book_around(2) [OF dist, of d ad_user] d(2,3) by (simp add: account_book_def d(1,4))
qed

lemma fresh_id: "\<forall>x \<in> set (docs c). ad_id x \<noteq> i \<Longrightarrow> \<forall>v. account_book M c (v, i) = None"
  by (auto simp: account_book_def book_None)

lemma stored_account: "account_toDomain M (account_newDoc i (opened k u (utc now) inp)) = opened (hex M i) u (ms_time now) inp"
  by (simp add: account_toDomain_def account_newDoc_def opened_def ms_time_def bson_time_def utc_def)

lemma Create_refines:
  assumes M: "lawful (same_id ad_id) M" and r: "accountService_Create M now i u inp c = (r, c')"
  shows "account_spec (from_hex M) (hex M) u (AccCreate now i inp) (account_book M c) (outcome_of Stored r) (account_book M c')"
proof (cases "good_fields (ca_name inp) (ca_type inp) (ca_currency inp)")
  case False
  then have "c' = c \<and> (\<exists>m. r = Inl (ValidationError (bad_field (ca_name inp) (ca_type inp) (ca_currency inp)) m))"
    using r by (auto simp: accountService_Create_def good_fields_def bad_field_def Let_def)
  with account_spec.create_refused [OF False] show ?thesis by auto
next
  case good: True
  let ?a = "opened '''' u (utc now) inp"
  have call: "AccountRepository_Create M i ?a c = (r, c')"
    using r good by (simp add: accountService_Create_def good_fields_def Let_def opened_def)
  have snoc: "\<forall>v. account_book M c (v, i) = None" "account_book M c' = (account_book M c)((u, i) \<mapsto> opened (hex M i) u (ms_time now) inp)"
    if "docs c' = docs c @ [account_newDoc i ?a]" "\<forall>x \<in> set (docs c). ad_id x \<noteq> i"
    using fresh_id [OF that(2)] book_snoc [of "docs c" ad_id "account_newDoc i ?a" ad_user "account_toDomain M"] that
    by (simp_all add: account_book_def stored_account) (simp_all add: account_newDoc_def opened_def)
  show ?thesis
  proof (cases r)
    case (Inr a)
    have a: "a = ?a\<lparr>a_id := hex M i\<rparr> \<and> docs c' = docs c @ [account_newDoc i ?a]"
      using create_shape(2) [OF M call [unfolded AccountRepository_Create_def Inr]] by simp
    moreover have "\<forall>x \<in> set (docs c). ad_id x \<noteq> i" using acc.create_ok [OF M call [unfolded Inr]] by auto
    moreover have "?a\<lparr>a_id := hex M i\<rparr> = opened (hex M i) u (utc now) inp" by (simp add: opened_def)
    ultimately show ?thesis using snoc account_spec.create [OF good snoc(1)] Inr by simp
  next
    case (Inl e)
    then obtain m where e: "e = ErrOther m" using acc.create_other [OF M] call by blast
    have "docs c' = docs c \<or> docs c' = docs c @ [account_newDoc i ?a] \<and> (\<forall>x \<in> set (docs c). ad_id x \<noteq> i)"
      using create_shape(1) [OF M call [unfolded AccountRepository_Create_def]] acc.create_any [OF M call] by auto
    then have "account_book M c' = account_book M c \<or>
      (\<forall>v. account_book M c (v, i) = None) \<and> account_book M c' = (account_book M c)((u, i) \<mapsto> opened (hex M i) u (ms_time now) inp)"
      using account_book_docs snoc by blast
    then have "account_spec (from_hex M) (hex M) u (AccCreate now i inp) (account_book M c) Failed (account_book M c')"
      by (rule account_spec.create_failed [OF _ good])
    with Inl e show ?thesis by simp
  qed
qed

lemma List_refines:
  assumes M: "lawful (same_id ad_id) M" and c: "ids_distinct ad_id c" and r: "accountService_List M u c = (r, c')"
  shows "account_spec (from_hex M) (hex M) u AccList (account_book M c) (outcome_of Listed r) (account_book M c')"
proof -
  have l: "AccountRepository_ListByUser M u c = (r, c')" using r by (simp add: accountService_List_def)
  have b: "account_book M c' = account_book M c" by (rule account_book_docs) (rule accl.list_docs [OF M l])
  show ?thesis
  proof (cases r)
    case (Inl e)
    then obtain m where "e = ErrOther m" using accl.list_other [OF M] l by blast
    with b Inl account_spec.list_failed show ?thesis by simp
  next
    case (Inr as)
    note m = accl.list_ok [OF M l [unfolded Inr]]
    have sub: "d \<in> set (docs c) \<Longrightarrow> account_book M c (ad_user d, ad_id d) = Some (account_toDomain M d)" for d
      using book_unique [of ad_id "docs c" d] c by (simp add: account_book_def ids_distinct_def)
    have "a \<in> set as \<longleftrightarrow> (\<exists>i. account_book M c (u, i) = Some a)" for a
      using mset_eq_setD [OF m] sub by (auto simp: view_def account_book_def dest!: book_SomeD)
    moreover have "inj_on (account_toDomain M) (set (docs c))"
      using ids_distinct_unique [OF c] hex_inj [OF M] by (auto simp: inj_on_def account_toDomain_def)
    then have "distinct (map (account_toDomain M) (view ad_user u c))"
      using c by (auto simp: view_def ids_distinct_def distinct_map intro: distinct_filter inj_on_subset)
    then have "distinct as" using mset_eq_imp_distinct_iff [OF m] by simp
    ultimately show ?thesis using account_spec.listing b Inr by simp
  qed
qed

lemma Get_refines:
  assumes M: "lawful (same_id ad_id) M" and c: "ids_distinct ad_id c" and r: "accountService_Get M u s c = (r, c')"
  shows "account_spec (from_hex M) (hex M) u (AccGet s) (account_book M c) (outcome_of Found r) (account_book M c')"
proof -
  have g: "AccountRepository_GetByIDForUser M s u c = (r, c')" using r by (simp add: accountService_Get_def)
  have b: "account_book M c' = account_book M c" by (rule account_book_docs) (rule acc.get_docs [OF M g])
  show ?thesis
  proof (cases r)
    case (Inr a)
    obtain d where "d \<in> set (docs c)" "from_hex M s = Some (ad_id d)" "ad_user d = u" "a = account_toDomain M d"
      using acc.get_ok [OF M g [unfolded Inr]] by blast
    with account_spec.get book_get [OF M c] b Inr show ?thesis by simp
  next
    case (Inl e)
    consider "e = ErrNotFound" | m where "e = ErrOther m" using acc.get_other [OF M] g Inl by blast
    then show ?thesis
    proof cases
      case 1
      from book_missing [OF acc.get_none [OF M g [unfolded Inl 1]]]
      have "account_spec (from_hex M) (hex M) u (AccGet s) (account_book M c) Missing (account_book M c)"
        by (intro account_spec.missing) auto
      with b Inl 1 show ?thesis by simp
    qed (use b Inl account_spec.get_failed in simp)
  qed
qed

lemma Delete_refines:
  assumes M: "lawful (same_id ad_id) M" and c: "ids_distinct ad_id c" and r: "accountService_Delete M u s c = (r, c')"
  shows "account_spec (from_hex M) (hex M) u (AccDelete s) (account_book M c) (outcome_of (\<lambda>_. Deleted) r) (account_book M c')"
proof -
  have g: "AccountRepository_DeleteByIDForUser M s u c = (r, c')" using r by (simp add: accountService_Delete_def)
  note del = book_deleted [OF c]
  show ?thesis
  proof (cases r)
    case (Inr w)
    obtain i where "from_hex M s = Some i" "one_deleted (\<lambda>d. ad_id d = i \<and> ad_user d = u) (docs c) (docs c')"
      using acc.delete_ok [OF M g [unfolded Inr]] by blast
    then obtain a where a: "from_hex M s = Some i" "account_book M c (u, i) = Some a" "account_book M c' = (account_book M c)((u, i) := None)"
      using del by blast
    with account_spec.delete [of "from_hex M" s i "account_book M c" u a, OF a(1,2)] Inr show ?thesis by simp
  next
    case (Inl e)
    consider "e = ErrNotFound" | m where "e = ErrOther m" using acc.delete_other [OF M] g Inl by blast
    then show ?thesis
    proof cases
      case 1
      from acc.delete_none [OF M g [unfolded Inl 1]] have "account_book M c' = account_book M c"
        "\<forall>i. from_hex M s = Some i \<longrightarrow> account_book M c (u, i) = None" using account_book_docs book_missing by blast+
      then have "account_spec (from_hex M) (hex M) u (AccDelete s) (account_book M c) Missing (account_book M c')"
        by (simp only:) (intro account_spec.missing; auto)
      with Inl 1 show ?thesis by simp
    next
      case (2 m)
      have "account_book M c' = account_book M c \<or>
        (\<exists>i. from_hex M s = Some i \<and> account_book M c (u, i) \<noteq> None \<and> account_book M c' = (account_book M c)((u, i) := None))"
        using acc.delete_any [OF M g]
      proof (elim disjE exE conjE)
        fix i assume "from_hex M s = Some i" "one_deleted (\<lambda>d. ad_id d = i \<and> ad_user d = u) (docs c) (docs c')"
        with del [of i u c' M] show ?thesis by auto
      qed (use account_book_docs [of c' c M] in blast)
      then have "account_spec (from_hex M) (hex M) u (AccDelete s) (account_book M c) Failed (account_book M c')"
        by (rule account_spec.delete_failed)
      with Inl 2 show ?thesis by simp
    qed
  qed
qed

text \<open>A failed lookup before an update, and the book after a document was overwritten.\<close>

lemma get_error_refines:
  assumes M: "lawful (same_id ad_id) M" and g: "AccountRepository_GetByIDForUser M s u c = (Inl e, c1)" and op: "op = AccUpdate now s inp"
  shows "account_spec (from_hex M) (hex M) u op (account_book M c) (outcome_of Stored (Inl e)) (account_book M c)"
proof -
  consider "e = ErrNotFound" | m where "e = ErrOther m" using acc.get_other [OF M g] by blast
  then show ?thesis
  proof cases
    case 1
    from book_missing [OF acc.get_none [OF M g [unfolded 1]]] show ?thesis unfolding 1 op outcome_of.simps
      by (intro account_spec.missing) auto
  next
    case (2 m)
    show ?thesis unfolding 2 op outcome_of.simps by (rule account_spec.update_failed) simp
  qed
qed

lemma book_edited:
  assumes c: "ids_distinct ad_id c" and look: "account_book M c (u, k) = Some b"
    and upd: "one_updated (\<lambda>x. ad_id x = k \<and> ad_user x = u) (account_set ((edited inp b)\<lparr>a_updated := utc now\<rparr>)) (docs c) (docs c')"
  shows "account_book M c' = (account_book M c)((u, k) \<mapsto> (edited inp b)\<lparr>a_updated := ms_time now\<rparr>)"
proof -
  obtain x where x: "account_book M c (u, k) = Some (account_toDomain M x)"
    "account_book M c' = (account_book M c)((u, k) \<mapsto> account_toDomain M (account_set ((edited inp b)\<lparr>a_updated := utc now\<rparr>) x))"
    using book_updated [OF c upd] by blast
  have "account_toDomain M x = b" using x(1) look by simp
  then have "account_toDomain M (account_set ((edited inp b)\<lparr>a_updated := utc now\<rparr>) x) = (edited inp b)\<lparr>a_updated := ms_time now\<rparr>"
    by (auto simp: account_toDomain_def account_set_def edited_def ms_time_def bson_time_def utc_def)
  with x(2) show ?thesis by simp
qed

lemma Update_refines:
  assumes M: "lawful (same_id ad_id) M" and c: "ids_distinct ad_id c" and r: "accountService_Update M now u s inp c = (r, c')"
  shows "account_spec (from_hex M) (hex M) u (AccUpdate now s inp) (account_book M c) (outcome_of Stored r) (account_book M c')"
proof -
  obtain q c1 where g: "AccountRepository_GetByIDForUser M s u c = (q, c1)" by (cases "AccountRepository_GetByIDForUser M s u c")
  have d1: "docs c1 = docs c" by (rule acc.get_docs [OF M g])
  have b1: "account_book M c1 = account_book M c" by (rule account_book_docs [OF d1])
  have c1: "ids_distinct ad_id c1" using c d1 by (simp add: ids_distinct_def)
  show ?thesis
  proof (cases q)
    case (Inl e)
    then have r': "r = Inl e" "c' = c1" using r g by (simp_all add: accountService_Update_def)
    then show ?thesis using get_error_refines [OF M g [unfolded Inl] refl] b1 by simp
  next
    case (Inr b)
    obtain d where d: "d \<in> set (docs c)" "from_hex M s = Some (ad_id d)" "ad_user d = u" "b = account_toDomain M d"
      using acc.get_ok [OF M g [unfolded Inr]] by blast
    have look: "account_book M c (u, ad_id d) = Some b" using book_get [OF M c d(1,2,3)] d(4) by simp
    show ?thesis
    proof (cases "good_fields (ua_name inp) (ua_type inp) (ua_currency inp)")
      case False
      then have "c' = c1 \<and> (\<exists>m. r = Inl (ValidationError (bad_field (ua_name inp) (ua_type inp) (ua_currency inp)) m))"
        using r g Inr by (auto simp: accountService_Update_def good_fields_def bad_field_def Let_def)
      then obtain m where "c' = c1" "r = Inl (ValidationError (bad_field (ua_name inp) (ua_type inp) (ua_currency inp)) m)" by blast
      moreover have "account_spec (from_hex M) (hex M) u (AccUpdate now s inp) (account_book M c)
          (Refused (bad_field (ua_name inp) (ua_type inp) (ua_currency inp))) (account_book M c)"
        by (rule account_spec.update_refused) (rule d(2), rule look, rule False)
      ultimately show ?thesis using b1 by simp
    next
      case good: True
      let ?a = "(edited inp b)\<lparr>a_updated := utc now\<rparr>" and ?new = "(edited inp b)\<lparr>a_updated := ms_time now\<rparr>"
      obtain w c2 where u: "AccountRepository_Update M ?a c1 = (w, c2)" by (cases "AccountRepository_Update M ?a c1")
      have r': "r = (case w of Inl e \<Rightarrow> Inl e | Inr _ \<Rightarrow> Inr ?a)" "c' = c2"
        using r g Inr good u by (cases w; simp add: accountService_Update_def good_fields_def Let_def edited_def)+
      have id: "a_id ?a = hex M (ad_id d)" "a_user ?a = u" by (simp_all add: edited_def d(3,4) account_toDomain_def)
      have fx: "from_hex M (a_id ?a) = Some (ad_id d)" using id(1) hex_roundtrip [OF M] by simp
      have set: "account_book M c' = (account_book M c)((u, ad_id d) \<mapsto> ?new)"
        if upd: "one_updated (\<lambda>x. ad_id x = ad_id d \<and> ad_user x = u) (account_set ?a) (docs c1) (docs c')"
        using book_edited [OF c1 _ upd] b1 look by simp
      show ?thesis
      proof (cases w)
        case (Inr v)
        have "account_book M c' = (account_book M c)((u, ad_id d) \<mapsto> ?new)"
          using acc.update_ok [OF M u [unfolded Inr]] fx id(2) set r'(2) by auto
        moreover have "account_spec (from_hex M) (hex M) u (AccUpdate now s inp) (account_book M c) (Stored ?a) ((account_book M c)((u, ad_id d) \<mapsto> ?new))"
          by (rule account_spec.update) (rule d(2), rule look, rule good)
        ultimately show ?thesis using r'(1) Inr by simp
      next
        case (Inl e)
        have "e \<noteq> ErrNotFound"
        proof
          assume "e = ErrNotFound"
          from acc.update_none [OF M u [unfolded Inl this]] d(1,3) d1 fx id(2) show False by auto
        qed
        then obtain m where e: "e = ErrOther m" using acc.update_other [OF M u [unfolded Inl]] by blast
        have "docs c' = docs c1 \<or> one_updated (\<lambda>x. ad_id x = ad_id d \<and> ad_user x = u) (account_set ?a) (docs c1) (docs c')"
          using acc.update_any [OF M u] unfolding fx id(2) r'(2) by auto
        then have "account_book M c' = account_book M c \<or> account_book M c' = (account_book M c)((u, ad_id d) \<mapsto> ?new)"
          using set account_book_docs [of c' c1 M] b1 by auto
        then have "account_spec (from_hex M) (hex M) u (AccUpdate now s inp) (account_book M c) Failed (account_book M c')"
          using d(2) look good by (intro account_spec.update_failed) blast
        with r'(1) Inl e show ?thesis by simp
      qed
    qed
  qed
qed

text \<open>
  C12. Refinement: every call of the account service, by any user and with any failures of
  the database, is a step of the account book specification, in what the caller gets to see as
  well as in what is stored; and the stored accounts stay well formed, so this holds along
  every run.
\<close>

theorem account_service_refines:
  assumes "lawful (same_id ad_id) M" and "accounts_inv c" and "account_call M u op c = (out, c')"
  shows "account_spec (from_hex M) (hex M) u op (account_book M c) out (account_book M c') \<and> accounts_inv c'"
proof
  have ids: "ids_distinct ad_id c" using assms(2) by (simp add: accounts_inv_def)
  show "account_spec (from_hex M) (hex M) u op (account_book M c) out (account_book M c')"
    using assms(3) Create_refines [OF assms(1)] List_refines [OF assms(1) ids] Get_refines [OF assms(1) ids]
      Update_refines [OF assms(1) ids] Delete_refines [OF assms(1) ids]
    by (cases op) (auto simp: map_prod_def split: prod.splits)
  have "account_step M (u, op) c = c'" using assms(3) by (cases op) (auto simp: map_prod_def split: prod.splits)
  with account_step_inv [OF assms(1,2), of u op] show "accounts_inv c'" by simp
qed

theorem account_service_refines_witness:
  "\<exists>out c'. account_call (mem_driver (same_id ad_id)) ''bob'' (AccDelete (mem_hex 7)) demo_accounts = (out, c') \<and>
     (out = Missing \<or> out = Failed) \<and> account_book (mem_driver (same_id ad_id)) c' (''ann'', 7) \<noteq> None"
proof -
  let ?M = "mem_driver (same_id ad_id) :: bool list account_driver"
  obtain out c' where r: "account_call ?M ''bob'' (AccDelete (mem_hex 7)) demo_accounts = (out, c')"
    by (cases "account_call ?M ''bob'' (AccDelete (mem_hex 7)) demo_accounts")
  note spec = account_service_refines [OF lawful_mem demo_accounts_inv r, THEN conjunct1]
  have A: "account_book ?M demo_accounts (''bob'', 7) = None" "account_book ?M demo_accounts (''ann'', 7) \<noteq> None"
    by (simp_all add: account_book_def book_def demo_accounts_def mem_coll_def)
  have h: "from_hex ?M (mem_hex 7) = Some 7" using hex_roundtrip [OF lawful_mem, of "same_id ad_id" 7] by (simp add: mem_driver_def)
  from spec A h account_spec_foreign [OF spec, of "''ann''" 7] have "out = Missing \<or> out = Failed" "account_book ?M c' (''ann'', 7) \<noteq> None"
    by (auto elim!: spec_deleteE)
  with r show ?thesis by blast
qed

end
