(* ===== verification/Expense_Category.thy ===== *)
theory Expense_Category imports Repo_Spec begin

text \<open>
  expense-service, categories: \<open>domain/category.go\<close>, \<open>repository/mongo_category.go\<close>
  and \<open>service/category_service.go\<close>. Categories are created, listed and looked up,
  never changed, so the repository interprets \<open>listed_repo\<close>.
\<close>

section \<open>Domain\<close>

definition ValidTransactionType :: "string \<Rightarrow> bool" where
  "ValidTransactionType t \<longleftrightarrow> t = ''income'' \<or> t = ''expense''"

record category =
  c_id :: string
  c_user :: string
  c_name :: string
  c_type :: string
  c_created :: gotime
  c_updated :: gotime

record create_category_input =
  cc_name :: string
  cc_type :: string

section \<open>Repository\<close>

record category_doc =
  cd_id :: oid
  cd_user :: string
  cd_name :: string
  cd_type :: string
  cd_created :: int
  cd_updated :: int

type_synonym 'e category_coll = "('e, category_doc) coll"
type_synonym 'e category_driver = "('e, category_doc) driver"

definition category_toDomain :: "'e category_driver \<Rightarrow> category_doc \<Rightarrow> category" where
  "category_toDomain M d = \<lparr>
     c_id = hex M (cd_id d), c_user = cd_user d, c_name = cd_name d, c_type = cd_type d,
     c_created = time_of_bson (cd_created d), c_updated = time_of_bson (cd_updated d)\<rparr>"

definition category_newDoc :: "oid \<Rightarrow> category \<Rightarrow> category_doc" where
  "category_newDoc i a = \<lparr>
     cd_id = i, cd_user = c_user a, cd_name = c_name a, cd_type = c_type a,
     cd_created = bson_time (c_created a), cd_updated = bson_time (c_updated a)\<rparr>"

definition CategoryRepository_Create ::
  "'e category_driver \<Rightarrow> oid \<Rightarrow> category \<Rightarrow> 'e category_coll \<Rightarrow> category res \<times> 'e category_coll" where
  [repo_defs]: "CategoryRepository_Create M i a c =
    (case insert_one M (category_newDoc i a) c of
       (Inl e, c') \<Rightarrow> (Inl (db_err e), c')
     | (Inr _, c') \<Rightarrow> (Inr (a\<lparr>c_id := hex M i\<rparr>), c'))"

definition CategoryRepository_ListByUser ::
  "'e category_driver \<Rightarrow> string \<Rightarrow> 'e category_coll \<Rightarrow> category list res \<times> 'e category_coll" where
  [repo_defs]: "CategoryRepository_ListByUser M u c =
    (case find_all M (\<lambda>d. cd_user d = u) (find_sorted cd_created) c of
       (Inl e, c') \<Rightarrow> (Inl (db_err e), c')
     | (Inr ds, c') \<Rightarrow> (Inr (map (category_toDomain M) ds), c'))"

definition CategoryRepository_GetByIDForUser ::
  "'e category_driver \<Rightarrow> string \<Rightarrow> string \<Rightarrow> 'e category_coll \<Rightarrow> category res \<times> 'e category_coll" where
  [repo_defs]: "CategoryRepository_GetByIDForUser M s u c =
    (case from_hex M s of
       None \<Rightarrow> (Inl ErrNotFound, c)
     | Some i \<Rightarrow>
        (case find_one M (\<lambda>d. cd_id d = i \<and> cd_user d = u) c of
           (Inl NoDocuments, c') \<Rightarrow> (Inl ErrNotFound, c')
         | (Inl e, c') \<Rightarrow> (Inl (db_err e), c')
         | (Inr d, c') \<Rightarrow> (Inr (category_toDomain M d), c')))"

interpretation cat: owned_repo "lawful (same_id cd_id)" cd_user cd_id category_toDomain c_user
  CategoryRepository_Create CategoryRepository_GetByIDForUser
proof (unfold_locales, goal_cases)
  case (1 M i) then show ?case by (rule hex_roundtrip)
next
  case (2 M d) show ?case by (simp add: category_toDomain_def)
next
  case (3 M i a c r c')
  from create_shape(1) [OF 3 [unfolded CategoryRepository_Create_def]]
  show ?case by (auto simp: category_newDoc_def)
next
  case (4 M i a c b c')
  from create_shape(2) [OF 4 [unfolded CategoryRepository_Create_def]]
  show ?case by (auto simp: category_newDoc_def)
next
  case (5 M i a c e c') then show ?case unfolding CategoryRepository_Create_def by (rule create_shape) simp
next
  case (6 M s u c r c') then show ?case unfolding CategoryRepository_GetByIDForUser_def by (rule get_shape)
next
  case (7 M s u c a c') then show ?case
    unfolding CategoryRepository_GetByIDForUser_def by (rule get_shape) simp
next
  case (8 M s u c c') then show ?case
    unfolding CategoryRepository_GetByIDForUser_def by (rule get_shape) simp
next
  case (9 M s u c e c') then show ?case
    unfolding CategoryRepository_GetByIDForUser_def by (rule get_shape) simp
qed

interpretation catl: listed_repo "lawful (same_id cd_id)" cd_user cd_id category_toDomain c_user
  CategoryRepository_Create CategoryRepository_GetByIDForUser CategoryRepository_ListByUser
proof (unfold_locales, goal_cases)
  case (1 M u c e c') then show ?case unfolding CategoryRepository_ListByUser_def by (rule list_shape) simp
next
  case (2 M u c q c') then show ?case unfolding CategoryRepository_ListByUser_def by (rule list_shape)
next
  case (3 M u c as c') then show ?case
    unfolding CategoryRepository_ListByUser_def view_def by (rule list_shape) simp
qed

section \<open>Service\<close>

definition categoryService_Create ::
  "'e category_driver \<Rightarrow> gotime \<Rightarrow> oid \<Rightarrow> string \<Rightarrow> create_category_input \<Rightarrow> 'e category_coll \<Rightarrow>
   category res \<times> 'e category_coll" where
  [svc_defs]: "categoryService_Create M now i u inp c =
    (let name = trim_space (cc_name inp) in
     if name = '''' then (Inl (ValidationError ''name'' ''name is required''), c)
     else if \<not> ValidTransactionType (cc_type inp) then
       (Inl (ValidationError ''type'' ''type must be one of: income, expense''), c)
     else CategoryRepository_Create M i
            \<lparr>c_id = '''', c_user = u, c_name = name, c_type = cc_type inp,
             c_created = utc now, c_updated = utc now\<rparr> c)"

definition categoryService_List ::
  "'e category_driver \<Rightarrow> string \<Rightarrow> 'e category_coll \<Rightarrow> category list res \<times> 'e category_coll" where
  [svc_defs]: "categoryService_List M u c = CategoryRepository_ListByUser M u c"

definition wf_category_doc :: "category_doc \<Rightarrow> bool" where
  "wf_category_doc d \<longleftrightarrow> cd_name d \<noteq> '''' \<and> trim_space (cd_name d) = cd_name d \<and> ValidTransactionType (cd_type d)"

definition categories_inv :: "'e category_coll \<Rightarrow> bool" where
  "categories_inv c \<longleftrightarrow> ids_distinct cd_id c \<and> (\<forall>d \<in> set (docs c). wf_category_doc d)"

lemma categories_inv_docs: "docs c' = docs c \<Longrightarrow> categories_inv c \<Longrightarrow> categories_inv c'"
  by (simp add: categories_inv_def ids_distinct_def)

lemma categoryService_Create_cases:
  assumes "categoryService_Create M now i u inp c = (r, c')"
  obtains (refused) f m where "r = Inl (ValidationError f m)" "c' = c"
  | (called) a where "CategoryRepository_Create M i a c = (r, c')" "c_user a = u"
    "wf_category_doc (category_newDoc i a)"
proof (cases "trim_space (cc_name inp) = '''' \<or> \<not> ValidTransactionType (cc_type inp)")
  case True
  then show ?thesis
    using assms refused by (auto simp: categoryService_Create_def Let_def split: if_splits)
next
  case False
  then show ?thesis
    using assms called by (simp add: categoryService_Create_def Let_def wf_category_doc_def category_newDoc_def)
qed

lemma categoryService_Create_inv:
  assumes M: "lawful (same_id cd_id) M" and inv: "categories_inv c"
    and r: "categoryService_Create M now i u inp c = (r, c')"
  shows "categories_inv c'"
  using r
proof (cases rule: categoryService_Create_cases)
  case (called a)
  from create_shape(1) [OF M called(1) [unfolded CategoryRepository_Create_def]] called(3) inv
  have "\<forall>d \<in> set (docs c'). wf_category_doc d" by (auto simp: categories_inv_def)
  moreover have "ids_distinct cd_id c'"
    using cat.create_distinct [OF M called(1)] inv by (simp add: categories_inv_def)
  ultimately show ?thesis by (simp add: categories_inv_def)
qed (use inv in simp)

lemma categoryService_Create_foreign:
  assumes M: "lawful (same_id cd_id) M" and r: "categoryService_Create M now i u inp c = (r, c')"
    and "v \<noteq> u"
  shows "view cd_user v c' = view cd_user v c"
  using r
proof (cases rule: categoryService_Create_cases)
  case (called a)
  then show ?thesis using assms(3) cat.create_foreign [OF M called(1)] by simp
qed simp

lemma categoryService_List_docs:
  assumes "lawful (same_id cd_id) M" and "categoryService_List M u c = (r, c')"
  shows "docs c' = docs c"
  using assms unfolding categoryService_List_def by (rule catl.list_docs)

end
