(* ===== verification/Expense_Transaction.thy ===== *)
theory Expense_Transaction imports Expense_Account Expense_Category Outbox begin

text \<open>
  expense-service, transactions: \<open>domain/transaction.go\<close>, \<open>domain/event.go\<close>,
  \<open>repository/mongo_transaction.go\<close>, \<open>service/transaction_service.go\<close> and
  \<open>events/publisher.go\<close>. The service reads three collections and writes two
  (transactions and the outbox), so its state is the whole database of
  expense-service, \<open>expense_db\<close>, and its parameters are the drivers of the four
  collections, \<open>expense_drivers\<close>.
\<close>

section \<open>Domain\<close>

record transaction =
  tx_id :: string
  tx_user :: string
  tx_account :: string
  tx_category :: "string option"
  tx_type :: string
  tx_amount :: f64
  tx_currency :: string
  tx_date :: gotime
  tx_note :: string
  tx_created :: gotime
  tx_updated :: gotime

record transaction_filter =
  tf_account :: string
  tf_category :: string
  tf_from :: "gotime option"
  tf_to :: "gotime option"
  tf_page :: int64
  tf_page_size :: int64

record transaction_page =
  tp_transactions :: "transaction list"
  tp_page :: int64
  tp_page_size :: int64
  tp_total :: nat

text \<open>\<open>CreateTransactionInput\<close> and \<open>UpdateTransactionInput\<close> have the same fields.\<close>

record transaction_input =
  ti_account :: string
  ti_category :: "string option"
  ti_type :: string
  ti_amount :: f64
  ti_currency :: string
  ti_date :: gotime
  ti_note :: string

section \<open>Repository\<close>

record transaction_doc =
  td_id :: oid
  td_user :: string
  td_account :: string
  td_category :: "string option"
  td_type :: string
  td_amount :: f64
  td_currency :: string
  td_date :: int
  td_note :: string
  td_created :: int
  td_updated :: int

type_synonym 'e transaction_coll = "('e, transaction_doc) coll"
type_synonym 'e transaction_driver = "('e, transaction_doc) driver"

definition transaction_toDomain :: "'e transaction_driver \<Rightarrow> transaction_doc \<Rightarrow> transaction" where
  "transaction_toDomain M d = \<lparr>
     tx_id = hex M (td_id d), tx_user = td_user d, tx_account = td_account d, tx_category = td_category d,
     tx_type = td_type d, tx_amount = td_amount d, tx_currency = td_currency d,
     tx_date = time_of_bson (td_date d), tx_note = td_note d,
     tx_created = time_of_bson (td_created d), tx_updated = time_of_bson (td_updated d)\<rparr>"

definition transaction_newDoc :: "oid \<Rightarrow> transaction \<Rightarrow> transaction_doc" where
  "transaction_newDoc i t = \<lparr>
     td_id = i, td_user = tx_user t, td_account = tx_account t, td_category = tx_category t,
     td_type = tx_type t, td_amount = tx_amount t, td_currency = tx_currency t,
     td_date = bson_time (tx_date t), td_note = tx_note t,
     td_created = bson_time (tx_created t), td_updated = bson_time (tx_updated t)\<rparr>"

definition transaction_set :: "transaction \<Rightarrow> transaction_doc \<Rightarrow> transaction_doc" where
  "transaction_set t d = d\<lparr>
     td_account := tx_account t, td_category := tx_category t, td_type := tx_type t,
     td_amount := tx_amount t, td_currency := tx_currency t, td_date := bson_time (tx_date t),
     td_note := tx_note t, td_updated := bson_time (tx_updated t)\<rparr>"

definition TransactionRepository_Create ::
  "'e transaction_driver \<Rightarrow> oid \<Rightarrow> transaction \<Rightarrow> 'e transaction_coll \<Rightarrow> transaction res \<times> 'e transaction_coll" where
  [repo_defs]: "TransactionRepository_Create M i t c =
    (case insert_one M (transaction_newDoc i t) c of
       (Inl e, c') \<Rightarrow> (Inl (db_err e), c')
     | (Inr _, c') \<Rightarrow> (Inr (t\<lparr>tx_id := hex M i\<rparr>), c'))"

text \<open>The query document as the predicate that it denotes.\<close>

definition buildTransactionFilter :: "string \<Rightarrow> transaction_filter \<Rightarrow> transaction_doc \<Rightarrow> bool" where
  "buildTransactionFilter u f d \<longleftrightarrow> td_user d = u \<and>
     (tf_account f \<noteq> '''' \<longrightarrow> td_account d = tf_account f) \<and>
     (tf_category f \<noteq> '''' \<longrightarrow> td_category d = Some (tf_category f)) \<and>
     (case tf_from f of None \<Rightarrow> True | Some t \<Rightarrow> bson_time t \<le> td_date d) \<and>
     (case tf_to f of None \<Rightarrow> True | Some t \<Rightarrow> td_date d \<le> bson_time t)"

text \<open>The page of a filter; the skip is computed in \<open>int64\<close> and wraps around.\<close>

definition repo_page :: "int64 \<Rightarrow> int64" where
  "repo_page p = (if p <s 1 then 1 else p)"

definition repo_page_size :: "int64 \<Rightarrow> int64" where
  "repo_page_size n = (let n1 = (if n <s 1 then 20 else n) in if 100 <s n1 then 100 else n1)"

definition TransactionRepository_ListByUser ::
  "'e transaction_driver \<Rightarrow> string \<Rightarrow> transaction_filter \<Rightarrow> 'e transaction_coll \<Rightarrow>
   transaction_page res \<times> 'e transaction_coll" where
  [repo_defs]: "TransactionRepository_ListByUser M u f c =
    (let q = buildTransactionFilter u f in
     case count_docs M q c of
       (Inl e, c1) \<Rightarrow> (Inl (db_err e), c1)
     | (Inr cnt, c1) \<Rightarrow>
        (let page = repo_page (tf_page f); pageSize = repo_page_size (tf_page_size f);
             skip = (page - 1) * pageSize
         in case find_all M q \<lparr>sort_desc = td_date, skip_of = sint skip, limit_of = nat (sint pageSize)\<rparr> c1 of
              (Inl e, c2) \<Rightarrow> (Inl (db_err e), c2)
            | (Inr ds, c2) \<Rightarrow>
                (Inr \<lparr>tp_transactions = map (transaction_toDomain M) ds, tp_page = 0, tp_page_size = 0,
                      tp_total = cnt\<rparr>, c2)))"

definition TransactionRepository_GetByIDForUser ::
  "'e transaction_driver \<Rightarrow> string \<Rightarrow> string \<Rightarrow> 'e transaction_coll \<Rightarrow> transaction res \<times> 'e transaction_coll" where
  [repo_defs]: "TransactionRepository_GetByIDForUser M s u c =
    (case from_hex M s of
       None \<Rightarrow> (Inl ErrNotFound, c)
     | Some i \<Rightarrow>
        (case find_one M (\<lambda>d. td_id d = i \<and> td_user d = u) c of
           (Inl NoDocuments, c') \<Rightarrow> (Inl ErrNotFound, c')
         | (Inl e, c') \<Rightarrow> (Inl (db_err e), c')
         | (Inr d, c') \<Rightarrow> (Inr (transaction_toDomain M d), c')))"

definition TransactionRepository_Update ::
  "'e transaction_driver \<Rightarrow> transaction \<Rightarrow> 'e transaction_coll \<Rightarrow> unit res \<times> 'e transaction_coll" where
  [repo_defs]: "TransactionRepository_Update M t c =
    (case from_hex M (tx_id t) of
       None \<Rightarrow> (Inl ErrNotFound, c)
     | Some i \<Rightarrow>
        (case update_one M (\<lambda>d. td_id d = i \<and> td_user d = tx_user t) (transaction_set t) c of
           (Inl e, c') \<Rightarrow> (Inl (db_err e), c')
         | (Inr n, c') \<Rightarrow> if n = 0 then (Inl ErrNotFound, c') else (Inr (), c')))"

definition TransactionRepository_DeleteByIDForUser ::
  "'e transaction_driver \<Rightarrow> string \<Rightarrow> string \<Rightarrow> 'e transaction_coll \<Rightarrow> unit res \<times> 'e transaction_coll" where
  [repo_defs]: "TransactionRepository_DeleteByIDForUser M s u c =
    (case from_hex M s of
       None \<Rightarrow> (Inl ErrNotFound, c)
     | Some i \<Rightarrow>
        (case delete_one M (\<lambda>d. td_id d = i \<and> td_user d = u) c of
           (Inl e, c') \<Rightarrow> (Inl (db_err e), c')
         | (Inr n, c') \<Rightarrow> if n = 0 then (Inl ErrNotFound, c') else (Inr (), c')))"

interpretation txr: mutable_repo "lawful (same_id td_id)" td_user td_id transaction_toDomain tx_user
  TransactionRepository_Create TransactionRepository_GetByIDForUser
  tx_id transaction_set TransactionRepository_Update TransactionRepository_DeleteByIDForUser
proof (unfold_locales, goal_cases)
  case (1 M i) then show ?case by (rule hex_roundtrip)
next
  case (2 M d) show ?case by (simp add: transaction_toDomain_def)
next
  case (3 M i a c r c')
  from create_shape(1) [OF 3 [unfolded TransactionRepository_Create_def]]
  show ?case by (auto simp: transaction_newDoc_def)
next
  case (4 M i a c b c')
  from create_shape(2) [OF 4 [unfolded TransactionRepository_Create_def]]
  show ?case by (auto simp: transaction_newDoc_def)
next
  case (5 M i a c e c') then show ?case unfolding TransactionRepository_Create_def by (rule create_shape) simp
next
  case (6 M s u c r c') then show ?case unfolding TransactionRepository_GetByIDForUser_def by (rule get_shape)
next
  case (7 M s u c a c') then show ?case
    unfolding TransactionRepository_GetByIDForUser_def by (rule get_shape) simp
next
  case (8 M s u c c') then show ?case
    unfolding TransactionRepository_GetByIDForUser_def by (rule get_shape) simp
next
  case (9 M s u c e c') then show ?case
    unfolding TransactionRepository_GetByIDForUser_def by (rule get_shape) simp
next
  case (10 a d) show ?case by (simp add: transaction_set_def)
next
  case (11 a d) show ?case by (simp add: transaction_set_def)
next
  case (12 M a c q c') then show ?case unfolding TransactionRepository_Update_def by (rule update_shape)
next
  case (13 M a c w c') then show ?case
    unfolding TransactionRepository_Update_def by (rule update_shape) simp
next
  case (14 M a c c') then show ?case
    unfolding TransactionRepository_Update_def by (rule update_shape) simp
next
  case (15 M a c e c') then show ?case
    unfolding TransactionRepository_Update_def by (rule update_shape) simp
next
  case (16 M s u c e c') then show ?case
    unfolding TransactionRepository_DeleteByIDForUser_def by (rule delete_shape) simp
next
  case (17 M s u c q c') then show ?case
    unfolding TransactionRepository_DeleteByIDForUser_def by (rule delete_shape)
next
  case (18 M s u c w c') then show ?case
    unfolding TransactionRepository_DeleteByIDForUser_def by (rule delete_shape) simp
next
  case (19 M s u c c') then show ?case
    unfolding TransactionRepository_DeleteByIDForUser_def by (rule delete_shape) simp
qed

section \<open>The database of expense-service\<close>

record 'e expense_db =
  db_acc :: "'e account_coll"
  db_cat :: "'e category_coll"
  db_tx :: "'e transaction_coll"
  db_out :: "'e outbox_coll"

record 'e expense_drivers =
  m_acc :: "'e account_driver"
  m_cat :: "'e category_driver"
  m_tx :: "'e transaction_driver"
  m_out :: "'e outbox_driver"

definition on_acc :: "('e account_coll \<Rightarrow> 'r \<times> 'e account_coll) \<Rightarrow> 'e expense_db \<Rightarrow> 'r \<times> 'e expense_db" where
  "on_acc f s = (case f (db_acc s) of (r, c) \<Rightarrow> (r, s\<lparr>db_acc := c\<rparr>))"

definition on_cat :: "('e category_coll \<Rightarrow> 'r \<times> 'e category_coll) \<Rightarrow> 'e expense_db \<Rightarrow> 'r \<times> 'e expense_db" where
  "on_cat f s = (case f (db_cat s) of (r, c) \<Rightarrow> (r, s\<lparr>db_cat := c\<rparr>))"

definition on_tx :: "('e transaction_coll \<Rightarrow> 'r \<times> 'e transaction_coll) \<Rightarrow> 'e expense_db \<Rightarrow> 'r \<times> 'e expense_db" where
  "on_tx f s = (case f (db_tx s) of (r, c) \<Rightarrow> (r, s\<lparr>db_tx := c\<rparr>))"

definition on_out :: "('e outbox_coll \<Rightarrow> 'r \<times> 'e outbox_coll) \<Rightarrow> 'e expense_db \<Rightarrow> 'r \<times> 'e expense_db" where
  "on_out f s = (case f (db_out s) of (r, c) \<Rightarrow> (r, s\<lparr>db_out := c\<rparr>))"

definition lawful_expense :: "'e expense_drivers \<Rightarrow> bool" where
  "lawful_expense D \<longleftrightarrow> lawful (same_id ad_id) (m_acc D) \<and> lawful (same_id cd_id) (m_cat D) \<and>
     lawful (same_id td_id) (m_tx D) \<and> lawful (same_id ev_id) (m_out D)"

lemma lawful_expenseD:
  assumes "lawful_expense D"
  shows "lawful (same_id ad_id) (m_acc D)" "lawful (same_id cd_id) (m_cat D)"
    "lawful (same_id td_id) (m_tx D)" "lawful (same_id ev_id) (m_out D)"
  using assms by (simp_all add: lawful_expense_def)

section \<open>The event publisher\<close>

definition TransactionCreatedSubject :: string where
  "TransactionCreatedSubject = ''finora.transaction.created''"

text \<open>\<open>json.Marshal\<close> of \<open>TransactionCreatedEvent\<close>; \<open>category_id\<close> is \<open>omitempty\<close>.\<close>

definition transaction_event :: "transaction \<Rightarrow> json option" where
  "transaction_event t = map_option (\<lambda>amount. JObj
     ([(''transaction_id'', JStr (tx_id t)), (''user_id'', JStr (tx_user t)), (''account_id'', JStr (tx_account t))] @
      (case tx_category t of None \<Rightarrow> [] | Some k \<Rightarrow> [(''category_id'', JStr k)]) @
      [(''type'', JStr (tx_type t)), (''amount'', amount), (''currency'', JStr (tx_currency t)),
       (''date'', JStr (format_rfc3339 (tx_date t)))])) (json_float (tx_amount t))"

definition OutboxPublisher_PublishTransactionCreated ::
  "'e outbox_driver \<Rightarrow> gotime \<Rightarrow> oid \<Rightarrow> transaction \<Rightarrow> 'e outbox_coll \<Rightarrow> unit res \<times> 'e outbox_coll" where
  "OutboxPublisher_PublishTransactionCreated M now i t c =
    (case transaction_event t of
       None \<Rightarrow> (Inl (ErrOther ''json: unsupported value''), c)
     | Some payload \<Rightarrow> Store_Enqueue M now i TransactionCreatedSubject payload (tx_id t) c)"

section \<open>Service\<close>

definition defaultPage :: int64 where "defaultPage = 1"
definition defaultPageSize :: int64 where "defaultPageSize = 20"
definition maxPageSize :: int64 where "maxPageSize = 100"

definition maxAmount :: f64 where
  "maxAmount = f64_of_nat 1000000000000"

text \<open>A failed event is logged and otherwise ignored.\<close>

definition transactionService_publishCreated ::
  "'e expense_drivers \<Rightarrow> gotime \<Rightarrow> oid \<Rightarrow> transaction \<Rightarrow> 'e expense_db \<Rightarrow> 'e expense_db" where
  [svc_defs]: "transactionService_publishCreated D now j t s =
    snd (on_out (OutboxPublisher_PublishTransactionCreated (m_out D) now j t) s)"

definition transactionService_validateCommon ::
  "string \<Rightarrow> string \<Rightarrow> f64 \<Rightarrow> string \<Rightarrow> gotime \<Rightarrow> go_error option" where
  [svc_defs]: "transactionService_validateCommon accountID txType amount currency date =
    (if trim_space accountID = '''' then Some (ValidationError ''account_id'' ''account_id is required'')
     else if \<not> ValidTransactionType txType then Some (ValidationError ''type'' ''type must be one of: income, expense'')
     else if fle amount f0 then Some (ValidationError ''amount'' ''amount must be greater than zero'')
     else if flt maxAmount amount then Some (ValidationError ''amount'' ''amount exceeds the maximum allowed value'')
     else if trim_space currency = '''' then Some (ValidationError ''currency'' ''currency is required'')
     else if is_zero_time date then Some (ValidationError ''date'' ''date is required'')
     else None)"

text \<open>\<open>if err == domain.ErrNotFound { return NewValidationError(..) }; return err\<close>\<close>

definition not_found_as :: "go_error \<Rightarrow> 'a res \<times> 's \<Rightarrow> 'a res \<times> 's" where
  "not_found_as e rs = (case rs of (Inl ErrNotFound, s) \<Rightarrow> (Inl e, s) | _ \<Rightarrow> rs)"

definition check_account :: "'e expense_drivers \<Rightarrow> string \<Rightarrow> string \<Rightarrow> 'e expense_db \<Rightarrow> account res \<times> 'e expense_db" where
  [svc_defs]: "check_account D u accountID s =
    not_found_as (ValidationError ''account_id'' ''account does not exist'')
      (on_acc (AccountRepository_GetByIDForUser (m_acc D) accountID u) s)"

definition check_category :: "'e expense_drivers \<Rightarrow> string \<Rightarrow> string option \<Rightarrow> 'e expense_db \<Rightarrow> unit res \<times> 'e expense_db" where
  [svc_defs]: "check_category D u k s =
    (case k of
       None \<Rightarrow> (Inr (), s)
     | Some cid \<Rightarrow>
        if trim_space cid = '''' then (Inr (), s)
        else on_ok (not_found_as (ValidationError ''category_id'' ''category does not exist'')
                      (on_cat (CategoryRepository_GetByIDForUser (m_cat D) cid u) s))
               (\<lambda>_ s'. (Inr (), s')))"

definition transactionService_Create ::
  "'e expense_drivers \<Rightarrow> gotime \<Rightarrow> oid \<Rightarrow> oid \<Rightarrow> string \<Rightarrow> transaction_input \<Rightarrow> 'e expense_db \<Rightarrow>
   transaction res \<times> 'e expense_db" where
  [svc_defs]: "transactionService_Create D now i j u inp s =
    (case transactionService_validateCommon (ti_account inp) (ti_type inp) (ti_amount inp) (ti_currency inp) (ti_date inp) of
       Some e \<Rightarrow> (Inl e, s)
     | None \<Rightarrow>
        on_ok (check_account D u (ti_account inp) s) (\<lambda>_ s1.
        on_ok (check_category D u (ti_category inp) s1) (\<lambda>_ s2.
        on_ok (on_tx (TransactionRepository_Create (m_tx D) i
                 \<lparr>tx_id = '''', tx_user = u, tx_account = ti_account inp, tx_category = ti_category inp,
                  tx_type = ti_type inp, tx_amount = ti_amount inp, tx_currency = ti_currency inp,
                  tx_date = ti_date inp, tx_note = ti_note inp, tx_created = utc now, tx_updated = utc now\<rparr>) s2)
          (\<lambda>t s3. (Inr t, transactionService_publishCreated D now j t s3)))))"

record list_transactions_input =
  li_account :: string
  li_category :: string
  li_from :: "gotime option"
  li_to :: "gotime option"
  li_page :: int64
  li_page_size :: int64

definition transactionService_List ::
  "'e expense_drivers \<Rightarrow> string \<Rightarrow> list_transactions_input \<Rightarrow> 'e expense_db \<Rightarrow> transaction_page res \<times> 'e expense_db" where
  [svc_defs]: "transactionService_List D u inp s =
    (if (case (li_from inp, li_to inp) of (Some f, Some t) \<Rightarrow> time_before t f | _ \<Rightarrow> False)
     then (Inl (ValidationError ''to'' ''to must not be before from''), s)
     else
       (let page = (if li_page inp <s 1 then defaultPage else li_page inp);
            pageSize0 = (if li_page_size inp <s 1 then defaultPageSize else li_page_size inp);
            pageSize = (if maxPageSize <s pageSize0 then maxPageSize else pageSize0);
            filt = \<lparr>tf_account = li_account inp, tf_category = li_category inp, tf_from = li_from inp,
                    tf_to = li_to inp, tf_page = page, tf_page_size = pageSize\<rparr>
        in on_ok (on_tx (TransactionRepository_ListByUser (m_tx D) u filt) s)
             (\<lambda>result s1. (Inr (result\<lparr>tp_page := page, tp_page_size := pageSize\<rparr>), s1))))"

definition transactionService_Get ::
  "'e expense_drivers \<Rightarrow> string \<Rightarrow> string \<Rightarrow> 'e expense_db \<Rightarrow> transaction res \<times> 'e expense_db" where
  [svc_defs]: "transactionService_Get D u s db = on_tx (TransactionRepository_GetByIDForUser (m_tx D) s u) db"

definition transactionService_Update ::
  "'e expense_drivers \<Rightarrow> gotime \<Rightarrow> string \<Rightarrow> string \<Rightarrow> transaction_input \<Rightarrow> 'e expense_db \<Rightarrow>
   transaction res \<times> 'e expense_db" where
  [svc_defs]: "transactionService_Update D now u s inp db =
    on_ok (on_tx (TransactionRepository_GetByIDForUser (m_tx D) s u) db) (\<lambda>t db1.
    case transactionService_validateCommon (ti_account inp) (ti_type inp) (ti_amount inp) (ti_currency inp) (ti_date inp) of
       Some e \<Rightarrow> (Inl e, db1)
     | None \<Rightarrow>
        on_ok (if ti_account inp \<noteq> tx_account t
               then on_ok (check_account D u (ti_account inp) db1) (\<lambda>_ x. (Inr (), x)) else (Inr (), db1)) (\<lambda>_ db2.
        on_ok (check_category D u (ti_category inp) db2) (\<lambda>_ db3.
          let t1 = t\<lparr>tx_account := ti_account inp, tx_category := ti_category inp, tx_type := ti_type inp,
                     tx_amount := ti_amount inp, tx_currency := ti_currency inp, tx_date := ti_date inp,
                     tx_note := ti_note inp, tx_updated := utc now\<rparr>
          in on_ok (on_tx (TransactionRepository_Update (m_tx D) t1) db3) (\<lambda>_ db4. (Inr t1, db4)))))"

definition transactionService_Delete ::
  "'e expense_drivers \<Rightarrow> string \<Rightarrow> string \<Rightarrow> 'e expense_db \<Rightarrow> unit res \<times> 'e expense_db" where
  [svc_defs]: "transactionService_Delete D u s db = on_tx (TransactionRepository_DeleteByIDForUser (m_tx D) s u) db"

section \<open>Lemmas about the calls\<close>

definition same_docs :: "'e expense_db \<Rightarrow> 'e expense_db \<Rightarrow> bool" where
  "same_docs s s' \<longleftrightarrow> docs (db_acc s') = docs (db_acc s) \<and> docs (db_cat s') = docs (db_cat s) \<and>
     docs (db_tx s') = docs (db_tx s) \<and> docs (db_out s') = docs (db_out s)"

lemma same_docs_refl [simp]: "same_docs s s"
  by (simp add: same_docs_def)

lemma same_docs_trans: "same_docs a b \<Longrightarrow> same_docs b c \<Longrightarrow> same_docs a c"
  by (simp add: same_docs_def)

lemma on_acc_eq: "on_acc f s = (r, s') \<longleftrightarrow> (\<exists>c. f (db_acc s) = (r, c) \<and> s' = s\<lparr>db_acc := c\<rparr>)"
  by (auto simp: on_acc_def split: prod.splits)

lemma on_cat_eq: "on_cat f s = (r, s') \<longleftrightarrow> (\<exists>c. f (db_cat s) = (r, c) \<and> s' = s\<lparr>db_cat := c\<rparr>)"
  by (auto simp: on_cat_def split: prod.splits)

lemma on_tx_eq: "on_tx f s = (r, s') \<longleftrightarrow> (\<exists>c. f (db_tx s) = (r, c) \<and> s' = s\<lparr>db_tx := c\<rparr>)"
  by (auto simp: on_tx_def split: prod.splits)

lemma on_out_eq: "on_out f s = (r, s') \<longleftrightarrow> (\<exists>c. f (db_out s) = (r, c) \<and> s' = s\<lparr>db_out := c\<rparr>)"
  by (auto simp: on_out_def split: prod.splits)

lemma not_found_as_eq:
  "not_found_as e rs = (r, s') \<longleftrightarrow> (\<exists>q. rs = (q, s') \<and> r = (if q = Inl ErrNotFound then Inl e else q))"
  by (cases rs; cases "fst rs"; auto simp: not_found_as_def split: go_error.splits)

text \<open>The account and the category that a caller may name.\<close>

definition owns_account :: "'e expense_drivers \<Rightarrow> 'e expense_db \<Rightarrow> string \<Rightarrow> string \<Rightarrow> bool" where
  "owns_account D s u accountID \<longleftrightarrow>
     (\<exists>a \<in> set (docs (db_acc s)). from_hex (m_acc D) accountID = Some (ad_id a) \<and> ad_user a = u)"

definition owns_category :: "'e expense_drivers \<Rightarrow> 'e expense_db \<Rightarrow> string \<Rightarrow> string option \<Rightarrow> bool" where
  "owns_category D s u k \<longleftrightarrow> (case k of None \<Rightarrow> True | Some cid \<Rightarrow> trim_space cid = '''' \<or>
     (\<exists>c \<in> set (docs (db_cat s)). from_hex (m_cat D) cid = Some (cd_id c) \<and> cd_user c = u))"

lemma owns_account_same: "same_docs s s' \<Longrightarrow> owns_account D s' u k = owns_account D s u k"
  by (simp add: owns_account_def same_docs_def)

lemma owns_category_same: "same_docs s s' \<Longrightarrow> owns_category D s' u k = owns_category D s u k"
  by (simp add: owns_category_def same_docs_def split: option.splits)

lemma check_account_same:
  assumes "lawful_expense D" and "check_account D u k s = (r, s')"
  shows "same_docs s s'"
proof -
  obtain q c where q: "AccountRepository_GetByIDForUser (m_acc D) k u (db_acc s) = (q, c)" "s' = s\<lparr>db_acc := c\<rparr>"
    using assms(2) by (auto simp: check_account_def not_found_as_eq on_acc_eq)
  with acc.get_docs [OF lawful_expenseD(1) [OF assms(1)] q(1)] show ?thesis by (simp add: same_docs_def)
qed

lemma check_account_ok:
  assumes "lawful_expense D" and "check_account D u k s = (Inr a, s')"
  shows "owns_account D s u k" and "a_user a = u"
    and "\<exists>d \<in> set (docs (db_acc s)). from_hex (m_acc D) k = Some (ad_id d) \<and> ad_user d = u \<and> a = account_toDomain (m_acc D) d"
proof -
  note M = lawful_expenseD(1) [OF assms(1)]
  obtain q c where q: "AccountRepository_GetByIDForUser (m_acc D) k u (db_acc s) = (q, c)"
    "(Inr a :: account res) = (if q = Inl ErrNotFound then Inl (ValidationError ''account_id'' ''account does not exist'') else q)"
    using assms(2) by (auto simp: check_account_def not_found_as_eq on_acc_eq)
  then have g: "AccountRepository_GetByIDForUser (m_acc D) k u (db_acc s) = (Inr a, c)"
    by (cases "q = Inl ErrNotFound") simp_all
  show "a_user a = u" by (rule acc.get_owner [OF M g])
  show "\<exists>d \<in> set (docs (db_acc s)). from_hex (m_acc D) k = Some (ad_id d) \<and> ad_user d = u \<and> a = account_toDomain (m_acc D) d"
    by (rule acc.get_ok [OF M g])
  then show "owns_account D s u k" by (auto simp: owns_account_def)
qed

lemma check_account_err:
  assumes "lawful_expense D" and "check_account D u k s = (Inl e, s')"
  shows "e = ValidationError ''account_id'' ''account does not exist'' \<and> \<not> owns_account D s u k \<or> (\<exists>m. e = ErrOther m)"
proof -
  note M = lawful_expenseD(1) [OF assms(1)]
  obtain q c where q: "AccountRepository_GetByIDForUser (m_acc D) k u (db_acc s) = (q, c)"
    "(Inl e :: account res) = (if q = Inl ErrNotFound then Inl (ValidationError ''account_id'' ''account does not exist'') else q)"
    using assms(2) by (auto simp: check_account_def not_found_as_eq on_acc_eq)
  show ?thesis
  proof (cases "q = Inl ErrNotFound")
    case True
    with acc.get_none [OF M] q show ?thesis by (fastforce simp: owns_account_def)
  next
    case False
    with q have "AccountRepository_GetByIDForUser (m_acc D) k u (db_acc s) = (Inl e, c)" "e \<noteq> ErrNotFound" by auto
    with acc.get_other [OF M] show ?thesis by blast
  qed
qed

lemma check_category_same:
  assumes "lawful_expense D" and "check_category D u k s = (r, s')"
  shows "same_docs s s'"
proof (cases "k = None \<or> trim_space (the k) = ''''")
  case True
  with assms(2) show ?thesis by (auto simp: check_category_def split: option.splits)
next
  case False
  then obtain cid where k: "k = Some cid" "trim_space cid \<noteq> ''''" by auto
  obtain q c where q: "CategoryRepository_GetByIDForUser (m_cat D) cid u (db_cat s) = (q, c)"
    by (cases "CategoryRepository_GetByIDForUser (m_cat D) cid u (db_cat s)")
  then have "s' = s\<lparr>db_cat := c\<rparr>"
    using assms(2) k by (cases q) (auto simp: check_category_def on_cat_def not_found_as_def split: go_error.splits)
  with cat.get_docs [OF lawful_expenseD(2) [OF assms(1)] q] show ?thesis by (simp add: same_docs_def)
qed

lemma check_category_ok:
  assumes "lawful_expense D" and "check_category D u k s = (Inr w, s')"
  shows "owns_category D s u k"
proof (cases "k = None \<or> trim_space (the k) = ''''")
  case True
  then show ?thesis by (auto simp: owns_category_def split: option.splits)
next
  case False
  then obtain cid where k: "k = Some cid" "trim_space cid \<noteq> ''''" by auto
  obtain q c where q: "CategoryRepository_GetByIDForUser (m_cat D) cid u (db_cat s) = (q, c)"
    by (cases "CategoryRepository_GetByIDForUser (m_cat D) cid u (db_cat s)")
  then obtain x where "q = Inr x"
    using assms(2) k by (cases q) (auto simp: check_category_def on_cat_def not_found_as_def split: go_error.splits)
  with cat.get_ok [OF lawful_expenseD(2) [OF assms(1)]] q k show ?thesis by (fastforce simp: owns_category_def)
qed

text \<open>Publishing touches the outbox alone: at most one event is appended.\<close>

lemma publishCreated_cases:
  assumes "lawful_expense D"
  shows "db_acc (transactionService_publishCreated D now j t s) = db_acc s"
    and "db_cat (transactionService_publishCreated D now j t s) = db_cat s"
    and "db_tx (transactionService_publishCreated D now j t s) = db_tx s"
    and "docs (db_out (transactionService_publishCreated D now j t s)) = docs (db_out s) \<or>
      (\<exists>p ev. transaction_event t = Some p \<and> ev_subject ev = TransactionCreatedSubject \<and> ev_payload ev = p \<and>
        ev_msg_id ev = tx_id t \<and> ev_published ev = None \<and> ev_id ev = j \<and>
        (\<forall>x \<in> set (docs (db_out s)). ev_id x \<noteq> j) \<and>
        docs (db_out (transactionService_publishCreated D now j t s)) = docs (db_out s) @ [ev])"
proof -
  let ?s = "transactionService_publishCreated D now j t s"
  show "db_acc ?s = db_acc s" "db_cat ?s = db_cat s" "db_tx ?s = db_tx s"
    by (simp_all add: transactionService_publishCreated_def on_out_def split: prod.splits)
  show "docs (db_out ?s) = docs (db_out s) \<or>
      (\<exists>p ev. transaction_event t = Some p \<and> ev_subject ev = TransactionCreatedSubject \<and> ev_payload ev = p \<and>
        ev_msg_id ev = tx_id t \<and> ev_published ev = None \<and> ev_id ev = j \<and>
        (\<forall>x \<in> set (docs (db_out s)). ev_id x \<noteq> j) \<and> docs (db_out ?s) = docs (db_out s) @ [ev])"
  proof (cases "transaction_event t")
    case None
    then show ?thesis
      by (simp add: transactionService_publishCreated_def on_out_def OutboxPublisher_PublishTransactionCreated_def)
  next
    case (Some p)
    let ?ev = "\<lparr>ev_id = j, ev_subject = TransactionCreatedSubject, ev_msg_id = tx_id t, ev_payload = p,
      ev_created = bson_time (utc now), ev_published = None\<rparr>"
    obtain r c where r: "insert_one (m_out D) ?ev (db_out s) = (r, c)" by (cases "insert_one (m_out D) ?ev (db_out s)")
    then have s: "db_out ?s = c"
      using Some by (cases r) (simp_all add: transactionService_publishCreated_def on_out_def
          OutboxPublisher_PublishTransactionCreated_def Store_Enqueue_def)
    from insert_any [OF lawful_expenseD(4) [OF assms] r] show ?thesis
      unfolding s using Some by (auto simp: same_id_def intro!: exI [of _ ?ev])
  qed
qed

section \<open>Create and Update, split at the write\<close>

lemma transactionService_Create_cases:
  assumes D: "lawful_expense D" and create: "transactionService_Create D now i j u inp s = (r, s')"
  obtains (refused) e where "r = Inl e" "same_docs s s'"
  | (called) t q s2 c where
    "transactionService_validateCommon (ti_account inp) (ti_type inp) (ti_amount inp) (ti_currency inp) (ti_date inp) = None"
    "owns_account D s u (ti_account inp)" "owns_category D s u (ti_category inp)" "same_docs s s2"
    "t = \<lparr>tx_id = '''', tx_user = u, tx_account = ti_account inp, tx_category = ti_category inp,
          tx_type = ti_type inp, tx_amount = ti_amount inp, tx_currency = ti_currency inp,
          tx_date = ti_date inp, tx_note = ti_note inp, tx_created = utc now, tx_updated = utc now\<rparr>"
    "TransactionRepository_Create (m_tx D) i t (db_tx s2) = (q, c)"
    "case q of Inl e \<Rightarrow> r = Inl e \<and> s' = s2\<lparr>db_tx := c\<rparr>
       | Inr t' \<Rightarrow> r = Inr t' \<and> s' = transactionService_publishCreated D now j t' (s2\<lparr>db_tx := c\<rparr>)"
proof (cases "transactionService_validateCommon (ti_account inp) (ti_type inp) (ti_amount inp) (ti_currency inp) (ti_date inp)")
  case (Some e)
  with create refused [of e] show ?thesis by (auto simp: transactionService_Create_def)
next
  case None
  let ?t = "\<lparr>tx_id = '''', tx_user = u, tx_account = ti_account inp, tx_category = ti_category inp,
      tx_type = ti_type inp, tx_amount = ti_amount inp, tx_currency = ti_currency inp,
      tx_date = ti_date inp, tx_note = ti_note inp, tx_created = utc now, tx_updated = utc now\<rparr>"
  obtain r1 s1 where c1: "check_account D u (ti_account inp) s = (r1, s1)" by (cases "check_account D u (ti_account inp) s")
  note same1 = check_account_same [OF D c1]
  obtain r2 s2 where c2: "check_category D u (ti_category inp) s1 = (r2, s2)" by (cases "check_category D u (ti_category inp) s1")
  note same2 = same_docs_trans [OF same1 check_category_same [OF D c2]]
  show ?thesis
  proof (cases r1)
    case (Inl e)
    with create None c1 same1 refused [of e] show ?thesis by (auto simp: transactionService_Create_def)
  next
    case 1: (Inr a)
    show ?thesis
    proof (cases r2)
      case (Inl e)
      with create None c1 c2 1 same2 refused [of e] show ?thesis by (auto simp: transactionService_Create_def)
    next
      case (Inr w)
      obtain q c where q: "TransactionRepository_Create (m_tx D) i ?t (db_tx s2) = (q, c)"
        by (cases "TransactionRepository_Create (m_tx D) i ?t (db_tx s2)")
      have "case q of Inl e \<Rightarrow> r = Inl e \<and> s' = s2\<lparr>db_tx := c\<rparr>
         | Inr t' \<Rightarrow> r = Inr t' \<and> s' = transactionService_publishCreated D now j t' (s2\<lparr>db_tx := c\<rparr>)"
        using create None c1 c2 1 Inr q by (cases q) (auto simp: transactionService_Create_def on_tx_def)
      moreover have "owns_account D s u (ti_account inp)" by (rule check_account_ok [OF D c1 [unfolded 1]])
      moreover have "owns_category D s u (ti_category inp)"
        using check_category_ok [OF D c2 [unfolded Inr]] owns_category_same [OF same1] by simp
      ultimately show ?thesis using called [OF None _ _ same2 refl q] by blast
    qed
  qed
qed

lemma changed_account_check:
  assumes D: "lawful_expense D"
    and a: "(if acc \<noteq> old then on_ok (check_account D u acc s) (\<lambda>_ y. (Inr () :: unit res, y)) else (Inr (), s)) = (r, s1)"
  shows "same_docs s s1" and "r = Inr w \<Longrightarrow> acc = old \<or> owns_account D s u acc"
proof -
  obtain r1 s' where c: "check_account D u acc s = (r1, s')" by (cases "check_account D u acc s")
  have "same_docs s s" by (simp add: same_docs_def)
  then show "same_docs s s1" using a c check_account_same [OF D c] by (cases r1) (auto split: if_splits)
  show "r = Inr w \<Longrightarrow> acc = old \<or> owns_account D s u acc"
    using a c check_account_ok(1) [OF D, of u acc s _ s'] by (cases r1) (auto split: if_splits)
qed

lemma transactionService_Update_cases:
  assumes D: "lawful_expense D" and upd: "transactionService_Update D now u k inp s = (r, s')"
  obtains (refused) e where "r = Inl e" "same_docs s s'"
  | (called) t x q s2 c where
    "transactionService_validateCommon (ti_account inp) (ti_type inp) (ti_amount inp) (ti_currency inp) (ti_date inp) = None"
    "ti_account inp = tx_account x \<or> owns_account D s u (ti_account inp)"
    "owns_category D s u (ti_category inp)" "same_docs s s2"
    "\<exists>d \<in> set (docs (db_tx s)). from_hex (m_tx D) k = Some (td_id d) \<and> td_user d = u \<and> x = transaction_toDomain (m_tx D) d"
    "t = x\<lparr>tx_account := ti_account inp, tx_category := ti_category inp, tx_type := ti_type inp,
           tx_amount := ti_amount inp, tx_currency := ti_currency inp, tx_date := ti_date inp,
           tx_note := ti_note inp, tx_updated := utc now\<rparr>"
    "TransactionRepository_Update (m_tx D) t (db_tx s2) = (q, c)" "s' = s2\<lparr>db_tx := c\<rparr>"
    "r = (case q of Inl e \<Rightarrow> Inl e | Inr _ \<Rightarrow> Inr t)"
  using upd [unfolded transactionService_Update_def]
proof (cases rule: on_okE)
  case (err e)
  then obtain c where "TransactionRepository_GetByIDForUser (m_tx D) k u (db_tx s) = (Inl e, c)" "s' = s\<lparr>db_tx := c\<rparr>"
    by (auto simp: on_tx_eq)
  with txr.get_docs [OF lawful_expenseD(3) [OF D]] err(2) refused show ?thesis by (fastforce simp: same_docs_def)
next
  case (ok x s0)
  obtain c0 where c0: "TransactionRepository_GetByIDForUser (m_tx D) k u (db_tx s) = (Inr x, c0)" "s0 = s\<lparr>db_tx := c0\<rparr>"
    using ok(1) by (auto simp: on_tx_eq)
  have same0: "same_docs s s0" using txr.get_docs [OF lawful_expenseD(3) [OF D] c0(1)] c0(2) by (simp add: same_docs_def)
  have x: "\<exists>d \<in> set (docs (db_tx s)). from_hex (m_tx D) k = Some (td_id d) \<and> td_user d = u \<and> x = transaction_toDomain (m_tx D) d"
    by (rule txr.get_ok [OF lawful_expenseD(3) [OF D] c0(1)])
  let ?t = "x\<lparr>tx_account := ti_account inp, tx_category := ti_category inp, tx_type := ti_type inp,
           tx_amount := ti_amount inp, tx_currency := ti_currency inp, tx_date := ti_date inp,
           tx_note := ti_note inp, tx_updated := utc now\<rparr>"
  let ?acc = "if ti_account inp \<noteq> tx_account x
      then on_ok (check_account D u (ti_account inp) s0) (\<lambda>_ y. (Inr () :: unit res, y)) else (Inr (), s0)"
  show ?thesis
  proof (cases "transactionService_validateCommon (ti_account inp) (ti_type inp) (ti_amount inp) (ti_currency inp) (ti_date inp)")
    case (Some e)
    with ok(2) same0 refused [of e] show ?thesis by auto
  next
    case None
    obtain r1 s1 where a: "?acc = (r1, s1)" by (cases ?acc)
    note ch = changed_account_check [OF D a]
    note same1 = same_docs_trans [OF same0 ch(1)]
    have own: "r1 = Inr w \<Longrightarrow> ti_account inp = tx_account x \<or> owns_account D s u (ti_account inp)" for w
      using ch(2) owns_account_same [OF same0] by auto
    obtain r2 s2 where c2: "check_category D u (ti_category inp) s1 = (r2, s2)" by (cases "check_category D u (ti_category inp) s1")
    note same2 = same_docs_trans [OF same1 check_category_same [OF D c2]]
    show ?thesis
    proof (cases r1)
      case (Inl e)
      with ok(2) None a same1 refused [of e] show ?thesis by auto
    next
      case 1: (Inr w)
      show ?thesis
      proof (cases r2)
        case (Inl e)
        with ok(2) None a c2 1 same2 refused [of e] show ?thesis by auto
      next
        case (Inr w')
        obtain q c where q: "TransactionRepository_Update (m_tx D) ?t (db_tx s2) = (q, c)"
          by (cases "TransactionRepository_Update (m_tx D) ?t (db_tx s2)")
        have "s' = s2\<lparr>db_tx := c\<rparr>" "r = (case q of Inl e \<Rightarrow> Inl e | Inr _ \<Rightarrow> Inr ?t)"
          using ok(2) None a c2 1 Inr q by (cases q; auto simp: on_tx_def Let_def)+
        moreover have "owns_category D s u (ti_category inp)"
          using check_category_ok [OF D c2 [unfolded Inr]] owns_category_same [OF same1] by simp
        ultimately show ?thesis using called [OF None own [OF 1] _ same2 x refl q] by blast
      qed
    qed
  qed
qed

end
