(* ===== verification/Expense_Import.thy ===== *)
theory Expense_Import imports Expense_Transaction Go_ParseFloat begin

text \<open>
  expense-service, statement import: \<open>service/transaction_import.go\<close>. The rows
  arrive as strings; a row is turned into a transaction or into the message that
  says why not, and rows are processed one after the other. \<open>gen n\<close> gives the two
  ObjectIDs (transaction, outbox event) of row \<open>n\<close>.
\<close>

section \<open>Rows, results and messages\<close>

record import_row =
  ir_date :: string
  ir_description :: string
  ir_amount :: string
  ir_debit :: string
  ir_credit :: string
  ir_type :: string

record import_row_error =
  ie_row :: nat
  ie_message :: string

record import_result =
  im_imported :: nat
  im_skipped :: nat
  im_errors :: "import_row_error list"

definition maxImportErrors :: nat where "maxImportErrors = 20"
definition maxImportRows :: nat where "maxImportRows = 5000"
definition maxImportNoteLength :: nat where "maxImportNoteLength = 1000"

text \<open>\<open>err.Error()\<close>\<close>

fun err_text :: "go_error \<Rightarrow> string" where
  "err_text ErrNotFound = ''resource not found''"
| "err_text ErrDuplicateEmail = ''email already registered''"
| "err_text ErrInvalidCredentials = ''invalid credentials''"
| "err_text ErrInvalidToken = ''invalid or expired token''"
| "err_text (ValidationError f m) = m"
| "err_text (ErrValidation m) = m"
| "err_text (ErrOther m) = m"

text \<open>The verb \<open>%q\<close>: plain text is put in double quotes, anything else goes to \<open>strconv.Quote\<close>.\<close>

definition go_quote :: "unicode \<Rightarrow> string \<Rightarrow> string" where
  "go_quote U s = (if list_all (\<lambda>c. 32 \<le> ord c \<and> ord c < 127 \<and> c \<noteq> CHR 0x22 \<and> c \<noteq> CHR 0x5C) s
     then [CHR 0x22] @ s @ [CHR 0x22] else u_quote U s)"

section \<open>One row\<close>

text \<open>The layouts in their order: RFC 3339, \<open>2006-01-02\<close>, \<open>01/02/2006\<close>, \<open>1/2/2006\<close>.\<close>

definition importDateLayouts :: "(string \<Rightarrow> gotime option) list" where
  "importDateLayouts = [parse_rfc3339, parse_ymd, parse_mdy True, parse_mdy False]"

fun first_parse :: "(string \<Rightarrow> gotime option) list \<Rightarrow> string \<Rightarrow> gotime option" where
  "first_parse [] v = None"
| "first_parse (p # ps) v = (case p v of Some t \<Rightarrow> Some t | None \<Rightarrow> first_parse ps v)"

definition parseImportDate :: "string \<Rightarrow> gotime option" where
  "parseImportDate v = (let v1 = trim_space v in if v1 = '''' then None else first_parse importDateLayouts v1)"

definition parseImportAmount :: "unicode \<Rightarrow> string \<Rightarrow> string + f64" where
  "parseImportAmount U v =
    (let v1 = trim_space v in
     if v1 = '''' then Inl ''amount is required''
     else
       (let negative = (is_prefix ''('' v1 \<and> has_suffix '')'' v1);
            v2 = (if negative then trim_suffix '')'' (trim_prefix ''('' v1) else v1);
            v3 = filter (\<lambda>c. c \<notin> {CHR ''$'', CHR '','', CHR '' ''}) v2
        in if v3 = '''' then Inl ''amount is required''
           else (case parse_float v3 of
                   None \<Rightarrow> Inl (''amount '' @ go_quote U (trim_space v3) @ '' is not a valid number'')
                 | Some amount \<Rightarrow> Inr (if negative then fneg (fabs amount) else amount))))"

definition resolveImportAmount :: "unicode \<Rightarrow> import_row \<Rightarrow> string + f64 \<times> string" where
  "resolveImportAmount U row =
    (if trim_space (ir_amount row) \<noteq> '''' then
       (case parseImportAmount U (ir_amount row) of
          Inl e \<Rightarrow> Inl e
        | Inr amount \<Rightarrow> if flt amount f0 then Inr (fabs amount, ''expense'') else Inr (amount, ''income''))
     else
       (let credit_part =
          (if trim_space (ir_credit row) \<noteq> '''' then
             (case parseImportAmount U (ir_credit row) of
                Inl e \<Rightarrow> Inl (''credit: '' @ e)
              | Inr credit \<Rightarrow> if \<not> feq credit f0 then Inr (fabs credit, ''income'')
                              else Inl ''no amount, debit, or credit value for this row'')
           else Inl ''no amount, debit, or credit value for this row'')
        in if trim_space (ir_debit row) \<noteq> '''' then
             (case parseImportAmount U (ir_debit row) of
                Inl e \<Rightarrow> Inl (''debit: '' @ e)
              | Inr debit \<Rightarrow> if \<not> feq debit f0 then Inr (fabs debit, ''expense'') else credit_part)
           else credit_part))"

definition buildImportedTransaction ::
  "unicode \<Rightarrow> string \<Rightarrow> account \<Rightarrow> import_row \<Rightarrow> gotime \<Rightarrow> string + transaction" where
  "buildImportedTransaction U u account row now =
    (case parseImportDate (ir_date row) of
       None \<Rightarrow> Inl ''invalid or missing date''
     | Some date \<Rightarrow>
        (case resolveImportAmount U row of
           Inl e \<Rightarrow> Inl e
         | Inr (absAmount, inferredType) \<Rightarrow>
            (let t0 = to_lower U (trim_space (ir_type row));
                 txType = (if t0 = '''' then inferredType else t0)
             in if \<not> ValidTransactionType txType then
                  Inl (''type must be income or expense, got '' @ go_quote U (ir_type row))
                else if fle absAmount f0 then Inl ''amount must be greater than zero''
                else if flt maxAmount absAmount then Inl ''amount exceeds the maximum allowed value''
                else
                  (let note = trim_space (ir_description row);
                       note1 = (if length note > maxImportNoteLength then take maxImportNoteLength note else note)
                   in Inr \<lparr>tx_id = '''', tx_user = u, tx_account = a_id account, tx_category = None,
                           tx_type = txType, tx_amount = absAmount, tx_currency = a_currency account,
                           tx_date = date, tx_note = note1, tx_created = now, tx_updated = now\<rparr>))))"

section \<open>The file\<close>

definition appendImportError :: "import_result \<Rightarrow> nat \<Rightarrow> string \<Rightarrow> import_result" where
  "appendImportError result row msg =
    (if length (im_errors result) < maxImportErrors
     then result\<lparr>im_errors := im_errors result @ [\<lparr>ie_row = row, ie_message = msg\<rparr>]\<rparr> else result)"

text \<open>The body of the loop for row number \<open>n\<close> (from 0); the header is row 1 of the file.\<close>

definition import_one ::
  "unicode \<Rightarrow> 'e expense_drivers \<Rightarrow> gotime \<Rightarrow> (nat \<Rightarrow> oid \<times> oid) \<Rightarrow> string \<Rightarrow> account \<Rightarrow> nat \<Rightarrow> import_row \<Rightarrow>
   import_result \<times> 'e expense_db \<Rightarrow> import_result \<times> 'e expense_db" where
  "import_one U D now gen u account n row = (\<lambda>(result, s).
    let rowNum = n + 2 in
    case buildImportedTransaction U u account row now of
      Inl e \<Rightarrow> (appendImportError (result\<lparr>im_skipped := im_skipped result + 1\<rparr>) rowNum e, s)
    | Inr t \<Rightarrow>
       (case on_tx (TransactionRepository_Create (m_tx D) (fst (gen n)) t) s of
          (Inl e, s1) \<Rightarrow>
            (appendImportError (result\<lparr>im_skipped := im_skipped result + 1\<rparr>) rowNum (''failed to save: '' @ err_text e), s1)
        | (Inr t1, s1) \<Rightarrow>
            (result\<lparr>im_imported := im_imported result + 1\<rparr>,
             transactionService_publishCreated D now (snd (gen n)) t1 s1)))"

fun import_rows ::
  "unicode \<Rightarrow> 'e expense_drivers \<Rightarrow> gotime \<Rightarrow> (nat \<Rightarrow> oid \<times> oid) \<Rightarrow> string \<Rightarrow> account \<Rightarrow> nat \<Rightarrow> import_row list \<Rightarrow>
   import_result \<times> 'e expense_db \<Rightarrow> import_result \<times> 'e expense_db" where
  "import_rows U D now gen u account n [] st = st"
| "import_rows U D now gen u account n (row # rows) st =
    import_rows U D now gen u account (Suc n) rows (import_one U D now gen u account n row st)"

definition transactionService_Import ::
  "unicode \<Rightarrow> 'e expense_drivers \<Rightarrow> gotime \<Rightarrow> (nat \<Rightarrow> oid \<times> oid) \<Rightarrow> string \<Rightarrow> string \<Rightarrow> import_row list \<Rightarrow>
   'e expense_db \<Rightarrow> import_result res \<times> 'e expense_db" where
  [svc_defs]: "transactionService_Import U D now gen u accountID rows s =
    (if trim_space accountID = '''' then (Inl (ValidationError ''account_id'' ''account_id is required''), s)
     else if length rows > maxImportRows then
       (Inl (ValidationError ''file'' (''file has more than '' @ show_nat maxImportRows @
          '' rows; split it into smaller files'')), s)
     else
       on_ok (check_account D u accountID s) (\<lambda>account s1.
         (case import_rows U D (utc now) gen u account 0 rows (\<lparr>im_imported = 0, im_skipped = 0, im_errors = []\<rparr>, s1) of
            (result, s2) \<Rightarrow> (Inr result, s2))))"

section \<open>The loop\<close>

lemma import_one_spec:
  assumes D: "lawful_expense D"
    and step: "import_one U D now gen u account n row (res, s) = (res', s')"
  obtains (skipped) msg where "res' = appendImportError (res\<lparr>im_skipped := im_skipped res + 1\<rparr>) (n + 2) msg"
      "db_acc s' = db_acc s" "db_cat s' = db_cat s" "db_out s' = db_out s"
      "docs (db_tx s') = docs (db_tx s) \<or> (\<exists>t. buildImportedTransaction U u account row now = Inr t \<and>
         docs (db_tx s') = docs (db_tx s) @ [transaction_newDoc (fst (gen n)) t] \<and>
         (\<forall>d \<in> set (docs (db_tx s)). td_id d \<noteq> fst (gen n)))"
  | (imported) t where "res' = res\<lparr>im_imported := im_imported res + 1\<rparr>"
      "buildImportedTransaction U u account row now = Inr t"
      "db_acc s' = db_acc s" "db_cat s' = db_cat s"
      "docs (db_tx s') = docs (db_tx s) @ [transaction_newDoc (fst (gen n)) t]"
      "\<forall>d \<in> set (docs (db_tx s)). td_id d \<noteq> fst (gen n)"
      "\<exists>s1. s' = transactionService_publishCreated D now (snd (gen n)) (t\<lparr>tx_id := hex (m_tx D) (fst (gen n))\<rparr>) s1 \<and> db_out s1 = db_out s"
proof (cases "buildImportedTransaction U u account row now")
  case (Inl e)
  with step skipped show ?thesis by (auto simp: import_one_def)
next
  case (Inr t)
  obtain q c where q: "TransactionRepository_Create (m_tx D) (fst (gen n)) t (db_tx s) = (q, c)"
    by (cases "TransactionRepository_Create (m_tx D) (fst (gen n)) t (db_tx s)")
  note cs = create_shape [OF lawful_expenseD(3) [OF D] q [unfolded TransactionRepository_Create_def]]
  have i: "td_id (transaction_newDoc (fst (gen n)) t) = fst (gen n)" by (simp add: transaction_newDoc_def)
  show ?thesis
  proof (cases q)
    case (Inl e)
    then have s': "s' = s\<lparr>db_tx := c\<rparr>"
      and r: "res' = appendImportError (res\<lparr>im_skipped := im_skipped res + 1\<rparr>) (n + 2) (''failed to save: '' @ err_text e)"
      using step Inr q by (simp_all add: import_one_def on_tx_def)
    show ?thesis
      by (rule skipped [OF r]) (use cs(1) i Inr in \<open>auto simp: s'\<close>)
  next
    case q': (Inr t1)
    then have t1: "t1 = t\<lparr>tx_id := hex (m_tx D) (fst (gen n))\<rparr>" "docs c = docs (db_tx s) @ [transaction_newDoc (fst (gen n)) t]"
      "\<forall>d \<in> set (docs (db_tx s)). td_id d \<noteq> fst (gen n)"
      using cs(2) [OF q'] i by auto
    have s': "s' = transactionService_publishCreated D now (snd (gen n)) t1 (s\<lparr>db_tx := c\<rparr>)"
      and r: "res' = res\<lparr>im_imported := im_imported res + 1\<rparr>"
      using step Inr q q' by (simp_all add: import_one_def on_tx_def)
    show ?thesis
      by (rule imported [OF r Inr])
        (use t1 publishCreated_cases(1-3) [OF D] in \<open>auto simp: s' intro!: exI [of _ "s\<lparr>db_tx := c\<rparr>"]\<close>)
  qed
qed

text \<open>
  What is known of the result after \<open>n\<close> rows: the two counters add up, the error list
  is the first \<open>maxImportErrors\<close> of the skipped rows, in the order of the file.
\<close>

definition import_counts :: "nat \<Rightarrow> import_result \<Rightarrow> bool" where
  "import_counts n res \<longleftrightarrow> im_imported res + im_skipped res = n \<and>
     length (im_errors res) = min maxImportErrors (im_skipped res) \<and>
     sorted_wrt (\<lambda>a b. ie_row a < ie_row b) (im_errors res) \<and>
     (\<forall>e \<in> set (im_errors res). 2 \<le> ie_row e \<and> ie_row e < n + 2)"

lemma import_counts_skip:
  "import_counts n res \<Longrightarrow> import_counts (Suc n) (appendImportError (res\<lparr>im_skipped := im_skipped res + 1\<rparr>) (n + 2) m)"
  by (auto simp: import_counts_def appendImportError_def sorted_wrt_append)

lemma import_counts_import:
  "import_counts n res \<Longrightarrow> import_counts (Suc n) (res\<lparr>im_imported := im_imported res + 1\<rparr>)"
  by (auto simp: import_counts_def)

lemma import_rows_counts:
  assumes "lawful_expense D"
  shows "import_counts n (fst st) \<Longrightarrow> import_counts (n + length rows) (fst (import_rows U D now gen u account n rows st))"
proof (induction rows arbitrary: n st)
  case (Cons row rows)
  obtain res' s' where one: "import_one U D now gen u account n row (fst st, snd st) = (res', s')"
    by (cases "import_one U D now gen u account n row (fst st, snd st)")
  from assms one have "import_counts (Suc n) res'"
  proof (cases rule: import_one_spec)
    case skipped
    then show ?thesis using import_counts_skip Cons.prems by simp
  next
    case imported
    then show ?thesis using import_counts_import Cons.prems by simp
  qed
  with Cons.IH [of "Suc n" "(res', s')"] one show ?case by simp
qed simp

text \<open>The transactions that a run of the loop has added.\<close>

lemma import_rows_docs:
  assumes D: "lawful_expense D"
  shows "import_rows U D now gen u account n rows (res, s) = (res', s') \<Longrightarrow>
    db_acc s' = db_acc s \<and> db_cat s' = db_cat s \<and>
    (\<exists>new. docs (db_tx s') = docs (db_tx s) @ new \<and>
       (\<forall>d \<in> set new. \<exists>row \<in> set rows. \<exists>i t. buildImportedTransaction U u account row now = Inr t \<and> d = transaction_newDoc i t) \<and>
       im_imported res' - im_imported res \<le> length new \<and> im_imported res \<le> im_imported res' \<and> length new \<le> length rows \<and>
       (ids_distinct td_id (db_tx s) \<longrightarrow> ids_distinct td_id (db_tx s')))"
proof (induction rows arbitrary: n res s)
  case (Cons row rows)
  obtain res1 s1 where one: "import_one U D now gen u account n row (res, s) = (res1, s1)"
    by (cases "import_one U D now gen u account n row (res, s)")
  from Cons.prems one have rest: "import_rows U D now gen u account (Suc n) rows (res1, s1) = (res', s')" by simp
  from Cons.IH [OF rest] obtain new where new: "db_acc s' = db_acc s1" "db_cat s' = db_cat s1"
    "docs (db_tx s') = docs (db_tx s1) @ new"
    "\<forall>d \<in> set new. \<exists>row \<in> set rows. \<exists>i t. buildImportedTransaction U u account row now = Inr t \<and> d = transaction_newDoc i t"
    "im_imported res' - im_imported res1 \<le> length new" "im_imported res1 \<le> im_imported res'" "length new \<le> length rows"
    "ids_distinct td_id (db_tx s1) \<longrightarrow> ids_distinct td_id (db_tx s')" by blast
  have ap: "im_imported (appendImportError x k m) = im_imported x" for x k m by (simp add: appendImportError_def)
  have step: "db_acc s1 = db_acc s \<and> db_cat s1 = db_cat s \<and> im_imported res \<le> im_imported res1 \<and>
     (\<exists>d1. docs (db_tx s1) = docs (db_tx s) @ d1 \<and> im_imported res1 - im_imported res \<le> length d1 \<and> length d1 \<le> 1 \<and>
       (\<forall>d \<in> set d1. \<exists>i t. buildImportedTransaction U u account row now = Inr t \<and> d = transaction_newDoc i t) \<and>
       (ids_distinct td_id (db_tx s) \<longrightarrow> ids_distinct td_id (db_tx s1)))"
    using D one
  proof (cases rule: import_one_spec)
    case (skipped msg)
    from skipped(5) show ?thesis
    proof (elim disjE exE conjE)
      assume "docs (db_tx s1) = docs (db_tx s)"
      then show ?thesis using skipped(1-4) by (auto simp: ap ids_distinct_def intro!: exI [of _ "[]"])
    next
      fix t assume "buildImportedTransaction U u account row now = Inr t"
        "docs (db_tx s1) = docs (db_tx s) @ [transaction_newDoc (fst (gen n)) t]" "\<forall>d \<in> set (docs (db_tx s)). td_id d \<noteq> fst (gen n)"
      then show ?thesis using skipped(1-4)
        by (auto simp: ap ids_distinct_def transaction_newDoc_def intro!: exI [of _ "[transaction_newDoc (fst (gen n)) t]"])
    qed
  next
    case (imported t)
    then show ?thesis
      by (auto simp: ids_distinct_def transaction_newDoc_def intro!: exI [of _ "[transaction_newDoc (fst (gen n)) t]"])
  qed
  then obtain d1 where d1: "docs (db_tx s1) = docs (db_tx s) @ d1" "im_imported res1 - im_imported res \<le> length d1"
    "length d1 \<le> 1" "\<forall>d \<in> set d1. \<exists>i t. buildImportedTransaction U u account row now = Inr t \<and> d = transaction_newDoc i t"
    "ids_distinct td_id (db_tx s) \<longrightarrow> ids_distinct td_id (db_tx s1)" by blast
  show ?case
    using step new d1 by (intro conjI exI [of _ "d1 @ new"]) (simp_all, auto)
qed (auto intro!: exI [of _ "[]"])

section \<open>One row: what is accepted\<close>

lemma maxAmount_val: "maxAmount = Fin False (1000000000000 * f64_one)"
  unfolding maxAmount_def by (rule f64_of_nat_exact) simp

text \<open>
  The test that Create, Update and Import apply to an amount: what passes is NaN or
  lies above 0 and up to the maximum.
\<close>

definition amount_passes :: "f64 \<Rightarrow> bool" where
  "amount_passes x \<longleftrightarrow> \<not> fle x f0 \<and> \<not> flt maxAmount x"

lemma amount_passes_iff:
  "amount_passes x \<longleftrightarrow> x = NaN \<or> (\<exists>m. x = Fin False m \<and> 0 < m \<and> m \<le> 1000000000000 * f64_one)"
  by (cases x) (auto simp: amount_passes_def fle_def maxAmount_val)

lemma build_fields:
  assumes "buildImportedTransaction U u account row now = Inr t"
  shows "tx_user t = u" "tx_account t = a_id account" "tx_currency t = a_currency account"
    "tx_category t = None" "ValidTransactionType (tx_type t)" "amount_passes (tx_amount t)"
    "length (tx_note t) \<le> maxImportNoteLength" "parseImportDate (ir_date row) = Some (tx_date t)"
    "\<exists>ty. resolveImportAmount U row = Inr (tx_amount t, ty)"
  using assms by (auto simp: buildImportedTransaction_def Let_def amount_passes_def
      split: option.splits sum.splits if_splits)

lemma trim_no_space:
  assumes "s \<noteq> []" and "\<forall>w \<in> set space_runes. \<not> is_prefix w s \<and> \<not> is_prefix (rev w) (rev s)"
  shows "trim_space s = s"
proof -
  have "cut_any space_runes s = None" "cut_any (map rev space_runes) (rev s) = None"
    using assms(2) by (auto simp: cut_any_None)
  then show ?thesis by (simp add: trim_space_def trim_left_def trim_right_def strip_stop)
qed

lemma trim_ascii_ends:
  assumes "s \<noteq> []" and "32 < ord (hd s)" "ord (hd s) < 127" "32 < ord (last s)" "ord (last s) < 127"
  shows "trim_space s = s"
proof (rule trim_no_space [OF assms(1)], rule ballI)
  fix w assume w: "w \<in> set space_runes"
  have all: "\<forall>w \<in> set space_runes. w \<noteq> [] \<and> \<not> (32 < ord (hd w) \<and> ord (hd w) < 127) \<and>
      \<not> (32 < ord (last w) \<and> ord (last w) < 127)" by code_simp
  obtain x xs where s: "s = x # xs" using assms(1) by (cases s) auto
  obtain y ys where r: "rev s = y # ys" using assms(1) by (cases "rev s") auto
  then have y: "y = last s" using assms(1) by (metis hd_rev list.sel(1))
  obtain a as where wa: "w = a # as" using all w by (cases w) auto
  obtain b bs where wb: "rev w = b # bs" using all w by (cases "rev w") auto
  then have b: "b = last w" using all w by (metis hd_rev list.sel(1))
  note one = bspec [OF all w]
  have "a \<noteq> x" using one assms(2,3) by (auto simp: s wa)
  then have "\<not> is_prefix w s" by (simp add: s wa)
  moreover have "b \<noteq> y" using one assms(4,5) by (auto simp: b y)
  then have "\<not> is_prefix (rev w) (rev s)" unfolding r wb by simp
  ultimately show "\<not> is_prefix w s \<and> \<not> is_prefix (rev w) (rev s)" by blast
qed

lemma digits_trim:
  assumes "s \<noteq> []" and "list_all is_digit s"
  shows "trim_space s = s" "filter (\<lambda>c. c \<notin> {CHR ''$'', CHR '','', CHR '' ''}) s = s"
proof -
  have "\<forall>c \<in> set s. 48 \<le> ord c \<and> ord c \<le> 57" using assms(2) by (auto simp: list_all_iff is_digit_def)
  then have d: "48 \<le> ord (hd s)" "ord (hd s) \<le> 57" "48 \<le> ord (last s)" "ord (last s) \<le> 57" using assms(1) by auto
  then show "trim_space s = s" by (intro trim_ascii_ends [OF assms(1)]) auto
  have "c \<notin> {CHR ''$'', CHR '','', CHR '' ''}" if "c \<in> set s" for c
    using assms(2) that by (auto simp: list_all_iff is_digit_def ord_def)
  then show "filter (\<lambda>c. c \<notin> {CHR ''$'', CHR '','', CHR '' ''}) s = s" by (simp add: filter_id_conv)
qed

lemma parse_amount_digits:
  assumes "n < 2 ^ 53"
  shows "parseImportAmount U (show_nat n) = Inr (f64_of_nat n)"
proof -
  have ds: "show_nat n \<noteq> []" "list_all is_digit (show_nat n)" by simp_all
  have "\<not> is_prefix ''('' (show_nat n)"
    using ds by (cases "show_nat n") (auto simp: is_digit_def ord_def)
  then show ?thesis
    using ds(1) by (simp add: parseImportAmount_def Let_def digits_trim [OF ds] parse_float_nat [OF assms]
        del: insert_iff)
qed

lemma parse_amount_parens:
  assumes "n < 2 ^ 53"
  shows "parseImportAmount U (''('' @ show_nat n @ '')'') = Inr (fneg (f64_of_nat n))"
proof -
  have ds: "show_nat n \<noteq> []" "list_all is_digit (show_nat n)" by simp_all
  have t: "trim_space (CHR ''('' # show_nat n @ '')'') = CHR ''('' # show_nat n @ '')''"
    by (rule trim_ascii_ends) (simp_all add: ord_def)
  have "fabs (f64_of_nat n) = f64_of_nat n" by (simp add: f64_of_nat_exact [OF assms])
  then show ?thesis
    using ds(1) by (simp add: parseImportAmount_def Let_def t has_suffix_def trim_prefix_def trim_suffix_def
        digits_trim [OF ds] parse_float_nat [OF assms] del: insert_iff)
qed

lemma resolve_parens:
  assumes "0 < n" and "n < 2 ^ 53"
  shows "resolveImportAmount U (row\<lparr>ir_amount := ''('' @ show_nat n @ '')''\<rparr>) = Inr (f64_of_nat n, ''expense'')"
proof -
  have t: "trim_space (''('' @ show_nat n @ '')'') = ''('' @ show_nat n @ '')''"
    by (rule trim_ascii_ends) (simp_all add: ord_def)
  have "\<not> int n * int f64_one < 0" "0 < n * f64_one" using assms(1) by (simp_all add: f64_one_def not_less)
  then show ?thesis using t
    by (simp add: resolveImportAmount_def parse_amount_parens [OF assms(2), simplified] f64_of_nat_exact [OF assms(2)])
qed

section \<open>Properties\<close>

lemma Import_cases:
  assumes D: "lawful_expense D" and imp: "transactionService_Import U D now gen u accountID rows s = (r, s')"
  obtains (refused) e where "r = Inl e" "same_docs s s'"
  | (ran) acct s1 res where "check_account D u accountID s = (Inr acct, s1)" "same_docs s s1" "length rows \<le> maxImportRows"
      "import_rows U D (utc now) gen u acct 0 rows (\<lparr>im_imported = 0, im_skipped = 0, im_errors = []\<rparr>, s1) = (res, s')"
      "r = Inr res"
proof (cases "trim_space accountID = '''' \<or> length rows > maxImportRows")
  case True
  with imp refused show ?thesis by (auto simp: transactionService_Import_def split: if_splits)
next
  case False
  obtain q s1 where q: "check_account D u accountID s = (q, s1)" by (cases "check_account D u accountID s")
  note same = check_account_same [OF D q]
  show ?thesis
  proof (cases q)
    case (Inl e)
    with imp False q same refused [of e] show ?thesis by (auto simp: transactionService_Import_def)
  next
    case (Inr acct)
    with imp False q ran [of acct s1] same show ?thesis
      by (auto simp: transactionService_Import_def split: prod.splits)
  qed
qed


definition demo_db :: "bool list expense_db" where
  "demo_db = \<lparr>db_acc = demo_accounts,
     db_cat = mem_coll [\<lparr>cd_id = 3, cd_user = ''ann'', cd_name = ''Food'', cd_type = ''expense'', cd_created = 5, cd_updated = 5\<rparr>],
     db_tx = mem_coll [\<lparr>td_id = 4, td_user = ''bob'', td_account = mem_hex 8, td_category = None, td_type = ''expense'',
        td_amount = Fin False 1, td_currency = ''EUR'', td_date = 6, td_note = '''', td_created = 6, td_updated = 6\<rparr>],
     db_out = mem_coll []\<rparr>"

definition demo_drivers :: "bool list expense_drivers" where
  "demo_drivers = \<lparr>m_acc = mem_driver (same_id ad_id), m_cat = mem_driver (same_id cd_id),
     m_tx = mem_driver (same_id td_id), m_out = mem_driver (same_id ev_id)\<rparr>"

lemma lawful_demo [simp]: "lawful_expense demo_drivers"
  by (simp add: lawful_expense_def demo_drivers_def)

definition demo_unicode :: unicode where
  "demo_unicode = \<lparr>u_lower = (\<lambda>s. s), u_fold = (\<lambda>s t. s = t), u_quote = (\<lambda>s. s)\<rparr>"

definition demo_rows :: "import_row list" where
  "demo_rows =
    [\<lparr>ir_date = ''2026-01-15'', ir_description = ''Rent'', ir_amount = ''(12)'', ir_debit = '''', ir_credit = '''', ir_type = ''''\<rparr>,
     \<lparr>ir_date = ''soon'', ir_description = ''?'', ir_amount = ''1'', ir_debit = '''', ir_credit = '''', ir_type = ''''\<rparr>]"

definition demo_gen :: "nat \<Rightarrow> oid \<times> oid" where
  "demo_gen n = (of_nat (100 + n), of_nat (200 + n))"

lemma demo_import:
  "\<exists>res s'. transactionService_Import demo_unicode demo_drivers zero_time demo_gen ''ann'' (mem_hex 7) demo_rows demo_db = (Inr res, s')"
proof -
  have "case check_account demo_drivers ''ann'' (mem_hex 7) demo_db of (Inr a, s1) \<Rightarrow> True | _ \<Rightarrow> False"
    by code_simp
  then obtain a s1 where c: "check_account demo_drivers ''ann'' (mem_hex 7) demo_db = (Inr a, s1)"
    by (auto split: prod.splits sum.splits)
  obtain res s' where "import_rows demo_unicode demo_drivers (utc zero_time) demo_gen ''ann'' a 0 demo_rows
      (\<lparr>im_imported = 0, im_skipped = 0, im_errors = []\<rparr>, s1) = (res, s')"
    by (cases "import_rows demo_unicode demo_drivers (utc zero_time) demo_gen ''ann'' a 0 demo_rows
      (\<lparr>im_imported = 0, im_skipped = 0, im_errors = []\<rparr>, s1)")
  moreover have "trim_space (mem_hex 7) \<noteq> ''''" by code_simp
  moreover have "length demo_rows \<le> maxImportRows" by (simp add: demo_rows_def maxImportRows_def)
  ultimately have "transactionService_Import demo_unicode demo_drivers zero_time demo_gen ''ann'' (mem_hex 7) demo_rows demo_db = (Inr res, s')"
    using c by (simp add: transactionService_Import_def)
  then show ?thesis by blast
qed






text \<open>
  Bounds: an amount that a row is accepted with is NaN or a finite number above 0 and at most
  10^12; in particular an infinity is always refused.
\<close>

theorem import_amount_bounds:
  assumes "buildImportedTransaction U u account row now = Inr t"
  shows "tx_amount t = NaN \<or> (is_finite (tx_amount t) \<and> flt f0 (tx_amount t) \<and> fle (tx_amount t) (f64_of_nat 1000000000000))"
proof -
  have m: "f64_of_nat 1000000000000 = Fin False (1000000000000 * f64_one)" by (rule f64_of_nat_exact) simp
  from build_fields(6) [OF assms] show ?thesis
    unfolding amount_passes_iff m by (auto simp: fle_def)
qed

theorem import_amount_bounds_witness:
  "\<exists>t. buildImportedTransaction demo_unicode ''ann'' (account_toDomain (mem_driver (same_id ad_id)) (hd (docs demo_accounts)))
       (hd demo_rows) zero_time = Inr t \<and> (tx_amount t = NaN \<or> is_finite (tx_amount t))"
proof -
  let ?a = "account_toDomain (mem_driver (same_id ad_id)) (hd (docs demo_accounts))"
  have n: "show_nat 12 = ''12''" by code_simp
  have r: "hd demo_rows = (hd demo_rows)\<lparr>ir_amount := ''('' @ show_nat 12 @ '')''\<rparr>"
    by (simp add: demo_rows_def n)
  have res: "resolveImportAmount demo_unicode (hd demo_rows) = Inr (f64_of_nat 12, ''expense'')"
    by (subst r) (rule resolve_parens; simp add: demo_rows_def)
  have f: "f64_of_nat 12 = Fin False (12 * f64_one)" by (rule f64_of_nat_exact) simp
  have "parseImportDate ''2026-01-15'' \<noteq> None" by code_simp
  then obtain date where "parseImportDate (ir_date (hd demo_rows)) = Some date" by (auto simp: demo_rows_def)
  moreover have "to_lower demo_unicode (trim_space (ir_type (hd demo_rows))) = ''''"
    by (simp add: demo_rows_def to_lower_def)
  ultimately obtain t where t: "buildImportedTransaction demo_unicode ''ann'' ?a (hd demo_rows) zero_time = Inr t"
    by (auto simp: buildImportedTransaction_def res ValidTransactionType_def f fle_def maxAmount_val f64_one_def Let_def)
  from import_amount_bounds [OF t] t show ?thesis by blast
qed

text \<open>
  C16. The value NaN is accepted: a row whose amount cell reads NaN becomes a transaction with that
  amount, for which no event can be marshalled.
\<close>

theorem import_accepts_nan:
  "\<exists>t. buildImportedTransaction U u account
       \<lparr>ir_date = ''2026-01-15'', ir_description = d, ir_amount = ''NaN'', ir_debit = b, ir_credit = k, ir_type = ''''\<rparr> now = Inr t \<and>
     tx_amount t = NaN \<and> amount_passes (tx_amount t) \<and> transaction_event t = None"
proof -
  have "parseImportDate ''2026-01-15'' \<noteq> None" by code_simp
  then obtain date where dt: "parseImportDate ''2026-01-15'' = Some date" by blast
  have tr: "trim_space ''NaN'' = ''NaN''" by code_simp
  have pf: "parse_float ''NaN'' = Some NaN" by code_simp
  have v: "ValidTransactionType ''income''" by (simp add: ValidTransactionType_def)
  have lo: "to_lower U '''' = ''''" by (simp add: to_lower_def)
  have pa: "parseImportAmount U ''NaN'' = Inr NaN" by (simp add: parseImportAmount_def Let_def tr pf)
  show ?thesis
    by (simp add: buildImportedTransaction_def resolveImportAmount_def dt tr pa v lo
        amount_passes_def transaction_event_def json_float_def Let_def)
qed

end
