(* ===== verification/Expense_Http.thy ===== *)
theory Expense_Http imports Expense_Import Httpx Paging begin

text \<open>
  expense-service, the HTTP surface: the handlers of \<open>internal/handler\<close>, the CSV
  reader of the import endpoint and the routes of \<open>internal/router\<close>. A handler gets
  the request id, the caller, the parameters of the path and the query, and the
  outcome of gin's binding (\<open>Inl text\<close> when \<open>ShouldBindJSON\<close> failed); the records that
  \<open>encoding/csv\<close> reads are an argument as well.
\<close>

section \<open>Requests and answers\<close>

datatype expense_data =
    DAccounts "account list"
  | DAccount account
  | DCategories "category list"
  | DCategory category
  | DTransactions transaction_page
  | DTransaction transaction
  | DImport import_result

record transaction_request =
  tr_account :: string
  tr_category :: "string option"
  tr_type :: string
  tr_amount :: f64
  tr_currency :: string
  tr_date :: string
  tr_note :: string

record transactions_query =
  qy_account_id :: string
  qy_category :: string
  qy_page :: string
  qy_page_size :: string
  qy_from :: string
  qy_to :: string

type_synonym expense_answer = "expense_data response"

section \<open>helpers.go\<close>

definition writeServiceError :: "string \<Rightarrow> go_error \<Rightarrow> 'a response" where
  [http_defs]: "writeServiceError rid err = (case err of
      ValidationError f m \<Rightarrow> httpx_Fail rid 400 CodeValidation m (Some (Fields [(''field'', f)]))
    | ErrNotFound \<Rightarrow> httpx_Fail rid 404 CodeNotFound ''resource not found'' None
    | _ \<Rightarrow> httpx_Fail rid 500 CodeInternal ''internal server error'' None)"

text \<open>The tail of every handler: the error, or the payload with the success status.\<close>

definition answer :: "string \<Rightarrow> nat \<Rightarrow> ('a \<Rightarrow> expense_data) \<Rightarrow> 'a res \<times> 's \<Rightarrow> expense_answer \<times> 's" where
  [http_defs]: "answer rid status f rs = (case rs of
      (Inl e, s) \<Rightarrow> (writeServiceError rid e, s)
    | (Inr x, s) \<Rightarrow> (httpx_Success rid status (f x), s))"

definition answer_204 :: "string \<Rightarrow> unit res \<times> 's \<Rightarrow> expense_answer \<times> 's" where
  [http_defs]: "answer_204 rid rs = (case rs of
      (Inl e, s) \<Rightarrow> (writeServiceError rid e, s)
    | (Inr _, s) \<Rightarrow> (no_content, s))"

definition bad_body :: "string \<Rightarrow> string \<Rightarrow> 'a response" where
  [http_defs]: "bad_body rid e = httpx_Fail rid 400 CodeValidation ''invalid request body'' (Some (Fields [(''error'', e)]))"

section \<open>Accounts and categories\<close>

definition AccountHandler_List :: "'e expense_drivers \<Rightarrow> string \<Rightarrow> string \<Rightarrow> 'e expense_db \<Rightarrow> expense_answer \<times> 'e expense_db" where
  [http_defs]: "AccountHandler_List D rid u s = answer rid 200 DAccounts (on_acc (accountService_List (m_acc D) u) s)"

definition AccountHandler_Create ::
  "'e expense_drivers \<Rightarrow> gotime \<Rightarrow> oid \<Rightarrow> string \<Rightarrow> string \<Rightarrow> string + create_account_input \<Rightarrow> 'e expense_db \<Rightarrow>
   expense_answer \<times> 'e expense_db" where
  [http_defs]: "AccountHandler_Create D now i rid u body s = (case body of
      Inl e \<Rightarrow> (bad_body rid e, s)
    | Inr req \<Rightarrow> answer rid 201 DAccount (on_acc (accountService_Create (m_acc D) now i u req) s))"

definition AccountHandler_Get :: "'e expense_drivers \<Rightarrow> string \<Rightarrow> string \<Rightarrow> string \<Rightarrow> 'e expense_db \<Rightarrow> expense_answer \<times> 'e expense_db" where
  [http_defs]: "AccountHandler_Get D rid u k s = answer rid 200 DAccount (on_acc (accountService_Get (m_acc D) u k) s)"

definition AccountHandler_Update ::
  "'e expense_drivers \<Rightarrow> gotime \<Rightarrow> string \<Rightarrow> string \<Rightarrow> string \<Rightarrow> string + update_account_input \<Rightarrow> 'e expense_db \<Rightarrow>
   expense_answer \<times> 'e expense_db" where
  [http_defs]: "AccountHandler_Update D now rid u k body s = (case body of
      Inl e \<Rightarrow> (bad_body rid e, s)
    | Inr req \<Rightarrow> answer rid 200 DAccount (on_acc (accountService_Update (m_acc D) now u k req) s))"

definition AccountHandler_Delete :: "'e expense_drivers \<Rightarrow> string \<Rightarrow> string \<Rightarrow> string \<Rightarrow> 'e expense_db \<Rightarrow> expense_answer \<times> 'e expense_db" where
  [http_defs]: "AccountHandler_Delete D rid u k s = answer_204 rid (on_acc (accountService_Delete (m_acc D) u k) s)"

definition CategoryHandler_List :: "'e expense_drivers \<Rightarrow> string \<Rightarrow> string \<Rightarrow> 'e expense_db \<Rightarrow> expense_answer \<times> 'e expense_db" where
  [http_defs]: "CategoryHandler_List D rid u s = answer rid 200 DCategories (on_cat (categoryService_List (m_cat D) u) s)"

definition CategoryHandler_Create ::
  "'e expense_drivers \<Rightarrow> gotime \<Rightarrow> oid \<Rightarrow> string \<Rightarrow> string \<Rightarrow> string + create_category_input \<Rightarrow> 'e expense_db \<Rightarrow>
   expense_answer \<times> 'e expense_db" where
  [http_defs]: "CategoryHandler_Create D now i rid u body s = (case body of
      Inl e \<Rightarrow> (bad_body rid e, s)
    | Inr req \<Rightarrow> answer rid 201 DCategory (on_cat (categoryService_Create (m_cat D) now i u req) s))"

section \<open>Transactions\<close>

definition parseDate :: "string \<Rightarrow> gotime option" where
  "parseDate v = (if v = '''' then None
     else (case parse_rfc3339 v of Some t \<Rightarrow> Some t | None \<Rightarrow> parse_ymd v))"

definition TransactionHandler_List ::
  "'e expense_drivers \<Rightarrow> string \<Rightarrow> string \<Rightarrow> transactions_query \<Rightarrow> 'e expense_db \<Rightarrow> expense_answer \<times> 'e expense_db" where
  [http_defs]: "TransactionHandler_List D rid u q s =
    (if qy_from q \<noteq> '''' \<and> parseDate (qy_from q) = None then
       (httpx_Fail rid 400 CodeValidation ''invalid from date'' (Some (Fields [(''field'', ''from'')])), s)
     else if qy_to q \<noteq> '''' \<and> parseDate (qy_to q) = None then
       (httpx_Fail rid 400 CodeValidation ''invalid to date'' (Some (Fields [(''field'', ''to'')])), s)
     else answer rid 200 DTransactions
       (transactionService_List D u
          \<lparr>li_account = qy_account_id q, li_category = qy_category q,
           li_from = (if qy_from q \<noteq> '''' then parseDate (qy_from q) else None),
           li_to = (if qy_to q \<noteq> '''' then parseDate (qy_to q) else None),
           li_page = query_int (qy_page q), li_page_size = query_int (qy_page_size q)\<rparr> s))"

definition bad_date :: "string \<Rightarrow> 'a response" where
  [http_defs]: "bad_date rid = httpx_Fail rid 400 CodeValidation ''date is required and must be RFC3339 or YYYY-MM-DD''
     (Some (Fields [(''field'', ''date'')]))"

definition transaction_request_input :: "transaction_request \<Rightarrow> gotime \<Rightarrow> transaction_input" where
  "transaction_request_input req date =
    \<lparr>ti_account = tr_account req, ti_category = tr_category req, ti_type = tr_type req, ti_amount = tr_amount req,
     ti_currency = tr_currency req, ti_date = date, ti_note = tr_note req\<rparr>"

definition TransactionHandler_Create ::
  "'e expense_drivers \<Rightarrow> gotime \<Rightarrow> oid \<Rightarrow> oid \<Rightarrow> string \<Rightarrow> string \<Rightarrow> string + transaction_request \<Rightarrow> 'e expense_db \<Rightarrow>
   expense_answer \<times> 'e expense_db" where
  [http_defs]: "TransactionHandler_Create D now i j rid u body s = (case body of
      Inl e \<Rightarrow> (bad_body rid e, s)
    | Inr req \<Rightarrow> (case parseDate (tr_date req) of
          None \<Rightarrow> (bad_date rid, s)
        | Some date \<Rightarrow> answer rid 201 DTransaction
            (transactionService_Create D now i j u (transaction_request_input req date) s)))"

definition TransactionHandler_Get :: "'e expense_drivers \<Rightarrow> string \<Rightarrow> string \<Rightarrow> string \<Rightarrow> 'e expense_db \<Rightarrow> expense_answer \<times> 'e expense_db" where
  [http_defs]: "TransactionHandler_Get D rid u k s = answer rid 200 DTransaction (transactionService_Get D u k s)"

definition TransactionHandler_Update ::
  "'e expense_drivers \<Rightarrow> gotime \<Rightarrow> string \<Rightarrow> string \<Rightarrow> string \<Rightarrow> string + transaction_request \<Rightarrow> 'e expense_db \<Rightarrow>
   expense_answer \<times> 'e expense_db" where
  [http_defs]: "TransactionHandler_Update D now rid u k body s = (case body of
      Inl e \<Rightarrow> (bad_body rid e, s)
    | Inr req \<Rightarrow> (case parseDate (tr_date req) of
          None \<Rightarrow> (bad_date rid, s)
        | Some date \<Rightarrow> answer rid 200 DTransaction
            (transactionService_Update D now u k (transaction_request_input req date) s)))"

definition TransactionHandler_Delete :: "'e expense_drivers \<Rightarrow> string \<Rightarrow> string \<Rightarrow> string \<Rightarrow> 'e expense_db \<Rightarrow> expense_answer \<times> 'e expense_db" where
  [http_defs]: "TransactionHandler_Delete D rid u k s = answer_204 rid (transactionService_Delete D u k s)"

section \<open>The CSV endpoint\<close>

text \<open>What \<open>csv.Reader.Read\<close> returned, call by call, until \<open>io.EOF\<close> or the first error.\<close>

datatype csv_end = CsvEOF | CsvError string

record csv_file =
  csv_records :: "string list list"
  csv_end_of :: csv_end

definition importColumnAliases :: "string \<Rightarrow> string list" where
  "importColumnAliases k =
    (if k = ''date'' then [''date'', ''transaction date'', ''posted date'']
     else if k = ''description'' then [''description'', ''merchant'', ''payee'', ''note'']
     else if k = ''amount'' then [''amount'']
     else if k = ''debit'' then [''debit'']
     else if k = ''credit'' then [''credit'']
     else if k = ''type'' then [''type'']
     else [])"

definition normalizeHeader :: "unicode \<Rightarrow> string \<Rightarrow> string" where
  "normalizeHeader U name = to_lower U (trim_space name)"

text \<open>The map of header names; a name that occurs twice keeps its last column.\<close>

fun column_index :: "unicode \<Rightarrow> nat \<Rightarrow> string list \<Rightarrow> (string \<rightharpoonup> nat) \<Rightarrow> (string \<rightharpoonup> nat)" where
  "column_index U n [] m = m"
| "column_index U n (h # hs) m = column_index U (Suc n) hs (m(normalizeHeader U h \<mapsto> n))"

fun findColumn :: "(string \<rightharpoonup> nat) \<Rightarrow> string list \<Rightarrow> nat option" where
  "findColumn m [] = None"
| "findColumn m (a # as) = (case m a of Some i \<Rightarrow> Some i | None \<Rightarrow> findColumn m as)"

definition field :: "string list \<Rightarrow> nat option \<Rightarrow> string" where
  "field record idx = (case idx of None \<Rightarrow> '''' | Some i \<Rightarrow> if i < length record then record ! i else '''')"

definition parseImportCSV :: "unicode \<Rightarrow> csv_file \<Rightarrow> string + import_row list" where
  "parseImportCSV U f = (case csv_records f of
      [] \<Rightarrow> (case csv_end_of f of
          CsvEOF \<Rightarrow> Inl ''the uploaded file is empty''
        | CsvError e \<Rightarrow> Inl ''could not parse the uploaded file as CSV'')
    | header # records \<Rightarrow>
        (let m = column_index U 0 header (\<lambda>_. None);
             dateIdx = findColumn m (importColumnAliases ''date'');
             amountIdx = findColumn m (importColumnAliases ''amount'');
             debitIdx = findColumn m (importColumnAliases ''debit'');
             creditIdx = findColumn m (importColumnAliases ''credit'');
             descIdx = findColumn m (importColumnAliases ''description'');
             typeIdx = findColumn m (importColumnAliases ''type'')
         in if dateIdx = None then Inl ''CSV must include a date column (e.g. \"Date\")''
            else if amountIdx = None \<and> debitIdx = None \<and> creditIdx = None then
              Inl ''CSV must include an amount column (e.g. \"Amount\"), or separate \"Debit\"/\"Credit\" columns''
            else (case csv_end_of f of
                CsvError e \<Rightarrow> Inl (''could not parse the uploaded file as CSV: '' @ e)
              | CsvEOF \<Rightarrow> Inr (map (\<lambda>r.
                  \<lparr>ir_date = field r dateIdx, ir_description = field r descIdx, ir_amount = field r amountIdx,
                   ir_debit = field r debitIdx, ir_credit = field r creditIdx, ir_type = field r typeIdx\<rparr>) records))))"

text \<open>The multipart request: the form field, and the file as far as it could be had.\<close>

datatype upload = NoFile | Unreadable | File csv_file

definition TransactionHandler_ImportCSV ::
  "unicode \<Rightarrow> 'e expense_drivers \<Rightarrow> gotime \<Rightarrow> (nat \<Rightarrow> oid \<times> oid) \<Rightarrow> string \<Rightarrow> string \<Rightarrow> string \<Rightarrow> upload \<Rightarrow> 'e expense_db \<Rightarrow>
   expense_answer \<times> 'e expense_db" where
  [http_defs]: "TransactionHandler_ImportCSV U D now gen rid u form_account up s =
    (let accountID = trim_space form_account in
     if accountID = '''' then
       (httpx_Fail rid 400 CodeValidation ''account_id is required'' (Some (Fields [(''field'', ''account_id'')])), s)
     else (case up of
         NoFile \<Rightarrow> (httpx_Fail rid 400 CodeValidation ''a CSV file is required (multipart field \"file\")'' (Some (Fields [(''field'', ''file'')])), s)
       | Unreadable \<Rightarrow> (httpx_Fail rid 400 CodeValidation ''could not read uploaded file'' None, s)
       | File f \<Rightarrow> (case parseImportCSV U f of
             Inl e \<Rightarrow> (httpx_Fail rid 400 CodeValidation e (Some (Fields [(''field'', ''file'')])), s)
           | Inr rows \<Rightarrow> answer rid 200 DImport (transactionService_Import U D now gen u accountID rows s))))"

section \<open>Routes\<close>

datatype expense_request =
    GetAccounts
  | PostAccount gotime oid "string + create_account_input"
  | GetAccount string
  | PutAccount gotime string "string + update_account_input"
  | DeleteAccount string
  | GetTransactions transactions_query
  | PostTransaction gotime oid oid "string + transaction_request"
  | PostImport gotime "nat \<Rightarrow> oid \<times> oid" string upload
  | GetTransaction string
  | PutTransaction gotime string "string + transaction_request"
  | DeleteTransaction string
  | GetCategories
  | PostCategory gotime oid "string + create_category_input"

fun expense_route ::
  "unicode \<Rightarrow> 'e expense_drivers \<Rightarrow> string \<Rightarrow> expense_request \<Rightarrow> string \<Rightarrow> 'e expense_db \<Rightarrow> expense_answer \<times> 'e expense_db" where
  "expense_route U D rid GetAccounts u s = AccountHandler_List D rid u s"
| "expense_route U D rid (PostAccount now i body) u s = AccountHandler_Create D now i rid u body s"
| "expense_route U D rid (GetAccount k) u s = AccountHandler_Get D rid u k s"
| "expense_route U D rid (PutAccount now k body) u s = AccountHandler_Update D now rid u k body s"
| "expense_route U D rid (DeleteAccount k) u s = AccountHandler_Delete D rid u k s"
| "expense_route U D rid (GetTransactions q) u s = TransactionHandler_List D rid u q s"
| "expense_route U D rid (PostTransaction now i j body) u s = TransactionHandler_Create D now i j rid u body s"
| "expense_route U D rid (PostImport now gen k up) u s = TransactionHandler_ImportCSV U D now gen rid u k up s"
| "expense_route U D rid (GetTransaction k) u s = TransactionHandler_Get D rid u k s"
| "expense_route U D rid (PutTransaction now k body) u s = TransactionHandler_Update D now rid u k body s"
| "expense_route U D rid (DeleteTransaction k) u s = TransactionHandler_Delete D rid u k s"
| "expense_route U D rid GetCategories u s = CategoryHandler_List D rid u s"
| "expense_route U D rid (PostCategory now i body) u s = CategoryHandler_Create D now i rid u body s"

text \<open>The \<open>/api/v1\<close> group: identity first, then the route.\<close>

definition expense_api ::
  "unicode \<Rightarrow> 'e expense_drivers \<Rightarrow> string \<Rightarrow> string \<Rightarrow> expense_request \<Rightarrow> 'e expense_db \<Rightarrow> expense_answer \<times> 'e expense_db" where
  "expense_api U D rid user_header req s = RequireIdentity rid user_header (expense_route U D rid req) s"

end
