(* ===== verification/Expense_System.thy ===== *)
theory Expense_System imports Expense_Http begin

text \<open>
  expense-service as a whole: one step is one HTTP request by one caller, with every
  failure of the database left open. Proved of every sequence of requests: the
  well-formedness of what is stored, the isolation of the tenants for writes and
  for reads, and the response contract.
\<close>

section \<open>Invariant and isolation of one step\<close>

definition wf_tx_doc :: "transaction_doc \<Rightarrow> bool" where
  "wf_tx_doc d \<longleftrightarrow> ValidTransactionType (td_type d) \<and> amount_passes (td_amount d) \<and> trim_space (td_currency d) \<noteq> ''''"

definition expense_inv :: "'e expense_db \<Rightarrow> bool" where
  "expense_inv s \<longleftrightarrow> accounts_inv (db_acc s) \<and> categories_inv (db_cat s) \<and>
     ids_distinct td_id (db_tx s) \<and> (\<forall>d \<in> set (docs (db_tx s)). wf_tx_doc d) \<and> ids_distinct ev_id (db_out s)"

text \<open>Everything that belongs to one user.\<close>

definition tenant :: "string \<Rightarrow> 'e expense_db \<Rightarrow> account_doc list \<times> category_doc list \<times> transaction_doc list" where
  "tenant v s = (view ad_user v (db_acc s), view cd_user v (db_cat s), view td_user v (db_tx s))"

definition good_step :: "string \<Rightarrow> 'e expense_db \<Rightarrow> 'e expense_db \<Rightarrow> bool" where
  "good_step u s s' \<longleftrightarrow> (expense_inv s \<longrightarrow> expense_inv s') \<and> (\<forall>v. v \<noteq> u \<longrightarrow> tenant v s' = tenant v s)"

lemma good_step_same: "same_docs s s' \<Longrightarrow> good_step u s s'"
  by (auto simp: good_step_def same_docs_def expense_inv_def tenant_def accounts_inv_def categories_inv_def
      ids_distinct_def view_def)

lemma good_step_trans: "good_step u a b \<Longrightarrow> good_step u b c \<Longrightarrow> good_step u a c"
  by (auto simp: good_step_def)

lemma good_step_acc:
  assumes D: "lawful_expense D"
  shows "good_step u s (s\<lparr>db_acc := account_step (m_acc D) (u, op) (db_acc s)\<rparr>)"
  using account_step_inv [OF lawful_expenseD(1) [OF D]] account_step_foreign [OF lawful_expenseD(1) [OF D]]
  by (auto simp: good_step_def expense_inv_def tenant_def)

lemma snd_on_acc: "snd (on_acc f s) = s\<lparr>db_acc := snd (f (db_acc s))\<rparr>"
  by (simp add: on_acc_def split: prod.splits)

lemma snd_on_cat: "snd (on_cat f s) = s\<lparr>db_cat := snd (f (db_cat s))\<rparr>"
  by (simp add: on_cat_def split: prod.splits)

lemma snd_on_tx: "snd (on_tx f s) = s\<lparr>db_tx := snd (f (db_tx s))\<rparr>"
  by (simp add: on_tx_def split: prod.splits)

lemma snd_answer [simp]: "snd (answer rid st f rs) = snd rs" "snd (answer_204 rid qs) = snd qs"
  by (cases rs; cases "fst rs"; simp add: answer_def) (cases qs; cases "fst qs"; simp add: answer_204_def)

lemma good_step_cat:
  assumes D: "lawful_expense D"
  shows "good_step u s (s\<lparr>db_cat := snd (categoryService_Create (m_cat D) now i u inp (db_cat s))\<rparr>)"
    and "good_step u s (s\<lparr>db_cat := snd (categoryService_List (m_cat D) u (db_cat s))\<rparr>)"
proof -
  obtain r c where r: "categoryService_Create (m_cat D) now i u inp (db_cat s) = (r, c)"
    by (cases "categoryService_Create (m_cat D) now i u inp (db_cat s)")
  from categoryService_Create_inv [OF lawful_expenseD(2) [OF D] _ r] categoryService_Create_foreign [OF lawful_expenseD(2) [OF D] r]
  show "good_step u s (s\<lparr>db_cat := snd (categoryService_Create (m_cat D) now i u inp (db_cat s))\<rparr>)"
    by (auto simp: good_step_def expense_inv_def tenant_def r)
  obtain q d where q: "categoryService_List (m_cat D) u (db_cat s) = (q, d)"
    by (cases "categoryService_List (m_cat D) u (db_cat s)")
  from categoryService_List_docs [OF lawful_expenseD(2) [OF D] q]
  show "good_step u s (s\<lparr>db_cat := snd (categoryService_List (m_cat D) u (db_cat s))\<rparr>)"
    by (intro good_step_same) (simp add: same_docs_def q)
qed

lemma validateCommon_None:
  assumes "transactionService_validateCommon k ty a cur d = None"
  shows "trim_space k \<noteq> ''''" "ValidTransactionType ty" "amount_passes a" "trim_space cur \<noteq> ''''" "\<not> is_zero_time d"
  using assms by (auto simp: transactionService_validateCommon_def amount_passes_def split: if_splits)

text \<open>Publishing keeps the invariant and does not touch what belongs to users.\<close>

lemma good_step_publish:
  assumes D: "lawful_expense D"
  shows "good_step u s (transactionService_publishCreated D now j t s)"
proof -
  note p = publishCreated_cases [OF D, of now j t s]
  have "ids_distinct ev_id (db_out s) \<longrightarrow> ids_distinct ev_id (db_out (transactionService_publishCreated D now j t s))"
    using p(4) by (elim disjE exE conjE) (simp_all add: ids_distinct_def image_iff, metis)
  then show ?thesis by (simp add: good_step_def expense_inv_def tenant_def p(1-3))
qed

lemma good_step_tx_insert:
  assumes D: "lawful_expense D" and c: "TransactionRepository_Create (m_tx D) i t (db_tx s) = (q, c)"
    and t: "tx_user t = u" "wf_tx_doc (transaction_newDoc i t)"
  shows "good_step u s (s\<lparr>db_tx := c\<rparr>)"
proof -
  have "ids_distinct td_id (db_tx s) \<longrightarrow> ids_distinct td_id c"
    using txr.create_distinct [OF lawful_expenseD(3) [OF D] c] by blast
  moreover have "\<forall>v. v \<noteq> u \<longrightarrow> view td_user v c = view td_user v (db_tx s)"
    using txr.create_foreign [OF lawful_expenseD(3) [OF D] c] t(1) by blast
  moreover have "(\<forall>d \<in> set (docs (db_tx s)). wf_tx_doc d) \<longrightarrow> (\<forall>d \<in> set (docs c). wf_tx_doc d)"
    using create_shape(1) [OF lawful_expenseD(3) [OF D] c [unfolded TransactionRepository_Create_def]] t(2) by auto
  ultimately show ?thesis by (auto simp: good_step_def expense_inv_def tenant_def)
qed

lemma good_step_Create:
  assumes D: "lawful_expense D"
  shows "good_step u s (snd (transactionService_Create D now i j u inp s))"
proof -
  obtain r s' where r: "transactionService_Create D now i j u inp s = (r, s')"
    by (cases "transactionService_Create D now i j u inp s")
  from D r have "good_step u s s'"
  proof (cases rule: transactionService_Create_cases)
    case (refused e)
    then show ?thesis by (intro good_step_same)
  next
    case (called t q s2 c)
    have "wf_tx_doc (transaction_newDoc i t)"
      using validateCommon_None [OF called(1)] by (simp add: wf_tx_doc_def transaction_newDoc_def called(5))
    then have "good_step u s2 (s2\<lparr>db_tx := c\<rparr>)"
      using good_step_tx_insert [OF D called(6)] called(5) by simp
    then have g: "good_step u s (s2\<lparr>db_tx := c\<rparr>)" using good_step_trans good_step_same [OF called(4)] by blast
    show ?thesis
    proof (cases q)
      case (Inl e)
      with called(7) g show ?thesis by simp
    next
      case (Inr t')
      with called(7) good_step_trans [OF g good_step_publish [OF D]] show ?thesis by simp
    qed
  qed
  with r show ?thesis by simp
qed

lemma good_step_List:
  assumes D: "lawful_expense D"
  shows "good_step u s (snd (transactionService_List D u inp s))"
    and "same_docs s (snd (transactionService_List D u inp s))"
proof -
  have repo: "docs (snd (TransactionRepository_ListByUser (m_tx D) u f c)) = docs c" for f c
    using count_docs_docs [OF lawful_expenseD(3) [OF D]] find_all_docs [OF lawful_expenseD(3) [OF D]]
    by (auto simp: TransactionRepository_ListByUser_def Let_def split: prod.splits sum.splits)
  have ok: "snd (on_ok rs (\<lambda>x t. (Inr (f x), t))) = snd rs" for rs :: "transaction_page res \<times> 'b expense_db" and f
    by (cases rs; cases "fst rs") auto
  show same: "same_docs s (snd (transactionService_List D u inp s))"
    by (auto simp: transactionService_List_def Let_def same_docs_def ok snd_on_tx repo)
  show "good_step u s (snd (transactionService_List D u inp s))" by (rule good_step_same [OF same])
qed

lemma good_step_Update:
  assumes D: "lawful_expense D"
  shows "good_step u s (snd (transactionService_Update D now u k inp s))"
proof -
  note M = lawful_expenseD(3) [OF D]
  obtain r s' where r: "transactionService_Update D now u k inp s = (r, s')"
    by (cases "transactionService_Update D now u k inp s")
  from D r have "good_step u s s'"
  proof (cases rule: transactionService_Update_cases)
    case (refused e)
    then show ?thesis by (intro good_step_same)
  next
    case (called t x q s2 c)
    have user: "tx_user t = u" using called(5,6) by (auto simp: transaction_toDomain_def)
    have "ids_distinct td_id (db_tx s2) \<longrightarrow> ids_distinct td_id c"
      using txr.update_distinct [OF M called(7)] by blast
    moreover have "\<forall>v. v \<noteq> u \<longrightarrow> view td_user v c = view td_user v (db_tx s2)"
      using txr.update_foreign [OF M called(7)] user by blast
    moreover have "wf_tx_doc (transaction_set t d)" for d
      using validateCommon_None [OF called(1)] by (simp add: wf_tx_doc_def transaction_set_def called(6))
    then have "(\<forall>d \<in> set (docs (db_tx s2)). wf_tx_doc d) \<longrightarrow> (\<forall>d \<in> set (docs c). wf_tx_doc d)"
      using txr.update_any [OF M called(7)] by (auto dest: one_updated_set)
    ultimately have "good_step u s2 s'" by (auto simp: good_step_def expense_inv_def tenant_def called(8))
    then show ?thesis using good_step_trans good_step_same [OF called(4)] by blast
  qed
  with r show ?thesis by simp
qed

lemma good_step_Delete:
  assumes D: "lawful_expense D"
  shows "good_step u s (snd (transactionService_Delete D u k s))"
proof -
  note M = lawful_expenseD(3) [OF D]
  obtain r c where r: "TransactionRepository_DeleteByIDForUser (m_tx D) k u (db_tx s) = (r, c)"
    by (cases "TransactionRepository_DeleteByIDForUser (m_tx D) k u (db_tx s)")
  have "(\<forall>d \<in> set (docs (db_tx s)). wf_tx_doc d) \<longrightarrow> (\<forall>d \<in> set (docs c). wf_tx_doc d)"
    using txr.delete_any [OF M r] by (auto dest: one_deleted_set)
  then show ?thesis
    using txr.delete_distinct [OF M r] txr.delete_foreign [OF M r] r
    by (auto simp: transactionService_Delete_def snd_on_tx good_step_def expense_inv_def tenant_def)
qed

lemma good_step_Get:
  assumes D: "lawful_expense D"
  shows "good_step u s (snd (transactionService_Get D u k s))"
proof -
  obtain r c where r: "TransactionRepository_GetByIDForUser (m_tx D) k u (db_tx s) = (r, c)"
    by (cases "TransactionRepository_GetByIDForUser (m_tx D) k u (db_tx s)")
  with txr.get_docs [OF lawful_expenseD(3) [OF D] r] show ?thesis
    by (intro good_step_same) (simp add: transactionService_Get_def snd_on_tx same_docs_def)
qed

lemma import_rows_out:
  assumes D: "lawful_expense D"
  shows "import_rows U D now gen u account n rows (res, s) = (res', s') \<Longrightarrow> ids_distinct ev_id (db_out s) \<Longrightarrow>
    ids_distinct ev_id (db_out s')"
proof (induction rows arbitrary: n res s)
  case (Cons row rows)
  obtain res1 s1 where one: "import_one U D now gen u account n row (res, s) = (res1, s1)"
    by (cases "import_one U D now gen u account n row (res, s)")
  from D one have "ids_distinct ev_id (db_out s1)"
  proof (cases rule: import_one_spec)
    case (skipped msg)
    with Cons.prems(2) show ?thesis by simp
  next
    case (imported t)
    obtain s0 where s0: "s1 = transactionService_publishCreated D now (snd (gen n)) (t\<lparr>tx_id := hex (m_tx D) (fst (gen n))\<rparr>) s0"
      "db_out s0 = db_out s" using imported(7) by blast
    show ?thesis
      using publishCreated_cases(4) [OF D, of now "snd (gen n)" "t\<lparr>tx_id := hex (m_tx D) (fst (gen n))\<rparr>" s0] Cons.prems(2)
      unfolding s0 by (elim disjE exE conjE) (simp_all add: ids_distinct_def image_iff, metis)
  qed
  with Cons.IH [of "Suc n" res1 s1] Cons.prems one show ?case by simp
qed simp

lemma good_step_Import:
  assumes D: "lawful_expense D"
  shows "good_step u s (snd (transactionService_Import U D now gen u k rows s))"
proof -
  obtain r s' where r: "transactionService_Import U D now gen u k rows s = (r, s')"
    by (cases "transactionService_Import U D now gen u k rows s")
  from D r have "good_step u s s'"
  proof (cases rule: Import_cases)
    case (refused e)
    then show ?thesis by (intro good_step_same)
  next
    case (ran acct s1 res)
    from import_rows_docs [OF D ran(4)] obtain new where new:
      "db_acc s' = db_acc s1" "db_cat s' = db_cat s1" "docs (db_tx s') = docs (db_tx s1) @ new"
      "\<forall>d \<in> set new. \<exists>row \<in> set rows. \<exists>i t. buildImportedTransaction U u acct row (utc now) = Inr t \<and> d = transaction_newDoc i t"
      "ids_distinct td_id (db_tx s1) \<longrightarrow> ids_distinct td_id (db_tx s')" by blast
    have own: "td_user d = u" if "d \<in> set new" for d
      using new(4) that build_fields(1) by (fastforce simp: transaction_newDoc_def)
    have wf: "wf_tx_doc d" if inv: "expense_inv s" and d: "d \<in> set new" for d
    proof -
      obtain a where a: "a \<in> set (docs (db_acc s))" "acct = account_toDomain (m_acc D) a"
        using check_account_ok(3) [OF D ran(1)] by blast
      then have "trim_space (a_currency acct) \<noteq> ''''"
        using inv by (auto simp: expense_inv_def accounts_inv_def wf_account_doc_def account_toDomain_def)
      moreover obtain row i t where "buildImportedTransaction U u acct row (utc now) = Inr t" "d = transaction_newDoc i t"
        using new(4) d by blast
      ultimately show ?thesis using build_fields(3,5,6) by (simp add: wf_tx_doc_def transaction_newDoc_def)
    qed
    have "expense_inv s'" if inv: "expense_inv s"
    proof -
      have i1: "expense_inv s1" using good_step_same [OF ran(2)] inv unfolding good_step_def by blast
      then have "ids_distinct ev_id (db_out s')" using import_rows_out [OF D ran(4)] by (simp add: expense_inv_def)
      with i1 wf [OF inv] new show ?thesis by (auto simp: expense_inv_def)
    qed
    moreover have "tenant v s' = tenant v s" if "v \<noteq> u" for v
    proof -
      have "filter (\<lambda>d. td_user d = v) new = []" using own that by (simp add: filter_empty_conv)
      then have "tenant v s' = tenant v s1" by (simp add: tenant_def view_def new(1-3))
      also have "\<dots> = tenant v s" using good_step_same [OF ran(2), of u] that unfolding good_step_def by blast
      finally show ?thesis .
    qed
    ultimately show ?thesis by (simp add: good_step_def)
  qed
  with r show ?thesis by simp
qed

lemma expense_route_good:
  assumes D: "lawful_expense D"
  shows "good_step u s (snd (expense_route U D rid req u s))"
proof -
  note acc_op = good_step_acc [OF D, of u s]
  have same: "good_step u s s" by (rule good_step_same) simp
  show ?thesis
  proof (cases req)
    case GetAccounts
    then show ?thesis using acc_op [of AccList] by (simp add: AccountHandler_List_def snd_on_acc)
  next
    case (PostAccount now i body)
    then show ?thesis using acc_op [of "AccCreate now i (projr body)"] same
      by (cases body) (simp_all add: AccountHandler_Create_def snd_on_acc)
  next
    case (GetAccount k)
    then show ?thesis using acc_op [of "AccGet k"] by (simp add: AccountHandler_Get_def snd_on_acc)
  next
    case (PutAccount now k body)
    then show ?thesis using acc_op [of "AccUpdate now k (projr body)"] same
      by (cases body) (simp_all add: AccountHandler_Update_def snd_on_acc)
  next
    case (DeleteAccount k)
    then show ?thesis using acc_op [of "AccDelete k"] by (simp add: AccountHandler_Delete_def snd_on_acc)
  next
    case (GetTransactions q)
    then show ?thesis using good_step_List(1) [OF D] same by (simp add: TransactionHandler_List_def)
  next
    case (PostTransaction now i j body)
    then show ?thesis using good_step_Create [OF D] same
      by (cases body) (simp_all add: TransactionHandler_Create_def split: option.split)
  next
    case (PostImport now gen k up)
    then show ?thesis using good_step_Import [OF D] same
      by (simp add: TransactionHandler_ImportCSV_def Let_def split: upload.split sum.split)
  next
    case (GetTransaction k)
    then show ?thesis using good_step_Get [OF D] by (simp add: TransactionHandler_Get_def)
  next
    case (PutTransaction now k body)
    then show ?thesis using good_step_Update [OF D] same
      by (cases body) (simp_all add: TransactionHandler_Update_def split: option.split)
  next
    case (DeleteTransaction k)
    then show ?thesis using good_step_Delete [OF D] by (simp add: TransactionHandler_Delete_def)
  next
    case GetCategories
    then show ?thesis using good_step_cat(2) [OF D] by (simp add: CategoryHandler_List_def snd_on_cat)
  next
    case (PostCategory now i body)
    then show ?thesis using good_step_cat(1) [OF D] same
      by (cases body) (simp_all add: CategoryHandler_Create_def snd_on_cat)
  qed
qed

lemma expense_api_good:
  assumes "lawful_expense D"
  shows "good_step hdr s (snd (expense_api U D rid hdr req s))"
  using expense_route_good [OF assms] good_step_same [of s s]
  by (simp add: expense_api_def RequireIdentity_def)

section \<open>Sequences of requests\<close>

text \<open>A run: request id, identity header and request of each call, in the order in which they are served.\<close>

definition expense_run ::
  "unicode \<Rightarrow> 'e expense_drivers \<Rightarrow> (string \<times> string \<times> expense_request) list \<Rightarrow> 'e expense_db \<Rightarrow> 'e expense_db" where
  "expense_run U D reqs s = fold (\<lambda>(rid, hdr, req) s. snd (expense_api U D rid hdr req s)) reqs s"

lemma demo_inv: "expense_inv demo_db"
proof -
  have "fle (Fin False 1) f0 = False" by (simp add: fle_def)
  moreover have "flt maxAmount (Fin False 1) = False" by (simp add: maxAmount_val f64_one_def)
  moreover have "trim_space ''EUR'' = ''EUR''" "trim_space ''Food'' = ''Food''" by code_simp+
  ultimately show ?thesis
    using demo_accounts_inv
    by (simp add: demo_db_def expense_inv_def mem_coll_def ids_distinct_def categories_inv_def wf_category_doc_def
        wf_tx_doc_def amount_passes_def ValidTransactionType_def)
qed

text \<open>
  Invariant: from a well-formed database every sequence of requests, valid or not, by any callers
  and with any database failures, leads to a well-formed database: valid account and transaction
  types, trimmed names, no blank currency, amounts that passed the test, unique ids.
\<close>

theorem expense_run_inv:
  assumes "lawful_expense D" and "expense_inv s"
  shows "expense_inv (expense_run U D reqs s)"
proof -
  have "\<forall>s. expense_inv s \<longrightarrow> expense_inv (fold (\<lambda>(rid, hdr, req) s. snd (expense_api U D rid hdr req s)) reqs s)"
    using expense_api_good [OF assms(1)] by (induction reqs) (auto simp: good_step_def)
  with assms(2) show ?thesis by (simp add: expense_run_def)
qed

theorem expense_run_inv_witness:
  "expense_inv (expense_run demo_unicode demo_drivers
     [(''r1'', ''ann'', PostImport zero_time demo_gen (mem_hex 7) Unreadable), (''r2'', ''bob'', DeleteAccount (mem_hex 8))] demo_db)"
  by (rule expense_run_inv [OF lawful_demo demo_inv])

text \<open>
  Isolation of tenants, writes: whatever other callers send, and whatever fails, the accounts,
  categories and transactions of a user stay exactly as they are.
\<close>

theorem expense_run_isolated:
  assumes "lawful_expense D" and "\<forall>(rid, hdr, req) \<in> set reqs. hdr \<noteq> v"
  shows "tenant v (expense_run U D reqs s) = tenant v s"
proof -
  have "(\<forall>(rid, hdr, req) \<in> set reqs. hdr \<noteq> v) \<longrightarrow>
      (\<forall>s. tenant v (fold (\<lambda>(rid, hdr, req) s. snd (expense_api U D rid hdr req s)) reqs s) = tenant v s)"
    using expense_api_good [OF assms(1)] unfolding good_step_def by (induction reqs) fastforce+
  with assms(2) show ?thesis by (simp add: expense_run_def)
qed

theorem expense_run_isolated_witness:
  "tenant ''bob'' (expense_run demo_unicode demo_drivers
     [(''r1'', ''ann'', DeleteAccount (mem_hex 8)), (''r2'', ''ann'', DeleteTransaction (mem_hex 4))] demo_db) = tenant ''bob'' demo_db"
  by (rule expense_run_isolated [OF lawful_demo]) simp

section \<open>Answers\<close>

fun owned_data :: "string \<Rightarrow> expense_data \<Rightarrow> bool" where
  "owned_data u (DAccounts as) \<longleftrightarrow> (\<forall>a \<in> set as. a_user a = u)"
| "owned_data u (DAccount a) \<longleftrightarrow> a_user a = u"
| "owned_data u (DCategories cs) \<longleftrightarrow> (\<forall>c \<in> set cs. c_user c = u)"
| "owned_data u (DCategory c) \<longleftrightarrow> c_user c = u"
| "owned_data u (DTransactions p) \<longleftrightarrow> (\<forall>t \<in> set (tp_transactions p). tx_user t = u)"
| "owned_data u (DTransaction t) \<longleftrightarrow> tx_user t = u"
| "owned_data u (DImport r) \<longleftrightarrow> True"

definition owned_answer :: "string \<Rightarrow> expense_answer \<Rightarrow> bool" where
  "owned_answer u r \<longleftrightarrow> (case re_body r of None \<Rightarrow> True | Some e \<Rightarrow>
     (case en_data e of None \<Rightarrow> True | Some x \<Rightarrow> owned_data u x))"

lemma owned_Fail [simp]: "owned_answer u (httpx_Fail rid st c m d)"
  by (simp add: owned_answer_def httpx_Fail_def)

lemma owned_Success [simp]: "owned_answer u (httpx_Success rid st x) = owned_data u x"
  by (simp add: owned_answer_def httpx_Success_def)

lemma owned_misc [simp]: "owned_answer u no_content" "owned_answer u (writeServiceError rid e)"
  "owned_answer u (bad_body rid m)" "owned_answer u (bad_date rid)"
  by (simp_all add: owned_answer_def no_content_def writeServiceError_def bad_body_def bad_date_def httpx_Fail_def
      split: go_error.split)

lemma owned_answer_rs: "(\<And>x. fst rs = Inr x \<Longrightarrow> owned_data u (f x)) \<Longrightarrow> owned_answer u (fst (answer rid st f rs))"
  by (cases rs; cases "fst rs") (simp_all add: answer_def)

lemma owned_answer_204 [simp]: "owned_answer u (fst (answer_204 rid rs))"
  by (cases rs; cases "fst rs") (simp_all add: answer_204_def)

lemma fst_on: "fst (on_acc f s) = fst (f (db_acc s))" "fst (on_cat g s) = fst (g (db_cat s))" "fst (on_tx h s) = fst (h (db_tx s))"
  by (simp_all add: on_acc_def on_cat_def on_tx_def split: prod.splits)

lemma accounts_owned:
  assumes M: "lawful (same_id ad_id) M"
  shows "fst (accountService_List M u c) = Inr as \<Longrightarrow> a \<in> set as \<Longrightarrow> a_user a = u"
    and "fst (accountService_Get M u k c) = Inr b \<Longrightarrow> a_user b = u"
    and "fst (accountService_Create M now i u cin c) = Inr b \<Longrightarrow> a_user b = u"
    and "fst (accountService_Update M now u k uin c) = Inr b \<Longrightarrow> a_user b = u"
proof -
  show "fst (accountService_List M u c) = Inr as \<Longrightarrow> a \<in> set as \<Longrightarrow> a_user a = u"
    using accl.list_owner [OF M] by (metis accountService_List_def prod.collapse)
  show "fst (accountService_Get M u k c) = Inr b \<Longrightarrow> a_user b = u"
    using acc.get_owner [OF M] by (metis accountService_Get_def prod.collapse)
  show "a_user b = u" if res: "fst (accountService_Create M now i u cin c) = Inr b"
  proof -
    obtain c' where "accountService_Create M now i u cin c = (Inr b, c')" using res by (metis prod.collapse)
    then show ?thesis
    proof (cases rule: accountService_Create_cases)
      case (called a)
      from create_shape(2) [OF M called(1) [unfolded AccountRepository_Create_def]] called(2) show ?thesis by simp
    qed simp
  qed
  show "a_user b = u" if res: "fst (accountService_Update M now u k uin c) = Inr b"
  proof -
    obtain c' where upd: "accountService_Update M now u k uin c = (Inr b, c')" using res by (metis prod.collapse)
    from M upd show ?thesis
    proof (cases rule: accountService_Update_cases)
      case (called a x c1 q)
      then have "b = a" by (cases q) auto
      with called(5) acc.get_owner [OF M called(1)] show ?thesis by simp
    qed simp
  qed
qed

lemma categories_owned:
  assumes M: "lawful (same_id cd_id) M"
  shows "fst (categoryService_List M u c) = Inr ks \<Longrightarrow> k \<in> set ks \<Longrightarrow> c_user k = u"
    and "fst (categoryService_Create M now i u cin c) = Inr b \<Longrightarrow> c_user b = u"
proof -
  show "fst (categoryService_List M u c) = Inr ks \<Longrightarrow> k \<in> set ks \<Longrightarrow> c_user k = u"
    using catl.list_owner [OF M] by (metis categoryService_List_def prod.collapse)
  show "c_user b = u" if res: "fst (categoryService_Create M now i u cin c) = Inr b"
  proof -
    obtain c' where "categoryService_Create M now i u cin c = (Inr b, c')" using res by (metis prod.collapse)
    then show ?thesis
    proof (cases rule: categoryService_Create_cases)
      case (called a)
      from create_shape(2) [OF M called(1) [unfolded CategoryRepository_Create_def]] called(2) show ?thesis by simp
    qed simp
  qed
qed

lemma page_cut_subset: "set (page_cut fo ys) \<subseteq> set ys"
  by (auto simp: page_cut_def Let_def dest: in_set_takeD in_set_dropD)

lemma tx_list_owned:
  assumes M: "lawful (same_id td_id) M" and r: "fst (TransactionRepository_ListByUser M u f c) = Inr p"
    and t: "t \<in> set (tp_transactions p)"
  shows "tx_user t = u"
proof -
  obtain n c1 ds c2 fo where c: "find_all M (buildTransactionFilter u f) fo c1 = (Inr ds, c2)"
    "tp_transactions p = map (transaction_toDomain M) ds"
    using r by (auto simp: TransactionRepository_ListByUser_def Let_def split: prod.splits sum.splits)
  obtain ys where ys: "mset ys = mset (filter (buildTransactionFilter u f) (docs c1))" "ds = page_cut fo ys"
    by (rule find_all_ok [OF M c(1)])
  have "set ys = set (filter (buildTransactionFilter u f) (docs c1))" by (rule mset_eq_setD [OF ys(1)])
  then have "\<forall>d \<in> set ds. td_user d = u" using ys(2) page_cut_subset [of fo ys] by (auto simp: buildTransactionFilter_def)
  with c(2) t show ?thesis by (auto simp: transaction_toDomain_def)
qed

lemma transactions_owned:
  assumes D: "lawful_expense D"
  shows "fst (transactionService_List D u inp s) = Inr p \<Longrightarrow> t \<in> set (tp_transactions p) \<Longrightarrow> tx_user t = u"
    and "fst (transactionService_Get D u k s) = Inr b \<Longrightarrow> tx_user b = u"
    and "fst (transactionService_Create D now i j u cin s) = Inr b \<Longrightarrow> tx_user b = u"
    and "fst (transactionService_Update D now u k cin s) = Inr b \<Longrightarrow> tx_user b = u"
proof -
  note M = lawful_expenseD(3) [OF D]
  have ok: "fst (on_ok rs (\<lambda>x y. (Inr (f x), y))) = (case fst rs of Inl e \<Rightarrow> Inl e | Inr x \<Rightarrow> Inr (f x))"
    for rs :: "transaction_page res \<times> 'a expense_db" and f :: "transaction_page \<Rightarrow> transaction_page"
    by (cases rs; cases "fst rs") auto
  show "fst (transactionService_List D u inp s) = Inr p \<Longrightarrow> t \<in> set (tp_transactions p) \<Longrightarrow> tx_user t = u"
    using tx_list_owned [OF M] by (auto simp: transactionService_List_def Let_def ok fst_on split: if_splits sum.splits)
  show "fst (transactionService_Get D u k s) = Inr b \<Longrightarrow> tx_user b = u"
    using txr.get_owner [OF M] by (metis transactionService_Get_def fst_on(3) prod.collapse)
  show "tx_user b = u" if res: "fst (transactionService_Create D now i j u cin s) = Inr b"
  proof -
    obtain s' where r: "transactionService_Create D now i j u cin s = (Inr b, s')" using res by (metis prod.collapse)
    from D r show ?thesis
    proof (cases rule: transactionService_Create_cases)
      case (called t q s2 c)
      then obtain t' where t': "q = Inr t'" "b = t'" by (cases q) auto
      with create_shape(2) [OF M called(6) [unfolded TransactionRepository_Create_def]] called(5) show ?thesis by simp
    qed simp
  qed
  show "tx_user b = u" if res: "fst (transactionService_Update D now u k cin s) = Inr b"
  proof -
    obtain s' where r: "transactionService_Update D now u k cin s = (Inr b, s')" using res by (metis prod.collapse)
    from D r show ?thesis
    proof (cases rule: transactionService_Update_cases)
      case (called t x q s2 c)
      then have "b = t" by (cases q) auto
      with called(5,6) show ?thesis by (auto simp: transaction_toDomain_def)
    qed simp
  qed
qed

text \<open>
  C4. Isolation of tenants, reads: whatever the request, every account, category and transaction in
  the answer belongs to the caller named by the identity header.
\<close>

theorem expense_answers_own:
  assumes D: "lawful_expense D"
  shows "owned_answer hdr (fst (expense_api U D rid hdr req s))"
proof (cases "hdr = ''''")
  case True
  then show ?thesis by (simp add: expense_api_def RequireIdentity_def)
next
  case False
  note [simp] = accounts_owned [OF lawful_expenseD(1) [OF D]] categories_owned [OF lawful_expenseD(2) [OF D]]
    transactions_owned [OF D] fst_on
  have "owned_answer hdr (fst (expense_route U D rid req hdr s))"
    by (cases req)
      (auto simp: AccountHandler_List_def AccountHandler_Create_def AccountHandler_Get_def
        AccountHandler_Update_def AccountHandler_Delete_def CategoryHandler_List_def CategoryHandler_Create_def
        TransactionHandler_List_def TransactionHandler_Create_def TransactionHandler_Get_def
        TransactionHandler_Update_def TransactionHandler_Delete_def TransactionHandler_ImportCSV_def Let_def
        intro!: owned_answer_rs split: sum.splits option.splits upload.splits)
  with False show ?thesis by (simp add: expense_api_def RequireIdentity_def)
qed

theorem expense_answers_own_witness:
  "owned_answer ''ann'' (fst (expense_api demo_unicode demo_drivers ''r1'' ''ann'' (GetTransaction (mem_hex 4)) demo_db))"
  by (rule expense_answers_own [OF lawful_demo])

lemma contract_answer:
  "200 \<le> st \<Longrightarrow> st < 300 \<Longrightarrow> contract_ok rid (fst (answer rid st f rs))"
  "contract_ok rid (fst (answer_204 rid qs))"
proof -
  have w: "contract_ok rid (writeServiceError rid e)" for e
    by (simp add: writeServiceError_def split: go_error.split)
  show "200 \<le> st \<Longrightarrow> st < 300 \<Longrightarrow> contract_ok rid (fst (answer rid st f rs))"
    by (cases rs; cases "fst rs") (simp_all add: answer_def w)
  show "contract_ok rid (fst (answer_204 rid qs))"
    by (cases qs; cases "fst qs") (simp_all add: answer_204_def w)
qed


text \<open>The two answers of a request for something that is not the caller's.\<close>

definition answers_missing :: "string \<Rightarrow> expense_answer \<Rightarrow> bool" where
  "answers_missing rid r \<longleftrightarrow>
     r = httpx_Fail rid 404 CodeNotFound ''resource not found'' None \<or>
     r = httpx_Fail rid 500 CodeInternal ''internal server error'' None"

lemma writeServiceError_missing:
  "e = ErrNotFound \<or> (\<exists>m. e = ErrOther m) \<Longrightarrow> answers_missing rid (writeServiceError rid e)"
  by (auto simp: writeServiceError_def answers_missing_def)

lemma answer_missing:
  "fst rs = Inl e \<Longrightarrow> e = ErrNotFound \<or> (\<exists>m. e = ErrOther m) \<Longrightarrow> answers_missing rid (fst (answer rid st f rs))"
  "fst qs = Inl e \<Longrightarrow> e = ErrNotFound \<or> (\<exists>m. e = ErrOther m) \<Longrightarrow> answers_missing rid (fst (answer_204 rid qs))"
  by (cases rs; auto simp: answer_def writeServiceError_missing)
    (cases qs; auto simp: answer_204_def writeServiceError_missing)



text \<open>
  Safety: a request without the gateway's identity header changes nothing and is answered 401,
  whatever it asks for.
\<close>

theorem expense_needs_identity:
  "expense_api U D rid '''' req s = (httpx_Fail rid 401 CodeUnauthorized ''missing user identity'' None, s)"
  by (simp add: expense_api_def RequireIdentity_def)

section \<open>Creating and listing transactions\<close>

text \<open>
  C5. Functional: a transaction is created only with an account and a category of the caller; the
  document is the request, with a finite amount between 0 and 10^12; nothing else changes except that
  at most one event is queued, and that event is the one of this transaction.
\<close>

theorem create_transaction_correct:
  assumes D: "lawful_expense D" and fin: "is_finite (ti_amount inp)"
    and create: "transactionService_Create D now i j u inp s = (Inr t, s')"
  shows "owns_account D s u (ti_account inp) \<and> owns_category D s u (ti_category inp) \<and>
    flt f0 (tx_amount t) \<and> fle (tx_amount t) (f64_of_nat 1000000000000) \<and>
    t = \<lparr>tx_id = hex (m_tx D) i, tx_user = u, tx_account = ti_account inp, tx_category = ti_category inp,
         tx_type = ti_type inp, tx_amount = ti_amount inp, tx_currency = ti_currency inp,
         tx_date = ti_date inp, tx_note = ti_note inp, tx_created = utc now, tx_updated = utc now\<rparr> \<and>
    docs (db_tx s') = docs (db_tx s) @ [transaction_newDoc i t] \<and>
    docs (db_acc s') = docs (db_acc s) \<and> docs (db_cat s') = docs (db_cat s) \<and>
    (docs (db_out s') = docs (db_out s) \<or>
     (\<exists>ev. docs (db_out s') = docs (db_out s) @ [ev] \<and> transaction_event t = Some (ev_payload ev) \<and>
        ev_subject ev = TransactionCreatedSubject \<and> ev_msg_id ev = tx_id t \<and> ev_published ev = None))"
  using D create
proof (cases rule: transactionService_Create_cases)
  case (called t0 q s2 c)
  obtain t' where q: "q = Inr t'" "t' = t" "s' = transactionService_publishCreated D now j t (s2\<lparr>db_tx := c\<rparr>)"
    using called(7) by (cases q) auto
  have c: "t = t0\<lparr>tx_id := hex (m_tx D) i\<rparr>" "docs c = docs (db_tx s2) @ [transaction_newDoc i t0]"
    using create_shape(2) [OF lawful_expenseD(3) [OF D] called(6) [unfolded TransactionRepository_Create_def] q(1)] q(2) by auto
  have nd: "transaction_newDoc i t = transaction_newDoc i t0" by (simp add: c(1) transaction_newDoc_def)
  have amt: "flt f0 (tx_amount t) \<and> fle (tx_amount t) (f64_of_nat 1000000000000)"
  proof -
    have "amount_passes (ti_amount inp)" by (rule validateCommon_None [OF called(1)])
    then obtain m where m: "ti_amount inp = Fin False m" "0 < m" "m \<le> 1000000000000 * f64_one"
      using fin by (auto simp: amount_passes_iff)
    have "f64_of_nat 1000000000000 = Fin False (1000000000000 * f64_one)" by (rule f64_of_nat_exact) simp
    with m show ?thesis by (auto simp: c(1) called(5) fle_def)
  qed
  note p = publishCreated_cases [OF D, of now j t "s2\<lparr>db_tx := c\<rparr>"]
  have out: "docs (db_out s2) = docs (db_out s)" "docs (db_tx s2) = docs (db_tx s)"
    "docs (db_acc s2) = docs (db_acc s)" "docs (db_cat s2) = docs (db_cat s)"
    using called(4) by (simp_all add: same_docs_def)
  have "docs (db_tx s') = docs (db_tx s) @ [transaction_newDoc i t]" "docs (db_acc s') = docs (db_acc s)"
    "docs (db_cat s') = docs (db_cat s)"
    using p(1-3) c(2) out by (simp_all add: q(3) nd)
  moreover have "docs (db_out s') = docs (db_out s) \<or>
     (\<exists>ev. docs (db_out s') = docs (db_out s) @ [ev] \<and> transaction_event t = Some (ev_payload ev) \<and>
        ev_subject ev = TransactionCreatedSubject \<and> ev_msg_id ev = tx_id t \<and> ev_published ev = None)"
    using p(4) out(1) by (auto simp: q(3))
  moreover have "t = \<lparr>tx_id = hex (m_tx D) i, tx_user = u, tx_account = ti_account inp, tx_category = ti_category inp,
         tx_type = ti_type inp, tx_amount = ti_amount inp, tx_currency = ti_currency inp,
         tx_date = ti_date inp, tx_note = ti_note inp, tx_created = utc now, tx_updated = utc now\<rparr>"
    by (simp add: c(1) called(5))
  ultimately show ?thesis using called(2,3) amt by blast
qed simp

definition demo_input :: transaction_input where
  "demo_input = \<lparr>ti_account = mem_hex 7, ti_category = Some (mem_hex 3), ti_type = ''expense'', ti_amount = Fin False 5,
     ti_currency = ''USD'', ti_date = \<lparr>t_sec = 0, t_nsec = 0, t_off = 0\<rparr>, ti_note = ''lunch''\<rparr>"

lemma demo_create:
  "\<exists>t s'. transactionService_Create demo_drivers zero_time 50 51 ''ann'' demo_input demo_db = (Inr t, s') \<and> length (docs (db_out s')) = 1"
proof -
  have t: "trim_space (mem_hex 7) \<noteq> ''''" "trim_space ''USD'' \<noteq> ''''" "\<not> is_zero_time \<lparr>t_sec = 0, t_nsec = 0, t_off = 0\<rparr>"
    by code_simp+
  have v: "transactionService_validateCommon (mem_hex 7) ''expense'' (Fin False 5) ''USD'' \<lparr>t_sec = 0, t_nsec = 0, t_off = 0\<rparr> = None"
    using t by (simp add: transactionService_validateCommon_def ValidTransactionType_def fle_def maxAmount_val f64_one_def)
  have "case check_account demo_drivers ''ann'' (mem_hex 7) demo_db of
      (Inr a, s1) \<Rightarrow> (case check_category demo_drivers ''ann'' (Some (mem_hex 3)) s1 of
          (Inr k, s2) \<Rightarrow> docs (db_tx s2) = docs (db_tx demo_db) \<and> env (db_tx s2) = [] \<and> docs (db_out s2) = [] \<and> env (db_out s2) = []
        | _ \<Rightarrow> False) | _ \<Rightarrow> False" by code_simp
  then obtain a s1 k s2 where c: "check_account demo_drivers ''ann'' (mem_hex 7) demo_db = (Inr a, s1)"
    "check_category demo_drivers ''ann'' (Some (mem_hex 3)) s1 = (Inr k, s2)"
    "docs (db_tx s2) = docs (db_tx demo_db)" "env (db_tx s2) = []" "docs (db_out s2) = []" "env (db_out s2) = []"
    by (auto split: prod.splits sum.splits)
  have i: "insert_one (m_tx demo_drivers) d (db_tx s2) = (Inr (), (db_tx s2)\<lparr>docs := docs (db_tx s2) @ [d], env := []\<rparr>)"
    if "td_id d = 50" for d
    using c(3,4) that by (simp add: demo_drivers_def mem_driver_def mem_call_def demo_db_def mem_coll_def same_id_def)
  have o: "insert_one (m_out demo_drivers) e (db_out s2) = (Inr (), (db_out s2)\<lparr>docs := [e], env := []\<rparr>)" for e
    using c(5,6) by (simp add: demo_drivers_def mem_driver_def mem_call_def)
  show ?thesis
    using c(1,2) v by (simp add: transactionService_Create_def demo_input_def on_tx_def TransactionRepository_Create_def i
        transaction_newDoc_def transactionService_publishCreated_def on_out_def OutboxPublisher_PublishTransactionCreated_def
        transaction_event_def json_float_def Store_Enqueue_def o)
qed

theorem create_transaction_correct_witness:
  "\<exists>t s'. transactionService_Create demo_drivers zero_time 50 51 ''ann'' demo_input demo_db = (Inr t, s') \<and>
     owns_account demo_drivers demo_db ''ann'' (mem_hex 7) \<and> docs (db_tx s') = docs (db_tx demo_db) @ [transaction_newDoc 50 t]"
proof -
  obtain t s' where c: "transactionService_Create demo_drivers zero_time 50 51 ''ann'' demo_input demo_db = (Inr t, s')"
    using demo_create by blast
  have "is_finite (ti_amount demo_input)" by (simp add: demo_input_def)
  from create_transaction_correct [OF lawful_demo this c] c show ?thesis by (auto simp: demo_input_def)
qed

lemma repo_page_applied: "repo_page (applied_page p) = applied_page p" "repo_page_size (applied_size n) = applied_size n"
  using applied_bounds(1) [of p] applied_bounds(2,3) [of n] by (auto simp: repo_page_def repo_page_size_def word_sless_alt sint_consts Let_def)

lemma List_def_applied:
  "transactionService_List D u inp s =
    (if (case (li_from inp, li_to inp) of (Some f, Some t) \<Rightarrow> time_before t f | _ \<Rightarrow> False)
     then (Inl (ValidationError ''to'' ''to must not be before from''), s)
     else on_ok (on_tx (TransactionRepository_ListByUser (m_tx D) u
             \<lparr>tf_account = li_account inp, tf_category = li_category inp, tf_from = li_from inp,
              tf_to = li_to inp, tf_page = applied_page (li_page inp), tf_page_size = applied_size (li_page_size inp)\<rparr>) s)
           (\<lambda>result s1. (Inr (result\<lparr>tp_page := applied_page (li_page inp), tp_page_size := applied_size (li_page_size inp)\<rparr>), s1)))"
proof -
  have "(if maxPageSize <s (if li_page_size inp <s 1 then defaultPageSize else li_page_size inp) then maxPageSize
      else (if li_page_size inp <s 1 then defaultPageSize else li_page_size inp)) = applied_size (li_page_size inp)"
    by (auto simp: applied_size_def maxPageSize_def defaultPageSize_def word_sless_alt sint_consts)
  moreover have "(if li_page inp <s 1 then defaultPage else li_page inp) = applied_page (li_page inp)"
    by (simp add: applied_page_def defaultPage_def)
  ultimately show ?thesis by (simp add: transactionService_List_def Let_def)
qed

lemma List_result:
  assumes D: "lawful_expense D" and lst: "transactionService_List D u inp s = (r, s')"
    and range: "\<not> (case (li_from inp, li_to inp) of (Some f, Some t) \<Rightarrow> time_before t f | _ \<Rightarrow> False)"
  obtains (err) m where "r = Inl (ErrOther m)"
  | (ok) ds ys p n skip filt where
      "p = applied_page (li_page inp)" "n = applied_size (li_page_size inp)"
      "filt = buildTransactionFilter u \<lparr>tf_account = li_account inp, tf_category = li_category inp, tf_from = li_from inp,
         tf_to = li_to inp, tf_page = p, tf_page_size = n\<rparr>"
      "skip = sint ((p - 1) * n)" "0 \<le> skip"
      "mset ys = mset (filter filt (docs (db_tx s)))" "sorted_wrt (\<lambda>a b. td_date b \<le> td_date a) ys"
      "ds = take (nat (sint n)) (drop (nat skip) ys)"
      "r = Inr \<lparr>tp_transactions = map (transaction_toDomain (m_tx D)) ds, tp_page = p, tp_page_size = n,
                tp_total = length (filter filt (docs (db_tx s)))\<rparr>"
proof -
  note M = lawful_expenseD(3) [OF D]
  define p where "p = applied_page (li_page inp)"
  define n where "n = applied_size (li_page_size inp)"
  define filt where "filt = buildTransactionFilter u \<lparr>tf_account = li_account inp, tf_category = li_category inp, tf_from = li_from inp,
         tf_to = li_to inp, tf_page = p, tf_page_size = n\<rparr>"
  define fo :: "transaction_doc find_opts" where "fo = \<lparr>sort_desc = td_date, skip_of = sint ((p - 1) * n), limit_of = nat (sint n)\<rparr>"
  have rp: "repo_page p = p" "repo_page_size n = n" by (simp_all add: p_def n_def repo_page_applied)
  obtain q c1 where q: "count_docs (m_tx D) filt (db_tx s) = (q, c1)" by (cases "count_docs (m_tx D) filt (db_tx s)")
  obtain w c2 where w: "find_all (m_tx D) filt fo c1 = (w, c2)" by (cases "find_all (m_tx D) filt fo c1")
  have r: "r = (case q of Inl e \<Rightarrow> Inl (db_err e) | Inr cnt \<Rightarrow> (case w of Inl e \<Rightarrow> Inl (db_err e)
      | Inr ds \<Rightarrow> Inr \<lparr>tp_transactions = map (transaction_toDomain (m_tx D)) ds, tp_page = p, tp_page_size = n, tp_total = cnt\<rparr>))"
    using lst range q w rp
    by (cases q; cases w) (auto simp: List_def_applied p_def [symmetric] n_def [symmetric] filt_def [symmetric] fo_def [symmetric]
        on_tx_def TransactionRepository_ListByUser_def Let_def)
  have c1: "docs c1 = docs (db_tx s)" by (rule count_docs_docs [OF M q])
  show ?thesis
  proof (cases q)
    case (Inl e)
    then obtain m where "e = DbFault m" using countD [OF M q] by auto
    with r Inl err show ?thesis by simp
  next
    case cnt: (Inr cnt)
    show ?thesis
    proof (cases w)
      case (Inl e)
      then obtain m where "e = DbFault m" using find_allD [OF M w] by auto
      with r cnt Inl err show ?thesis by simp
    next
      case (Inr ds)
      obtain ys where ys: "mset ys = mset (filter filt (docs c1))" "sorted_wrt (\<lambda>a b. td_date b \<le> td_date a) ys"
        "ds = page_cut fo ys" "0 \<le> skip_of fo"
        by (rule find_all_ok [OF M w [unfolded Inr]]) (simp add: fo_def)
      have "1 \<le> sint n" using applied_bounds(2) by (simp add: n_def)
      then have "ds = take (nat (sint n)) (drop (nat (sint ((p - 1) * n))) ys)"
        using ys(3) by (simp add: page_cut_def fo_def Let_def)
      moreover have "r = Inr \<lparr>tp_transactions = map (transaction_toDomain (m_tx D)) ds, tp_page = p, tp_page_size = n,
          tp_total = length (filter filt (docs (db_tx s)))\<rparr>"
        using r cnt Inr count_docs_ok [OF M q [unfolded cnt]] by simp
      moreover have "mset ys = mset (filter filt (docs (db_tx s)))" "0 \<le> sint ((p - 1) * n)"
        using ys(1,4) c1 by (simp_all add: fo_def)
      ultimately show ?thesis using ok [OF p_def n_def filt_def refl _ _ ys(2)] by blast
    qed
  qed
qed


definition demo_list_input :: list_transactions_input where
  "demo_list_input = \<lparr>li_account = '''', li_category = '''', li_from = None, li_to = None, li_page = 0, li_page_size = 500\<rparr>"


lemma show_max: "show_nat 9223372036854775807 = ''9223372036854775807''"
  by (simp add: show_nat_def digits_rev.simps digit_char_def) code_simp

lemma atoi_max: "atoi ''9223372036854775807'' = Some 0x7FFFFFFFFFFFFFFF"
  using atoi_show_nat [of 9223372036854775807] by (simp add: show_max)

text \<open>
  C17. Bounds: the offset of the page is computed in int64 and wraps around: the page number
  9223372036854775807, which the handler accepts, becomes a negative offset that MongoDB refuses, so
  that the request is answered 500 whatever is stored.
\<close>

theorem list_page_overflow:
  assumes D: "lawful_expense D" and "hdr \<noteq> ''''" and "qy_page q = ''9223372036854775807''"
    and "qy_page_size q = ''''" and "qy_from q = ''''" and "qy_to q = ''''"
  shows "fst (expense_api U D rid hdr (GetTransactions q) s) = httpx_Fail rid 500 CodeInternal ''internal server error'' None"
proof -
  have pg: "query_int ''9223372036854775807'' = 0x7FFFFFFFFFFFFFFF" "query_int '''' = 0"
    by (simp_all add: query_int_def atoi_max)
  define inp where "inp = \<lparr>li_account = qy_account_id q, li_category = qy_category q, li_from = None, li_to = None,
     li_page = 0x7FFFFFFFFFFFFFFF, li_page_size = 0\<rparr>"
  have neg: "sint ((applied_page 0x7FFFFFFFFFFFFFFF - 1) * applied_size 0) = -40" by code_simp
  obtain r s' where r: "transactionService_List D hdr inp s = (r, s')" by (cases "transactionService_List D hdr inp s")
  have range: "\<not> (case (li_from inp, li_to inp) of (Some f, Some t) \<Rightarrow> time_before t f | _ \<Rightarrow> False)"
    by (simp add: inp_def)
  from D r range have "\<exists>m. r = Inl (ErrOther m)"
  proof (cases rule: List_result)
    case (ok ds ys p n skip filt)
    with neg show ?thesis by (simp add: inp_def)
  qed simp
  then obtain m where "r = Inl (ErrOther m)" ..
  moreover have "TransactionHandler_List D rid hdr q s = answer rid 200 DTransactions (transactionService_List D hdr inp s)"
    using assms(3-6) by (simp add: TransactionHandler_List_def inp_def pg)
  ultimately show ?thesis using assms(2) r
    by (simp add: expense_api_def RequireIdentity_def answer_def writeServiceError_def)
qed

theorem list_page_overflow_witness:
  "fst (expense_api demo_unicode demo_drivers ''r1'' ''bob'' (GetTransactions
     \<lparr>qy_account_id = '''', qy_category = '''', qy_page = ''9223372036854775807'', qy_page_size = '''', qy_from = '''', qy_to = ''''\<rparr>) demo_db)
   = httpx_Fail ''r1'' 500 CodeInternal ''internal server error'' None"
  by (rule list_page_overflow [OF lawful_demo]) simp_all

end
