(* ===== verification/Jwtx.thy ===== *)
theory Jwtx imports Go_Time begin

text \<open>
  shared/jwtx: the claims of the access and refresh tokens. Signing and verifying
  (golang-jwt) is a parameter: \<open>jwt_sign\<close> may fail, \<open>jwt_verify\<close> is
  \<open>ParseWithClaims\<close> followed by \<open>token.Valid\<close>, and gives the claims of a token whose
  signature and times are accepted at the given moment. Durations are in
  nanoseconds, as in Go.
\<close>

record claims =
  cl_user :: string
  cl_email :: string
  cl_type :: string
  cl_jti :: string

record jwt_lib =
  jwt_sign :: "string \<Rightarrow> claims \<Rightarrow> gotime \<Rightarrow> gotime \<Rightarrow> string option"
  jwt_verify :: "string \<Rightarrow> gotime \<Rightarrow> string \<Rightarrow> claims option"

definition TypeAccess :: string where "TypeAccess = ''access''"
definition TypeRefresh :: string where "TypeRefresh = ''refresh''"

text \<open>\<open>Time.Add\<close>\<close>

definition time_add :: "gotime \<Rightarrow> int \<Rightarrow> gotime" where
  "time_add t ns = t\<lparr>t_sec := t_sec t + (t_nsec t + ns) div 1000000000, t_nsec := (t_nsec t + ns) mod 1000000000\<rparr>"

definition GenerateAccessToken :: "jwt_lib \<Rightarrow> gotime \<Rightarrow> string \<Rightarrow> string \<Rightarrow> string \<Rightarrow> int \<Rightarrow> string option" where
  "GenerateAccessToken J now secret userID email ttl =
    jwt_sign J secret \<lparr>cl_user = userID, cl_email = email, cl_type = TypeAccess, cl_jti = ''''\<rparr> now (time_add now ttl)"

definition GenerateRefreshToken :: "jwt_lib \<Rightarrow> gotime \<Rightarrow> string \<Rightarrow> string \<Rightarrow> string \<Rightarrow> int \<Rightarrow> string option" where
  "GenerateRefreshToken J now secret userID jti ttl =
    jwt_sign J secret \<lparr>cl_user = userID, cl_email = '''', cl_type = TypeRefresh, cl_jti = jti\<rparr> now (time_add now ttl)"

text \<open>\<open>Parse\<close>; its errors are not told apart by any caller.\<close>

definition jwtx_Parse :: "jwt_lib \<Rightarrow> gotime \<Rightarrow> string \<Rightarrow> string \<Rightarrow> string \<Rightarrow> claims option" where
  "jwtx_Parse J now secret tok expectedType = (case jwt_verify J secret now tok of
      None \<Rightarrow> None
    | Some cl \<Rightarrow> if cl_type cl \<noteq> expectedType then None else Some cl)"

text \<open>
  What the library documents: a signed token verifies under its secret, with its
  claims, until the second of its expiry; and the claims are the payload of the
  token, whenever it is verified.
\<close>

definition lawful_jwt :: "jwt_lib \<Rightarrow> bool" where
  "lawful_jwt J \<longleftrightarrow> (\<forall>secret cl iat ex tok now. jwt_sign J secret cl iat ex = Some tok \<longrightarrow>
     t_sec now < t_sec ex \<longrightarrow> jwt_verify J secret now tok = Some cl) \<and>
   (\<forall>secret now now' tok cl cl'. jwt_verify J secret now tok = Some cl \<longrightarrow>
     jwt_verify J secret now' tok = Some cl' \<longrightarrow> cl' = cl)"

lemma Parse_type: "jwtx_Parse J now secret tok ty = Some cl \<Longrightarrow> cl_type cl = ty"
  by (auto simp: jwtx_Parse_def split: option.splits if_splits)

lemma Parse_same:
  assumes "lawful_jwt J" and "jwtx_Parse J now secret tok ty = Some cl" and "jwtx_Parse J now' secret tok ty' = Some cl'"
  shows "cl' = cl"
  using assms by (auto simp: lawful_jwt_def jwtx_Parse_def split: option.splits if_splits)

lemma Parse_signed:
  assumes "lawful_jwt J" and "jwt_sign J secret cl iat ex = Some tok" and "t_sec now < t_sec ex"
  shows "jwtx_Parse J now secret tok ty = (if cl_type cl = ty then Some cl else None)"
  using assms unfolding lawful_jwt_def jwtx_Parse_def by fastforce

text \<open>
  A concrete library for the witnesses: the token spells out the secret, the expiry
  and the claims, each field after its length. It shows that the law can hold; it
  is no claim about signatures.
\<close>

definition put :: "string \<Rightarrow> string" where
  "put s = show_nat (length s) @ '':'' @ s"

definition get_field :: "string \<Rightarrow> (string \<times> string) option" where
  "get_field s = (let ds = takeWhile is_digit s; r = dropWhile is_digit s
     in if r = [] then None else Some (take (read_digits ds) (tl r), drop (read_digits ds) (tl r)))"

lemma get_put [simp]: "get_field (put s @ t) = Some (s, t)"
proof -
  have "takeWhile is_digit (show_nat (length s) @ '':'' @ s @ t) = show_nat (length s)"
    "dropWhile is_digit (show_nat (length s) @ '':'' @ s @ t) = '':'' @ s @ t"
    using show_nat_digits(2) [of "length s"]
    by (auto intro!: takeWhile_append_stop simp: list_all_iff is_digit_def ord_def)
  then show ?thesis by (simp add: get_field_def put_def Let_def)
qed

definition demo_verify :: "string \<Rightarrow> gotime \<Rightarrow> string \<Rightarrow> claims option" where
  "demo_verify secret now tok =
    Option.bind (get_field tok) (\<lambda>(k, t0). Option.bind (get_field t0) (\<lambda>(ex, t1).
    Option.bind (get_field t1) (\<lambda>(u, t2). Option.bind (get_field t2) (\<lambda>(m, t3).
    Option.bind (get_field t3) (\<lambda>(ty, t4). Option.bind (get_field t4) (\<lambda>(j, t5).
      if k = secret \<and> t_sec now < int (read_digits ex) then Some \<lparr>cl_user = u, cl_email = m, cl_type = ty, cl_jti = j\<rparr> else None))))))"

definition demo_jwt :: jwt_lib where
  "demo_jwt = \<lparr>
     jwt_sign = (\<lambda>secret cl iat ex. if t_sec ex < 0 then None else
       Some (put secret @ put (show_nat (nat (t_sec ex))) @ put (cl_user cl) @ put (cl_email cl) @ put (cl_type cl) @ put (cl_jti cl))),
     jwt_verify = demo_verify\<rparr>"

lemma get_put_end [simp]: "get_field (put s) = Some (s, [])"
  using get_put [of s "[]"] by simp

lemma lawful_demo_jwt [simp]: "lawful_jwt demo_jwt"
  by (auto simp: lawful_jwt_def demo_jwt_def demo_verify_def split: if_splits bind_splits)

end
