(* ===== verification/User_Repo.thy ===== *)
theory User_Repo imports Mongo begin

text \<open>
  user-service, data: \<open>domain/models.go\<close> and the three repositories
  (\<open>user_repository.go\<close>, \<open>settings_repository.go\<close>, \<open>refresh_token_repository.go\<close>).
  The structs are stored as they are, with their times cut to milliseconds. The
  unique indexes of \<open>EnsureIndexes\<close> are the conflict relations.
\<close>

section \<open>Models\<close>

record user =
  us_id :: string
  us_email :: string
  us_hash :: string
  us_name :: string
  us_created :: gotime
  us_updated :: gotime

record settings =
  se_user :: string
  se_currency :: string
  se_timezone :: string
  se_updated :: gotime

record refresh_token =
  rt_id :: string
  rt_user :: string
  rt_jti_hash :: string
  rt_expires :: gotime
  rt_revoked :: bool
  rt_created :: gotime

text \<open>What MongoDB keeps of a value: the times to the millisecond, in UTC.\<close>

definition user_ms :: "user \<Rightarrow> user" where
  "user_ms u = u\<lparr>us_created := ms_time (us_created u), us_updated := ms_time (us_updated u)\<rparr>"

definition settings_ms :: "settings \<Rightarrow> settings" where
  "settings_ms s = s\<lparr>se_updated := ms_time (se_updated s)\<rparr>"

definition token_ms :: "refresh_token \<Rightarrow> refresh_token" where
  "token_ms t = t\<lparr>rt_expires := ms_time (rt_expires t), rt_created := ms_time (rt_created t)\<rparr>"

type_synonym 'e user_coll = "('e, user) coll"
type_synonym 'e settings_coll = "('e, settings) coll"
type_synonym 'e token_coll = "('e, refresh_token) coll"

definition user_conflict :: "user \<Rightarrow> user \<Rightarrow> bool" where
  "user_conflict x y \<longleftrightarrow> us_id x = us_id y \<or> us_email x = us_email y"

definition settings_conflict :: "settings \<Rightarrow> settings \<Rightarrow> bool" where
  "settings_conflict x y \<longleftrightarrow> se_user x = se_user y"

definition token_conflict :: "refresh_token \<Rightarrow> refresh_token \<Rightarrow> bool" where
  "token_conflict x y \<longleftrightarrow> rt_id x = rt_id y \<or> rt_jti_hash x = rt_jti_hash y"

section \<open>Users\<close>

definition userRepository_Create :: "('e, user) driver \<Rightarrow> user \<Rightarrow> 'e user_coll \<Rightarrow> unit res \<times> 'e user_coll" where
  [repo_defs]: "userRepository_Create M u c = (case insert_one M (user_ms u) c of
      (Inl DuplicateKey, c') \<Rightarrow> (Inl ErrDuplicateEmail, c')
    | (Inl e, c') \<Rightarrow> (Inl (db_err e), c')
    | (Inr _, c') \<Rightarrow> (Inr (), c'))"

definition userRepository_FindByEmail :: "('e, user) driver \<Rightarrow> string \<Rightarrow> 'e user_coll \<Rightarrow> user res \<times> 'e user_coll" where
  [repo_defs]: "userRepository_FindByEmail M email c = (case find_one M (\<lambda>d. us_email d = email) c of
      (Inl NoDocuments, c') \<Rightarrow> (Inl ErrNotFound, c')
    | (Inl e, c') \<Rightarrow> (Inl (db_err e), c')
    | (Inr d, c') \<Rightarrow> (Inr d, c'))"

definition userRepository_FindByID :: "('e, user) driver \<Rightarrow> string \<Rightarrow> 'e user_coll \<Rightarrow> user res \<times> 'e user_coll" where
  [repo_defs]: "userRepository_FindByID M k c = (case find_one M (\<lambda>d. us_id d = k) c of
      (Inl NoDocuments, c') \<Rightarrow> (Inl ErrNotFound, c')
    | (Inl e, c') \<Rightarrow> (Inl (db_err e), c')
    | (Inr d, c') \<Rightarrow> (Inr d, c'))"

definition userRepository_Update :: "('e, user) driver \<Rightarrow> user \<Rightarrow> 'e user_coll \<Rightarrow> unit res \<times> 'e user_coll" where
  [repo_defs]: "userRepository_Update M u c = (case update_one M (\<lambda>d. us_id d = us_id u) (\<lambda>_. user_ms u) c of
      (Inl e, c') \<Rightarrow> (Inl (db_err e), c')
    | (Inr n, c') \<Rightarrow> if n = 0 then (Inl ErrNotFound, c') else (Inr (), c'))"

section \<open>Settings\<close>

definition settingsRepository_FindByUserID ::
  "('e, settings) driver \<Rightarrow> string \<Rightarrow> 'e settings_coll \<Rightarrow> settings res \<times> 'e settings_coll" where
  [repo_defs]: "settingsRepository_FindByUserID M k c = (case find_one M (\<lambda>d. se_user d = k) c of
      (Inl NoDocuments, c') \<Rightarrow> (Inl ErrNotFound, c')
    | (Inl e, c') \<Rightarrow> (Inl (db_err e), c')
    | (Inr d, c') \<Rightarrow> (Inr d, c'))"

definition settingsRepository_Upsert ::
  "('e, settings) driver \<Rightarrow> settings \<Rightarrow> 'e settings_coll \<Rightarrow> unit res \<times> 'e settings_coll" where
  [repo_defs]: "settingsRepository_Upsert M s c =
    (case upsert_one M (\<lambda>d. se_user d = se_user s) (\<lambda>_. settings_ms s) (settings_ms s) c of
      (Inl e, c') \<Rightarrow> (Inl (db_err e), c')
    | (Inr _, c') \<Rightarrow> (Inr (), c'))"

section \<open>Refresh tokens\<close>

definition set_revoked :: "refresh_token \<Rightarrow> refresh_token" where
  "set_revoked t = t\<lparr>rt_revoked := True\<rparr>"

definition refreshTokenRepository_Create ::
  "('e, refresh_token) driver \<Rightarrow> refresh_token \<Rightarrow> 'e token_coll \<Rightarrow> unit res \<times> 'e token_coll" where
  [repo_defs]: "refreshTokenRepository_Create M t c = (case insert_one M (token_ms t) c of
      (Inl e, c') \<Rightarrow> (Inl (db_err e), c')
    | (Inr _, c') \<Rightarrow> (Inr (), c'))"

definition refreshTokenRepository_FindByJTIHash ::
  "('e, refresh_token) driver \<Rightarrow> string \<Rightarrow> 'e token_coll \<Rightarrow> refresh_token res \<times> 'e token_coll" where
  [repo_defs]: "refreshTokenRepository_FindByJTIHash M h c = (case find_one M (\<lambda>d. rt_jti_hash d = h) c of
      (Inl NoDocuments, c') \<Rightarrow> (Inl ErrNotFound, c')
    | (Inl e, c') \<Rightarrow> (Inl (db_err e), c')
    | (Inr d, c') \<Rightarrow> (Inr d, c'))"

definition refreshTokenRepository_Revoke ::
  "('e, refresh_token) driver \<Rightarrow> string \<Rightarrow> 'e token_coll \<Rightarrow> unit res \<times> 'e token_coll" where
  [repo_defs]: "refreshTokenRepository_Revoke M k c = (case update_one M (\<lambda>d. rt_id d = k) set_revoked c of
      (Inl e, c') \<Rightarrow> (Inl (db_err e), c')
    | (Inr n, c') \<Rightarrow> if n = 0 then (Inl ErrNotFound, c') else (Inr (), c'))"

definition refreshTokenRepository_RevokeAllForUser ::
  "('e, refresh_token) driver \<Rightarrow> string \<Rightarrow> 'e token_coll \<Rightarrow> unit res \<times> 'e token_coll" where
  [repo_defs]: "refreshTokenRepository_RevokeAllForUser M k c =
    (case update_many M (\<lambda>d. rt_user d = k \<and> rt_revoked d = False) set_revoked c of
      (Inl e, c') \<Rightarrow> (Inl (db_err e), c')
    | (Inr _, c') \<Rightarrow> (Inr (), c'))"

section \<open>Laws of the repositories\<close>

text \<open>The shape of a lookup, for all three repositories.\<close>

lemma find_shape:
  assumes "lawful cf M"
    and "(case find_one M P c of
        (Inl NoDocuments, c') \<Rightarrow> (Inl ErrNotFound, c')
      | (Inl DuplicateKey, c') \<Rightarrow> (Inl (db_err DuplicateKey), c')
      | (Inl (DbFault m), c') \<Rightarrow> (Inl (db_err (DbFault m)), c')
      | (Inr d, c') \<Rightarrow> (Inr d, c')) = (r, c')"
  shows "docs c' = docs c"
    and "r = Inr d \<Longrightarrow> d \<in> set (docs c) \<and> P d"
    and "r = Inl ErrNotFound \<Longrightarrow> \<forall>d \<in> set (docs c). \<not> P d"
    and "r = Inl e \<Longrightarrow> e = ErrNotFound \<or> (\<exists>m. e = ErrOther m)"
proof -
  obtain q c0 where q: "find_one M P c = (q, c0)" by (cases "find_one M P c")
  from find_oneD [OF assms(1) q] assms(2) q
  have "docs c' = docs c \<and> (r = Inr d \<longrightarrow> d \<in> set (docs c) \<and> P d) \<and>
    (r = Inl ErrNotFound \<longrightarrow> (\<forall>d \<in> set (docs c). \<not> P d)) \<and> (r = Inl e \<longrightarrow> e = ErrNotFound \<or> (\<exists>m. e = ErrOther m))"
    by (auto split: sum.splits db_error.splits)
  then show "docs c' = docs c" "r = Inr d \<Longrightarrow> d \<in> set (docs c) \<and> P d"
    "r = Inl ErrNotFound \<Longrightarrow> \<forall>d \<in> set (docs c). \<not> P d" "r = Inl e \<Longrightarrow> e = ErrNotFound \<or> (\<exists>m. e = ErrOther m)"
    by blast+
qed

lemma user_by_email:
  assumes "lawful cf M" and "userRepository_FindByEmail M email c = (r, c')"
  shows "docs c' = docs c"
    and "r = Inr d \<Longrightarrow> d \<in> set (docs c) \<and> us_email d = email"
    and "r = Inl ErrNotFound \<Longrightarrow> \<forall>d \<in> set (docs c). us_email d \<noteq> email"
    and "r = Inl e \<Longrightarrow> e = ErrNotFound \<or> (\<exists>m. e = ErrOther m)"
  using find_shape [OF assms(1) assms(2) [unfolded userRepository_FindByEmail_def]] by blast+

lemma user_by_id:
  assumes "lawful cf M" and "userRepository_FindByID M k c = (r, c')"
  shows "docs c' = docs c"
    and "r = Inr d \<Longrightarrow> d \<in> set (docs c) \<and> us_id d = k"
    and "r = Inl ErrNotFound \<Longrightarrow> \<forall>d \<in> set (docs c). us_id d \<noteq> k"
    and "r = Inl e \<Longrightarrow> e = ErrNotFound \<or> (\<exists>m. e = ErrOther m)"
  using find_shape [OF assms(1) assms(2) [unfolded userRepository_FindByID_def]] by blast+

lemma settings_by_user:
  assumes "lawful cf M" and "settingsRepository_FindByUserID M k c = (r, c')"
  shows "docs c' = docs c"
    and "r = Inr d \<Longrightarrow> d \<in> set (docs c) \<and> se_user d = k"
    and "r = Inl ErrNotFound \<Longrightarrow> \<forall>d \<in> set (docs c). se_user d \<noteq> k"
    and "r = Inl e \<Longrightarrow> e = ErrNotFound \<or> (\<exists>m. e = ErrOther m)"
  using find_shape [OF assms(1) assms(2) [unfolded settingsRepository_FindByUserID_def]] by blast+

lemma token_by_hash:
  assumes "lawful cf M" and "refreshTokenRepository_FindByJTIHash M h c = (r, c')"
  shows "docs c' = docs c"
    and "r = Inr d \<Longrightarrow> d \<in> set (docs c) \<and> rt_jti_hash d = h"
    and "r = Inl ErrNotFound \<Longrightarrow> \<forall>d \<in> set (docs c). rt_jti_hash d \<noteq> h"
    and "r = Inl e \<Longrightarrow> e = ErrNotFound \<or> (\<exists>m. e = ErrOther m)"
  using find_shape [OF assms(1) assms(2) [unfolded refreshTokenRepository_FindByJTIHash_def]] by blast+

lemma userRepository_Create_cases:
  assumes "lawful user_conflict M" and "userRepository_Create M u c = (r, c')"
  shows "docs c' = docs c \<or> (docs c' = docs c @ [user_ms u] \<and> (\<forall>x \<in> set (docs c). \<not> user_conflict x (user_ms u)))"
    and "r = Inr w \<Longrightarrow> docs c' = docs c @ [user_ms u] \<and> (\<forall>x \<in> set (docs c). \<not> user_conflict x (user_ms u))"
    and "r = Inl e \<Longrightarrow> (e = ErrDuplicateEmail \<and> docs c' = docs c \<and> (\<exists>x \<in> set (docs c). user_conflict x (user_ms u))) \<or>
      (\<exists>m. e = ErrOther m)"
proof -
  obtain q c0 where q: "insert_one M (user_ms u) c = (q, c0)" by (cases "insert_one M (user_ms u) c")
  from insertD [OF assms(1) q] assms(2) q
  have "(docs c' = docs c \<or> (docs c' = docs c @ [user_ms u] \<and> (\<forall>x \<in> set (docs c). \<not> user_conflict x (user_ms u)))) \<and>
    (r = Inr w \<longrightarrow> docs c' = docs c @ [user_ms u] \<and> (\<forall>x \<in> set (docs c). \<not> user_conflict x (user_ms u))) \<and>
    (r = Inl e \<longrightarrow> (e = ErrDuplicateEmail \<and> docs c' = docs c \<and> (\<exists>x \<in> set (docs c). user_conflict x (user_ms u))) \<or>
      (\<exists>m. e = ErrOther m))"
    by (auto simp: userRepository_Create_def split: sum.splits db_error.splits)
  then show "docs c' = docs c \<or> (docs c' = docs c @ [user_ms u] \<and> (\<forall>x \<in> set (docs c). \<not> user_conflict x (user_ms u)))"
    "r = Inr w \<Longrightarrow> docs c' = docs c @ [user_ms u] \<and> (\<forall>x \<in> set (docs c). \<not> user_conflict x (user_ms u))"
    "r = Inl e \<Longrightarrow> (e = ErrDuplicateEmail \<and> docs c' = docs c \<and> (\<exists>x \<in> set (docs c). user_conflict x (user_ms u))) \<or>
      (\<exists>m. e = ErrOther m)"
    by blast+
qed

lemma settings_Upsert_cases:
  assumes M: "lawful settings_conflict M" and up: "settingsRepository_Upsert M se c = (r, c')"
  shows "r = Inr w \<Longrightarrow> settings_ms se \<in> set (docs c')" and "r = Inl e \<Longrightarrow> \<exists>m. e = ErrOther m"
proof -
  obtain q c0 where q: "upsert_one M (\<lambda>d. se_user d = se_user se) (\<lambda>_. settings_ms se) (settings_ms se) c = (q, c0)"
    by (cases "upsert_one M (\<lambda>d. se_user d = se_user se) (\<lambda>_. settings_ms se) (settings_ms se) c")
  have r: "r = (case q of Inl e \<Rightarrow> Inl (db_err e) | Inr _ \<Rightarrow> Inr ())" "c' = c0"
    using up q by (cases q; simp add: settingsRepository_Upsert_def)+
  show "\<exists>m. e = ErrOther m" if "r = Inl e" using that r(1) db_err_other(1) by (cases q) auto
  show "settings_ms se \<in> set (docs c')" if "r = Inr w"
  proof (cases q)
    case (Inr y)
    from upsert_ok [OF M q [unfolded Inr]] r(2) show ?thesis by (auto simp: one_updated_def)
  qed (use that r(1) in simp)
qed

lemma token_Create_cases:
  assumes "lawful token_conflict M" and "refreshTokenRepository_Create M t c = (r, c')"
  shows "docs c' = docs c \<or> (docs c' = docs c @ [token_ms t] \<and> (\<forall>x \<in> set (docs c). \<not> token_conflict x (token_ms t)))"
    and "r = Inr w \<Longrightarrow> docs c' = docs c @ [token_ms t] \<and> (\<forall>x \<in> set (docs c). \<not> token_conflict x (token_ms t))"
    and "r = Inl e \<Longrightarrow> \<exists>m. e = ErrOther m"
proof -
  obtain q c0 where q: "insert_one M (token_ms t) c = (q, c0)" by (cases "insert_one M (token_ms t) c")
  from insertD [OF assms(1) q] assms(2) q
  have "(docs c' = docs c \<or> (docs c' = docs c @ [token_ms t] \<and> (\<forall>x \<in> set (docs c). \<not> token_conflict x (token_ms t)))) \<and>
    (r = Inr w \<longrightarrow> docs c' = docs c @ [token_ms t] \<and> (\<forall>x \<in> set (docs c). \<not> token_conflict x (token_ms t))) \<and>
    (r = Inl e \<longrightarrow> (\<exists>m. e = ErrOther m))"
    by (auto simp: refreshTokenRepository_Create_def split: sum.splits db_error.splits)
  then show "docs c' = docs c \<or> (docs c' = docs c @ [token_ms t] \<and> (\<forall>x \<in> set (docs c). \<not> token_conflict x (token_ms t)))"
    "r = Inr w \<Longrightarrow> docs c' = docs c @ [token_ms t] \<and> (\<forall>x \<in> set (docs c). \<not> token_conflict x (token_ms t))"
    "r = Inl e \<Longrightarrow> \<exists>m. e = ErrOther m"
    by blast+
qed

lemma token_Revoke_cases:
  assumes "lawful token_conflict M" and "refreshTokenRepository_Revoke M k c = (r, c')"
  shows "docs c' = docs c \<or> one_updated (\<lambda>d. rt_id d = k) set_revoked (docs c) (docs c')"
    and "r = Inr w \<Longrightarrow> one_updated (\<lambda>d. rt_id d = k) set_revoked (docs c) (docs c')"
    and "r = Inl e \<Longrightarrow> (e = ErrNotFound \<and> (\<forall>d \<in> set (docs c). rt_id d \<noteq> k)) \<or> (\<exists>m. e = ErrOther m)"
proof -
  obtain q c0 where q: "update_one M (\<lambda>d. rt_id d = k) set_revoked c = (q, c0)"
    by (cases "update_one M (\<lambda>d. rt_id d = k) set_revoked c")
  from update_oneD [OF assms(1) q] assms(2) q
  have "(docs c' = docs c \<or> one_updated (\<lambda>d. rt_id d = k) set_revoked (docs c) (docs c')) \<and>
    (r = Inr w \<longrightarrow> one_updated (\<lambda>d. rt_id d = k) set_revoked (docs c) (docs c')) \<and>
    (r = Inl e \<longrightarrow> (e = ErrNotFound \<and> (\<forall>d \<in> set (docs c). rt_id d \<noteq> k)) \<or> (\<exists>m. e = ErrOther m))"
    by (auto simp: refreshTokenRepository_Revoke_def split: sum.splits if_splits)
  then show "docs c' = docs c \<or> one_updated (\<lambda>d. rt_id d = k) set_revoked (docs c) (docs c')"
    "r = Inr w \<Longrightarrow> one_updated (\<lambda>d. rt_id d = k) set_revoked (docs c) (docs c')"
    "r = Inl e \<Longrightarrow> (e = ErrNotFound \<and> (\<forall>d \<in> set (docs c). rt_id d \<noteq> k)) \<or> (\<exists>m. e = ErrOther m)"
    by blast+
qed

lemma token_RevokeAll_cases:
  assumes "lawful token_conflict M" and "refreshTokenRepository_RevokeAllForUser M k c = (r, c')"
  shows "list_all2 (\<lambda>d d'. d' = d \<or> ((rt_user d = k \<and> rt_revoked d = False) \<and> d' = set_revoked d)) (docs c) (docs c')"
    and "r = Inr w \<Longrightarrow> docs c' = map (\<lambda>d. if rt_user d = k \<and> rt_revoked d = False then set_revoked d else d) (docs c)"
    and "r = Inl e \<Longrightarrow> \<exists>m. e = ErrOther m"
proof -
  let ?P = "\<lambda>d. rt_user d = k \<and> rt_revoked d = False"
  obtain q c0 where q: "update_many M ?P set_revoked c = (q, c0)" by (cases "update_many M ?P set_revoked c")
  then have c0: "c0 = c'" using assms(2) by (cases q) (auto simp: refreshTokenRepository_RevokeAllForUser_def)
  show "list_all2 (\<lambda>d d'. d' = d \<or> (?P d \<and> d' = set_revoked d)) (docs c) (docs c')"
    using update_many_cases [OF assms(1) q] c0 by simp
  show "r = Inr w \<Longrightarrow> docs c' = map (\<lambda>d. if ?P d then set_revoked d else d) (docs c)"
    using update_many_ok(1) [OF assms(1)] q c0 assms(2)
    by (cases q) (auto simp: refreshTokenRepository_RevokeAllForUser_def)
  show "r = Inl e \<Longrightarrow> \<exists>m. e = ErrOther m"
    using q assms(2) db_err_other(1) by (cases q) (auto simp: refreshTokenRepository_RevokeAllForUser_def)
qed

end
