(* ===== verification/User_Auth.thy ===== *)
theory User_Auth imports User_Repo Jwtx begin

text \<open>
  user-service, authentication: \<open>service/auth_service.go\<close>. Parameters are the JWT
  library, bcrypt (\<open>au_bcrypt\<close> with its salt, \<open>au_check\<close>), the SHA-256 hex digest
  and the configuration; a call gets the clock and the UUIDs it draws. \<open>Refresh\<close> is
  written as its reading half and its writing half, so that two requests can be
  interleaved between them.
\<close>

section \<open>Configuration and state\<close>

record auth =
  au_unicode :: unicode
  au_jwt :: jwt_lib
  au_sha256 :: "string \<Rightarrow> string"
  au_bcrypt :: "string \<Rightarrow> string \<Rightarrow> string option"
  au_check :: "string \<Rightarrow> string \<Rightarrow> bool"
  au_access_secret :: string
  au_refresh_secret :: string
  au_access_ttl :: int
  au_refresh_ttl :: int

record 'e user_db =
  db_users :: "'e user_coll"
  db_settings :: "'e settings_coll"
  db_tokens :: "'e token_coll"

record 'e user_drivers =
  m_users :: "('e, user) driver"
  m_settings :: "('e, settings) driver"
  m_tokens :: "('e, refresh_token) driver"

definition lawful_user :: "'e user_drivers \<Rightarrow> bool" where
  "lawful_user D \<longleftrightarrow> lawful user_conflict (m_users D) \<and> lawful settings_conflict (m_settings D) \<and>
     lawful token_conflict (m_tokens D)"

definition on_users :: "('e user_coll \<Rightarrow> 'r \<times> 'e user_coll) \<Rightarrow> 'e user_db \<Rightarrow> 'r \<times> 'e user_db" where
  "on_users f s = (case f (db_users s) of (r, c) \<Rightarrow> (r, s\<lparr>db_users := c\<rparr>))"

definition on_settings :: "('e settings_coll \<Rightarrow> 'r \<times> 'e settings_coll) \<Rightarrow> 'e user_db \<Rightarrow> 'r \<times> 'e user_db" where
  "on_settings f s = (case f (db_settings s) of (r, c) \<Rightarrow> (r, s\<lparr>db_settings := c\<rparr>))"

definition on_tokens :: "('e token_coll \<Rightarrow> 'r \<times> 'e token_coll) \<Rightarrow> 'e user_db \<Rightarrow> 'r \<times> 'e user_db" where
  "on_tokens f s = (case f (db_tokens s) of (r, c) \<Rightarrow> (r, s\<lparr>db_tokens := c\<rparr>))"

record register_input =
  ri_email :: string
  ri_password :: string
  ri_name :: string

record login_result =
  lr_access :: string
  lr_refresh :: string
  lr_user :: user

section \<open>Operations\<close>

definition normalizeEmail :: "auth \<Rightarrow> string \<Rightarrow> string" where
  "normalizeEmail A email = to_lower (au_unicode A) (trim_space email)"

definition hashJTI :: "auth \<Rightarrow> string \<Rightarrow> string" where
  "hashJTI A jti = au_sha256 A jti"

definition authService_Register ::
  "auth \<Rightarrow> 'e user_drivers \<Rightarrow> gotime \<Rightarrow> string \<Rightarrow> string \<Rightarrow> register_input \<Rightarrow> 'e user_db \<Rightarrow> user res \<times> 'e user_db" where
  [svc_defs]: "authService_Register A D now salt uid inp s =
    (let email = normalizeEmail A (ri_email inp) in
     case on_users (userRepository_FindByEmail (m_users D) email) s of
       (Inr _, s1) \<Rightarrow> (Inl ErrDuplicateEmail, s1)
     | (Inl e, s1) \<Rightarrow>
        if e \<noteq> ErrNotFound then (Inl e, s1)
        else (case au_bcrypt A salt (ri_password inp) of
            None \<Rightarrow> (Inl (ErrOther ''bcrypt: password length exceeds 72 bytes''), s1)
          | Some hash \<Rightarrow>
              (let u = \<lparr>us_id = uid, us_email = email, us_hash = hash, us_name = ri_name inp,
                        us_created = utc now, us_updated = utc now\<rparr>
               in on_ok (on_users (userRepository_Create (m_users D) u) s1) (\<lambda>_ s2.
                  on_ok (on_settings (settingsRepository_Upsert (m_settings D)
                           \<lparr>se_user = uid, se_currency = ''USD'', se_timezone = ''UTC'', se_updated = utc now\<rparr>) s2)
                    (\<lambda>_ s3. (Inr u, s3))))))"

definition authService_issueTokenPair ::
  "auth \<Rightarrow> 'e user_drivers \<Rightarrow> gotime \<Rightarrow> string \<Rightarrow> string \<Rightarrow> user \<Rightarrow> 'e user_db \<Rightarrow> login_result res \<times> 'e user_db" where
  [svc_defs]: "authService_issueTokenPair A D now jti tid u s =
    (case GenerateAccessToken (au_jwt A) now (au_access_secret A) (us_id u) (us_email u) (au_access_ttl A) of
       None \<Rightarrow> (Inl (ErrOther ''jwt: signing failed''), s)
     | Some access \<Rightarrow>
        (case GenerateRefreshToken (au_jwt A) now (au_refresh_secret A) (us_id u) jti (au_refresh_ttl A) of
           None \<Rightarrow> (Inl (ErrOther ''jwt: signing failed''), s)
         | Some refresh \<Rightarrow>
            on_ok (on_tokens (refreshTokenRepository_Create (m_tokens D)
                \<lparr>rt_id = tid, rt_user = us_id u, rt_jti_hash = hashJTI A jti,
                 rt_expires = time_add (utc now) (au_refresh_ttl A), rt_revoked = False, rt_created = utc now\<rparr>) s)
              (\<lambda>_ s1. (Inr \<lparr>lr_access = access, lr_refresh = refresh, lr_user = u\<rparr>, s1))))"

definition authService_Login ::
  "auth \<Rightarrow> 'e user_drivers \<Rightarrow> gotime \<Rightarrow> string \<Rightarrow> string \<Rightarrow> string \<Rightarrow> string \<Rightarrow> 'e user_db \<Rightarrow> login_result res \<times> 'e user_db" where
  [svc_defs]: "authService_Login A D now jti tid email password s =
    (case on_users (userRepository_FindByEmail (m_users D) (normalizeEmail A email)) s of
       (Inl e, s1) \<Rightarrow> (Inl (if e = ErrNotFound then ErrInvalidCredentials else e), s1)
     | (Inr u, s1) \<Rightarrow>
        if \<not> au_check A (us_hash u) password then (Inl ErrInvalidCredentials, s1)
        else authService_issueTokenPair A D now jti tid u s1)"

text \<open>\<open>Refresh\<close> up to the lookup of the user: everything that decides, nothing written on success.\<close>

definition authService_Refresh_check ::
  "auth \<Rightarrow> 'e user_drivers \<Rightarrow> gotime \<Rightarrow> string \<Rightarrow> 'e user_db \<Rightarrow> (refresh_token \<times> user) res \<times> 'e user_db" where
  [svc_defs]: "authService_Refresh_check A D now tok s =
    (case jwtx_Parse (au_jwt A) now (au_refresh_secret A) tok TypeRefresh of
       None \<Rightarrow> (Inl ErrInvalidToken, s)
     | Some cl \<Rightarrow>
        (case on_tokens (refreshTokenRepository_FindByJTIHash (m_tokens D) (hashJTI A (cl_jti cl))) s of
           (Inl e, s1) \<Rightarrow> (Inl (if e = ErrNotFound then ErrInvalidToken else e), s1)
         | (Inr rt, s1) \<Rightarrow>
            if rt_revoked rt then
              on_ok (on_tokens (refreshTokenRepository_RevokeAllForUser (m_tokens D) (rt_user rt)) s1)
                (\<lambda>_ s2. (Inl ErrInvalidToken, s2))
            else if time_after now (rt_expires rt) then (Inl ErrInvalidToken, s1)
            else
              (case on_users (userRepository_FindByID (m_users D) (cl_user cl)) s1 of
                 (Inl e, s2) \<Rightarrow> (Inl (if e = ErrNotFound then ErrInvalidToken else e), s2)
               | (Inr u, s2) \<Rightarrow> (Inr (rt, u), s2))))"

text \<open>The rotation: revoke the presented token, then issue the new pair.\<close>

definition authService_Refresh_rotate ::
  "auth \<Rightarrow> 'e user_drivers \<Rightarrow> gotime \<Rightarrow> string \<Rightarrow> string \<Rightarrow> refresh_token \<times> user \<Rightarrow> 'e user_db \<Rightarrow>
   login_result res \<times> 'e user_db" where
  [svc_defs]: "authService_Refresh_rotate A D now jti tid ru s =
    on_ok (on_tokens (refreshTokenRepository_Revoke (m_tokens D) (rt_id (fst ru))) s)
      (\<lambda>_ s1. authService_issueTokenPair A D now jti tid (snd ru) s1)"

definition authService_Refresh ::
  "auth \<Rightarrow> 'e user_drivers \<Rightarrow> gotime \<Rightarrow> string \<Rightarrow> string \<Rightarrow> string \<Rightarrow> 'e user_db \<Rightarrow> login_result res \<times> 'e user_db" where
  [svc_defs]: "authService_Refresh A D now jti tid tok s =
    on_ok (authService_Refresh_check A D now tok s) (authService_Refresh_rotate A D now jti tid)"

definition authService_Logout :: "auth \<Rightarrow> 'e user_drivers \<Rightarrow> gotime \<Rightarrow> string \<Rightarrow> 'e user_db \<Rightarrow> unit res \<times> 'e user_db" where
  [svc_defs]: "authService_Logout A D now tok s =
    (case jwtx_Parse (au_jwt A) now (au_refresh_secret A) tok TypeRefresh of
       None \<Rightarrow> (Inr (), s)
     | Some cl \<Rightarrow>
        (case on_tokens (refreshTokenRepository_FindByJTIHash (m_tokens D) (hashJTI A (cl_jti cl))) s of
           (Inl e, s1) \<Rightarrow> if e = ErrNotFound then (Inr (), s1) else (Inl e, s1)
         | (Inr rt, s1) \<Rightarrow>
            if rt_revoked rt then (Inr (), s1)
            else on_tokens (refreshTokenRepository_Revoke (m_tokens D) (rt_id rt)) s1))"

definition authService_RequestPasswordReset :: "auth \<Rightarrow> 'e user_drivers \<Rightarrow> string \<Rightarrow> 'e user_db \<Rightarrow> unit res \<times> 'e user_db" where
  [svc_defs]: "authService_RequestPasswordReset A D email s =
    (case on_users (userRepository_FindByEmail (m_users D) (normalizeEmail A email)) s of (_, s1) \<Rightarrow> (Inr (), s1))"

text \<open>The TTL index on \<open>expires_at\<close>: MongoDB removes expired tokens at times of its own choosing.\<close>

definition sweep_tokens :: "gotime \<Rightarrow> 'e user_db \<Rightarrow> 'e user_db" where
  "sweep_tokens now s = s\<lparr>db_tokens := (db_tokens s)\<lparr>docs := filter (\<lambda>d. \<not> time_before (rt_expires d) now) (docs (db_tokens s))\<rparr>\<rparr>"

section \<open>How the token collection moves\<close>

definition tok_inv :: "'e token_coll \<Rightarrow> bool" where
  "tok_inv c \<longleftrightarrow> distinct (map rt_id (docs c)) \<and> distinct (map rt_jti_hash (docs c))"

text \<open>Every token after a call was there before, was there and is now revoked, or is new with a hash of \<open>F\<close>.\<close>

definition tokens_from :: "string set \<Rightarrow> 'e token_coll \<Rightarrow> 'e token_coll \<Rightarrow> bool" where
  "tokens_from F c c' \<longleftrightarrow> (tok_inv c \<longrightarrow> tok_inv c') \<and>
     (\<forall>d' \<in> set (docs c'). d' \<in> set (docs c) \<or> (\<exists>d \<in> set (docs c). d' = set_revoked d) \<or> rt_jti_hash d' \<in> F)"

lemma set_revoked_simps [simp]: "rt_id (set_revoked d) = rt_id d" "rt_jti_hash (set_revoked d) = rt_jti_hash d"
  "rt_user (set_revoked d) = rt_user d" "rt_revoked (set_revoked d)" "set_revoked (set_revoked d) = set_revoked d"
  by (simp_all add: set_revoked_def)

lemma tokens_from_same: "docs c' = docs c \<Longrightarrow> tokens_from F c c'"
  by (simp add: tokens_from_def tok_inv_def)

lemma tokens_from_mono: "tokens_from F c c' \<Longrightarrow> F \<subseteq> G \<Longrightarrow> tokens_from G c c'"
  unfolding tokens_from_def by blast

lemma tokens_from_trans: "tokens_from F a b \<Longrightarrow> tokens_from F b c \<Longrightarrow> tokens_from F a c"
  unfolding tokens_from_def by (metis set_revoked_simps(2,5))

lemma tokens_from_updated:
  assumes "one_updated P set_revoked (docs c) (docs c')"
  shows "tokens_from F c c'"
proof -
  have "map rt_id (docs c') = map rt_id (docs c)" "map rt_jti_hash (docs c') = map rt_jti_hash (docs c)"
    by (rule one_updated_map [OF assms]; simp)+
  then show ?thesis using one_updated_set [OF assms] by (auto simp: tokens_from_def tok_inv_def)
qed

lemma tokens_from_many:
  assumes "list_all2 (\<lambda>d d'. d' = d \<or> (P d \<and> d' = set_revoked d)) (docs c) (docs c')"
  shows "tokens_from F c c'"
proof -
  have "map rt_id (docs c') = map rt_id (docs c) \<and> map rt_jti_hash (docs c') = map rt_jti_hash (docs c)"
    using assms by (induction rule: list_all2_induct) auto
  then show ?thesis using many_updated_set [OF assms] by (auto simp: tokens_from_def tok_inv_def)
qed

lemma tokens_from_insert:
  assumes "docs c' = docs c @ [d]" and "\<forall>x \<in> set (docs c). \<not> token_conflict x d" and "rt_jti_hash d \<in> F"
  shows "tokens_from F c c'"
  using assms by (fastforce simp: tokens_from_def tok_inv_def token_conflict_def)

text \<open>A token hash that nothing unrevoked carries; \<open>Refresh\<close> never accepts it again.\<close>

definition dead :: "string \<Rightarrow> 'e token_coll \<Rightarrow> bool" where
  "dead h c \<longleftrightarrow> (\<forall>d \<in> set (docs c). rt_jti_hash d = h \<longrightarrow> rt_revoked d)"

lemma dead_from: "tokens_from F c c' \<Longrightarrow> h \<notin> F \<Longrightarrow> dead h c \<Longrightarrow> dead h c'"
  unfolding tokens_from_def dead_def by fastforce

section \<open>The calls\<close>

lemma lawful_userD:
  assumes "lawful_user D"
  shows "lawful user_conflict (m_users D)" "lawful settings_conflict (m_settings D)" "lawful token_conflict (m_tokens D)"
  using assms by (simp_all add: lawful_user_def)

lemma on_users_eq: "on_users f s = (r, s') \<longleftrightarrow> (\<exists>c. f (db_users s) = (r, c) \<and> s' = s\<lparr>db_users := c\<rparr>)"
  by (auto simp: on_users_def split: prod.splits)

lemma on_settings_eq: "on_settings f s = (r, s') \<longleftrightarrow> (\<exists>c. f (db_settings s) = (r, c) \<and> s' = s\<lparr>db_settings := c\<rparr>)"
  by (auto simp: on_settings_def split: prod.splits)

lemma on_tokens_eq: "on_tokens f s = (r, s') \<longleftrightarrow> (\<exists>c. f (db_tokens s) = (r, c) \<and> s' = s\<lparr>db_tokens := c\<rparr>)"
  by (auto simp: on_tokens_def split: prod.splits)

lemma issue_cases:
  assumes D: "lawful_user D" and iss: "authService_issueTokenPair A D now jti tid u s = (r, s')"
  shows "tokens_from {hashJTI A jti} (db_tokens s) (db_tokens s')" "db_users s' = db_users s" "db_settings s' = db_settings s"
    and "r = Inl e \<Longrightarrow> \<exists>m. e = ErrOther m"
    and "r = Inr res \<Longrightarrow> lr_user res = u \<and>
      GenerateRefreshToken (au_jwt A) now (au_refresh_secret A) (us_id u) jti (au_refresh_ttl A) = Some (lr_refresh res) \<and>
      GenerateAccessToken (au_jwt A) now (au_access_secret A) (us_id u) (us_email u) (au_access_ttl A) = Some (lr_access res) \<and>
      docs (db_tokens s') = docs (db_tokens s) @ [token_ms \<lparr>rt_id = tid, rt_user = us_id u, rt_jti_hash = hashJTI A jti,
         rt_expires = time_add (utc now) (au_refresh_ttl A), rt_revoked = False, rt_created = utc now\<rparr>]"
proof -
  let ?t = "\<lparr>rt_id = tid, rt_user = us_id u, rt_jti_hash = hashJTI A jti,
         rt_expires = time_add (utc now) (au_refresh_ttl A), rt_revoked = False, rt_created = utc now\<rparr>"
  let ?acc = "GenerateAccessToken (au_jwt A) now (au_access_secret A) (us_id u) (us_email u) (au_access_ttl A)"
  let ?ref = "GenerateRefreshToken (au_jwt A) now (au_refresh_secret A) (us_id u) jti (au_refresh_ttl A)"
  have "tokens_from {hashJTI A jti} (db_tokens s) (db_tokens s') \<and> db_users s' = db_users s \<and> db_settings s' = db_settings s \<and>
    (r = Inl e \<longrightarrow> (\<exists>m. e = ErrOther m)) \<and>
    (r = Inr res \<longrightarrow> lr_user res = u \<and> ?ref = Some (lr_refresh res) \<and> ?acc = Some (lr_access res) \<and>
      docs (db_tokens s') = docs (db_tokens s) @ [token_ms ?t])"
  proof (cases "?acc = None \<or> ?ref = None")
    case True
    with iss show ?thesis by (auto simp: authService_issueTokenPair_def tokens_from_same split: option.splits)
  next
    case False
    then obtain a b where ab: "?acc = Some a" "?ref = Some b" by auto
    obtain q c where q: "refreshTokenRepository_Create (m_tokens D) ?t (db_tokens s) = (q, c)"
      by (cases "refreshTokenRepository_Create (m_tokens D) ?t (db_tokens s)")
    note tc = token_Create_cases [OF lawful_userD(3) [OF D] q]
    have h: "rt_jti_hash (token_ms ?t) = hashJTI A jti" by (simp add: token_ms_def)
    from tc(1) have frm: "tokens_from {hashJTI A jti} (db_tokens s) c"
    proof (elim disjE conjE)
      assume "docs c = docs (db_tokens s) @ [token_ms ?t]" "\<forall>x \<in> set (docs (db_tokens s)). \<not> token_conflict x (token_ms ?t)"
      then show ?thesis by (rule tokens_from_insert) (simp add: h)
    qed (rule tokens_from_same)
    show ?thesis
    proof (cases q)
      case (Inl e')
      with iss ab q frm tc(3) show ?thesis by (auto simp: authService_issueTokenPair_def on_tokens_def)
    next
      case (Inr w)
      with iss ab q frm tc(2) show ?thesis by (auto simp: authService_issueTokenPair_def on_tokens_def)
    qed
  qed
  then show "tokens_from {hashJTI A jti} (db_tokens s) (db_tokens s')" "db_users s' = db_users s" "db_settings s' = db_settings s"
    "r = Inl e \<Longrightarrow> \<exists>m. e = ErrOther m"
    "r = Inr res \<Longrightarrow> lr_user res = u \<and> ?ref = Some (lr_refresh res) \<and> ?acc = Some (lr_access res) \<and>
      docs (db_tokens s') = docs (db_tokens s) @ [token_ms ?t]"
    by blast+
qed

lemma Refresh_check_replay:
  assumes D: "lawful_user D" and chk: "authService_Refresh_check A D now tok s = (r, s')"
    and cl: "jwtx_Parse (au_jwt A) now (au_refresh_secret A) tok TypeRefresh = Some cl"
    and q: "refreshTokenRepository_FindByJTIHash (m_tokens D) (hashJTI A (cl_jti cl)) (db_tokens s) = (Inr rt, c)"
    and rev: "rt_revoked rt"
  shows "db_users s' = db_users s" "db_settings s' = db_settings s"
    and "((\<exists>m. r = Inl (ErrOther m)) \<and> tokens_from {} (db_tokens s) (db_tokens s')) \<or>
      (r = Inl ErrInvalidToken \<and>
       docs (db_tokens s') = map (\<lambda>d. if rt_user d = rt_user rt \<and> rt_revoked d = False then set_revoked d else d) (docs (db_tokens s)))"
proof -
  have same: "docs c = docs (db_tokens s)" by (rule token_by_hash(1) [OF lawful_userD(3) [OF D] q])
  obtain w c2 where w: "refreshTokenRepository_RevokeAllForUser (m_tokens D) (rt_user rt) c = (w, c2)"
    by (cases "refreshTokenRepository_RevokeAllForUser (m_tokens D) (rt_user rt) c")
  note ra = token_RevokeAll_cases [OF lawful_userD(3) [OF D] w]
  have "s' = s\<lparr>db_tokens := c2\<rparr> \<and> r = (case w of Inl e \<Rightarrow> Inl e | Inr _ \<Rightarrow> Inl ErrInvalidToken)"
    using chk cl q rev w by (cases w) (simp_all add: authService_Refresh_check_def on_tokens_def)
  then have s': "s' = s\<lparr>db_tokens := c2\<rparr>" "r = (case w of Inl e \<Rightarrow> Inl e | Inr _ \<Rightarrow> Inl ErrInvalidToken)" by auto
  have fr: "tokens_from {} (db_tokens s) c2"
    by (rule tokens_from_trans [OF tokens_from_same [OF same] tokens_from_many [OF ra(1)]])
  show "db_users s' = db_users s" "db_settings s' = db_settings s" using s'(1) by simp_all
  show "((\<exists>m. r = Inl (ErrOther m)) \<and> tokens_from {} (db_tokens s) (db_tokens s')) \<or>
      (r = Inl ErrInvalidToken \<and>
       docs (db_tokens s') = map (\<lambda>d. if rt_user d = rt_user rt \<and> rt_revoked d = False then set_revoked d else d) (docs (db_tokens s)))"
  proof (cases w)
    case (Inl e)
    with ra(3) [of e] s' fr show ?thesis by auto
  next
    case (Inr x)
    with ra(2) [OF Inr] s' same show ?thesis by simp
  qed
qed

lemma Refresh_check_user:
  assumes D: "lawful_user D" and chk: "authService_Refresh_check A D now tok s = (r, s')"
    and cl: "jwtx_Parse (au_jwt A) now (au_refresh_secret A) tok TypeRefresh = Some cl"
    and q: "refreshTokenRepository_FindByJTIHash (m_tokens D) (hashJTI A (cl_jti cl)) (db_tokens s) = (Inr rt, c)"
    and live: "\<not> rt_revoked rt" "\<not> time_after now (rt_expires rt)"
  shows "db_tokens s' = c" "docs (db_users s') = docs (db_users s)" "db_settings s' = db_settings s"
    and "(\<exists>m. r = Inl (ErrOther m)) \<or> (r = Inl ErrInvalidToken \<and> (\<forall>u \<in> set (docs (db_users s)). us_id u \<noteq> cl_user cl)) \<or>
      (\<exists>u. r = Inr (rt, u) \<and> u \<in> set (docs (db_users s)) \<and> us_id u = cl_user cl)"
proof -
  obtain v c3 where v: "userRepository_FindByID (m_users D) (cl_user cl) (db_users s) = (v, c3)"
    by (cases "userRepository_FindByID (m_users D) (cl_user cl) (db_users s)")
  note g = user_by_id [OF lawful_userD(1) [OF D] v]
  have s': "s' = s\<lparr>db_tokens := c, db_users := c3\<rparr>"
    using chk cl q live v by (cases v) (auto simp: authService_Refresh_check_def on_tokens_def on_users_def)
  have r: "r = (case v of Inl e \<Rightarrow> Inl (if e = ErrNotFound then ErrInvalidToken else e) | Inr u \<Rightarrow> Inr (rt, u))"
    using chk cl q live v by (cases v) (auto simp: authService_Refresh_check_def on_tokens_def on_users_def)
  show "db_tokens s' = c" "docs (db_users s') = docs (db_users s)" "db_settings s' = db_settings s" using s' g(1) by simp_all
  show "(\<exists>m. r = Inl (ErrOther m)) \<or> (r = Inl ErrInvalidToken \<and> (\<forall>u \<in> set (docs (db_users s)). us_id u \<noteq> cl_user cl)) \<or>
      (\<exists>u. r = Inr (rt, u) \<and> u \<in> set (docs (db_users s)) \<and> us_id u = cl_user cl)"
  proof (cases v)
    case (Inl e)
    with g(3,4) r show ?thesis by (cases "e = ErrNotFound") auto
  next
    case (Inr u)
    with g(2) r show ?thesis by simp
  qed
qed

lemma Refresh_check_cases:
  assumes D: "lawful_user D" and chk: "authService_Refresh_check A D now tok s = (r, s')"
  obtains (bad_token) "jwtx_Parse (au_jwt A) now (au_refresh_secret A) tok TypeRefresh = None" "r = Inl ErrInvalidToken" "s' = s"
  | (fault) m where "r = Inl (ErrOther m)" "tokens_from {} (db_tokens s) (db_tokens s')"
      "docs (db_users s') = docs (db_users s)" "db_settings s' = db_settings s"
  | (unknown) cl where "jwtx_Parse (au_jwt A) now (au_refresh_secret A) tok TypeRefresh = Some cl" "r = Inl ErrInvalidToken"
      "docs (db_tokens s') = docs (db_tokens s)" "docs (db_users s') = docs (db_users s)" "db_settings s' = db_settings s"
      "(\<forall>d \<in> set (docs (db_tokens s)). rt_jti_hash d \<noteq> hashJTI A (cl_jti cl)) \<or>
       (\<exists>d \<in> set (docs (db_tokens s)). rt_jti_hash d = hashJTI A (cl_jti cl) \<and> \<not> rt_revoked d \<and>
          (time_after now (rt_expires d) \<or> (\<forall>u \<in> set (docs (db_users s)). us_id u \<noteq> cl_user cl)))"
  | (replay) cl rt where "jwtx_Parse (au_jwt A) now (au_refresh_secret A) tok TypeRefresh = Some cl" "r = Inl ErrInvalidToken"
      "rt \<in> set (docs (db_tokens s))" "rt_jti_hash rt = hashJTI A (cl_jti cl)" "rt_revoked rt"
      "docs (db_tokens s') = map (\<lambda>d. if rt_user d = rt_user rt \<and> rt_revoked d = False then set_revoked d else d) (docs (db_tokens s))"
      "docs (db_users s') = docs (db_users s)" "db_settings s' = db_settings s"
  | (ok) cl rt u where "jwtx_Parse (au_jwt A) now (au_refresh_secret A) tok TypeRefresh = Some cl" "r = Inr (rt, u)"
      "rt \<in> set (docs (db_tokens s))" "rt_jti_hash rt = hashJTI A (cl_jti cl)" "\<not> rt_revoked rt" "\<not> time_after now (rt_expires rt)"
      "u \<in> set (docs (db_users s))" "us_id u = cl_user cl"
      "docs (db_tokens s') = docs (db_tokens s)" "docs (db_users s') = docs (db_users s)" "db_settings s' = db_settings s"
proof (cases "jwtx_Parse (au_jwt A) now (au_refresh_secret A) tok TypeRefresh")
  case None
  with chk bad_token show ?thesis by (simp add: authService_Refresh_check_def)
next
  case cl: (Some cl)
  obtain q c where q: "refreshTokenRepository_FindByJTIHash (m_tokens D) (hashJTI A (cl_jti cl)) (db_tokens s) = (q, c)"
    by (cases "refreshTokenRepository_FindByJTIHash (m_tokens D) (hashJTI A (cl_jti cl)) (db_tokens s)")
  note f = token_by_hash [OF lawful_userD(3) [OF D] q]
  have same: "docs c = docs (db_tokens s)" by (rule f(1))
  then have fromc: "tokens_from {} (db_tokens s) c" by (rule tokens_from_same)
  show ?thesis
  proof (cases q)
    case (Inl e)
    show ?thesis
    proof (cases "e = ErrNotFound")
      case True
      then have "r = Inl ErrInvalidToken" "s' = s\<lparr>db_tokens := c\<rparr>"
        using chk cl q Inl by (simp_all add: authService_Refresh_check_def on_tokens_def)
      with unknown [OF cl] same f(3) Inl True show ?thesis by simp
    next
      case False
      then obtain m where "e = ErrOther m" using f(4) [OF Inl] by blast
      moreover have "r = Inl e" "s' = s\<lparr>db_tokens := c\<rparr>"
        using chk cl q Inl False by (simp_all add: authService_Refresh_check_def on_tokens_def)
      ultimately show ?thesis using fault [of m] fromc by simp
    qed
  next
    case rt: (Inr rt)
    then have rt': "rt \<in> set (docs (db_tokens s))" "rt_jti_hash rt = hashJTI A (cl_jti cl)" using f(2) by auto
    show ?thesis
    proof (cases "rt_revoked rt")
      case True
      with Refresh_check_replay [OF D chk cl q [unfolded rt]] fromc same replay [OF cl _ rt'] fault show ?thesis by auto
    next
      case fresh: False
      show ?thesis
      proof (cases "time_after now (rt_expires rt)")
        case True
        then have "r = Inl ErrInvalidToken" "s' = s\<lparr>db_tokens := c\<rparr>"
          using chk cl q rt fresh by (simp_all add: authService_Refresh_check_def on_tokens_def)
        with unknown [OF cl] same rt' fresh True show ?thesis by auto
      next
        case False
        note u = Refresh_check_user [OF D chk cl q [unfolded rt] fresh False]
        from u(1) fromc have from': "tokens_from {} (db_tokens s) (db_tokens s')" by simp
        from u(4) show ?thesis
        proof (elim disjE exE conjE)
          fix m assume "r = Inl (ErrOther m)"
          with fault [of m] from' u(2,3) show ?thesis by simp
        next
          assume "r = Inl ErrInvalidToken" "\<forall>u \<in> set (docs (db_users s)). us_id u \<noteq> cl_user cl"
          with unknown [OF cl] same rt' fresh u(1-3) show ?thesis by auto
        next
          fix v assume "r = Inr (rt, v)" "v \<in> set (docs (db_users s))" "us_id v = cl_user cl"
          with ok [OF cl _ rt' fresh False] same u(1-3) show ?thesis by simp
        qed
      qed
    qed
  qed
qed

lemma Refresh_check_tokens:
  assumes D: "lawful_user D" and chk: "authService_Refresh_check A D now tok s = (r, s')"
  shows "tokens_from {} (db_tokens s) (db_tokens s')"
  using D chk
proof (cases rule: Refresh_check_cases)
  case (replay cl rt)
  have "list_all2 (\<lambda>d d'. d' = d \<or> ((rt_user d = rt_user rt \<and> rt_revoked d = False) \<and> d' = set_revoked d))
      (docs (db_tokens s)) (docs (db_tokens s'))"
    unfolding replay(6) by (auto simp: list_all2_map2 intro: list.rel_refl_strong)
  then show ?thesis by (rule tokens_from_many)
qed (simp_all add: tokens_from_same)

lemma Refresh_rotate_cases:
  assumes D: "lawful_user D" and rot: "authService_Refresh_rotate A D now jti tid (rt, u) s = (r, s')"
  shows "tokens_from {hashJTI A jti} (db_tokens s) (db_tokens s')" "docs (db_users s') = docs (db_users s)"
    and "r = Inr res \<Longrightarrow> tok_inv (db_tokens s) \<Longrightarrow> rt \<in> set (docs (db_tokens s)) \<Longrightarrow> hashJTI A jti \<noteq> rt_jti_hash rt \<Longrightarrow>
      dead (rt_jti_hash rt) (db_tokens s')"
proof -
  obtain q c where q: "refreshTokenRepository_Revoke (m_tokens D) (rt_id rt) (db_tokens s) = (q, c)"
    by (cases "refreshTokenRepository_Revoke (m_tokens D) (rt_id rt) (db_tokens s)")
  note rv = token_Revoke_cases [OF lawful_userD(3) [OF D] q]
  have f1: "tokens_from {hashJTI A jti} (db_tokens s) c"
    using rv(1) tokens_from_same tokens_from_updated by blast
  have all: "tokens_from {hashJTI A jti} (db_tokens s) (db_tokens s') \<and> docs (db_users s') = docs (db_users s) \<and>
    (r = Inr res \<and> tok_inv (db_tokens s) \<and> rt \<in> set (docs (db_tokens s)) \<and> hashJTI A jti \<noteq> rt_jti_hash rt \<longrightarrow>
      dead (rt_jti_hash rt) (db_tokens s'))"
  proof (cases q)
    case (Inl e)
    with rot q f1 show ?thesis by (auto simp: authService_Refresh_rotate_def on_tokens_def)
  next
    case (Inr w)
    have iss: "authService_issueTokenPair A D now jti tid u (s\<lparr>db_tokens := c\<rparr>) = (r, s')"
      using rot q Inr by (simp add: authService_Refresh_rotate_def on_tokens_def)
    note ic = issue_cases [OF D iss]
    have "dead (rt_jti_hash rt) c" if inv: "tok_inv (db_tokens s)" and rt: "rt \<in> set (docs (db_tokens s))"
    proof -
      obtain xs d ys where d: "docs (db_tokens s) = xs @ d # ys" "rt_id d = rt_id rt" "docs c = xs @ set_revoked d # ys"
        using rv(2) [OF Inr] by (auto simp: one_updated_def)
      have "inj_on rt_id (set (docs (db_tokens s)))" using inv by (simp add: tok_inv_def distinct_map)
      then have "d = rt" using d(1,2) rt by (auto simp: inj_on_def)
      then show ?thesis using inv d(1,3) by (auto simp: dead_def tok_inv_def image_iff)
    qed
    then have "r = Inr res \<and> tok_inv (db_tokens s) \<and> rt \<in> set (docs (db_tokens s)) \<and> hashJTI A jti \<noteq> rt_jti_hash rt \<longrightarrow>
        dead (rt_jti_hash rt) (db_tokens s')"
      using dead_from [OF ic(1), of "rt_jti_hash rt"] by auto
    with ic(1,2) tokens_from_trans [OF f1, of "db_tokens s'"] show ?thesis by simp
  qed
  then show "tokens_from {hashJTI A jti} (db_tokens s) (db_tokens s')" "docs (db_users s') = docs (db_users s)"
    "r = Inr res \<Longrightarrow> tok_inv (db_tokens s) \<Longrightarrow> rt \<in> set (docs (db_tokens s)) \<Longrightarrow> hashJTI A jti \<noteq> rt_jti_hash rt \<Longrightarrow>
      dead (rt_jti_hash rt) (db_tokens s')" by blast+
qed

lemma Refresh_cases:
  assumes D: "lawful_user D" and ref: "authService_Refresh A D now jti tid tok s = (r, s')"
  shows "tokens_from {hashJTI A jti} (db_tokens s) (db_tokens s')" "docs (db_users s') = docs (db_users s)"
    and "r = Inr res \<Longrightarrow> \<exists>cl rt u s1. jwtx_Parse (au_jwt A) now (au_refresh_secret A) tok TypeRefresh = Some cl \<and>
      authService_Refresh_check A D now tok s = (Inr (rt, u), s1) \<and>
      authService_Refresh_rotate A D now jti tid (rt, u) s1 = (r, s') \<and>
      rt \<in> set (docs (db_tokens s)) \<and> rt_jti_hash rt = hashJTI A (cl_jti cl) \<and> \<not> rt_revoked rt \<and>
      docs (db_tokens s1) = docs (db_tokens s) \<and> us_id u = cl_user cl"
proof -
  obtain q s1 where q: "authService_Refresh_check A D now tok s = (q, s1)" by (cases "authService_Refresh_check A D now tok s")
  have f1: "tokens_from {hashJTI A jti} (db_tokens s) (db_tokens s1)"
    by (rule tokens_from_mono [OF Refresh_check_tokens [OF D q]]) simp
  have u1: "docs (db_users s1) = docs (db_users s)"
    using D q by (cases rule: Refresh_check_cases) auto
  have all: "tokens_from {hashJTI A jti} (db_tokens s) (db_tokens s') \<and> docs (db_users s') = docs (db_users s) \<and>
    (r = Inr res \<longrightarrow> (\<exists>cl rt u s1. jwtx_Parse (au_jwt A) now (au_refresh_secret A) tok TypeRefresh = Some cl \<and>
      authService_Refresh_check A D now tok s = (Inr (rt, u), s1) \<and>
      authService_Refresh_rotate A D now jti tid (rt, u) s1 = (r, s') \<and>
      rt \<in> set (docs (db_tokens s)) \<and> rt_jti_hash rt = hashJTI A (cl_jti cl) \<and> \<not> rt_revoked rt \<and>
      docs (db_tokens s1) = docs (db_tokens s) \<and> us_id u = cl_user cl))"
  proof (cases q)
    case (Inl e)
    with ref q f1 u1 show ?thesis by (auto simp: authService_Refresh_def)
  next
    case (Inr ru)
    obtain rt u where ru: "ru = (rt, u)" by (cases ru)
    have rot: "authService_Refresh_rotate A D now jti tid (rt, u) s1 = (r, s')"
      using ref q Inr ru by (simp add: authService_Refresh_def)
    note rc = Refresh_rotate_cases(1,2) [OF D rot]
    from D q [unfolded Inr ru] have "\<exists>cl. jwtx_Parse (au_jwt A) now (au_refresh_secret A) tok TypeRefresh = Some cl \<and>
      rt \<in> set (docs (db_tokens s)) \<and> rt_jti_hash rt = hashJTI A (cl_jti cl) \<and> \<not> rt_revoked rt \<and>
      docs (db_tokens s1) = docs (db_tokens s) \<and> us_id u = cl_user cl"
      by (cases rule: Refresh_check_cases) auto
    moreover have "tokens_from {hashJTI A jti} (db_tokens s) (db_tokens s')" "docs (db_users s') = docs (db_users s)"
      using tokens_from_trans [OF f1 rc(1)] rc(2) u1 by simp_all
    moreover have "authService_Refresh_check A D now tok s = (Inr (rt, u), s1)" using q Inr ru by simp
    ultimately show ?thesis using rot by blast
  qed
  then show "tokens_from {hashJTI A jti} (db_tokens s) (db_tokens s')" "docs (db_users s') = docs (db_users s)"
    "r = Inr res \<Longrightarrow> \<exists>cl rt u s1. jwtx_Parse (au_jwt A) now (au_refresh_secret A) tok TypeRefresh = Some cl \<and>
      authService_Refresh_check A D now tok s = (Inr (rt, u), s1) \<and>
      authService_Refresh_rotate A D now jti tid (rt, u) s1 = (r, s') \<and>
      rt \<in> set (docs (db_tokens s)) \<and> rt_jti_hash rt = hashJTI A (cl_jti cl) \<and> \<not> rt_revoked rt \<and>
      docs (db_tokens s1) = docs (db_tokens s) \<and> us_id u = cl_user cl" by blast+
qed

lemma Login_tokens:
  assumes D: "lawful_user D" and log: "authService_Login A D now jti tid email pw s = (r, s')"
  shows "tokens_from {hashJTI A jti} (db_tokens s) (db_tokens s')"
proof -
  obtain q c where q: "userRepository_FindByEmail (m_users D) (normalizeEmail A email) (db_users s) = (q, c)"
    by (cases "userRepository_FindByEmail (m_users D) (normalizeEmail A email) (db_users s)")
  show ?thesis
  proof (cases q)
    case (Inl e)
    with log q show ?thesis by (auto simp: authService_Login_def on_users_def tokens_from_same)
  next
    case (Inr u)
    with log q issue_cases(1) [OF D, of A now jti tid u "s\<lparr>db_users := c\<rparr>" r s'] show ?thesis
      by (auto simp: authService_Login_def on_users_def tokens_from_same split: if_splits)
  qed
qed

lemma Revoke_kills:
  assumes inv: "tok_inv c" and rt: "rt \<in> set (docs c)" and upd: "one_updated (\<lambda>d. rt_id d = rt_id rt) set_revoked (docs c) (docs c')"
  shows "dead (rt_jti_hash rt) c'"
proof -
  obtain xs d ys where d: "docs c = xs @ d # ys" "rt_id d = rt_id rt" "docs c' = xs @ set_revoked d # ys"
    using upd by (auto simp: one_updated_def)
  have "d = rt" using inv d(1,2) rt by (auto simp: tok_inv_def distinct_map dest: inj_onD)
  then show ?thesis using inv d(1,3) by (auto simp: dead_def tok_inv_def image_iff)
qed

lemma Logout_cases:
  assumes D: "lawful_user D" and out: "authService_Logout A D now tok s = (r, s')"
  shows "tokens_from {} (db_tokens s) (db_tokens s')"
    and "r = Inl e \<Longrightarrow> \<exists>m. e = ErrOther m"
    and "jwtx_Parse (au_jwt A) now (au_refresh_secret A) tok TypeRefresh = Some cl \<Longrightarrow> r = Inr () \<Longrightarrow> tok_inv (db_tokens s) \<Longrightarrow>
      dead (hashJTI A (cl_jti cl)) (db_tokens s')"
proof -
  have all: "tokens_from {} (db_tokens s) (db_tokens s') \<and> (r = Inl e \<longrightarrow> (\<exists>m. e = ErrOther m)) \<and>
    (jwtx_Parse (au_jwt A) now (au_refresh_secret A) tok TypeRefresh = Some cl \<and> r = Inr () \<and> tok_inv (db_tokens s) \<longrightarrow>
      dead (hashJTI A (cl_jti cl)) (db_tokens s'))"
  proof (cases "jwtx_Parse (au_jwt A) now (au_refresh_secret A) tok TypeRefresh")
    case None
    with out show ?thesis by (auto simp: authService_Logout_def tokens_from_same)
  next
    case cl': (Some cl')
    obtain q c where q: "refreshTokenRepository_FindByJTIHash (m_tokens D) (hashJTI A (cl_jti cl')) (db_tokens s) = (q, c)"
      by (cases "refreshTokenRepository_FindByJTIHash (m_tokens D) (hashJTI A (cl_jti cl')) (db_tokens s)")
    note f = token_by_hash [OF lawful_userD(3) [OF D] q]
    show ?thesis
    proof (cases q)
      case (Inl e')
      with out cl' q f(1,3,4) show ?thesis
        by (auto simp: authService_Logout_def on_tokens_def tokens_from_same dead_def split: if_splits)
    next
      case rt: (Inr rt)
      then have rt': "rt \<in> set (docs (db_tokens s))" "rt_jti_hash rt = hashJTI A (cl_jti cl')" using f(2) by auto
      have uniq: "x = rt" if "tok_inv (db_tokens s)" "x \<in> set (docs (db_tokens s))" "rt_jti_hash x = rt_jti_hash rt" for x
        using that rt'(1) by (auto simp: tok_inv_def distinct_map dest: inj_onD)
      show ?thesis
      proof (cases "rt_revoked rt")
        case True
        then have r: "r = Inr ()" "s' = s\<lparr>db_tokens := c\<rparr>"
          using out cl' q rt by (simp_all add: authService_Logout_def on_tokens_def)
        have "dead (hashJTI A (cl_jti cl')) c" if "tok_inv (db_tokens s)"
          unfolding dead_def f(1) rt'(2) [symmetric] using uniq [OF that] True by blast
        with r f(1) cl' show ?thesis by (auto simp: tokens_from_same)
      next
        case False
        obtain w c2 where w: "refreshTokenRepository_Revoke (m_tokens D) (rt_id rt) c = (w, c2)"
          by (cases "refreshTokenRepository_Revoke (m_tokens D) (rt_id rt) c")
        note rv = token_Revoke_cases [OF lawful_userD(3) [OF D] w]
        have s': "r = w" "s' = s\<lparr>db_tokens := c2\<rparr>"
          using out cl' q rt False w by (simp_all add: authService_Logout_def on_tokens_def)
        have fr: "tokens_from {} (db_tokens s) c2"
          using tokens_from_trans [OF tokens_from_same [OF f(1)]] rv(1) tokens_from_same tokens_from_updated by blast
        have "dead (rt_jti_hash rt) c2" if "w = Inr ()" "tok_inv (db_tokens s)"
          using Revoke_kills [OF that(2) rt'(1)] rv(2) that(1) f(1) by simp
        then have d: "jwtx_Parse (au_jwt A) now (au_refresh_secret A) tok TypeRefresh = Some cl \<and> r = Inr () \<and> tok_inv (db_tokens s) \<longrightarrow>
            dead (hashJTI A (cl_jti cl)) (db_tokens s')"
          using s' cl' rt'(2) by auto
        have "r = Inl e \<longrightarrow> (\<exists>m. e = ErrOther m)"
          using rv(3) [of e] rt'(1) f(1) s'(1) by auto
        with fr d s'(2) show ?thesis by simp
      qed
    qed
  qed
  then show "tokens_from {} (db_tokens s) (db_tokens s')" "r = Inl e \<Longrightarrow> \<exists>m. e = ErrOther m"
    "jwtx_Parse (au_jwt A) now (au_refresh_secret A) tok TypeRefresh = Some cl \<Longrightarrow> r = Inr () \<Longrightarrow> tok_inv (db_tokens s) \<Longrightarrow>
      dead (hashJTI A (cl_jti cl)) (db_tokens s')" by blast+
qed

section \<open>Sequences of calls\<close>

datatype auth_op =
    OpRegister gotime string string register_input
  | OpLogin gotime string string string string
  | OpRefresh gotime string string string
  | OpLogout gotime string
  | OpReset string
  | OpSweep gotime

fun auth_step :: "auth \<Rightarrow> 'e user_drivers \<Rightarrow> auth_op \<Rightarrow> 'e user_db \<Rightarrow> 'e user_db" where
  "auth_step A D (OpRegister now salt uid inp) s = snd (authService_Register A D now salt uid inp s)"
| "auth_step A D (OpLogin now jti tid email pw) s = snd (authService_Login A D now jti tid email pw s)"
| "auth_step A D (OpRefresh now jti tid tok) s = snd (authService_Refresh A D now jti tid tok s)"
| "auth_step A D (OpLogout now tok) s = snd (authService_Logout A D now tok s)"
| "auth_step A D (OpReset email) s = snd (authService_RequestPasswordReset A D email s)"
| "auth_step A D (OpSweep now) s = sweep_tokens now s"

definition auth_run :: "auth \<Rightarrow> 'e user_drivers \<Rightarrow> auth_op list \<Rightarrow> 'e user_db \<Rightarrow> 'e user_db" where
  "auth_run A D ops s = fold (auth_step A D) ops s"

text \<open>The hash of the JTI that a call draws, if it draws one.\<close>

fun fresh_hash :: "auth \<Rightarrow> auth_op \<Rightarrow> string set" where
  "fresh_hash A (OpLogin now jti tid email pw) = {hashJTI A jti}"
| "fresh_hash A (OpRefresh now jti tid tok) = {hashJTI A jti}"
| "fresh_hash A _ = {}"

lemma Register_cases:
  assumes D: "lawful_user D" and reg: "authService_Register A D now salt uid inp s = (r, s')"
  shows "db_tokens s' = db_tokens s"
    and "r = Inl e \<Longrightarrow> (e = ErrDuplicateEmail \<and> docs (db_users s') = docs (db_users s)) \<or> (\<exists>m. e = ErrOther m)"
    and "r = Inr u \<Longrightarrow> us_email u = normalizeEmail A (ri_email inp) \<and> us_id u = uid \<and> us_name u = ri_name inp \<and>
      au_bcrypt A salt (ri_password inp) = Some (us_hash u) \<and> docs (db_users s') = docs (db_users s) @ [user_ms u] \<and>
      (\<forall>x \<in> set (docs (db_users s)). us_id x \<noteq> uid \<and> us_email x \<noteq> us_email u) \<and>
      (\<exists>se \<in> set (docs (db_settings s')). se_user se = uid \<and> se_currency se = ''USD'' \<and> se_timezone se = ''UTC'')"
proof -
  let ?em = "normalizeEmail A (ri_email inp)"
  obtain q c where q: "userRepository_FindByEmail (m_users D) ?em (db_users s) = (q, c)"
    by (cases "userRepository_FindByEmail (m_users D) ?em (db_users s)")
  note f = user_by_email [OF lawful_userD(1) [OF D] q]
  have all: "db_tokens s' = db_tokens s \<and>
    (r = Inl e \<longrightarrow> (e = ErrDuplicateEmail \<and> docs (db_users s') = docs (db_users s)) \<or> (\<exists>m. e = ErrOther m)) \<and>
    (r = Inr u \<longrightarrow> us_email u = ?em \<and> us_id u = uid \<and> us_name u = ri_name inp \<and>
      au_bcrypt A salt (ri_password inp) = Some (us_hash u) \<and> docs (db_users s') = docs (db_users s) @ [user_ms u] \<and>
      (\<forall>x \<in> set (docs (db_users s)). us_id x \<noteq> uid \<and> us_email x \<noteq> us_email u) \<and>
      (\<exists>se \<in> set (docs (db_settings s')). se_user se = uid \<and> se_currency se = ''USD'' \<and> se_timezone se = ''UTC''))"
  proof (cases "q = Inl ErrNotFound \<and> au_bcrypt A salt (ri_password inp) \<noteq> None")
    case False
    with reg q f(1,4) show ?thesis
      by (cases q) (auto simp: authService_Register_def on_users_def Let_def split: if_splits option.splits)
  next
    case True
    then obtain h where h: "au_bcrypt A salt (ri_password inp) = Some h" and nf: "q = Inl ErrNotFound" by auto
    let ?u = "\<lparr>us_id = uid, us_email = ?em, us_hash = h, us_name = ri_name inp, us_created = utc now, us_updated = utc now\<rparr>"
    let ?se = "\<lparr>se_user = uid, se_currency = ''USD'', se_timezone = ''UTC'', se_updated = utc now\<rparr>"
    obtain w c2 where w: "userRepository_Create (m_users D) ?u c = (w, c2)" by (cases "userRepository_Create (m_users D) ?u c")
    note cr = userRepository_Create_cases [OF lawful_userD(1) [OF D] w]
    show ?thesis
    proof (cases w)
      case (Inl e')
      have "r = Inl e'" "s' = s\<lparr>db_users := c2\<rparr>"
        using reg q nf h w Inl by (simp_all add: authService_Register_def on_users_def Let_def)
      with cr(3) [OF Inl] f(1) show ?thesis by auto
    next
      case (Inr x)
      obtain v c3 where v: "settingsRepository_Upsert (m_settings D) ?se (db_settings s) = (v, c3)"
        by (cases "settingsRepository_Upsert (m_settings D) ?se (db_settings s)")
      have s': "s' = s\<lparr>db_users := c2, db_settings := c3\<rparr>" "r = (case v of Inl e \<Rightarrow> Inl e | Inr _ \<Rightarrow> Inr ?u)"
        using reg q nf h w Inr v
        by (cases v; simp add: authService_Register_def on_users_def on_settings_def Let_def)+
      note st = settings_Upsert_cases [OF lawful_userD(2) [OF D] v]
      have no: "\<forall>x \<in> set (docs (db_users s)). us_id x \<noteq> uid \<and> us_email x \<noteq> ?em" "docs c2 = docs (db_users s) @ [user_ms ?u]"
        using cr(2) [OF Inr] f(1) by (auto simp: user_conflict_def user_ms_def)
      show ?thesis
      proof (cases v)
        case (Inl e')
        with s' st(2) [of e'] show ?thesis by auto
      next
        case (Inr y)
        have "se_user (settings_ms ?se) = uid \<and> se_currency (settings_ms ?se) = ''USD'' \<and> se_timezone (settings_ms ?se) = ''UTC''"
          by (simp add: settings_ms_def)
        with st(1) [OF Inr] have se: "\<exists>se \<in> set (docs c3). se_user se = uid \<and> se_currency se = ''USD'' \<and> se_timezone se = ''UTC''"
          by blast
        from Inr s' have "r = Inr ?u" by simp
        with s' no h se show ?thesis by auto
      qed
    qed
  qed
  then show "db_tokens s' = db_tokens s"
    "r = Inl e \<Longrightarrow> (e = ErrDuplicateEmail \<and> docs (db_users s') = docs (db_users s)) \<or> (\<exists>m. e = ErrOther m)"
    "r = Inr u \<Longrightarrow> us_email u = ?em \<and> us_id u = uid \<and> us_name u = ri_name inp \<and>
      au_bcrypt A salt (ri_password inp) = Some (us_hash u) \<and> docs (db_users s') = docs (db_users s) @ [user_ms u] \<and>
      (\<forall>x \<in> set (docs (db_users s)). us_id x \<noteq> uid \<and> us_email x \<noteq> us_email u) \<and>
      (\<exists>se \<in> set (docs (db_settings s')). se_user se = uid \<and> se_currency se = ''USD'' \<and> se_timezone se = ''UTC'')"
    by blast+
qed

lemma auth_step_tokens:
  assumes D: "lawful_user D"
  shows "tokens_from (fresh_hash A op) (db_tokens s) (db_tokens (auth_step A D op s))"
proof (cases op)
  case (OpRegister now salt uid inp)
  obtain r s' where "authService_Register A D now salt uid inp s = (r, s')" by (cases "authService_Register A D now salt uid inp s")
  with Register_cases(1) [OF D this] OpRegister show ?thesis by (simp add: tokens_from_same)
next
  case (OpLogin now jti tid email pw)
  obtain r s' where "authService_Login A D now jti tid email pw s = (r, s')" by (cases "authService_Login A D now jti tid email pw s")
  with Login_tokens [OF D this] OpLogin show ?thesis by simp
next
  case (OpRefresh now jti tid tok)
  obtain r s' where "authService_Refresh A D now jti tid tok s = (r, s')" by (cases "authService_Refresh A D now jti tid tok s")
  with Refresh_cases(1) [OF D this] OpRefresh show ?thesis by simp
next
  case (OpLogout now tok)
  obtain r s' where "authService_Logout A D now tok s = (r, s')" by (cases "authService_Logout A D now tok s")
  with Logout_cases(1) [OF D this] OpLogout show ?thesis by simp
next
  case (OpReset email)
  then show ?thesis by (simp add: authService_RequestPasswordReset_def on_users_def tokens_from_same split: prod.splits)
next
  case (OpSweep now)
  have "tok_inv (db_tokens s) \<longrightarrow> tok_inv (db_tokens (sweep_tokens now s))"
    by (auto simp: tok_inv_def sweep_tokens_def intro: distinct_map_filter)
  with OpSweep show ?thesis by (auto simp: tokens_from_def sweep_tokens_def)
qed

lemma auth_run_dead:
  assumes D: "lawful_user D"
  shows "\<forall>op \<in> set ops. h \<notin> fresh_hash A op \<Longrightarrow> dead h (db_tokens s) \<Longrightarrow> dead h (db_tokens (auth_run A D ops s))"
proof (induction ops arbitrary: s)
  case (Cons op ops)
  then have "dead h (db_tokens (auth_step A D op s))"
    using dead_from [OF auth_step_tokens [OF D, of A op s]] by simp
  with Cons show ?case by (simp add: auth_run_def)
qed (simp add: auth_run_def)

lemma dead_never_refreshes:
  assumes D: "lawful_user D" and J: "lawful_jwt (au_jwt A)"
    and cl: "jwtx_Parse (au_jwt A) now (au_refresh_secret A) tok TypeRefresh = Some cl"
    and dead: "dead (hashJTI A (cl_jti cl)) (db_tokens s)"
    and ref: "authService_Refresh A D now' jti tid tok s = (r, s')"
  shows "r \<noteq> Inr res"
proof
  assume "r = Inr res"
  from Refresh_cases(3) [OF D ref this] obtain cl' rt where c:
    "jwtx_Parse (au_jwt A) now' (au_refresh_secret A) tok TypeRefresh = Some cl'" "rt \<in> set (docs (db_tokens s))"
    "rt_jti_hash rt = hashJTI A (cl_jti cl')" "\<not> rt_revoked rt" by blast
  have "cl' = cl" by (rule Parse_same [OF J cl c(1)])
  with c dead show False by (auto simp: dead_def)
qed

section \<open>Rotation, replay and logout\<close>

text \<open>
  C21. A refresh token is single use: once \<open>Refresh\<close> has accepted it, no sequence of
  registrations, logins, refreshes, logouts, resets and TTL sweeps makes \<open>Refresh\<close> accept
  it again, as long as nobody draws a JTI with the same hash.
\<close>

theorem refresh_single_use:
  assumes "lawful_user D" and "lawful_jwt (au_jwt A)" and "tok_inv (db_tokens s)"
    and "jwtx_Parse (au_jwt A) now (au_refresh_secret A) tok TypeRefresh = Some cl"
    and "authService_Refresh A D now jti tid tok s = (Inr res, s1)"
    and "hashJTI A jti \<noteq> hashJTI A (cl_jti cl)" and "\<forall>op \<in> set ops. hashJTI A (cl_jti cl) \<notin> fresh_hash A op"
  shows "\<exists>e. fst (authService_Refresh A D now' jti' tid' tok (auth_run A D ops s1)) = Inl e"
proof -
  from Refresh_cases(3) [OF assms(1,5) refl] obtain cl' rt u s0 where c:
    "jwtx_Parse (au_jwt A) now (au_refresh_secret A) tok TypeRefresh = Some cl'"
    "authService_Refresh_rotate A D now jti tid (rt, u) s0 = (Inr res, s1)"
    "rt \<in> set (docs (db_tokens s))" "rt_jti_hash rt = hashJTI A (cl_jti cl')" "docs (db_tokens s0) = docs (db_tokens s)" by blast
  have h: "rt_jti_hash rt = hashJTI A (cl_jti cl)" using c(1,4) assms(4) by simp
  have "dead (hashJTI A (cl_jti cl)) (db_tokens s1)"
    using Refresh_rotate_cases(3) [OF assms(1) c(2) refl] assms(3,6) c(3,5) h by (simp add: tok_inv_def)
  then have d: "dead (hashJTI A (cl_jti cl)) (db_tokens (auth_run A D ops s1))"
    by (rule auth_run_dead [OF assms(1,7)])
  obtain r t where r: "authService_Refresh A D now' jti' tid' tok (auth_run A D ops s1) = (r, t)"
    by (cases "authService_Refresh A D now' jti' tid' tok (auth_run A D ops s1)")
  show ?thesis using dead_never_refreshes [OF assms(1,2,4) d r] r by (cases r) auto
qed

text \<open>
  A token that was logged out is refused by \<open>Refresh\<close> ever after, under the same
  conditions.
\<close>

theorem logout_kills:
  assumes "lawful_user D" and "lawful_jwt (au_jwt A)" and "tok_inv (db_tokens s)"
    and "jwtx_Parse (au_jwt A) now (au_refresh_secret A) tok TypeRefresh = Some cl"
    and "authService_Logout A D now tok s = (Inr (), s1)"
    and "\<forall>op \<in> set ops. hashJTI A (cl_jti cl) \<notin> fresh_hash A op"
  shows "\<exists>e. fst (authService_Refresh A D now' jti' tid' tok (auth_run A D ops s1)) = Inl e"
proof -
  have d: "dead (hashJTI A (cl_jti cl)) (db_tokens (auth_run A D ops s1))"
    by (rule auth_run_dead [OF assms(1,6) Logout_cases(3) [OF assms(1,5,4) refl assms(3)]])
  obtain r t where r: "authService_Refresh A D now' jti' tid' tok (auth_run A D ops s1) = (r, t)"
    by (cases "authService_Refresh A D now' jti' tid' tok (auth_run A D ops s1)")
  show ?thesis using dead_never_refreshes [OF assms(1,2,4) d r] r by (cases r) auto
qed

text \<open>
  C22. Replay containment: presenting a token that is already revoked answers
  \<open>ErrInvalidToken\<close> after every token of that user has been revoked and no other
  user's token touched; the only other outcome is a database error.
\<close>

theorem refresh_replay_contained:
  assumes "lawful_user D" and "tok_inv (db_tokens s)"
    and "jwtx_Parse (au_jwt A) now (au_refresh_secret A) tok TypeRefresh = Some cl"
    and "rt \<in> set (docs (db_tokens s))" and "rt_jti_hash rt = hashJTI A (cl_jti cl)" and "rt_revoked rt"
    and "authService_Refresh A D now jti tid tok s = (r, s')"
  shows "(\<exists>m. r = Inl (ErrOther m)) \<or>
    (r = Inl ErrInvalidToken \<and> (\<forall>d \<in> set (docs (db_tokens s')). rt_user d = rt_user rt \<longrightarrow> rt_revoked d) \<and>
     filter (\<lambda>d. rt_user d \<noteq> rt_user rt) (docs (db_tokens s')) = filter (\<lambda>d. rt_user d \<noteq> rt_user rt) (docs (db_tokens s)))"
proof -
  obtain q s1 where q: "authService_Refresh_check A D now tok s = (q, s1)" by (cases "authService_Refresh_check A D now tok s")
  have uniq: "x = rt" if "x \<in> set (docs (db_tokens s))" "rt_jti_hash x = hashJTI A (cl_jti cl)" for x
    using that assms(2,4,5) by (auto simp: tok_inv_def distinct_map inj_on_def)
  have out: "r = Inl e \<and> s' = s1" if "q = Inl e" for e
    using assms(7) q that by (simp add: authService_Refresh_def)
  from assms(1) q show ?thesis
  proof (cases rule: Refresh_check_cases)
    case (replay cl' rt')
    then have "rt' = rt" using uniq assms(3) by simp
    moreover have "filter (\<lambda>d. rt_user d \<noteq> k) (map (\<lambda>d. if rt_user d = k \<and> rt_revoked d = False then set_revoked d else d) ds) =
        filter (\<lambda>d. rt_user d \<noteq> k) ds" for k ds
      by (induction ds) auto
    ultimately show ?thesis using out [OF replay(2)] replay(6) by auto
  next
    case (ok cl' rt' u)
    then show ?thesis using uniq assms(3,6) by simp
  next
    case (unknown cl')
    have "cl' = cl" using unknown(1) assms(3) by simp
    with unknown(6) have False using uniq assms(4,5,6) by blast
    then show ?thesis ..
  qed (use out assms(3) in simp_all)
qed

section \<open>Credentials\<close>

text \<open>What bcrypt documents: a hash it made accepts the password it was made from.\<close>

definition lawful_bcrypt :: "auth \<Rightarrow> bool" where
  "lawful_bcrypt A \<longleftrightarrow> (\<forall>salt pw h. au_bcrypt A salt pw = Some h \<longrightarrow> au_check A h pw)"

definition users_inv :: "'e user_coll \<Rightarrow> bool" where
  "users_inv c \<longleftrightarrow> distinct (map us_id (docs c)) \<and> distinct (map us_email (docs c))"

lemma Login_cases:
  assumes D: "lawful_user D" and log: "authService_Login A D now jti tid email pw s = (r, s')"
  obtains (no_user) "r = Inl ErrInvalidCredentials" "\<forall>u \<in> set (docs (db_users s)). us_email u \<noteq> normalizeEmail A email"
      "docs (db_tokens s') = docs (db_tokens s)" "docs (db_users s') = docs (db_users s)"
  | (wrong) u where "r = Inl ErrInvalidCredentials" "u \<in> set (docs (db_users s))" "us_email u = normalizeEmail A email"
      "\<not> au_check A (us_hash u) pw" "docs (db_tokens s') = docs (db_tokens s)" "docs (db_users s') = docs (db_users s)"
  | (fault) m where "r = Inl (ErrOther m)" "docs (db_users s') = docs (db_users s)"
  | (ok) u res where "r = Inr res" "u \<in> set (docs (db_users s))" "us_email u = normalizeEmail A email" "au_check A (us_hash u) pw"
      "lr_user res = u" "docs (db_users s') = docs (db_users s)"
      "GenerateRefreshToken (au_jwt A) now (au_refresh_secret A) (us_id u) jti (au_refresh_ttl A) = Some (lr_refresh res)"
      "GenerateAccessToken (au_jwt A) now (au_access_secret A) (us_id u) (us_email u) (au_access_ttl A) = Some (lr_access res)"
      "docs (db_tokens s') = docs (db_tokens s) @ [token_ms \<lparr>rt_id = tid, rt_user = us_id u, rt_jti_hash = hashJTI A jti,
         rt_expires = time_add (utc now) (au_refresh_ttl A), rt_revoked = False, rt_created = utc now\<rparr>]"
proof -
  obtain q c where q: "userRepository_FindByEmail (m_users D) (normalizeEmail A email) (db_users s) = (q, c)"
    by (cases "userRepository_FindByEmail (m_users D) (normalizeEmail A email) (db_users s)")
  note f = user_by_email [OF lawful_userD(1) [OF D] q]
  show ?thesis
  proof (cases q)
    case (Inl e)
    then have r: "r = Inl (if e = ErrNotFound then ErrInvalidCredentials else e)" "s' = s\<lparr>db_users := c\<rparr>"
      using log q by (simp_all add: authService_Login_def on_users_def)
    from f(4) [OF Inl] show ?thesis
    proof
      assume "e = ErrNotFound"
      with r no_user f(1,3) Inl show ?thesis by simp
    next
      assume "\<exists>m. e = ErrOther m"
      with r fault f(1) show ?thesis by auto
    qed
  next
    case (Inr u)
    have u: "u \<in> set (docs (db_users s))" "us_email u = normalizeEmail A email" using f(2) Inr by simp_all
    show ?thesis
    proof (cases "au_check A (us_hash u) pw")
      case False
      then have "r = Inl ErrInvalidCredentials" "s' = s\<lparr>db_users := c\<rparr>"
        using log q Inr by (simp_all add: authService_Login_def on_users_def)
      with wrong u False f(1) show ?thesis by simp
    next
      case True
      then have iss: "authService_issueTokenPair A D now jti tid u (s\<lparr>db_users := c\<rparr>) = (r, s')"
        using log q Inr by (simp add: authService_Login_def on_users_def)
      note ic = issue_cases [OF D iss]
      have us: "docs (db_users s') = docs (db_users s)" using ic(2) f(1) by simp
      show ?thesis
      proof (cases r)
        case (Inl e)
        then show ?thesis using ic(4) fault us by blast
      next
        case (Inr res)
        from ic(5) [OF this] show ?thesis using ok [OF Inr u True _ us] by simp
      qed
    qed
  qed
qed

text \<open>
  C23. \<open>Login\<close> gives a session exactly for a stored user whose password hash accepts the
  password, and the pair it returns names that user: the access token parses as an
  access token with the user's id and email, and never as a refresh token. An unknown
  email and a wrong password are one and the same error and leave the tokens alone.
\<close>

theorem login_correct:
  assumes "lawful_user D" and "lawful_jwt (au_jwt A)" and "users_inv (db_users s)"
    and "authService_Login A D now jti tid email pw s = (r, s')"
  shows "(\<exists>m. r = Inl (ErrOther m)) \<or>
    (r = Inl ErrInvalidCredentials \<and> docs (db_tokens s') = docs (db_tokens s) \<and>
     (\<forall>u \<in> set (docs (db_users s)). us_email u = normalizeEmail A email \<longrightarrow> \<not> au_check A (us_hash u) pw)) \<or>
    (\<exists>u res. r = Inr res \<and> lr_user res = u \<and> u \<in> set (docs (db_users s)) \<and> us_email u = normalizeEmail A email \<and>
     au_check A (us_hash u) pw \<and>
     (\<forall>now'. t_sec now' < t_sec (time_add now (au_access_ttl A)) \<longrightarrow>
        jwtx_Parse (au_jwt A) now' (au_access_secret A) (lr_access res) TypeAccess =
          Some \<lparr>cl_user = us_id u, cl_email = us_email u, cl_type = TypeAccess, cl_jti = ''''\<rparr> \<and>
        jwtx_Parse (au_jwt A) now' (au_access_secret A) (lr_access res) TypeRefresh = None))"
  using assms(1,4)
proof (cases rule: Login_cases)
  case (wrong u)
  have "x = u" if "x \<in> set (docs (db_users s))" "us_email x = us_email u" for x
    using that wrong(2) assms(3) by (auto simp: users_inv_def distinct_map inj_on_def)
  then have "\<forall>x \<in> set (docs (db_users s)). us_email x = normalizeEmail A email \<longrightarrow> \<not> au_check A (us_hash x) pw"
    using wrong(3,4) by metis
  then show ?thesis by (intro disjI2 disjI1 conjI wrong(1,5))
next
  case (ok u res)
  have parse: "\<forall>now'. t_sec now' < t_sec (time_add now (au_access_ttl A)) \<longrightarrow>
        jwtx_Parse (au_jwt A) now' (au_access_secret A) (lr_access res) TypeAccess =
          Some \<lparr>cl_user = us_id u, cl_email = us_email u, cl_type = TypeAccess, cl_jti = ''''\<rparr> \<and>
        jwtx_Parse (au_jwt A) now' (au_access_secret A) (lr_access res) TypeRefresh = None"
    using Parse_signed [OF assms(2) ok(8) [unfolded GenerateAccessToken_def]] by (simp add: TypeAccess_def TypeRefresh_def)
  show ?thesis by (intro disjI2 exI [of _ u] exI [of _ res] conjI ok(1-5) parse)
qed auto

text \<open>
  C24. A registered user can log in: after \<open>Register\<close>, \<open>Login\<close> with an email of the same
  normal form and the same password returns the registered user, unless the database
  or the signing fails.
\<close>

theorem register_then_login:
  assumes "lawful_user D" and "lawful_bcrypt A"
    and "authService_Register A D now salt uid inp s = (Inr u, s1)"
    and "normalizeEmail A email = normalizeEmail A (ri_email inp)"
    and "authService_Login A D now' jti tid email (ri_password inp) s1 = (r, s2)"
  shows "(\<exists>m. r = Inl (ErrOther m)) \<or> (\<exists>res. r = Inr res \<and> lr_user res = user_ms u)"
proof -
  note reg = Register_cases(3) [OF assms(1,3) refl]
  have only: "x = user_ms u" if "x \<in> set (docs (db_users s1))" "us_email x = normalizeEmail A email" for x
    using that reg assms(4) by auto
  have mem: "user_ms u \<in> set (docs (db_users s1))" "us_email (user_ms u) = normalizeEmail A email" "us_hash (user_ms u) = us_hash u"
    using reg assms(4) by (simp_all add: user_ms_def)
  have chk: "au_check A (us_hash (user_ms u)) (ri_password inp)"
    using reg assms(2) mem(3) unfolding lawful_bcrypt_def by fastforce
  from assms(1,5) show ?thesis
  proof (cases rule: Login_cases)
    case (wrong x)
    then show ?thesis using only chk by auto
  next
    case (ok x res)
    then show ?thesis using only by auto
  qed (use mem in auto)
qed

lemma one_updated_keeps: "one_updated P f xs ys \<Longrightarrow> x \<in> set xs \<Longrightarrow> \<not> P x \<Longrightarrow> x \<in> set ys"
  by (auto simp: one_updated_def)

text \<open>What the rotation stores and returns.\<close>

lemma Refresh_rotate_result:
  assumes D: "lawful_user D" and rot: "authService_Refresh_rotate A D now jti tid (rt, u) s = (r, s')"
  shows "r = Inl e \<Longrightarrow> \<exists>d \<in> set (docs (db_tokens s)). rt_id d = rt_id rt \<Longrightarrow> \<exists>m. e = ErrOther m"
    and "r = Inr res \<Longrightarrow> lr_user res = u \<and> (\<exists>c. one_updated (\<lambda>d. rt_id d = rt_id rt) set_revoked (docs (db_tokens s)) c \<and>
      docs (db_tokens s') = c @ [token_ms \<lparr>rt_id = tid, rt_user = us_id u, rt_jti_hash = hashJTI A jti,
         rt_expires = time_add (utc now) (au_refresh_ttl A), rt_revoked = False, rt_created = utc now\<rparr>])"
proof -
  obtain q c where q: "refreshTokenRepository_Revoke (m_tokens D) (rt_id rt) (db_tokens s) = (q, c)"
    by (cases "refreshTokenRepository_Revoke (m_tokens D) (rt_id rt) (db_tokens s)")
  note rv = token_Revoke_cases [OF lawful_userD(3) [OF D] q]
  have iss: "authService_issueTokenPair A D now jti tid u (s\<lparr>db_tokens := c\<rparr>) = (r, s')" if "q = Inr w" for w
    using rot q that by (simp add: authService_Refresh_rotate_def on_tokens_def)
  have bad: "r = Inl e'" if "q = Inl e'" for e'
    using rot q that by (simp add: authService_Refresh_rotate_def on_tokens_def)
  show "\<exists>m. e = ErrOther m" if "r = Inl e" "\<exists>d \<in> set (docs (db_tokens s)). rt_id d = rt_id rt"
  proof (cases q)
    case (Inl e')
    then show ?thesis using rv(3) [OF Inl] bad that by auto
  next
    case (Inr w)
    show ?thesis by (rule issue_cases(4) [OF D iss [OF Inr] that(1)])
  qed
  show "lr_user res = u \<and> (\<exists>c. one_updated (\<lambda>d. rt_id d = rt_id rt) set_revoked (docs (db_tokens s)) c \<and>
      docs (db_tokens s') = c @ [token_ms \<lparr>rt_id = tid, rt_user = us_id u, rt_jti_hash = hashJTI A jti,
         rt_expires = time_add (utc now) (au_refresh_ttl A), rt_revoked = False, rt_created = utc now\<rparr>])" if "r = Inr res"
  proof (cases q)
    case (Inl e')
    then show ?thesis using bad that by simp
  next
    case (Inr w)
    from issue_cases(5) [OF D iss [OF Inr] that] rv(2) [OF Inr] show ?thesis by auto
  qed
qed

text \<open>
  C25. The refresh token of a login is accepted by \<open>Refresh\<close> until it expires, and the
  new session is the same user's.
\<close>

theorem login_then_refresh:
  assumes "lawful_user D" and "lawful_jwt (au_jwt A)" and "tok_inv (db_tokens s)" and "users_inv (db_users s)"
    and "authService_Login A D now jti tid email pw s = (Inr res, s1)"
    and "t_sec now' < t_sec (time_add now (au_refresh_ttl A))"
    and "\<not> time_after now' (ms_time (time_add (utc now) (au_refresh_ttl A)))"
    and "authService_Refresh A D now' jti' tid' (lr_refresh res) s1 = (r, s2)"
  shows "(\<exists>m. r = Inl (ErrOther m)) \<or> (\<exists>res'. r = Inr res' \<and> lr_user res' = lr_user res)"
  using assms(1,5)
proof (cases rule: Login_cases)
  case (ok u res0)
  let ?t = "token_ms \<lparr>rt_id = tid, rt_user = us_id u, rt_jti_hash = hashJTI A jti,
         rt_expires = time_add (utc now) (au_refresh_ttl A), rt_revoked = False, rt_created = utc now\<rparr>"
  have inv: "tok_inv (db_tokens s1)"
    using Login_tokens [OF assms(1,5)] assms(3) by (simp add: tokens_from_def)
  have t: "?t \<in> set (docs (db_tokens s1))" "rt_jti_hash ?t = hashJTI A jti" "\<not> rt_revoked ?t"
    "rt_expires ?t = ms_time (time_add (utc now) (au_refresh_ttl A))"
    using ok(9) by (simp_all add: token_ms_def)
  have only: "d = ?t" if "d \<in> set (docs (db_tokens s1))" "rt_jti_hash d = hashJTI A jti" for d
    using inj_onD [of rt_jti_hash "set (docs (db_tokens s1))" d ?t] that t(1,2) inv by (simp add: tok_inv_def distinct_map)
  have parse: "jwtx_Parse (au_jwt A) now' (au_refresh_secret A) (lr_refresh res) TypeRefresh =
      Some \<lparr>cl_user = us_id u, cl_email = '''', cl_type = TypeRefresh, cl_jti = jti\<rparr>"
    using Parse_signed [OF assms(2) _ assms(6)] ok(1,7) by (simp add: GenerateRefreshToken_def)
  then have claims: "cl_jti cl = jti \<and> cl_user cl = us_id u"
    if "jwtx_Parse (au_jwt A) now' (au_refresh_secret A) (lr_refresh res) TypeRefresh = Some cl" for cl
    using that by auto
  have u1: "u \<in> set (docs (db_users s1))" "lr_user res = u" using ok(1,2,5,6) by simp_all
  have uid: "x = u" if "x \<in> set (docs (db_users s1))" "us_id x = us_id u" for x
    using inj_onD [of us_id "set (docs (db_users s))" x u] that ok(2,6) assms(4) by (simp add: users_inv_def distinct_map)
  obtain q s0 where q: "authService_Refresh_check A D now' (lr_refresh res) s1 = (q, s0)"
    by (cases "authService_Refresh_check A D now' (lr_refresh res) s1")
  have out: "r = Inl e" if "q = Inl e" for e
    using assms(8) q that by (simp add: authService_Refresh_def)
  from assms(1) q show ?thesis
  proof (cases rule: Refresh_check_cases)
    case (unknown cl)
    from claims [OF unknown(1)] unknown(6) only t u1(1) assms(7) have False by metis
    then show ?thesis ..
  next
    case (replay cl rt)
    from claims [OF replay(1)] replay(3-5) only t(3) have False by metis
    then show ?thesis ..
  next
    case fine: (ok cl rt x)
    then have x: "x = u" using claims [OF fine(1)] uid by simp
    have rot: "authService_Refresh_rotate A D now' jti' tid' (rt, x) s0 = (r, s2)"
      using assms(8) q fine(2) by (simp add: authService_Refresh_def)
    show ?thesis
    proof (cases r)
      case (Inl e)
      then show ?thesis using Refresh_rotate_result(1) [OF assms(1) rot Inl] fine(3,9) by auto
    next
      case (Inr res')
      then show ?thesis using Refresh_rotate_result(2) [OF assms(1) rot Inr] x u1(2) by simp
    qed
  qed (use out parse in auto)
qed simp_all

text \<open>
  C26. Two concurrent \<open>Refresh\<close> calls that both read before either writes are both served:
  after check, check, rotate the second rotation still succeeds (or meets a database
  error), so one refresh token yields two live sessions of the same user. Single use
  holds for calls one after the other, not for overlapping ones.
\<close>

theorem refresh_race:
  assumes "lawful_user D" and "tok_inv (db_tokens s)"
    and "authService_Refresh_check A D now tok s = (Inr ru, s1)"
    and "authService_Refresh_check A D now tok s1 = (Inr ru', s2)"
    and "authService_Refresh_rotate A D now jti tid ru s2 = (Inr res, s3)"
    and "authService_Refresh_rotate A D now jti' tid' ru' s3 = (r, s4)"
  shows "(\<exists>m. r = Inl (ErrOther m)) \<or> (\<exists>res'. r = Inr res' \<and> us_id (lr_user res') = us_id (lr_user res) \<and>
    (\<exists>a b. a \<in> set (docs (db_tokens s4)) \<and> b \<in> set (docs (db_tokens s4)) \<and> a \<noteq> b \<and> \<not> rt_revoked a \<and> \<not> rt_revoked b \<and>
      rt_user a = us_id (lr_user res) \<and> rt_user b = us_id (lr_user res) \<and>
      rt_jti_hash a = hashJTI A jti \<and> rt_jti_hash b = hashJTI A jti'))"
proof -
  obtain rt u where ru: "ru = (rt, u)" by (cases ru)
  obtain rt' u' where ru': "ru' = (rt', u')" by (cases ru')
  from assms(1,3) [unfolded ru] obtain cl where c1: "rt \<in> set (docs (db_tokens s))" "rt_jti_hash rt = hashJTI A (cl_jti cl)"
    "us_id u = cl_user cl" "docs (db_tokens s1) = docs (db_tokens s)"
    "jwtx_Parse (au_jwt A) now (au_refresh_secret A) tok TypeRefresh = Some cl"
    by (cases rule: Refresh_check_cases) auto
  from assms(1,4) [unfolded ru'] obtain cl' where c2: "rt' \<in> set (docs (db_tokens s1))" "rt_jti_hash rt' = hashJTI A (cl_jti cl')"
    "us_id u' = cl_user cl'" "docs (db_tokens s2) = docs (db_tokens s1)"
    "jwtx_Parse (au_jwt A) now (au_refresh_secret A) tok TypeRefresh = Some cl'"
    by (cases rule: Refresh_check_cases) auto
  have same: "cl' = cl" using c1(5) c2(5) by simp
  then have rts: "rt' = rt" using c1(1,2,4) c2(1,2) assms(2) by (auto simp: tok_inv_def distinct_map inj_on_def)
  let ?n = "\<lambda>t j v. token_ms \<lparr>rt_id = t, rt_user = us_id v, rt_jti_hash = hashJTI A j,
         rt_expires = time_add (utc now) (au_refresh_ttl A), rt_revoked = False, rt_created = utc now\<rparr>"
  from Refresh_rotate_result(2) [OF assms(1,5) [unfolded ru] refl] obtain c where
    r1: "lr_user res = u" "one_updated (\<lambda>d. rt_id d = rt_id rt) set_revoked (docs (db_tokens s2)) c"
      "docs (db_tokens s3) = c @ [?n tid jti u]" by blast
  obtain xs d ys where d: "docs (db_tokens s2) = xs @ d # ys" "rt_id d = rt_id rt" "c = xs @ set_revoked d # ys"
    using r1(2) by (auto simp: one_updated_def)
  have inv3: "tok_inv (db_tokens s3)"
    using Refresh_rotate_cases(1) [OF assms(1,5) [unfolded ru]] assms(2) c1(4) c2(4) by (simp add: tokens_from_def tok_inv_def)
  show ?thesis
  proof (cases r)
    case (Inl e)
    have "\<exists>x \<in> set (docs (db_tokens s3)). rt_id x = rt_id rt'" using r1(3) d rts by auto
    from Refresh_rotate_result(1) [OF assms(1,6) [unfolded ru'] Inl this] Inl show ?thesis by auto
  next
    case (Inr res')
    from Refresh_rotate_result(2) [OF assms(1,6) [unfolded ru'] Inr] obtain c' where
      r2: "lr_user res' = u'" "one_updated (\<lambda>d. rt_id d = rt_id rt') set_revoked (docs (db_tokens s3)) c'"
        "docs (db_tokens s4) = c' @ [?n tid' jti' u']" by blast
    have "rt_id (?n tid jti u) \<noteq> rt_id rt" using inv3 r1(3) d by (auto simp: tok_inv_def)
    then have a: "?n tid jti u \<in> set c'" using one_updated_keeps [OF r2(2), of "?n tid jti u"] r1(3) rts by simp
    have inv4: "tok_inv (db_tokens s4)"
      using Refresh_rotate_cases(1) [OF assms(1,6) [unfolded ru']] inv3 by (simp add: tokens_from_def)
    have ne: "?n tid jti u \<noteq> ?n tid' jti' u'" using inv4 a unfolding r2(3) tok_inv_def by auto
    have us: "us_id u' = us_id u" using c1(3) c2(3) same by simp
    have "?n tid jti u \<in> set (docs (db_tokens s4))" "?n tid' jti' u' \<in> set (docs (db_tokens s4))" using a r2(3) by simp_all
    with Inr r1(1) r2(1) us ne show ?thesis
      by (intro disjI2 exI [of _ res'] conjI exI [of _ "?n tid jti u"] exI [of _ "?n tid' jti' u'"]) (simp_all add: token_ms_def)
  qed
qed

section \<open>Concrete instances\<close>

definition demo_auth :: auth where
  "demo_auth = \<lparr>au_unicode = \<lparr>u_lower = (\<lambda>s. s), u_fold = (=), u_quote = (\<lambda>s. s)\<rparr>, au_jwt = demo_jwt, au_sha256 = (\<lambda>s. s),
     au_bcrypt = (\<lambda>salt pw. if length pw > 72 then None else Some pw), au_check = (=),
     au_access_secret = ''access'', au_refresh_secret = ''refresh'', au_access_ttl = 60000000000, au_refresh_ttl = 600000000000\<rparr>"

definition demo_udrivers :: "bool list user_drivers" where
  "demo_udrivers = \<lparr>m_users = mem_driver user_conflict, m_settings = mem_driver settings_conflict,
     m_tokens = mem_driver token_conflict\<rparr>"

definition demo_now :: gotime where
  "demo_now = \<lparr>t_sec = 0, t_nsec = 0, t_off = 0\<rparr>"

definition demo_user :: user where
  "demo_user = \<lparr>us_id = ''u1'', us_email = ''a@x.io'', us_hash = ''secret-pw'', us_name = ''Ann'', us_created = demo_now, us_updated = demo_now\<rparr>"

definition demo_rt :: "bool \<Rightarrow> refresh_token" where
  "demo_rt revoked = \<lparr>rt_id = ''t1'', rt_user = ''u1'', rt_jti_hash = ''j1'', rt_expires = demo_now\<lparr>t_sec := 600\<rparr>,
     rt_revoked = revoked, rt_created = demo_now\<rparr>"

definition demo_udb :: "bool \<Rightarrow> bool list user_db" where
  "demo_udb revoked = \<lparr>db_users = mem_coll [demo_user], db_settings = mem_coll [], db_tokens = mem_coll [demo_rt revoked]\<rparr>"

definition demo_claims :: claims where
  "demo_claims = \<lparr>cl_user = ''u1'', cl_email = '''', cl_type = TypeRefresh, cl_jti = ''j1''\<rparr>"

definition demo_tok :: string where
  "demo_tok = the (jwt_sign demo_jwt ''refresh'' demo_claims demo_now (demo_now\<lparr>t_sec := 600\<rparr>))"

lemma lawful_demo_user [simp]: "lawful_user demo_udrivers" "lawful_jwt (au_jwt demo_auth)" "lawful_bcrypt demo_auth"
  by (auto simp: lawful_user_def demo_udrivers_def demo_auth_def lawful_bcrypt_def split: if_splits)

lemma demo_udb_inv [simp]: "tok_inv (db_tokens (demo_udb b))" "users_inv (db_users (demo_udb b))"
  by (simp_all add: tok_inv_def users_inv_def demo_udb_def mem_coll_def)

lemma demo_parse [simp]:
  "jwtx_Parse (au_jwt demo_auth) demo_now (au_refresh_secret demo_auth) demo_tok TypeRefresh = Some demo_claims"
proof -
  have "jwt_sign demo_jwt ''refresh'' demo_claims demo_now (demo_now\<lparr>t_sec := 600\<rparr>) = Some demo_tok"
    by (simp add: demo_tok_def demo_jwt_def demo_now_def)
  from Parse_signed [OF lawful_demo_jwt this, of demo_now TypeRefresh] show ?thesis
    by (simp add: demo_auth_def demo_claims_def demo_now_def)
qed

lemmas demo_user_eval = demo_auth_def demo_udrivers_def demo_udb_def mem_coll_def mem_driver_def mem_call_def on_users_def
  on_settings_def on_tokens_def hashJTI_def demo_claims_def demo_rt_def demo_user_def demo_now_def time_after_def time_before_def
  time_add_def utc_def demo_jwt_def GenerateAccessToken_def GenerateRefreshToken_def token_conflict_def user_conflict_def token_ms_def

lemma demo_check: "authService_Refresh_check demo_auth demo_udrivers demo_now demo_tok (demo_udb False) =
    (Inr (demo_rt False, demo_user), demo_udb False)"
  unfolding authService_Refresh_check_def demo_parse
  by (simp add: refreshTokenRepository_FindByJTIHash_def userRepository_FindByID_def demo_user_eval)

lemma demo_rotate: "\<exists>res. authService_Refresh_rotate demo_auth demo_udrivers demo_now ''j2'' ''t2'' (demo_rt False, demo_user) (demo_udb False) =
    (Inr res, (demo_udb True)\<lparr>db_tokens := mem_coll [demo_rt True, token_ms ((demo_rt False)\<lparr>rt_id := ''t2'', rt_jti_hash := ''j2''\<rparr>)]\<rparr>)"
  by (simp add: authService_Refresh_rotate_def authService_issueTokenPair_def refreshTokenRepository_Revoke_def
      refreshTokenRepository_Create_def set_revoked_def demo_user_eval)

lemma demo_refresh: "\<exists>res s1. authService_Refresh demo_auth demo_udrivers demo_now ''j2'' ''t2'' demo_tok (demo_udb False) = (Inr res, s1)"
  using demo_rotate by (auto simp: authService_Refresh_def demo_check)

theorem refresh_single_use_witness:
  "\<exists>e. fst (authService_Refresh demo_auth demo_udrivers demo_now ''j4'' ''t4'' demo_tok
    (auth_run demo_auth demo_udrivers [OpLogin demo_now ''j3'' ''t3'' ''a@x.io'' ''secret-pw'', OpSweep demo_now]
      (snd (authService_Refresh demo_auth demo_udrivers demo_now ''j2'' ''t2'' demo_tok (demo_udb False))))) = Inl e"
proof -
  obtain res s1 where r: "authService_Refresh demo_auth demo_udrivers demo_now ''j2'' ''t2'' demo_tok (demo_udb False) = (Inr res, s1)"
    using demo_refresh by blast
  show ?thesis unfolding r snd_conv
    by (rule refresh_single_use [OF lawful_demo_user(1,2) demo_udb_inv(1) demo_parse r])
      (simp_all add: hashJTI_def demo_auth_def demo_claims_def)
qed

theorem logout_kills_witness:
  "\<exists>e. fst (authService_Refresh demo_auth demo_udrivers demo_now ''j4'' ''t4'' demo_tok
    (auth_run demo_auth demo_udrivers [OpReset ''a@x.io'']
      (snd (authService_Logout demo_auth demo_udrivers demo_now demo_tok (demo_udb False))))) = Inl e"
proof -
  have r: "authService_Logout demo_auth demo_udrivers demo_now demo_tok (demo_udb False) = (Inr (), demo_udb True)"
    unfolding authService_Logout_def demo_parse
    by (simp add: refreshTokenRepository_FindByJTIHash_def refreshTokenRepository_Revoke_def set_revoked_def demo_user_eval)
  show ?thesis unfolding r snd_conv
    by (rule logout_kills [OF lawful_demo_user(1,2) demo_udb_inv(1) demo_parse r]) simp
qed

theorem refresh_replay_contained_witness:
  "fst (authService_Refresh demo_auth demo_udrivers demo_now ''j2'' ''t2'' demo_tok (demo_udb True)) = Inl ErrInvalidToken"
proof -
  have "authService_Refresh_check demo_auth demo_udrivers demo_now demo_tok (demo_udb True) = (Inl ErrInvalidToken, demo_udb True)"
    unfolding authService_Refresh_check_def demo_parse
    by (simp add: refreshTokenRepository_FindByJTIHash_def refreshTokenRepository_RevokeAllForUser_def set_revoked_def demo_user_eval)
  then have r: "authService_Refresh demo_auth demo_udrivers demo_now ''j2'' ''t2'' demo_tok (demo_udb True) = (Inl ErrInvalidToken, demo_udb True)"
    by (simp add: authService_Refresh_def)
  have "demo_rt True \<in> set (docs (db_tokens (demo_udb True)))" "rt_jti_hash (demo_rt True) = hashJTI demo_auth (cl_jti demo_claims)"
    "rt_revoked (demo_rt True)" by (simp_all add: demo_user_eval)
  from refresh_replay_contained [OF lawful_demo_user(1) demo_udb_inv(1) demo_parse this r] r show ?thesis by simp
qed

lemma demo_login: "\<exists>res s1. authService_Login demo_auth demo_udrivers demo_now ''j2'' ''t2'' '' a@x.io '' ''secret-pw'' (demo_udb False) = (Inr res, s1) \<and>
    lr_user res = demo_user"
proof -
  have "normalizeEmail demo_auth '' a@x.io '' = ''a@x.io''" by code_simp
  then show ?thesis
    by (simp add: authService_Login_def authService_issueTokenPair_def userRepository_FindByEmail_def refreshTokenRepository_Create_def
        demo_user_eval)
qed

theorem login_correct_witness:
  "\<exists>res s1. authService_Login demo_auth demo_udrivers demo_now ''j2'' ''t2'' '' a@x.io '' ''secret-pw'' (demo_udb False) = (Inr res, s1) \<and>
    lr_user res \<in> set (docs (db_users (demo_udb False))) \<and>
    jwtx_Parse (au_jwt demo_auth) demo_now (au_access_secret demo_auth) (lr_access res) TypeRefresh = None"
proof -
  obtain res s1 where r: "authService_Login demo_auth demo_udrivers demo_now ''j2'' ''t2'' '' a@x.io '' ''secret-pw'' (demo_udb False) = (Inr res, s1)"
    using demo_login by blast
  have "t_sec demo_now < t_sec (time_add demo_now (au_access_ttl demo_auth))" by (simp add: demo_now_def time_add_def demo_auth_def)
  with login_correct [OF lawful_demo_user(1,2) demo_udb_inv(2) r] r show ?thesis by auto
qed

definition demo_input :: register_input where
  "demo_input = \<lparr>ri_email = ''b@x.io'', ri_password = ''other-pw'', ri_name = ''Bob''\<rparr>"

theorem register_then_login_witness:
  "\<exists>u s1 r s2. authService_Register demo_auth demo_udrivers demo_now ''salt'' ''u2'' demo_input (demo_udb False) = (Inr u, s1) \<and>
     authService_Login demo_auth demo_udrivers demo_now ''j2'' ''t2'' ''b@x.io '' ''other-pw'' s1 = (r, s2) \<and>
     ((\<exists>m. r = Inl (ErrOther m)) \<or> (\<exists>res. r = Inr res \<and> lr_user res = user_ms u))"
proof -
  have n: "normalizeEmail demo_auth ''b@x.io'' = ''b@x.io''" "normalizeEmail demo_auth ''b@x.io '' = ''b@x.io''" by code_simp+
  then obtain u s1 where u: "authService_Register demo_auth demo_udrivers demo_now ''salt'' ''u2'' demo_input (demo_udb False) = (Inr u, s1)"
    by (simp add: authService_Register_def userRepository_FindByEmail_def userRepository_Create_def settingsRepository_Upsert_def
        Let_def demo_input_def user_ms_def demo_user_eval)
  obtain r s2 where r: "authService_Login demo_auth demo_udrivers demo_now ''j2'' ''t2'' ''b@x.io '' ''other-pw'' s1 = (r, s2)"
    by (cases "authService_Login demo_auth demo_udrivers demo_now ''j2'' ''t2'' ''b@x.io '' ''other-pw'' s1")
  have pw: "''other-pw'' = ri_password demo_input" by (simp add: demo_input_def)
  from register_then_login [OF lawful_demo_user(1,3) u _ r [unfolded pw]] n u r show ?thesis by (auto simp: demo_input_def)
qed

theorem login_then_refresh_witness:
  "\<exists>res s1 r s2. authService_Login demo_auth demo_udrivers demo_now ''j2'' ''t2'' '' a@x.io '' ''secret-pw'' (demo_udb False) = (Inr res, s1) \<and>
     authService_Refresh demo_auth demo_udrivers demo_now ''j3'' ''t3'' (lr_refresh res) s1 = (r, s2) \<and>
     ((\<exists>m. r = Inl (ErrOther m)) \<or> (\<exists>res'. r = Inr res' \<and> lr_user res' = demo_user))"
proof -
  obtain res s1 where l: "authService_Login demo_auth demo_udrivers demo_now ''j2'' ''t2'' '' a@x.io '' ''secret-pw'' (demo_udb False) = (Inr res, s1)"
    and u: "lr_user res = demo_user" using demo_login by blast
  obtain r s2 where r: "authService_Refresh demo_auth demo_udrivers demo_now ''j3'' ''t3'' (lr_refresh res) s1 = (r, s2)"
    by (cases "authService_Refresh demo_auth demo_udrivers demo_now ''j3'' ''t3'' (lr_refresh res) s1")
  have "t_sec demo_now < t_sec (time_add demo_now (au_refresh_ttl demo_auth))"
    "\<not> time_after demo_now (ms_time (time_add (utc demo_now) (au_refresh_ttl demo_auth)))" by code_simp+
  from login_then_refresh [OF lawful_demo_user(1,2) demo_udb_inv l this r] l r u show ?thesis by auto
qed

theorem refresh_race_witness:
  "\<exists>ru res r s3 s4. authService_Refresh_check demo_auth demo_udrivers demo_now demo_tok (demo_udb False) = (Inr ru, demo_udb False) \<and>
     authService_Refresh_rotate demo_auth demo_udrivers demo_now ''j2'' ''t2'' ru (demo_udb False) = (Inr res, s3) \<and>
     authService_Refresh_rotate demo_auth demo_udrivers demo_now ''j3'' ''t3'' ru s3 = (r, s4) \<and> (\<exists>res'. r = Inr res' \<and>
     (\<exists>a b. a \<in> set (docs (db_tokens s4)) \<and> b \<in> set (docs (db_tokens s4)) \<and> a \<noteq> b \<and> \<not> rt_revoked a \<and> \<not> rt_revoked b))"
proof -
  let ?s3 = "(demo_udb True)\<lparr>db_tokens := mem_coll [demo_rt True, token_ms ((demo_rt False)\<lparr>rt_id := ''t2'', rt_jti_hash := ''j2''\<rparr>)]\<rparr>"
  obtain res where a: "authService_Refresh_rotate demo_auth demo_udrivers demo_now ''j2'' ''t2'' (demo_rt False, demo_user) (demo_udb False) =
    (Inr res, ?s3)" using demo_rotate by blast
  obtain res' s4 where b: "authService_Refresh_rotate demo_auth demo_udrivers demo_now ''j3'' ''t3'' (demo_rt False, demo_user) ?s3 = (Inr res', s4)"
    by (simp add: authService_Refresh_rotate_def authService_issueTokenPair_def refreshTokenRepository_Revoke_def
      refreshTokenRepository_Create_def set_revoked_def demo_user_eval)
  from refresh_race [OF lawful_demo_user(1) demo_udb_inv(1) demo_check demo_check a b] demo_check a b show ?thesis by auto
qed

end
