(* ===== verification/User_Profile.thy ===== *)
theory User_Profile imports User_Auth begin

text \<open>
  user-service, profile and settings: \<open>service/user_service.go\<close>. \<open>time.LoadLocation\<close>
  reads the time-zone database of the host, so which names it accepts is the parameter
  \<open>L\<close>. The second half says what every operation of the service may do to the user and
  settings collections.
\<close>

section \<open>Operations\<close>

definition maxNameLength :: nat where "maxNameLength = 100"

text \<open>The regular expression \<open>^[A-Z]{3}$\<close>, on bytes (65 is A, 90 is Z).\<close>

definition currencyPattern :: "string \<Rightarrow> bool" where
  "currencyPattern s \<longleftrightarrow> length s = 3 \<and> list_all (\<lambda>c. 65 \<le> ord c \<and> ord c \<le> 90) s"

record update_settings_input =
  us_currency :: string
  us_timezone :: string

definition userService_GetProfile :: "'e user_drivers \<Rightarrow> string \<Rightarrow> 'e user_db \<Rightarrow> user res \<times> 'e user_db" where
  [svc_defs]: "userService_GetProfile D u s = on_users (userRepository_FindByID (m_users D) u) s"

definition userService_UpdateProfile ::
  "'e user_drivers \<Rightarrow> gotime \<Rightarrow> string \<Rightarrow> string \<Rightarrow> 'e user_db \<Rightarrow> user res \<times> 'e user_db" where
  [svc_defs]: "userService_UpdateProfile D now u in_name s =
    (let name = trim_space in_name in
     if name = '''' then (Inl (ValidationError ''name'' ''name must not be blank''), s)
     else if length name > maxNameLength then
       (Inl (ValidationError ''name'' ''name must be at most 100 characters''), s)
     else on_ok (on_users (userRepository_FindByID (m_users D) u) s) (\<lambda>x s1.
       let x' = x\<lparr>us_name := name, us_updated := utc now\<rparr>
       in on_ok (on_users (userRepository_Update (m_users D) x') s1) (\<lambda>_ s2. (Inr x', s2))))"

definition userService_GetSettings :: "'e user_drivers \<Rightarrow> string \<Rightarrow> 'e user_db \<Rightarrow> settings res \<times> 'e user_db" where
  [svc_defs]: "userService_GetSettings D u s =
    (case on_settings (settingsRepository_FindByUserID (m_settings D) u) s of
       (Inl e, s1) \<Rightarrow> if e = ErrNotFound
          then (Inr \<lparr>se_user = u, se_currency = ''USD'', se_timezone = ''UTC'', se_updated = zero_time\<rparr>, s1)
          else (Inl e, s1)
     | (Inr x, s1) \<Rightarrow> (Inr x, s1))"

definition userService_UpdateSettings ::
  "(string \<Rightarrow> bool) \<Rightarrow> 'e user_drivers \<Rightarrow> gotime \<Rightarrow> string \<Rightarrow> update_settings_input \<Rightarrow> 'e user_db \<Rightarrow> settings res \<times> 'e user_db" where
  [svc_defs]: "userService_UpdateSettings L D now u inp s =
    (let currency = trim_space (us_currency inp); timezone = trim_space (us_timezone inp) in
     if currency \<noteq> '''' \<and> \<not> currencyPattern currency then
       (Inl (ValidationError ''currency'' ''currency must be a 3-letter uppercase code (e.g. USD)''), s)
     else if timezone \<noteq> '''' \<and> \<not> L timezone then
       (Inl (ValidationError ''timezone'' ''timezone must be a valid IANA timezone (e.g. America/New_York)''), s)
     else on_ok (userService_GetSettings D u s) (\<lambda>x s1.
       let x' = \<lparr>se_user = u, se_currency = (if currency \<noteq> '''' then currency else se_currency x),
                 se_timezone = (if timezone \<noteq> '''' then timezone else se_timezone x), se_updated = utc now\<rparr>
       in on_ok (on_settings (settingsRepository_Upsert (m_settings D) x') s1) (\<lambda>_ s2. (Inr x', s2))))"

section \<open>What the operations do to users and settings\<close>

text \<open>
  One step on the two collections on behalf of \<open>k\<close>: nothing, a new user \<open>k\<close>, a new name
  and time for the user \<open>k\<close>, or settings of \<open>k\<close> that satisfy \<open>V\<close>.
\<close>

definition users_step :: "string \<Rightarrow> 'e user_coll \<Rightarrow> 'e user_coll \<Rightarrow> bool" where
  "users_step k c c' \<longleftrightarrow> docs c' = docs c \<or>
     (\<exists>u. us_id u = k \<and> docs c' = docs c @ [u] \<and> (\<forall>x \<in> set (docs c). \<not> user_conflict x u)) \<or>
     (\<exists>u n t. u \<in> set (docs c) \<and> us_id u = k \<and>
       one_updated (\<lambda>d. us_id d = k) (\<lambda>_. user_ms (u\<lparr>us_name := n, us_updated := t\<rparr>)) (docs c) (docs c'))"

definition settings_step :: "(settings \<Rightarrow> bool) \<Rightarrow> string \<Rightarrow> 'e settings_coll \<Rightarrow> 'e settings_coll \<Rightarrow> bool" where
  "settings_step V k c c' \<longleftrightarrow> docs c' = docs c \<or> (\<exists>x. se_user x = k \<and> V x \<and>
     (one_updated (\<lambda>d. se_user d = k) (\<lambda>_. x) (docs c) (docs c') \<or>
      ((\<forall>d \<in> set (docs c). se_user d \<noteq> k) \<and> docs c' = docs c @ [x])))"

definition settings_ok :: "(string \<Rightarrow> bool) \<Rightarrow> settings \<Rightarrow> bool" where
  "settings_ok L x \<longleftrightarrow> currencyPattern (se_currency x) \<and> L (se_timezone x)"

lemma settings_ok_ms [simp]: "settings_ok L (settings_ms x) = settings_ok L x" "se_user (settings_ms x) = se_user x"
  by (simp_all add: settings_ok_def settings_ms_def)

lemma user_ms_simps [simp]: "us_id (user_ms u) = us_id u" "us_email (user_ms u) = us_email u" "us_name (user_ms u) = us_name u"
  "us_hash (user_ms u) = us_hash u"
  by (simp_all add: user_ms_def)

lemma users_step_same: "docs c' = docs c \<Longrightarrow> users_step k c c'"
  by (simp add: users_step_def)

lemma settings_step_same: "docs c' = docs c \<Longrightarrow> settings_step V k c c'"
  by (simp add: settings_step_def)

lemma users_step_cong: "docs a = docs b \<Longrightarrow> docs a' = docs b' \<Longrightarrow> users_step k a a' = users_step k b b'"
  by (simp add: users_step_def)

lemma settings_Upsert_step:
  assumes "lawful settings_conflict M" and "settingsRepository_Upsert M x c = (r, c')" and "V (settings_ms x)"
  shows "settings_step V (se_user x) c c'"
proof -
  obtain q c0 where q: "upsert_one M (\<lambda>d. se_user d = se_user x) (\<lambda>_. settings_ms x) (settings_ms x) c = (q, c0)"
    by (cases "upsert_one M (\<lambda>d. se_user d = se_user x) (\<lambda>_. settings_ms x) (settings_ms x) c")
  then have "c' = c0" using assms(2) by (cases q) (auto simp: settingsRepository_Upsert_def)
  with upsert_cases [OF assms(1) q] assms(3) show ?thesis
    by (auto simp: settings_step_def intro!: exI [of _ "settings_ms x"])
qed

lemma Register_steps:
  assumes D: "lawful_user D" and reg: "authService_Register A D now salt uid inp s = (r, s')"
    and V: "\<And>t. V \<lparr>se_user = uid, se_currency = ''USD'', se_timezone = ''UTC'', se_updated = t\<rparr>"
  shows "users_step uid (db_users s) (db_users s')" "settings_step V uid (db_settings s) (db_settings s')"
proof -
  let ?em = "normalizeEmail A (ri_email inp)"
  obtain q c where q: "userRepository_FindByEmail (m_users D) ?em (db_users s) = (q, c)"
    by (cases "userRepository_FindByEmail (m_users D) ?em (db_users s)")
  note f = user_by_email [OF lawful_userD(1) [OF D] q]
  have "users_step uid (db_users s) (db_users s') \<and> settings_step V uid (db_settings s) (db_settings s')"
  proof (cases "q = Inl ErrNotFound \<and> au_bcrypt A salt (ri_password inp) \<noteq> None")
    case False
    with reg q f(1) show ?thesis
      by (cases q) (auto simp: authService_Register_def on_users_def Let_def settings_step_same users_step_same split: if_splits option.splits)
  next
    case True
    then obtain h where h: "au_bcrypt A salt (ri_password inp) = Some h" and nf: "q = Inl ErrNotFound" by auto
    let ?u = "\<lparr>us_id = uid, us_email = ?em, us_hash = h, us_name = ri_name inp, us_created = utc now, us_updated = utc now\<rparr>"
    let ?se = "\<lparr>se_user = uid, se_currency = ''USD'', se_timezone = ''UTC'', se_updated = utc now\<rparr>"
    obtain w c2 where w: "userRepository_Create (m_users D) ?u c = (w, c2)" by (cases "userRepository_Create (m_users D) ?u c")
    note cr = userRepository_Create_cases [OF lawful_userD(1) [OF D] w]
    have us: "users_step uid (db_users s) c2"
      using cr(1) f(1) by (auto simp: users_step_def)
    obtain v c3 where v: "settingsRepository_Upsert (m_settings D) ?se (db_settings s) = (v, c3)"
      by (cases "settingsRepository_Upsert (m_settings D) ?se (db_settings s)")
    have ss: "settings_step V uid (db_settings s) c3"
      using settings_Upsert_step [OF lawful_userD(2) [OF D] v, of V] V by (simp add: settings_ms_def)
    have "s' = s\<lparr>db_users := c2\<rparr> \<or> s' = s\<lparr>db_users := c2, db_settings := c3\<rparr>"
      using reg q nf h w v by (cases w; cases v) (auto simp: authService_Register_def on_users_def on_settings_def Let_def)
    with us ss show ?thesis by (auto simp: settings_step_same)
  qed
  then show "users_step uid (db_users s) (db_users s')" "settings_step V uid (db_settings s) (db_settings s')" by simp_all
qed

lemma UpdateProfile_steps:
  assumes D: "lawful_user D" and up: "userService_UpdateProfile D now u name s = (r, s')"
  shows "users_step u (db_users s) (db_users s')" "db_settings s' = db_settings s" "db_tokens s' = db_tokens s"
    and "r = Inl e \<Longrightarrow> (\<exists>f m. e = ValidationError f m) \<or> e = ErrNotFound \<or> (\<exists>m. e = ErrOther m)"
    and "r = Inr x \<Longrightarrow> us_id x = u \<and> us_name x = trim_space name \<and> us_name x \<noteq> '''' \<and> length (us_name x) \<le> maxNameLength \<and>
      (\<exists>d \<in> set (docs (db_users s)). x = d\<lparr>us_name := trim_space name, us_updated := utc now\<rparr>) \<and>
      user_ms x \<in> set (docs (db_users s'))"
proof -
  let ?n = "trim_space name"
  obtain q c where q: "userRepository_FindByID (m_users D) u (db_users s) = (q, c)" by (cases "userRepository_FindByID (m_users D) u (db_users s)")
  note f = user_by_id [OF lawful_userD(1) [OF D] q]
  have "users_step u (db_users s) (db_users s') \<and> db_settings s' = db_settings s \<and> db_tokens s' = db_tokens s \<and>
    (r = Inl e \<longrightarrow> (\<exists>f m. e = ValidationError f m) \<or> e = ErrNotFound \<or> (\<exists>m. e = ErrOther m)) \<and>
    (r = Inr x \<longrightarrow> us_id x = u \<and> us_name x = ?n \<and> us_name x \<noteq> '''' \<and> length (us_name x) \<le> maxNameLength \<and>
      (\<exists>d \<in> set (docs (db_users s)). x = d\<lparr>us_name := ?n, us_updated := utc now\<rparr>) \<and> user_ms x \<in> set (docs (db_users s')))"
  proof (cases "?n = '''' \<or> length ?n > maxNameLength")
    case True
    with up show ?thesis by (auto simp: userService_UpdateProfile_def Let_def users_step_same split: if_splits)
  next
    case ok: False
    show ?thesis
    proof (cases q)
      case (Inl e')
      with up ok q f(1) f(4) [OF Inl] show ?thesis by (auto simp: userService_UpdateProfile_def Let_def on_users_def users_step_same)
    next
      case (Inr d)
      let ?x = "d\<lparr>us_name := ?n, us_updated := utc now\<rparr>"
      have d: "d \<in> set (docs (db_users s))" "us_id d = u" using f(2) Inr by simp_all
      obtain w c2 where w: "update_one (m_users D) (\<lambda>d. us_id d = u) (\<lambda>_. user_ms ?x) c = (w, c2)"
        by (cases "update_one (m_users D) (\<lambda>d. us_id d = u) (\<lambda>_. user_ms ?x) c")
      have up': "on_ok (on_users (userRepository_Update (m_users D) ?x) (s\<lparr>db_users := c\<rparr>)) (\<lambda>_ s2. (Inr ?x, s2)) = (r, s')"
        using up ok q Inr by (simp add: userService_UpdateProfile_def Let_def on_users_def)
      have "us_id ?x = u" using d(2) by simp
      then have re: "userRepository_Update (m_users D) ?x c = (case w of
          Inl e \<Rightarrow> (Inl (db_err e), c2) | Inr n \<Rightarrow> if n = 0 then (Inl ErrNotFound, c2) else (Inr (), c2))"
        unfolding userRepository_Update_def by (simp only: w prod.case)
      have out: "s' = s\<lparr>db_users := c2\<rparr>"
        "r = (case w of Inl e \<Rightarrow> Inl (db_err e) | Inr n \<Rightarrow> if n = 0 then Inl ErrNotFound else Inr ?x)"
        using up' by (auto simp: on_users_def re split: sum.splits if_splits)
      have step: "users_step u (db_users s) c2"
        using update_one_cases [OF lawful_userD(1) [OF D] w] d f(1) by (auto simp: users_step_def)
      have "user_ms ?x \<in> set (docs c2)" if "w = Inr n" "n \<noteq> 0" for n
        using update_one_ok [OF lawful_userD(1) [OF D], of "\<lambda>d. us_id d = u" "\<lambda>_. user_ms ?x" c n c2] w that by (auto simp: one_updated_def)
      with out step ok d db_err_other(1) show ?thesis by (auto split: sum.splits if_splits)
    qed
  qed
  then show "users_step u (db_users s) (db_users s')" "db_settings s' = db_settings s" "db_tokens s' = db_tokens s"
    "r = Inl e \<Longrightarrow> (\<exists>f m. e = ValidationError f m) \<or> e = ErrNotFound \<or> (\<exists>m. e = ErrOther m)"
    "r = Inr x \<Longrightarrow> us_id x = u \<and> us_name x = ?n \<and> us_name x \<noteq> '''' \<and> length (us_name x) \<le> maxNameLength \<and>
      (\<exists>d \<in> set (docs (db_users s)). x = d\<lparr>us_name := ?n, us_updated := utc now\<rparr>) \<and> user_ms x \<in> set (docs (db_users s'))"
    by blast+
qed

lemma GetSettings_cases:
  assumes D: "lawful_user D" and g: "userService_GetSettings D u s = (r, s')"
  shows "docs (db_settings s') = docs (db_settings s)" "db_users s' = db_users s" "db_tokens s' = db_tokens s"
    and "r = Inl e \<Longrightarrow> \<exists>m. e = ErrOther m"
    and "r = Inr x \<Longrightarrow> se_user x = u \<and> (x \<in> set (docs (db_settings s)) \<or>
      (\<forall>d \<in> set (docs (db_settings s)). se_user d \<noteq> u) \<and> x = \<lparr>se_user = u, se_currency = ''USD'', se_timezone = ''UTC'', se_updated = zero_time\<rparr>)"
proof -
  obtain q c where q: "settingsRepository_FindByUserID (m_settings D) u (db_settings s) = (q, c)"
    by (cases "settingsRepository_FindByUserID (m_settings D) u (db_settings s)")
  note f = settings_by_user [OF lawful_userD(2) [OF D] q]
  have "docs (db_settings s') = docs (db_settings s) \<and> db_users s' = db_users s \<and> db_tokens s' = db_tokens s \<and>
    (r = Inl e \<longrightarrow> (\<exists>m. e = ErrOther m)) \<and>
    (r = Inr x \<longrightarrow> se_user x = u \<and> (x \<in> set (docs (db_settings s)) \<or>
      (\<forall>d \<in> set (docs (db_settings s)). se_user d \<noteq> u) \<and> x = \<lparr>se_user = u, se_currency = ''USD'', se_timezone = ''UTC'', se_updated = zero_time\<rparr>))"
    using f g q by (cases q) (auto simp: userService_GetSettings_def on_settings_def split: if_splits)
  then show "docs (db_settings s') = docs (db_settings s)" "db_users s' = db_users s" "db_tokens s' = db_tokens s"
    "r = Inl e \<Longrightarrow> \<exists>m. e = ErrOther m"
    "r = Inr x \<Longrightarrow> se_user x = u \<and> (x \<in> set (docs (db_settings s)) \<or>
      (\<forall>d \<in> set (docs (db_settings s)). se_user d \<noteq> u) \<and> x = \<lparr>se_user = u, se_currency = ''USD'', se_timezone = ''UTC'', se_updated = zero_time\<rparr>)"
    by blast+
qed

lemma UpdateSettings_steps:
  assumes D: "lawful_user D" and up: "userService_UpdateSettings L D now u inp s = (r, s')"
    and ok: "\<forall>d \<in> set (docs (db_settings s)). settings_ok L d" and utc: "L ''UTC''"
  shows "settings_step (settings_ok L) u (db_settings s) (db_settings s')" "db_users s' = db_users s" "db_tokens s' = db_tokens s"
    and "r = Inl e \<Longrightarrow> (\<exists>f m. e = ValidationError f m) \<or> (\<exists>m. e = ErrOther m)"
    and "r = Inr x \<Longrightarrow> se_user x = u \<and> settings_ok L x \<and> settings_ms x \<in> set (docs (db_settings s')) \<and>
      (\<exists>x0 s1. userService_GetSettings D u s = (Inr x0, s1) \<and>
        se_currency x = (if trim_space (us_currency inp) = '''' then se_currency x0 else trim_space (us_currency inp)) \<and>
        se_timezone x = (if trim_space (us_timezone inp) = '''' then se_timezone x0 else trim_space (us_timezone inp)))"
proof -
  let ?c = "trim_space (us_currency inp)" and ?t = "trim_space (us_timezone inp)"
  obtain q s1 where q: "userService_GetSettings D u s = (q, s1)" by (cases "userService_GetSettings D u s")
  note g = GetSettings_cases [OF D q]
  have "settings_step (settings_ok L) u (db_settings s) (db_settings s') \<and> db_users s' = db_users s \<and> db_tokens s' = db_tokens s \<and>
    (r = Inl e \<longrightarrow> (\<exists>f m. e = ValidationError f m) \<or> (\<exists>m. e = ErrOther m)) \<and>
    (r = Inr x \<longrightarrow> se_user x = u \<and> settings_ok L x \<and> settings_ms x \<in> set (docs (db_settings s')) \<and>
      (\<exists>x0 s1. userService_GetSettings D u s = (Inr x0, s1) \<and> se_currency x = (if ?c = '''' then se_currency x0 else ?c) \<and>
        se_timezone x = (if ?t = '''' then se_timezone x0 else ?t)))"
  proof (cases "(?c \<noteq> '''' \<and> \<not> currencyPattern ?c) \<or> (?t \<noteq> '''' \<and> \<not> L ?t)")
    case True
    with up show ?thesis by (auto simp: userService_UpdateSettings_def Let_def settings_step_same split: if_splits)
  next
    case val: False
    show ?thesis
    proof (cases q)
      case (Inl e')
      with up val q g(1,2,3) g(4) [OF Inl] show ?thesis by (auto simp: userService_UpdateSettings_def Let_def settings_step_same)
    next
      case (Inr x0)
      let ?x = "\<lparr>se_user = u, se_currency = (if ?c \<noteq> '''' then ?c else se_currency x0),
                 se_timezone = (if ?t \<noteq> '''' then ?t else se_timezone x0), se_updated = utc now\<rparr>"
      have usd: "currencyPattern ''USD''" by code_simp
      from g(5) [OF Inr] have "settings_ok L x0"
      proof (elim conjE disjE)
        assume "x0 = \<lparr>se_user = u, se_currency = ''USD'', se_timezone = ''UTC'', se_updated = zero_time\<rparr>"
        then show ?thesis using usd utc by (simp add: settings_ok_def)
      qed (use ok in blast)
      then have xok: "settings_ok L ?x" using val by (auto simp: settings_ok_def)
      obtain w c2 where w: "settingsRepository_Upsert (m_settings D) ?x (db_settings s1) = (w, c2)"
        by (cases "settingsRepository_Upsert (m_settings D) ?x (db_settings s1)")
      have up': "on_ok (on_settings (settingsRepository_Upsert (m_settings D) ?x) s1) (\<lambda>_ s2. (Inr ?x, s2)) = (r, s')"
        using up val unfolding userService_UpdateSettings_def q Inr on_ok_simps Let_def by (simp split: if_splits)
      have out: "s' = s1\<lparr>db_settings := c2\<rparr>" "r = (case w of Inl e \<Rightarrow> Inl e | Inr _ \<Rightarrow> Inr ?x)"
        using up' w by (cases w; simp add: on_settings_def)+
      have step: "settings_step (settings_ok L) u (db_settings s) c2"
        using settings_Upsert_step [OF lawful_userD(2) [OF D] w, of "settings_ok L"] xok g(1) by (simp add: settings_step_def)
      note st = settings_Upsert_cases [OF lawful_userD(2) [OF D] w]
      have fin: "r = Inr x \<longrightarrow> se_user x = u \<and> settings_ok L x \<and> settings_ms x \<in> set (docs (db_settings s')) \<and>
        (\<exists>x0 s1. userService_GetSettings D u s = (Inr x0, s1) \<and> se_currency x = (if ?c = '''' then se_currency x0 else ?c) \<and>
          se_timezone x = (if ?t = '''' then se_timezone x0 else ?t))"
      proof
        assume "r = Inr x"
        then have x: "x = ?x" and "\<exists>y. w = Inr y" using out(2) by (auto split: sum.splits)
        then have "settings_ms x \<in> set (docs (db_settings s'))" using st(1) out(1) by auto
        moreover have "se_user x = u \<and> settings_ok L x" using x xok by simp
        moreover have "se_currency x = (if ?c = '''' then se_currency x0 else ?c)" "se_timezone x = (if ?t = '''' then se_timezone x0 else ?t)"
          using x by simp_all
        ultimately show "se_user x = u \<and> settings_ok L x \<and> settings_ms x \<in> set (docs (db_settings s')) \<and>
          (\<exists>x0 s1. userService_GetSettings D u s = (Inr x0, s1) \<and> se_currency x = (if ?c = '''' then se_currency x0 else ?c) \<and>
            se_timezone x = (if ?t = '''' then se_timezone x0 else ?t))" using q Inr by blast
      qed
      have "r = Inl e \<longrightarrow> (\<exists>m. e = ErrOther m)" using st(2) [of e] out(2) by (cases w) auto
      with step fin out(1) g(2,3) show ?thesis by simp
    qed
  qed
  then show "settings_step (settings_ok L) u (db_settings s) (db_settings s')" "db_users s' = db_users s" "db_tokens s' = db_tokens s"
    "r = Inl e \<Longrightarrow> (\<exists>f m. e = ValidationError f m) \<or> (\<exists>m. e = ErrOther m)"
    "r = Inr x \<Longrightarrow> se_user x = u \<and> settings_ok L x \<and> settings_ms x \<in> set (docs (db_settings s')) \<and>
      (\<exists>x0 s1. userService_GetSettings D u s = (Inr x0, s1) \<and> se_currency x = (if ?c = '''' then se_currency x0 else ?c) \<and>
        se_timezone x = (if ?t = '''' then se_timezone x0 else ?t))" by blast+
qed

section \<open>Sessions never touch users or settings\<close>

lemma session_ops_keep:
  assumes D: "lawful_user D"
  shows "authService_Login A D now jti tid email pw s = (r, s') \<Longrightarrow> docs (db_users s') = docs (db_users s) \<and> db_settings s' = db_settings s"
    and "authService_Refresh A D now jti tid tok s = (r2, s') \<Longrightarrow> docs (db_users s') = docs (db_users s) \<and> db_settings s' = db_settings s"
    and "authService_Logout A D now tok s = (r3, s') \<Longrightarrow> db_users s' = db_users s \<and> db_settings s' = db_settings s"
    and "authService_RequestPasswordReset A D email s = (r3, s') \<Longrightarrow> docs (db_users s') = docs (db_users s) \<and> db_settings s' = db_settings s"
proof -
  have iss: "db_settings t' = db_settings t" if "authService_issueTokenPair A D now jti tid u t = (x, t')" for u t x t'
    using issue_cases(3) [OF D that] .
  show "docs (db_users s') = docs (db_users s) \<and> db_settings s' = db_settings s" if l: "authService_Login A D now jti tid email pw s = (r, s')"
  proof
    show "docs (db_users s') = docs (db_users s)" using D l by (cases rule: Login_cases) auto
    show "db_settings s' = db_settings s"
      using l by (auto simp: authService_Login_def on_users_def dest!: iss split: prod.splits sum.splits if_splits)
  qed
  show "docs (db_users s') = docs (db_users s) \<and> db_settings s' = db_settings s" if l: "authService_Refresh A D now jti tid tok s = (r2, s')"
  proof
    show "docs (db_users s') = docs (db_users s)" by (rule Refresh_cases(2) [OF D l])
    obtain q s1 where q: "authService_Refresh_check A D now tok s = (q, s1)" by (cases "authService_Refresh_check A D now tok s")
    have "db_settings s1 = db_settings s" using D q by (cases rule: Refresh_check_cases) auto
    with l q show "db_settings s' = db_settings s"
      by (cases q) (auto simp: authService_Refresh_def authService_Refresh_rotate_def on_tokens_def on_ok_def dest!: iss split: prod.splits sum.splits)
  qed
  show "db_users s' = db_users s \<and> db_settings s' = db_settings s" if "authService_Logout A D now tok s = (r3, s')"
    using that by (auto simp: authService_Logout_def on_tokens_def split: prod.splits sum.splits option.splits if_splits)
  show "docs (db_users s') = docs (db_users s) \<and> db_settings s' = db_settings s" if "authService_RequestPasswordReset A D email s = (r3, s')"
    using that user_by_email(1) [OF lawful_userD(1) [OF D]]
    by (auto simp: authService_RequestPasswordReset_def on_users_def split: prod.splits)
qed

section \<open>The invariant of the user database\<close>

text \<open>
  Ids and emails are unique, so are the token ids and hashes; nobody has two settings
  documents, and every stored currency and time zone is one that the service accepts.
\<close>

definition user_inv :: "(string \<Rightarrow> bool) \<Rightarrow> 'e user_db \<Rightarrow> bool" where
  "user_inv L s \<longleftrightarrow> users_inv (db_users s) \<and> tok_inv (db_tokens s) \<and>
     distinct (map se_user (docs (db_settings s))) \<and> (\<forall>d \<in> set (docs (db_settings s)). settings_ok L d)"

lemma users_step_inv:
  assumes "users_step k c c'" and "users_inv c"
  shows "users_inv c'"
  using assms(1) unfolding users_step_def
proof (elim disjE exE conjE)
  fix u n t assume u: "u \<in> set (docs c)" "us_id u = k"
    and up: "one_updated (\<lambda>d. us_id d = k) (\<lambda>_. user_ms (u\<lparr>us_name := n, us_updated := t\<rparr>)) (docs c) (docs c')"
  then obtain xs d ys where d: "docs c = xs @ d # ys" "us_id d = k" "docs c' = xs @ user_ms (u\<lparr>us_name := n, us_updated := t\<rparr>) # ys"
    by (auto simp: one_updated_def)
  have "d = u" using u d(1,2) assms(2) by (auto simp: users_inv_def distinct_map inj_on_def)
  with d assms(2) show ?thesis by (simp add: users_inv_def)
qed (use assms(2) in \<open>auto simp: users_inv_def user_conflict_def\<close>)

lemma settings_step_inv:
  assumes "settings_step V k c c'" and "distinct (map se_user (docs c))" and "\<forall>d \<in> set (docs c). V d"
  shows "distinct (map se_user (docs c')) \<and> (\<forall>d \<in> set (docs c'). V d)"
  using assms unfolding settings_step_def one_updated_def by (auto 0 3)

text \<open>Steps on behalf of somebody else leave a user's profile and settings alone.\<close>

lemma users_step_other:
  assumes "users_step k c c'" and "k \<noteq> v"
  shows "filter (\<lambda>d. us_id d = v) (docs c') = filter (\<lambda>d. us_id d = v) (docs c)"
  using assms unfolding users_step_def one_updated_def by (auto 0 3)

lemma settings_step_other:
  assumes "settings_step V k c c'" and "k \<noteq> v"
  shows "filter (\<lambda>d. se_user d = v) (docs c') = filter (\<lambda>d. se_user d = v) (docs c)"
  using assms unfolding settings_step_def one_updated_def by (auto 0 3)

text \<open>
  C27. Settings round trip: after a successful \<open>UpdateSettings\<close> the user's \<open>GetSettings\<close>
  returns exactly what the update returned (with the time cut to the millisecond),
  a blank field keeps its old value, and the database faults are the only other outcome.
\<close>

theorem settings_update_get:
  assumes "lawful_user D" and "L ''UTC''" and "user_inv L s"
    and "userService_GetSettings D u s = (Inr x0, s0)"
    and "userService_UpdateSettings L D now u inp s = (Inr x, s1)"
    and "userService_GetSettings D u s1 = (r, s2)"
  shows "(\<exists>m. r = Inl (ErrOther m)) \<or> (r = Inr (settings_ms x) \<and>
    se_currency x = (if trim_space (us_currency inp) = '''' then se_currency x0 else trim_space (us_currency inp)) \<and>
    se_timezone x = (if trim_space (us_timezone inp) = '''' then se_timezone x0 else trim_space (us_timezone inp)) \<and>
    currencyPattern (se_currency x) \<and> L (se_timezone x))"
proof -
  have inv: "\<forall>d \<in> set (docs (db_settings s)). settings_ok L d" "distinct (map se_user (docs (db_settings s)))"
    using assms(3) by (simp_all add: user_inv_def)
  note up = UpdateSettings_steps [OF assms(1,5) inv(1) assms(2)]
  have x: "se_user x = u" "settings_ok L x" "settings_ms x \<in> set (docs (db_settings s1))"
    "se_currency x = (if trim_space (us_currency inp) = '''' then se_currency x0 else trim_space (us_currency inp))"
    "se_timezone x = (if trim_space (us_timezone inp) = '''' then se_timezone x0 else trim_space (us_timezone inp))"
    using up(5) [OF refl] assms(4) by auto
  have inv1: "distinct (map se_user (docs (db_settings s1)))" using settings_step_inv [OF up(1) inv(2,1)] by blast
  show ?thesis
  proof (cases r)
    case (Inl e)
    with GetSettings_cases(4) [OF assms(1,6)] show ?thesis by blast
  next
    case (Inr y)
    from GetSettings_cases(5) [OF assms(1,6) this] x(1,3) have "se_user y = u" "y \<in> set (docs (db_settings s1))" by auto
    then have "y = settings_ms x"
      using inj_onD [of se_user "set (docs (db_settings s1))" y "settings_ms x"] x(1,3) inv1 by (simp add: distinct_map)
    with Inr x show ?thesis by (simp add: settings_ok_def)
  qed
qed

theorem settings_update_get_witness:
  "\<exists>x s1. userService_UpdateSettings (\<lambda>z. z \<in> {''UTC'', ''Asia/Tokyo''}) demo_udrivers demo_now ''u1''
     \<lparr>us_currency = '' JPY'', us_timezone = ''''\<rparr> (demo_udb False) = (Inr x, s1) \<and>
   ((\<exists>m. fst (userService_GetSettings demo_udrivers ''u1'' s1) = Inl (ErrOther m)) \<or>
    fst (userService_GetSettings demo_udrivers ''u1'' s1) = Inr (settings_ms x) \<and> se_currency x = ''JPY'' \<and> se_timezone x = ''UTC'')"
proof -
  let ?L = "\<lambda>z. z \<in> {''UTC'', ''Asia/Tokyo''}" and ?i = "\<lparr>us_currency = '' JPY'', us_timezone = ''''\<rparr>"
  have g: "userService_GetSettings demo_udrivers ''u1'' (demo_udb False) =
      (Inr \<lparr>se_user = ''u1'', se_currency = ''USD'', se_timezone = ''UTC'', se_updated = zero_time\<rparr>, demo_udb False)"
    by (simp add: userService_GetSettings_def settingsRepository_FindByUserID_def demo_user_eval)
  have t: "trim_space '' JPY'' = ''JPY''" "currencyPattern ''JPY''" by code_simp+
  then obtain x s1 where u: "userService_UpdateSettings ?L demo_udrivers demo_now ''u1'' ?i (demo_udb False) = (Inr x, s1)"
    unfolding userService_UpdateSettings_def g on_ok_simps
    by (simp add: Let_def settingsRepository_Upsert_def demo_user_eval)
  obtain r s2 where r: "userService_GetSettings demo_udrivers ''u1'' s1 = (r, s2)" by (cases "userService_GetSettings demo_udrivers ''u1'' s1")
  have inv: "user_inv ?L (demo_udb False)" by (simp add: user_inv_def) (simp add: demo_udb_def mem_coll_def)
  have L: "?L ''UTC''" by simp
  from settings_update_get [OF lawful_demo_user(1) L inv g u r] u r t(1) show ?thesis by auto
qed

end
