(* ===== verification/User_Http.thy ===== *)
theory User_Http imports User_Profile Httpx begin

text \<open>
  user-service, the HTTP surface: \<open>handler/auth_handler.go\<close>, \<open>handler/user_handler.go\<close>
  and the routes of \<open>router/router.go\<close>. A handler gets the outcome of gin's binding
  (\<open>Inl text\<close> when \<open>ShouldBindJSON\<close> failed). The JSON of a user omits the password hash
  (\<open>json:"-"\<close>), so answers carry \<open>user_json\<close> values.
\<close>

section \<open>Requests and answers\<close>

record user_json =
  uj_id :: string
  uj_email :: string
  uj_name :: string
  uj_created :: gotime
  uj_updated :: gotime

definition json_user :: "user \<Rightarrow> user_json" where
  "json_user u = \<lparr>uj_id = us_id u, uj_email = us_email u, uj_name = us_name u, uj_created = us_created u, uj_updated = us_updated u\<rparr>"

datatype user_data =
    DUser user_json
  | DSession string string "user_json option"
  | DSettings settings
  | DMessage string

type_synonym user_answer = "user_data response"

record login_request =
  lq_email :: string
  lq_password :: string

definition bind_failed :: "string \<Rightarrow> string \<Rightarrow> 'a response" where
  [http_defs]: "bind_failed rid e = httpx_Fail rid 400 CodeValidation e None"

definition internal_error :: "string \<Rightarrow> 'a response" where
  [http_defs]: "internal_error rid = httpx_Fail rid 500 CodeInternal ''internal server error'' None"

section \<open>/api/v1/auth\<close>

definition AuthHandler_Register ::
  "auth \<Rightarrow> 'e user_drivers \<Rightarrow> gotime \<Rightarrow> string \<Rightarrow> string \<Rightarrow> string \<Rightarrow> string + register_input \<Rightarrow> 'e user_db \<Rightarrow> user_answer \<times> 'e user_db" where
  [http_defs]: "AuthHandler_Register A D now salt uid rid body s = (case body of
      Inl e \<Rightarrow> (bind_failed rid e, s)
    | Inr req \<Rightarrow> (case authService_Register A D now salt uid req s of
          (Inl e, s1) \<Rightarrow> if e = ErrDuplicateEmail
             then (httpx_Fail rid 409 CodeConflict ''email already registered'' None, s1)
             else (internal_error rid, s1)
        | (Inr u, s1) \<Rightarrow> (httpx_Success rid 201 (DUser (json_user u)), s1)))"

definition AuthHandler_Login ::
  "auth \<Rightarrow> 'e user_drivers \<Rightarrow> gotime \<Rightarrow> string \<Rightarrow> string \<Rightarrow> string \<Rightarrow> string + login_request \<Rightarrow> 'e user_db \<Rightarrow> user_answer \<times> 'e user_db" where
  [http_defs]: "AuthHandler_Login A D now jti tid rid body s = (case body of
      Inl e \<Rightarrow> (bind_failed rid e, s)
    | Inr req \<Rightarrow> (case authService_Login A D now jti tid (lq_email req) (lq_password req) s of
          (Inl e, s1) \<Rightarrow> if e = ErrInvalidCredentials
             then (httpx_Fail rid 401 CodeUnauthorized ''invalid credentials'' None, s1)
             else (internal_error rid, s1)
        | (Inr res, s1) \<Rightarrow>
            (httpx_Success rid 200 (DSession (lr_access res) (lr_refresh res) (Some (json_user (lr_user res)))), s1)))"

definition AuthHandler_Refresh ::
  "auth \<Rightarrow> 'e user_drivers \<Rightarrow> gotime \<Rightarrow> string \<Rightarrow> string \<Rightarrow> string \<Rightarrow> string + string \<Rightarrow> 'e user_db \<Rightarrow> user_answer \<times> 'e user_db" where
  [http_defs]: "AuthHandler_Refresh A D now jti tid rid body s = (case body of
      Inl e \<Rightarrow> (bind_failed rid e, s)
    | Inr tok \<Rightarrow> (case authService_Refresh A D now jti tid tok s of
          (Inl e, s1) \<Rightarrow> if e = ErrInvalidToken
             then (httpx_Fail rid 401 CodeUnauthorized ''invalid or expired refresh token'' None, s1)
             else (internal_error rid, s1)
        | (Inr res, s1) \<Rightarrow> (httpx_Success rid 200 (DSession (lr_access res) (lr_refresh res) None), s1)))"

definition AuthHandler_Logout ::
  "auth \<Rightarrow> 'e user_drivers \<Rightarrow> gotime \<Rightarrow> string \<Rightarrow> string + string \<Rightarrow> 'e user_db \<Rightarrow> user_answer \<times> 'e user_db" where
  [http_defs]: "AuthHandler_Logout A D now rid body s = (case body of
      Inl e \<Rightarrow> (bind_failed rid e, s)
    | Inr tok \<Rightarrow> (case authService_Logout A D now tok s of
          (Inl e, s1) \<Rightarrow> (internal_error rid, s1)
        | (Inr _, s1) \<Rightarrow> (no_content, s1)))"

definition AuthHandler_RequestPasswordReset ::
  "auth \<Rightarrow> 'e user_drivers \<Rightarrow> string \<Rightarrow> string + string \<Rightarrow> 'e user_db \<Rightarrow> user_answer \<times> 'e user_db" where
  [http_defs]: "AuthHandler_RequestPasswordReset A D rid body s = (case body of
      Inl e \<Rightarrow> (bind_failed rid e, s)
    | Inr email \<Rightarrow> (case authService_RequestPasswordReset A D email s of
          (Inl e, s1) \<Rightarrow> (internal_error rid, s1)
        | (Inr _, s1) \<Rightarrow>
            (httpx_Success rid 202 (DMessage ''if an account with that email exists, a reset link has been sent''), s1)))"

section \<open>/api/v1/users/me\<close>

definition respondUserErr :: "string \<Rightarrow> go_error \<Rightarrow> 'a response" where
  [http_defs]: "respondUserErr rid err = (case err of
      ValidationError f m \<Rightarrow> httpx_Fail rid 400 CodeValidation m (Some (Fields [(''field'', f)]))
    | ErrNotFound \<Rightarrow> httpx_Fail rid 404 CodeNotFound ''user not found'' None
    | _ \<Rightarrow> internal_error rid)"

definition user_answers :: "string \<Rightarrow> ('a \<Rightarrow> user_data) \<Rightarrow> 'a res \<times> 's \<Rightarrow> user_answer \<times> 's" where
  [http_defs]: "user_answers rid f rs = (case rs of
      (Inl e, s) \<Rightarrow> (respondUserErr rid e, s)
    | (Inr x, s) \<Rightarrow> (httpx_Success rid 200 (f x), s))"

definition UserHandler_Me :: "'e user_drivers \<Rightarrow> string \<Rightarrow> string \<Rightarrow> 'e user_db \<Rightarrow> user_answer \<times> 'e user_db" where
  [http_defs]: "UserHandler_Me D rid u s = user_answers rid (\<lambda>x. DUser (json_user x)) (userService_GetProfile D u s)"

definition UserHandler_UpdateMe ::
  "'e user_drivers \<Rightarrow> gotime \<Rightarrow> string \<Rightarrow> string \<Rightarrow> string + string \<Rightarrow> 'e user_db \<Rightarrow> user_answer \<times> 'e user_db" where
  [http_defs]: "UserHandler_UpdateMe D now rid u body s = (case body of
      Inl e \<Rightarrow> (bind_failed rid e, s)
    | Inr name \<Rightarrow> user_answers rid (\<lambda>x. DUser (json_user x)) (userService_UpdateProfile D now u name s))"

definition UserHandler_GetSettings :: "'e user_drivers \<Rightarrow> string \<Rightarrow> string \<Rightarrow> 'e user_db \<Rightarrow> user_answer \<times> 'e user_db" where
  [http_defs]: "UserHandler_GetSettings D rid u s = user_answers rid DSettings (userService_GetSettings D u s)"

definition UserHandler_UpdateSettings ::
  "(string \<Rightarrow> bool) \<Rightarrow> 'e user_drivers \<Rightarrow> gotime \<Rightarrow> string \<Rightarrow> string \<Rightarrow> string + update_settings_input \<Rightarrow> 'e user_db \<Rightarrow>
   user_answer \<times> 'e user_db" where
  [http_defs]: "UserHandler_UpdateSettings L D now rid u body s = (case body of
      Inl e \<Rightarrow> (bind_failed rid e, s)
    | Inr inp \<Rightarrow> user_answers rid DSettings (userService_UpdateSettings L D now u inp s))"

section \<open>Routes\<close>

text \<open>The requests that reach a handler, with the random values that its calls draw.\<close>

datatype user_request =
    PostRegister string string "string + register_input"
  | PostLogin string string "string + login_request"
  | PostRefresh string string "string + string"
  | PostLogout "string + string"
  | PostPasswordReset "string + string"
  | GetMe
  | PutMe "string + string"
  | GetMySettings
  | PutMySettings "string + update_settings_input"

fun user_api ::
  "(string \<Rightarrow> bool) \<Rightarrow> auth \<Rightarrow> 'e user_drivers \<Rightarrow> gotime \<Rightarrow> string \<Rightarrow> string \<Rightarrow> user_request \<Rightarrow> 'e user_db \<Rightarrow> user_answer \<times> 'e user_db" where
  "user_api L A D now rid hdr (PostRegister salt uid body) s = AuthHandler_Register A D now salt uid rid body s"
| "user_api L A D now rid hdr (PostLogin jti tid body) s = AuthHandler_Login A D now jti tid rid body s"
| "user_api L A D now rid hdr (PostRefresh jti tid body) s = AuthHandler_Refresh A D now jti tid rid body s"
| "user_api L A D now rid hdr (PostLogout body) s = AuthHandler_Logout A D now rid body s"
| "user_api L A D now rid hdr (PostPasswordReset body) s = AuthHandler_RequestPasswordReset A D rid body s"
| "user_api L A D now rid hdr GetMe s = RequireIdentity rid hdr (UserHandler_Me D rid) s"
| "user_api L A D now rid hdr (PutMe body) s = RequireIdentity rid hdr (\<lambda>u. UserHandler_UpdateMe D now rid u body) s"
| "user_api L A D now rid hdr GetMySettings s = RequireIdentity rid hdr (UserHandler_GetSettings D rid) s"
| "user_api L A D now rid hdr (PutMySettings body) s = RequireIdentity rid hdr (\<lambda>u. UserHandler_UpdateSettings L D now rid u body) s"

text \<open>A request as it arrives: clock, request id, identity header. Between requests expired tokens may be swept.\<close>

datatype user_event = URequest gotime string string user_request | USweep gotime

fun user_step :: "(string \<Rightarrow> bool) \<Rightarrow> auth \<Rightarrow> 'e user_drivers \<Rightarrow> user_event \<Rightarrow> 'e user_db \<Rightarrow> 'e user_db" where
  "user_step L A D (URequest now rid hdr q) s = snd (user_api L A D now rid hdr q s)"
| "user_step L A D (USweep now) s = sweep_tokens now s"

definition user_run :: "(string \<Rightarrow> bool) \<Rightarrow> auth \<Rightarrow> 'e user_drivers \<Rightarrow> user_event list \<Rightarrow> 'e user_db \<Rightarrow> 'e user_db" where
  "user_run L A D es s = fold (user_step L A D) es s"

text \<open>Whose profile and settings an event may touch: the caller's, or those of the user being registered.\<close>

fun event_user :: "user_event \<Rightarrow> string option" where
  "event_user (URequest now rid hdr (PostRegister salt uid body)) = Some uid"
| "event_user (URequest now rid hdr (PutMe body)) = Some hdr"
| "event_user (URequest now rid hdr (PutMySettings body)) = Some hdr"
| "event_user _ = None"

section \<open>What a request does to the state\<close>

lemma handler_state [simp]:
  "snd (AuthHandler_Register A D now salt uid rid body s) = (case body of Inl _ \<Rightarrow> s | Inr q \<Rightarrow> snd (authService_Register A D now salt uid q s))"
  "snd (AuthHandler_Login A D now jti tid rid body2 s) =
    (case body2 of Inl _ \<Rightarrow> s | Inr q \<Rightarrow> snd (authService_Login A D now jti tid (lq_email q) (lq_password q) s))"
  "snd (AuthHandler_Refresh A D now jti tid rid body3 s) = (case body3 of Inl _ \<Rightarrow> s | Inr t \<Rightarrow> snd (authService_Refresh A D now jti tid t s))"
  "snd (AuthHandler_Logout A D now rid body3 s) = (case body3 of Inl _ \<Rightarrow> s | Inr t \<Rightarrow> snd (authService_Logout A D now t s))"
  "snd (AuthHandler_RequestPasswordReset A D rid body3 s) = (case body3 of Inl _ \<Rightarrow> s | Inr m \<Rightarrow> snd (authService_RequestPasswordReset A D m s))"
  by (simp_all add: http_defs split: sum.splits prod.splits)

lemma user_answers_state [simp]: "snd (user_answers rid f rs) = snd rs"
  by (simp add: user_answers_def split: prod.splits sum.splits)

text \<open>\<open>step_on\<close> collects what one step may have done on behalf of \<open>k\<close>.\<close>

definition step_on :: "(string \<Rightarrow> bool) \<Rightarrow> string \<Rightarrow> 'e user_db \<Rightarrow> 'e user_db \<Rightarrow> bool" where
  "step_on L k s s' \<longleftrightarrow> users_step k (db_users s) (db_users s') \<and>
     settings_step (settings_ok L) k (db_settings s) (db_settings s') \<and> tokens_from UNIV (db_tokens s) (db_tokens s')"

lemma step_on_quiet:
  "docs (db_users s') = docs (db_users s) \<Longrightarrow> docs (db_settings s') = docs (db_settings s) \<Longrightarrow>
   tokens_from UNIV (db_tokens s) (db_tokens s') \<Longrightarrow> step_on L k s s'"
  by (simp add: step_on_def users_step_same settings_step_same)

lemma step_on_refl [simp]: "step_on L k s s"
  by (rule step_on_quiet) (simp_all add: tokens_from_same)

lemma auth_requests_step:
  assumes D: "lawful_user D" and utc: "L ''UTC''"
  shows "step_on L uid s (snd (authService_Register A D now salt uid q s))"
    and "step_on L k s (snd (authService_Login A D now jti tid email pw s))"
    and "step_on L k s (snd (authService_Refresh A D now jti tid tok s))"
    and "step_on L k s (snd (authService_Logout A D now tok s))"
    and "step_on L k s (snd (authService_RequestPasswordReset A D email s))"
proof -
  have any: "tokens_from F c c' \<Longrightarrow> tokens_from UNIV c c'" for F and c c' :: "'a token_coll" by (rule tokens_from_mono) simp_all
  have tok: "tokens_from UNIV (db_tokens s) (db_tokens (auth_step A D op s))" for op
    by (rule any) (rule auth_step_tokens [OF D])
  have "settings_ok L \<lparr>se_user = uid, se_currency = ''USD'', se_timezone = ''UTC'', se_updated = t\<rparr>" for t
    using utc by (simp add: settings_ok_def) code_simp
  then show "step_on L uid s (snd (authService_Register A D now salt uid q s))"
    unfolding step_on_def using tok [of "OpRegister now salt uid q"] Register_steps [OF D, of A now salt uid q s _ _ "settings_ok L"]
    by (cases "authService_Register A D now salt uid q s") simp
  show "step_on L k s (snd (authService_Login A D now jti tid email pw s))"
    using tok [of "OpLogin now jti tid email pw"] session_ops_keep(1) [OF D] by (intro step_on_quiet) (auto simp: prod_eq_iff)
  show "step_on L k s (snd (authService_Refresh A D now jti tid tok s))"
    using tok [of "OpRefresh now jti tid tok"] session_ops_keep(2) [OF D] by (intro step_on_quiet) (auto simp: prod_eq_iff)
  show "step_on L k s (snd (authService_Logout A D now tok s))"
    using tok [of "OpLogout now tok"] session_ops_keep(3) [OF D] by (intro step_on_quiet) (auto simp: prod_eq_iff)
  show "step_on L k s (snd (authService_RequestPasswordReset A D email s))"
    using tok [of "OpReset email"] session_ops_keep(4) [OF D] by (intro step_on_quiet) (auto simp: prod_eq_iff)
qed

lemma profile_requests_step:
  assumes D: "lawful_user D" and utc: "L ''UTC''" and inv: "user_inv L s"
  shows "step_on L k s (snd (userService_GetProfile D u s))"
    and "step_on L u s (snd (userService_UpdateProfile D now u name s))"
    and "step_on L k s (snd (userService_GetSettings D u s))"
    and "step_on L u s (snd (userService_UpdateSettings L D now u inp s))"
proof -
  have "docs (snd (userRepository_FindByID (m_users D) u (db_users s))) = docs (db_users s)"
    by (cases "userRepository_FindByID (m_users D) u (db_users s)") (simp add: user_by_id(1) [OF lawful_userD(1) [OF D]])
  then show "step_on L k s (snd (userService_GetProfile D u s))"
    by (intro step_on_quiet) (auto simp: userService_GetProfile_def on_users_def tokens_from_same split: prod.splits)
  obtain r s' where up: "userService_UpdateProfile D now u name s = (r, s')" by (cases "userService_UpdateProfile D now u name s")
  show "step_on L u s (snd (userService_UpdateProfile D now u name s))"
    using UpdateProfile_steps(1-3) [OF D up] up by (simp add: step_on_def settings_step_same tokens_from_same)
  obtain r2 s2 where g: "userService_GetSettings D u s = (r2, s2)" by (cases "userService_GetSettings D u s")
  show "step_on L k s (snd (userService_GetSettings D u s))"
    using GetSettings_cases(1-3) [OF D g] g by (intro step_on_quiet) (simp_all add: tokens_from_same)
  obtain r3 s3 where us: "userService_UpdateSettings L D now u inp s = (r3, s3)" by (cases "userService_UpdateSettings L D now u inp s")
  show "step_on L u s (snd (userService_UpdateSettings L D now u inp s))"
    using UpdateSettings_steps(1-3) [OF D us _ utc] us inv by (simp add: step_on_def user_inv_def users_step_same tokens_from_same)
qed

lemma user_step_on:
  assumes D: "lawful_user D" and utc: "L ''UTC''" and inv: "user_inv L s" and k: "event_user e = None \<or> event_user e = Some k"
  shows "step_on L k s (user_step L A D e s)"
proof (cases e)
  case (URequest now rid hdr q)
  then show ?thesis
    using k auth_requests_step [where L = L, OF D utc] profile_requests_step [where L = L, OF D utc inv]
    by (cases q) (auto simp: UserHandler_Me_def UserHandler_UpdateMe_def UserHandler_GetSettings_def UserHandler_UpdateSettings_def
        RequireIdentity_def split: sum.splits)
next
  case (USweep now)
  with auth_step_tokens [OF D, of A "OpSweep now" s] show ?thesis
    by (intro step_on_quiet) (auto simp: sweep_tokens_def intro: tokens_from_mono)
qed

lemma step_on_inv: "step_on L k s s' \<Longrightarrow> user_inv L s \<Longrightarrow> user_inv L s'"
  using users_step_inv settings_step_inv unfolding step_on_def user_inv_def tokens_from_def by metis

lemma user_step_inv:
  assumes "lawful_user D" and "L ''UTC''" and "user_inv L s"
  shows "user_inv L (user_step L A D e s)"
proof -
  obtain k where "event_user e = None \<or> event_user e = Some k" by (cases "event_user e") auto
  from step_on_inv [OF user_step_on [where L = L, OF assms this] assms(3)] show ?thesis .
qed

section \<open>Properties of the service\<close>

lemmas user_handlers = AuthHandler_Register_def AuthHandler_Login_def AuthHandler_Refresh_def AuthHandler_Logout_def
  AuthHandler_RequestPasswordReset_def UserHandler_Me_def UserHandler_UpdateMe_def UserHandler_GetSettings_def
  UserHandler_UpdateSettings_def user_answers_def respondUserErr_def bind_failed_def internal_error_def RequireIdentity_def

text \<open>
  Every sequence of requests to user-service, with any database faults and sweeps of
  expired tokens in between, keeps the user database well formed: unique ids, emails,
  token ids and token hashes, at most one settings document per user, and only
  currencies and time zones that pass the validation.
\<close>

theorem user_run_inv:
  assumes "lawful_user D" and "L ''UTC''" and "user_inv L s"
  shows "user_inv L (user_run L A D es s)"
proof -
  have "user_inv L t \<Longrightarrow> user_inv L (fold (user_step L A D) es t)" for t
    by (induction es arbitrary: t) (simp_all add: user_step_inv [where L = L, OF assms(1,2)])
  with assms(3) show ?thesis by (simp add: user_run_def)
qed

text \<open>
  Nobody changes the profile or the settings of a user but requests that the gateway
  attributes to that user: any sequence of events in which neither the caller nor a
  newly drawn user id is \<open>v\<close> leaves the documents of \<open>v\<close> as they are.
\<close>

theorem user_run_isolated:
  assumes "lawful_user D" and "L ''UTC''" and "user_inv L s" and "\<forall>e \<in> set es. event_user e \<noteq> Some v"
  shows "filter (\<lambda>d. us_id d = v) (docs (db_users (user_run L A D es s))) = filter (\<lambda>d. us_id d = v) (docs (db_users s)) \<and>
    filter (\<lambda>d. se_user d = v) (docs (db_settings (user_run L A D es s))) = filter (\<lambda>d. se_user d = v) (docs (db_settings s))"
  using assms(3,4) unfolding user_run_def
proof (induction es arbitrary: s)
  case (Cons e es)
  let ?t = "user_step L A D e s"
  obtain k where k: "k \<noteq> v" "event_user e = None \<or> event_user e = Some k"
  proof (cases "event_user e")
    case None
    then show ?thesis using that [of "v @ ''x''"] by simp
  next
    case (Some k)
    then show ?thesis using that [of k] Cons.prems(2) by simp
  qed
  have st: "step_on L k s ?t" by (rule user_step_on [where L = L, OF assms(1,2) Cons.prems(1) k(2)])
  have "user_inv L ?t" by (rule user_step_inv [where L = L, OF assms(1,2) Cons.prems(1)])
  moreover have "filter (\<lambda>d. us_id d = v) (docs (db_users ?t)) = filter (\<lambda>d. us_id d = v) (docs (db_users s))"
    "filter (\<lambda>d. se_user d = v) (docs (db_settings ?t)) = filter (\<lambda>d. se_user d = v) (docs (db_settings s))"
    using st users_step_other [OF _ k(1)] settings_step_other [OF _ k(1)] unfolding step_on_def by blast+
  ultimately show ?case using Cons.IH [of ?t] Cons.prems(2) by simp
qed simp

text \<open>
  Every answer of user-service has the envelope of the API contract, whatever the
  database does.
\<close>

theorem user_contract: "contract_ok rid (fst (user_api L A D now rid hdr q s))"
  by (cases q) (auto simp: user_handlers split: sum.splits prod.splits go_error.splits)

text \<open>
  A password reset request never tells whether the email is registered: the answer
  depends on nothing but the request, in every state of the database.
\<close>

theorem password_reset_uniform:
  "fst (user_api L A D now rid hdr (PostPasswordReset (Inr email)) s) =
   httpx_Success rid 202 (DMessage ''if an account with that email exists, a reset link has been sent'')"
  by (simp add: http_defs authService_RequestPasswordReset_def split: prod.splits)

text \<open>
  The two ways in which a name enters the system disagree: \<open>Register\<close> stores the name
  as it came, also a blank one, which \<open>UpdateProfile\<close> refuses.
\<close>

theorem register_blank_name:
  "\<exists>u s1. authService_Register demo_auth demo_udrivers demo_now ''salt'' ''u2'' (demo_input\<lparr>ri_name := ''  ''\<rparr>) (demo_udb False) = (Inr u, s1) \<and>
     us_name u = ''  '' \<and>
     fst (userService_UpdateProfile demo_udrivers demo_now ''u2'' ''  '' s1) = Inl (ValidationError ''name'' ''name must not be blank'')"
proof -
  have n: "normalizeEmail demo_auth ''b@x.io'' = ''b@x.io''" "trim_space ''  '' = ''''" by code_simp+
  then show ?thesis
    by (simp add: authService_Register_def userRepository_FindByEmail_def userRepository_Create_def settingsRepository_Upsert_def
        userService_UpdateProfile_def Let_def demo_input_def user_ms_def demo_user_eval)
qed

lemma demo_user_inv: "user_inv (\<lambda>z. z = ''UTC'') (demo_udb False)"
  by (simp add: user_inv_def) (simp add: demo_udb_def mem_coll_def)

theorem user_run_inv_witness:
  "user_inv (\<lambda>z. z = ''UTC'') (user_run (\<lambda>z. z = ''UTC'') demo_auth demo_udrivers
     [URequest demo_now ''r1'' '''' (PostRegister ''salt'' ''u2'' (Inr demo_input)), USweep demo_now,
      URequest demo_now ''r2'' ''u1'' (PutMe (Inr ''Anna''))] (demo_udb False))"
  by (rule user_run_inv [OF lawful_demo_user(1) _ demo_user_inv]) simp

theorem user_run_isolated_witness:
  "filter (\<lambda>d. us_id d = ''u1'') (docs (db_users (user_run (\<lambda>z. z = ''UTC'') demo_auth demo_udrivers
     [URequest demo_now ''r1'' '''' (PostRegister ''salt'' ''u2'' (Inr demo_input)),
      URequest demo_now ''r2'' ''u2'' (PutMe (Inr ''Anna''))] (demo_udb False)))) = [demo_user]"
proof -
  have "filter (\<lambda>d. us_id d = ''u1'') (docs (db_users (demo_udb False))) = [demo_user]" by (simp add: demo_user_eval)
  then show ?thesis
    using user_run_isolated [where L = "\<lambda>z. z = ''UTC''", OF lawful_demo_user(1) refl demo_user_inv,
        of "[URequest demo_now ''r1'' '''' (PostRegister ''salt'' ''u2'' (Inr demo_input)),
      URequest demo_now ''r2'' ''u2'' (PutMe (Inr ''Anna''))]" "''u1''" demo_auth] by simp
qed

end
