(* ===== verification/Budget_Budget.thy ===== *)
theory Budget_Budget imports Repo_Spec Go_Float begin

text \<open>
  budget-service, budgets: \<open>domain/budget.go\<close>, \<open>repository/mongo_budget_repository.go\<close>
  and \<open>service/budget_service.go\<close>. The repository draws the clock and the object id
  itself (\<open>now\<close>, \<open>i\<close>). \<open>FindOneAndUpdate\<close>, whose returned document the code decodes and
  drops, is the driver's \<open>update_one\<close>: no match is \<open>ErrNoDocuments\<close>.
\<close>

section \<open>Domain\<close>

definition PeriodWeekly :: string where "PeriodWeekly = ''weekly''"
definition PeriodMonthly :: string where "PeriodMonthly = ''monthly''"
definition PeriodYearly :: string where "PeriodYearly = ''yearly''"

definition ValidPeriod :: "string \<Rightarrow> bool" where
  "ValidPeriod p \<longleftrightarrow> p = PeriodWeekly \<or> p = PeriodMonthly \<or> p = PeriodYearly"

record budget =
  b_id :: string
  b_user :: string
  b_category :: string
  b_amount :: f64
  b_period :: string
  b_created :: gotime
  b_updated :: gotime
  b_notified :: "gotime option"

record budget_input =
  bi_category :: string
  bi_amount :: f64
  bi_period :: string

section \<open>Repository\<close>

record budget_doc =
  bd_id :: oid
  bd_user :: string
  bd_category :: string
  bd_amount :: f64
  bd_period :: string
  bd_created :: int
  bd_updated :: int
  bd_notified :: "int option"

type_synonym 'e budget_coll = "('e, budget_doc) coll"
type_synonym 'e budget_driver = "('e, budget_doc) driver"

definition budget_toDomain :: "'e budget_driver \<Rightarrow> budget_doc \<Rightarrow> budget" where
  "budget_toDomain M d = \<lparr>
     b_id = hex M (bd_id d), b_user = bd_user d, b_category = bd_category d, b_amount = bd_amount d, b_period = bd_period d,
     b_created = time_of_bson (bd_created d), b_updated = time_of_bson (bd_updated d),
     b_notified = map_option time_of_bson (bd_notified d)\<rparr>"

definition budget_newDoc :: "gotime \<Rightarrow> oid \<Rightarrow> budget \<Rightarrow> budget_doc" where
  "budget_newDoc now i b = \<lparr>
     bd_id = i, bd_user = b_user b, bd_category = b_category b, bd_amount = b_amount b, bd_period = b_period b,
     bd_created = bson_time (utc now), bd_updated = bson_time (utc now), bd_notified = None\<rparr>"

definition budget_set :: "gotime \<Rightarrow> budget \<Rightarrow> budget_doc \<Rightarrow> budget_doc" where
  "budget_set now b d = d\<lparr>
     bd_category := b_category b, bd_amount := b_amount b, bd_period := b_period b,
     bd_updated := bson_time (utc now), bd_notified := map_option bson_time (b_notified b)\<rparr>"

text \<open>The budget that \<open>Create\<close> leaves behind its pointer: the document, with the clock not yet cut.\<close>

definition MongoBudgetRepository_Create ::
  "gotime \<Rightarrow> 'e budget_driver \<Rightarrow> oid \<Rightarrow> budget \<Rightarrow> 'e budget_coll \<Rightarrow> budget res \<times> 'e budget_coll" where
  [repo_defs]: "MongoBudgetRepository_Create now M i b c =
    (case insert_one M (budget_newDoc now i b) c of
       (Inl e, c') \<Rightarrow> (Inl (db_err e), c')
     | (Inr _, c') \<Rightarrow> (Inr \<lparr>b_id = hex M i, b_user = b_user b, b_category = b_category b, b_amount = b_amount b,
          b_period = b_period b, b_created = utc now, b_updated = utc now, b_notified = None\<rparr>, c'))"

definition MongoBudgetRepository_ListByUser ::
  "'e budget_driver \<Rightarrow> string \<Rightarrow> 'e budget_coll \<Rightarrow> budget list res \<times> 'e budget_coll" where
  [repo_defs]: "MongoBudgetRepository_ListByUser M u c =
    (case find_all M (\<lambda>d. bd_user d = u) (find_sorted (\<lambda>_. 0)) c of
       (Inl e, c') \<Rightarrow> (Inl (db_err e), c')
     | (Inr ds, c') \<Rightarrow> (Inr (map (budget_toDomain M) ds), c'))"

definition MongoBudgetRepository_GetByIDForUser ::
  "'e budget_driver \<Rightarrow> string \<Rightarrow> string \<Rightarrow> 'e budget_coll \<Rightarrow> budget res \<times> 'e budget_coll" where
  [repo_defs]: "MongoBudgetRepository_GetByIDForUser M s u c =
    (case from_hex M s of
       None \<Rightarrow> (Inl ErrNotFound, c)
     | Some i \<Rightarrow>
        (case find_one M (\<lambda>d. bd_id d = i \<and> bd_user d = u) c of
           (Inl NoDocuments, c') \<Rightarrow> (Inl ErrNotFound, c')
         | (Inl e, c') \<Rightarrow> (Inl (db_err e), c')
         | (Inr d, c') \<Rightarrow> (Inr (budget_toDomain M d), c')))"

definition MongoBudgetRepository_Update ::
  "gotime \<Rightarrow> 'e budget_driver \<Rightarrow> budget \<Rightarrow> 'e budget_coll \<Rightarrow> unit res \<times> 'e budget_coll" where
  [repo_defs]: "MongoBudgetRepository_Update now M b c =
    (case from_hex M (b_id b) of
       None \<Rightarrow> (Inl ErrNotFound, c)
     | Some i \<Rightarrow>
        (case update_one M (\<lambda>d. bd_id d = i \<and> bd_user d = b_user b) (budget_set now b) c of
           (Inl e, c') \<Rightarrow> (Inl (db_err e), c')
         | (Inr n, c') \<Rightarrow> if n = 0 then (Inl ErrNotFound, c') else (Inr (), c')))"

definition MongoBudgetRepository_DeleteByIDForUser ::
  "'e budget_driver \<Rightarrow> string \<Rightarrow> string \<Rightarrow> 'e budget_coll \<Rightarrow> unit res \<times> 'e budget_coll" where
  [repo_defs]: "MongoBudgetRepository_DeleteByIDForUser M s u c =
    (case from_hex M s of
       None \<Rightarrow> (Inl ErrNotFound, c)
     | Some i \<Rightarrow>
        (case delete_one M (\<lambda>d. bd_id d = i \<and> bd_user d = u) c of
           (Inl e, c') \<Rightarrow> (Inl (db_err e), c')
         | (Inr n, c') \<Rightarrow> if n = 0 then (Inl ErrNotFound, c') else (Inr (), c')))"

interpretation bud: mutable_repo "lawful (same_id bd_id)" bd_user bd_id budget_toDomain b_user
  "MongoBudgetRepository_Create now" MongoBudgetRepository_GetByIDForUser
  b_id "budget_set now" "MongoBudgetRepository_Update now" MongoBudgetRepository_DeleteByIDForUser for now
proof (unfold_locales, goal_cases)
  case (1 M i) then show ?case by (rule hex_roundtrip)
next
  case (2 M d) show ?case by (simp add: budget_toDomain_def)
next
  case (3 M i a c r c')
  from create_shape(1) [OF 3 [unfolded MongoBudgetRepository_Create_def]]
  show ?case by (auto simp: budget_newDoc_def)
next
  case (4 M i a c b c')
  from create_shape(2) [OF 4 [unfolded MongoBudgetRepository_Create_def]]
  show ?case by (auto simp: budget_newDoc_def)
next
  case (5 M i a c e c') then show ?case unfolding MongoBudgetRepository_Create_def by (rule create_shape) simp
next
  case (6 M s u c r c') then show ?case unfolding MongoBudgetRepository_GetByIDForUser_def by (rule get_shape)
next
  case (7 M s u c a c') then show ?case unfolding MongoBudgetRepository_GetByIDForUser_def by (rule get_shape) simp
next
  case (8 M s u c c') then show ?case unfolding MongoBudgetRepository_GetByIDForUser_def by (rule get_shape) simp
next
  case (9 M s u c e c') then show ?case unfolding MongoBudgetRepository_GetByIDForUser_def by (rule get_shape) simp
next
  case (10 a d) show ?case by (simp add: budget_set_def)
next
  case (11 a d) show ?case by (simp add: budget_set_def)
next
  case (12 M a c q c') then show ?case unfolding MongoBudgetRepository_Update_def by (rule update_shape)
next
  case (13 M a c w c') then show ?case unfolding MongoBudgetRepository_Update_def by (rule update_shape) simp
next
  case (14 M a c c') then show ?case unfolding MongoBudgetRepository_Update_def by (rule update_shape) simp
next
  case (15 M a c e c') then show ?case unfolding MongoBudgetRepository_Update_def by (rule update_shape) simp
next
  case (16 M s u c e c') then show ?case unfolding MongoBudgetRepository_DeleteByIDForUser_def by (rule delete_shape) simp
next
  case (17 M s u c q c') then show ?case unfolding MongoBudgetRepository_DeleteByIDForUser_def by (rule delete_shape)
next
  case (18 M s u c w c') then show ?case unfolding MongoBudgetRepository_DeleteByIDForUser_def by (rule delete_shape) simp
next
  case (19 M s u c c') then show ?case unfolding MongoBudgetRepository_DeleteByIDForUser_def by (rule delete_shape) simp
qed

interpretation budl: listed_repo "lawful (same_id bd_id)" bd_user bd_id budget_toDomain b_user
  "MongoBudgetRepository_Create now" MongoBudgetRepository_GetByIDForUser MongoBudgetRepository_ListByUser for now
proof (unfold_locales, goal_cases)
  case (1 M u c e c') then show ?case unfolding MongoBudgetRepository_ListByUser_def by (rule list_shape) simp
next
  case (2 M u c q c') then show ?case unfolding MongoBudgetRepository_ListByUser_def by (rule list_shape)
next
  case (3 M u c as c') then show ?case
    unfolding MongoBudgetRepository_ListByUser_def view_def by (rule list_shape) simp
qed

section \<open>Service\<close>

definition budget_maxAmount :: f64 where
  "budget_maxAmount = f64_of_nat 1000000000000"

text \<open>The four tests that \<open>Create\<close> and \<open>Update\<close> share.\<close>

definition validate_budget :: "budget_input \<Rightarrow> go_error option" where
  "validate_budget inp =
    (if bi_category inp = '''' then Some (ErrValidation ''category is required'')
     else if fle (bi_amount inp) f0 then Some (ErrValidation ''amount must be greater than zero'')
     else if flt budget_maxAmount (bi_amount inp) then Some (ErrValidation ''amount exceeds the maximum allowed value'')
     else if \<not> ValidPeriod (bi_period inp) then Some (ErrValidation ''period must be one of: weekly, monthly, yearly'')
     else None)"

definition budgetService_Create ::
  "'e budget_driver \<Rightarrow> gotime \<Rightarrow> oid \<Rightarrow> string \<Rightarrow> budget_input \<Rightarrow> 'e budget_coll \<Rightarrow> budget res \<times> 'e budget_coll" where
  [svc_defs]: "budgetService_Create M now i u inp c = (case validate_budget inp of
      Some e \<Rightarrow> (Inl e, c)
    | None \<Rightarrow> MongoBudgetRepository_Create now M i
        \<lparr>b_id = '''', b_user = u, b_category = bi_category inp, b_amount = bi_amount inp, b_period = bi_period inp,
         b_created = zero_time, b_updated = zero_time, b_notified = None\<rparr> c)"

definition budgetService_List :: "'e budget_driver \<Rightarrow> string \<Rightarrow> 'e budget_coll \<Rightarrow> budget list res \<times> 'e budget_coll" where
  [svc_defs]: "budgetService_List M u c = MongoBudgetRepository_ListByUser M u c"

definition budgetService_Get :: "'e budget_driver \<Rightarrow> string \<Rightarrow> string \<Rightarrow> 'e budget_coll \<Rightarrow> budget res \<times> 'e budget_coll" where
  [svc_defs]: "budgetService_Get M u s c = MongoBudgetRepository_GetByIDForUser M s u c"

definition budgetService_Update ::
  "'e budget_driver \<Rightarrow> gotime \<Rightarrow> string \<Rightarrow> string \<Rightarrow> budget_input \<Rightarrow> 'e budget_coll \<Rightarrow> budget res \<times> 'e budget_coll" where
  [svc_defs]: "budgetService_Update M now u s inp c = (case validate_budget inp of
      Some e \<Rightarrow> (Inl e, c)
    | None \<Rightarrow> on_ok (MongoBudgetRepository_GetByIDForUser M s u c) (\<lambda>b c1.
        let b1 = b\<lparr>b_category := bi_category inp, b_amount := bi_amount inp, b_period := bi_period inp\<rparr>
        in on_ok (MongoBudgetRepository_Update now M b1 c1) (\<lambda>_ c2. (Inr (b1\<lparr>b_updated := utc now\<rparr>), c2))))"

definition budgetService_Delete :: "'e budget_driver \<Rightarrow> string \<Rightarrow> string \<Rightarrow> 'e budget_coll \<Rightarrow> unit res \<times> 'e budget_coll" where
  [svc_defs]: "budgetService_Delete M u s c = MongoBudgetRepository_DeleteByIDForUser M s u c"

section \<open>The invariant of the stored budgets\<close>

definition wf_budget_doc :: "budget_doc \<Rightarrow> bool" where
  "wf_budget_doc d \<longleftrightarrow> bd_category d \<noteq> '''' \<and> \<not> fle (bd_amount d) f0 \<and> \<not> flt budget_maxAmount (bd_amount d) \<and> ValidPeriod (bd_period d)"

definition budgets_inv :: "'e budget_coll \<Rightarrow> bool" where
  "budgets_inv c \<longleftrightarrow> coll_ok bd_id wf_budget_doc c"

abbreviation budget_moves :: "string \<Rightarrow> 'e budget_coll \<Rightarrow> 'e budget_coll \<Rightarrow> bool" where
  "budget_moves \<equiv> moves bd_user bd_id wf_budget_doc"

lemma validate_budget_ok:
  "validate_budget inp = None \<longleftrightarrow> bi_category inp \<noteq> '''' \<and> \<not> fle (bi_amount inp) f0 \<and> \<not> flt budget_maxAmount (bi_amount inp) \<and>
     ValidPeriod (bi_period inp)"
  "validate_budget inp = Some e \<Longrightarrow> \<exists>m. e = ErrValidation m"
  by (auto simp: validate_budget_def split: if_splits)

lemma budgetService_moves:
  assumes M: "lawful (same_id bd_id) M"
  shows "budget_moves u c (snd (budgetService_Create M now i u inp c))"
    and "budget_moves u c (snd (budgetService_List M u c))"
    and "budget_moves u c (snd (budgetService_Get M u s c))"
    and "budget_moves u c (snd (budgetService_Update M now u s inp c))"
    and "budget_moves u c (snd (budgetService_Delete M u s c))"
proof -
  show "budget_moves u c (snd (budgetService_Create M now i u inp c))"
  proof (cases "validate_budget inp")
    case None
    obtain r c' where r: "budgetService_Create M now i u inp c = (r, c')" by (cases "budgetService_Create M now i u inp c")
    note cr = r [unfolded budgetService_Create_def None option.case]
    have "budget_moves u c c'"
      by (rule bud.create_moves [OF M cr])
        (use None validate_budget_ok(1) [of inp] create_shape(1) [OF M cr [unfolded MongoBudgetRepository_Create_def]] in
          \<open>auto simp: budget_newDoc_def wf_budget_doc_def\<close>)
    with r show ?thesis by simp
  qed (simp add: budgetService_Create_def moves_docs)
  obtain r c' where "MongoBudgetRepository_ListByUser M u c = (r, c')" by (cases "MongoBudgetRepository_ListByUser M u c")
  with budl.list_docs [OF M] show "budget_moves u c (snd (budgetService_List M u c))"
    by (auto simp: budgetService_List_def intro: moves_docs)
  obtain q c1 where q: "MongoBudgetRepository_GetByIDForUser M s u c = (q, c1)" by (cases "MongoBudgetRepository_GetByIDForUser M s u c")
  have d1: "docs c1 = docs c" by (rule bud.get_docs [OF M q])
  then show "budget_moves u c (snd (budgetService_Get M u s c))" using q by (simp add: budgetService_Get_def moves_docs)
  show "budget_moves u c (snd (budgetService_Update M now u s inp c))"
  proof (cases "validate_budget inp")
    case None
    show ?thesis
    proof (cases q)
      case (Inr b)
      let ?b = "b\<lparr>b_category := bi_category inp, b_amount := bi_amount inp, b_period := bi_period inp\<rparr>"
      obtain w c2 where w: "MongoBudgetRepository_Update now M ?b c1 = (w, c2)" by (cases "MongoBudgetRepository_Update now M ?b c1")
      have "budget_moves u c1 c2"
        by (rule bud.update_moves [OF M w])
          (use None validate_budget_ok(1) [of inp] bud.get_owner [OF M q [unfolded Inr]] in \<open>simp_all add: budget_set_def wf_budget_doc_def\<close>)
      then have "budget_moves u c c2" by (rule moves_trans [OF moves_docs [OF d1]])
      with None q Inr w show ?thesis by (cases w) (simp_all add: budgetService_Update_def Let_def)
    qed (use None q d1 in \<open>simp add: budgetService_Update_def moves_docs\<close>)
  qed (simp add: budgetService_Update_def moves_docs)
  obtain w c2 where w: "MongoBudgetRepository_DeleteByIDForUser M s u c = (w, c2)" by (cases "MongoBudgetRepository_DeleteByIDForUser M s u c")
  with bud.delete_moves [OF M w] show "budget_moves u c (snd (budgetService_Delete M u s c))" by (simp add: budgetService_Delete_def)
qed

end
