(* ===== verification/Budget_Goal.thy ===== *)
theory Budget_Goal imports Budget_Budget begin

text \<open>
  budget-service, savings goals: \<open>domain/goal.go\<close>, \<open>repository/mongo_goal_repository.go\<close>
  and \<open>service/goal_service.go\<close>.
\<close>

section \<open>Domain\<close>

record goal =
  g_id :: string
  g_user :: string
  g_name :: string
  g_target :: f64
  g_date :: gotime
  g_current :: f64
  g_created :: gotime
  g_updated :: gotime

record create_goal_input =
  cg_name :: string
  cg_target :: f64
  cg_date :: gotime

record update_goal_input =
  ug_name :: string
  ug_target :: f64
  ug_date :: gotime
  ug_current :: f64

section \<open>Repository\<close>

record goal_doc =
  gd_id :: oid
  gd_user :: string
  gd_name :: string
  gd_target :: f64
  gd_date :: int
  gd_current :: f64
  gd_created :: int
  gd_updated :: int

type_synonym 'e goal_coll = "('e, goal_doc) coll"
type_synonym 'e goal_driver = "('e, goal_doc) driver"

definition goal_toDomain :: "'e goal_driver \<Rightarrow> goal_doc \<Rightarrow> goal" where
  "goal_toDomain M d = \<lparr>
     g_id = hex M (gd_id d), g_user = gd_user d, g_name = gd_name d, g_target = gd_target d,
     g_date = time_of_bson (gd_date d), g_current = gd_current d,
     g_created = time_of_bson (gd_created d), g_updated = time_of_bson (gd_updated d)\<rparr>"

definition goal_newDoc :: "gotime \<Rightarrow> oid \<Rightarrow> goal \<Rightarrow> goal_doc" where
  "goal_newDoc now i g = \<lparr>
     gd_id = i, gd_user = g_user g, gd_name = g_name g, gd_target = g_target g, gd_date = bson_time (g_date g),
     gd_current = Fin False 0, gd_created = bson_time (utc now), gd_updated = bson_time (utc now)\<rparr>"

definition goal_set :: "gotime \<Rightarrow> goal \<Rightarrow> goal_doc \<Rightarrow> goal_doc" where
  "goal_set now g d = d\<lparr>
     gd_name := g_name g, gd_target := g_target g, gd_date := bson_time (g_date g),
     gd_current := g_current g, gd_updated := bson_time (utc now)\<rparr>"

definition MongoGoalRepository_Create ::
  "gotime \<Rightarrow> 'e goal_driver \<Rightarrow> oid \<Rightarrow> goal \<Rightarrow> 'e goal_coll \<Rightarrow> goal res \<times> 'e goal_coll" where
  [repo_defs]: "MongoGoalRepository_Create now M i g c =
    (case insert_one M (goal_newDoc now i g) c of
       (Inl e, c') \<Rightarrow> (Inl (db_err e), c')
     | (Inr _, c') \<Rightarrow> (Inr \<lparr>g_id = hex M i, g_user = g_user g, g_name = g_name g, g_target = g_target g, g_date = g_date g,
          g_current = Fin False 0, g_created = utc now, g_updated = utc now\<rparr>, c'))"

definition MongoGoalRepository_ListByUser ::
  "'e goal_driver \<Rightarrow> string \<Rightarrow> 'e goal_coll \<Rightarrow> goal list res \<times> 'e goal_coll" where
  [repo_defs]: "MongoGoalRepository_ListByUser M u c =
    (case find_all M (\<lambda>d. gd_user d = u) (find_sorted (\<lambda>_. 0)) c of
       (Inl e, c') \<Rightarrow> (Inl (db_err e), c')
     | (Inr ds, c') \<Rightarrow> (Inr (map (goal_toDomain M) ds), c'))"

definition MongoGoalRepository_GetByIDForUser ::
  "'e goal_driver \<Rightarrow> string \<Rightarrow> string \<Rightarrow> 'e goal_coll \<Rightarrow> goal res \<times> 'e goal_coll" where
  [repo_defs]: "MongoGoalRepository_GetByIDForUser M s u c =
    (case from_hex M s of
       None \<Rightarrow> (Inl ErrNotFound, c)
     | Some i \<Rightarrow>
        (case find_one M (\<lambda>d. gd_id d = i \<and> gd_user d = u) c of
           (Inl NoDocuments, c') \<Rightarrow> (Inl ErrNotFound, c')
         | (Inl e, c') \<Rightarrow> (Inl (db_err e), c')
         | (Inr d, c') \<Rightarrow> (Inr (goal_toDomain M d), c')))"

definition MongoGoalRepository_Update ::
  "gotime \<Rightarrow> 'e goal_driver \<Rightarrow> goal \<Rightarrow> 'e goal_coll \<Rightarrow> unit res \<times> 'e goal_coll" where
  [repo_defs]: "MongoGoalRepository_Update now M b c =
    (case from_hex M (g_id b) of
       None \<Rightarrow> (Inl ErrNotFound, c)
     | Some i \<Rightarrow>
        (case update_one M (\<lambda>d. gd_id d = i \<and> gd_user d = g_user b) (goal_set now b) c of
           (Inl e, c') \<Rightarrow> (Inl (db_err e), c')
         | (Inr n, c') \<Rightarrow> if n = 0 then (Inl ErrNotFound, c') else (Inr (), c')))"

definition MongoGoalRepository_DeleteByIDForUser ::
  "'e goal_driver \<Rightarrow> string \<Rightarrow> string \<Rightarrow> 'e goal_coll \<Rightarrow> unit res \<times> 'e goal_coll" where
  [repo_defs]: "MongoGoalRepository_DeleteByIDForUser M s u c =
    (case from_hex M s of
       None \<Rightarrow> (Inl ErrNotFound, c)
     | Some i \<Rightarrow>
        (case delete_one M (\<lambda>d. gd_id d = i \<and> gd_user d = u) c of
           (Inl e, c') \<Rightarrow> (Inl (db_err e), c')
         | (Inr n, c') \<Rightarrow> if n = 0 then (Inl ErrNotFound, c') else (Inr (), c')))"

interpretation goal: mutable_repo "lawful (same_id gd_id)" gd_user gd_id goal_toDomain g_user
  "MongoGoalRepository_Create now" MongoGoalRepository_GetByIDForUser
  g_id "goal_set now" "MongoGoalRepository_Update now" MongoGoalRepository_DeleteByIDForUser for now
proof (unfold_locales, goal_cases)
  case (1 M i) then show ?case by (rule hex_roundtrip)
next
  case (2 M d) show ?case by (simp add: goal_toDomain_def)
next
  case (3 M i a c r c')
  from create_shape(1) [OF 3 [unfolded MongoGoalRepository_Create_def]]
  show ?case by (auto simp: goal_newDoc_def)
next
  case (4 M i a c b c')
  from create_shape(2) [OF 4 [unfolded MongoGoalRepository_Create_def]]
  show ?case by (auto simp: goal_newDoc_def)
next
  case (5 M i a c e c') then show ?case unfolding MongoGoalRepository_Create_def by (rule create_shape) simp
next
  case (6 M s u c r c') then show ?case unfolding MongoGoalRepository_GetByIDForUser_def by (rule get_shape)
next
  case (7 M s u c a c') then show ?case unfolding MongoGoalRepository_GetByIDForUser_def by (rule get_shape) simp
next
  case (8 M s u c c') then show ?case unfolding MongoGoalRepository_GetByIDForUser_def by (rule get_shape) simp
next
  case (9 M s u c e c') then show ?case unfolding MongoGoalRepository_GetByIDForUser_def by (rule get_shape) simp
next
  case (10 a d) show ?case by (simp add: goal_set_def)
next
  case (11 a d) show ?case by (simp add: goal_set_def)
next
  case (12 M a c q c') then show ?case unfolding MongoGoalRepository_Update_def by (rule update_shape)
next
  case (13 M a c w c') then show ?case unfolding MongoGoalRepository_Update_def by (rule update_shape) simp
next
  case (14 M a c c') then show ?case unfolding MongoGoalRepository_Update_def by (rule update_shape) simp
next
  case (15 M a c e c') then show ?case unfolding MongoGoalRepository_Update_def by (rule update_shape) simp
next
  case (16 M s u c e c') then show ?case unfolding MongoGoalRepository_DeleteByIDForUser_def by (rule delete_shape) simp
next
  case (17 M s u c q c') then show ?case unfolding MongoGoalRepository_DeleteByIDForUser_def by (rule delete_shape)
next
  case (18 M s u c w c') then show ?case unfolding MongoGoalRepository_DeleteByIDForUser_def by (rule delete_shape) simp
next
  case (19 M s u c c') then show ?case unfolding MongoGoalRepository_DeleteByIDForUser_def by (rule delete_shape) simp
qed

interpretation goall: listed_repo "lawful (same_id gd_id)" gd_user gd_id goal_toDomain g_user
  "MongoGoalRepository_Create now" MongoGoalRepository_GetByIDForUser MongoGoalRepository_ListByUser for now
proof (unfold_locales, goal_cases)
  case (1 M u c e c') then show ?case unfolding MongoGoalRepository_ListByUser_def by (rule list_shape) simp
next
  case (2 M u c q c') then show ?case unfolding MongoGoalRepository_ListByUser_def by (rule list_shape)
next
  case (3 M u c as c') then show ?case
    unfolding MongoGoalRepository_ListByUser_def view_def by (rule list_shape) simp
qed

section \<open>Service\<close>

definition goalService_Create ::
  "'e goal_driver \<Rightarrow> gotime \<Rightarrow> oid \<Rightarrow> string \<Rightarrow> create_goal_input \<Rightarrow> 'e goal_coll \<Rightarrow> goal res \<times> 'e goal_coll" where
  [svc_defs]: "goalService_Create M now i u inp c =
    (if cg_name inp = '''' then (Inl (ErrValidation ''name is required''), c)
     else if fle (cg_target inp) f0 then (Inl (ErrValidation ''target_amount must be greater than zero''), c)
     else if flt budget_maxAmount (cg_target inp) then (Inl (ErrValidation ''target_amount exceeds the maximum allowed value''), c)
     else if is_zero_time (cg_date inp) then (Inl (ErrValidation ''target_date is required''), c)
     else if time_before (cg_date inp) (utc now) then (Inl (ErrValidation ''target_date must be in the future''), c)
     else MongoGoalRepository_Create now M i
        \<lparr>g_id = '''', g_user = u, g_name = cg_name inp, g_target = cg_target inp, g_date = cg_date inp,
         g_current = Fin False 0, g_created = zero_time, g_updated = zero_time\<rparr> c)"

definition goalService_List :: "'e goal_driver \<Rightarrow> string \<Rightarrow> 'e goal_coll \<Rightarrow> goal list res \<times> 'e goal_coll" where
  [svc_defs]: "goalService_List M u c = MongoGoalRepository_ListByUser M u c"

definition goalService_Get :: "'e goal_driver \<Rightarrow> string \<Rightarrow> string \<Rightarrow> 'e goal_coll \<Rightarrow> goal res \<times> 'e goal_coll" where
  [svc_defs]: "goalService_Get M u s c = MongoGoalRepository_GetByIDForUser M s u c"

definition validate_goal_update :: "update_goal_input \<Rightarrow> go_error option" where
  "validate_goal_update inp =
    (if ug_name inp = '''' then Some (ErrValidation ''name is required'')
     else if fle (ug_target inp) f0 then Some (ErrValidation ''target_amount must be greater than zero'')
     else if flt budget_maxAmount (ug_target inp) then Some (ErrValidation ''target_amount exceeds the maximum allowed value'')
     else if is_zero_time (ug_date inp) then Some (ErrValidation ''target_date is required'')
     else if flt (ug_current inp) f0 then Some (ErrValidation ''current_amount must not be negative'')
     else if flt budget_maxAmount (ug_current inp) then Some (ErrValidation ''current_amount exceeds the maximum allowed value'')
     else None)"

definition goalService_Update ::
  "'e goal_driver \<Rightarrow> gotime \<Rightarrow> string \<Rightarrow> string \<Rightarrow> update_goal_input \<Rightarrow> 'e goal_coll \<Rightarrow> goal res \<times> 'e goal_coll" where
  [svc_defs]: "goalService_Update M now u s inp c = (case validate_goal_update inp of
      Some e \<Rightarrow> (Inl e, c)
    | None \<Rightarrow> on_ok (MongoGoalRepository_GetByIDForUser M s u c) (\<lambda>g c1.
        if \<not> time_equal (ug_date inp) (g_date g) \<and> time_before (ug_date inp) (utc now)
        then (Inl (ErrValidation ''target_date must be in the future''), c1)
        else (let g1 = g\<lparr>g_name := ug_name inp, g_target := ug_target inp, g_date := ug_date inp, g_current := ug_current inp\<rparr>
          in on_ok (MongoGoalRepository_Update now M g1 c1) (\<lambda>_ c2. (Inr (g1\<lparr>g_updated := utc now\<rparr>), c2)))))"

definition goalService_Delete :: "'e goal_driver \<Rightarrow> string \<Rightarrow> string \<Rightarrow> 'e goal_coll \<Rightarrow> unit res \<times> 'e goal_coll" where
  [svc_defs]: "goalService_Delete M u s c = MongoGoalRepository_DeleteByIDForUser M s u c"

section \<open>The invariant of the stored goals\<close>

definition wf_goal_doc :: "goal_doc \<Rightarrow> bool" where
  "wf_goal_doc d \<longleftrightarrow> gd_name d \<noteq> '''' \<and> \<not> fle (gd_target d) f0 \<and> \<not> flt budget_maxAmount (gd_target d) \<and>
     \<not> flt (gd_current d) f0 \<and> \<not> flt budget_maxAmount (gd_current d)"

definition goals_inv :: "'e goal_coll \<Rightarrow> bool" where
  "goals_inv c \<longleftrightarrow> coll_ok gd_id wf_goal_doc c"

abbreviation goal_moves :: "string \<Rightarrow> 'e goal_coll \<Rightarrow> 'e goal_coll \<Rightarrow> bool" where
  "goal_moves \<equiv> moves gd_user gd_id wf_goal_doc"

lemma validate_goal_update_ok:
  "validate_goal_update inp = None \<longleftrightarrow> ug_name inp \<noteq> '''' \<and> \<not> fle (ug_target inp) f0 \<and> \<not> flt budget_maxAmount (ug_target inp) \<and>
     \<not> is_zero_time (ug_date inp) \<and> \<not> flt (ug_current inp) f0 \<and> \<not> flt budget_maxAmount (ug_current inp)"
  "validate_goal_update inp = Some e \<Longrightarrow> \<exists>m. e = ErrValidation m"
  by (auto simp: validate_goal_update_def split: if_splits)

text \<open>The progress of a new goal is a legal progress.\<close>

lemma zero_progress: "\<not> flt (Fin False 0) f0" "\<not> flt budget_maxAmount (Fin False 0)"
proof -
  obtain m where "budget_maxAmount = Fin False m" using f64_of_nat_exact [of 1000000000000] by (auto simp: budget_maxAmount_def)
  then show "\<not> flt budget_maxAmount (Fin False 0)" using flt_f0_Fin [of False m] by metis
qed simp

lemma goalService_Create_cases:
  assumes "goalService_Create M now i u inp c = (r, c')"
  obtains (refused) m where "r = Inl (ErrValidation m)" "c' = c"
  | (called) g where "MongoGoalRepository_Create now M i g c = (r, c')" "g_user g = u" "wf_goal_doc (goal_newDoc now i g)"
      "g_date g = cg_date inp" "\<not> time_before (cg_date inp) (utc now)"
proof (cases "cg_name inp = '''' \<or> fle (cg_target inp) f0 \<or> flt budget_maxAmount (cg_target inp) \<or> is_zero_time (cg_date inp) \<or>
    time_before (cg_date inp) (utc now)")
  case True
  with assms refused show ?thesis by (auto simp: goalService_Create_def split: if_splits)
next
  case False
  let ?g = "\<lparr>g_id = '''', g_user = u, g_name = cg_name inp, g_target = cg_target inp, g_date = cg_date inp,
         g_current = Fin False 0, g_created = zero_time, g_updated = zero_time\<rparr>"
  show ?thesis
    by (rule called [of ?g]) (use False assms zero_progress in \<open>simp_all add: goalService_Create_def wf_goal_doc_def goal_newDoc_def\<close>)
qed

lemma goalService_moves:
  assumes M: "lawful (same_id gd_id) M"
  shows "goal_moves u c (snd (goalService_Create M now i u inp c))"
    and "goal_moves u c (snd (goalService_List M u c))"
    and "goal_moves u c (snd (goalService_Get M u s c))"
    and "goal_moves u c (snd (goalService_Update M now u s upd c))"
    and "goal_moves u c (snd (goalService_Delete M u s c))"
proof -
  obtain r c' where r: "goalService_Create M now i u inp c = (r, c')" by (cases "goalService_Create M now i u inp c")
  from r have "goal_moves u c c'"
  proof (cases rule: goalService_Create_cases)
    case (called g)
    show ?thesis
      by (rule goal.create_moves [OF M called(1) _ called(2)])
        (use create_shape(1) [OF M called(1) [unfolded MongoGoalRepository_Create_def]] called(3) in auto)
  qed simp
  with r show "goal_moves u c (snd (goalService_Create M now i u inp c))" by simp
  obtain r c' where "MongoGoalRepository_ListByUser M u c = (r, c')" by (cases "MongoGoalRepository_ListByUser M u c")
  with goall.list_docs [OF M] show "goal_moves u c (snd (goalService_List M u c))"
    by (auto simp: goalService_List_def intro: moves_docs)
  obtain q c1 where q: "MongoGoalRepository_GetByIDForUser M s u c = (q, c1)" by (cases "MongoGoalRepository_GetByIDForUser M s u c")
  have d1: "docs c1 = docs c" by (rule goal.get_docs [OF M q])
  then show "goal_moves u c (snd (goalService_Get M u s c))" using q by (simp add: goalService_Get_def moves_docs)
  show "goal_moves u c (snd (goalService_Update M now u s upd c))"
  proof (cases "validate_goal_update upd")
    case None
    show ?thesis
    proof (cases q)
      case (Inr g)
      let ?g = "g\<lparr>g_name := ug_name upd, g_target := ug_target upd, g_date := ug_date upd, g_current := ug_current upd\<rparr>"
      obtain w c2 where w: "MongoGoalRepository_Update now M ?g c1 = (w, c2)" by (cases "MongoGoalRepository_Update now M ?g c1")
      have "goal_moves u c1 c2"
        by (rule goal.update_moves [OF M w])
          (use None validate_goal_update_ok(1) [of upd] goal.get_owner [OF M q [unfolded Inr]] in \<open>simp_all add: goal_set_def wf_goal_doc_def\<close>)
      then have "goal_moves u c c2" by (rule moves_trans [OF moves_docs [OF d1]])
      with None q Inr w moves_docs [OF d1] show ?thesis by (cases w) (auto simp: goalService_Update_def Let_def)
    qed (use None q d1 in \<open>simp add: goalService_Update_def moves_docs\<close>)
  qed (simp add: goalService_Update_def moves_docs)
  obtain w c2 where w: "MongoGoalRepository_DeleteByIDForUser M s u c = (w, c2)" by (cases "MongoGoalRepository_DeleteByIDForUser M s u c")
  with goal.delete_moves [OF M w] show "goal_moves u c (snd (goalService_Delete M u s c))" by (simp add: goalService_Delete_def)
qed

section \<open>Progress on overdue goals\<close>

text \<open>
  An overdue goal is not locked: whatever the clock says, an update that sends back the
  date that \<open>Get\<close> returned, with otherwise valid fields, is carried out; only the database
  can refuse it.
\<close>

theorem goal_overdue_update:
  assumes M: "lawful (same_id gd_id) M" and inv: "goals_inv c"
    and get: "goalService_Get M u s c = (Inr g, c1)"
    and valid: "validate_goal_update inp = None" and date: "ug_date inp = g_date g"
    and upd: "goalService_Update M now u s inp c1 = (r, c')"
  shows "(\<exists>m. r = Inl (ErrOther m)) \<or> r = Inr (g\<lparr>g_name := ug_name inp, g_target := ug_target inp, g_current := ug_current inp, g_updated := utc now\<rparr>)"
proof -
  note g = get [unfolded goalService_Get_def]
  have d1: "docs c1 = docs c" by (rule goal.get_docs [OF M g])
  obtain d where d: "d \<in> set (docs c)" "from_hex M s = Some (gd_id d)" "gd_user d = u" "g = goal_toDomain M d"
    using goal.get_ok [OF M g] by blast
  obtain q c2 where q: "MongoGoalRepository_GetByIDForUser M s u c1 = (q, c2)" by (cases "MongoGoalRepository_GetByIDForUser M s u c1")
  show ?thesis
  proof (cases q)
    case (Inl e)
    have "e \<noteq> ErrNotFound" using goal.get_none [OF M, of s u c1 c2] q Inl d d1 by auto
    then obtain m where "e = ErrOther m" using goal.get_other [OF M q [unfolded Inl]] by blast
    with upd valid q Inl show ?thesis by (auto simp: goalService_Update_def)
  next
    case (Inr g2)
    obtain d2 where d2: "d2 \<in> set (docs c1)" "from_hex M s = Some (gd_id d2)" "gd_user d2 = u" "g2 = goal_toDomain M d2"
      using goal.get_ok [OF M q [unfolded Inr]] by blast
    have "d2 = d" using ids_distinct_unique [of gd_id c d2 d] inv d d2 d1 by (simp add: goals_inv_def coll_ok_def)
    then have g2: "g2 = g" using d2(4) d(4) by simp
    let ?g = "g\<lparr>g_name := ug_name inp, g_target := ug_target inp, g_date := ug_date inp, g_current := ug_current inp\<rparr>"
    obtain w c3 where w: "MongoGoalRepository_Update now M ?g c2 = (w, c3)" by (cases "MongoGoalRepository_Update now M ?g c2")
    have "time_equal (ug_date inp) (g_date g)" by (simp add: date time_equal_def)
    then have r: "r = (case w of Inl e \<Rightarrow> Inl e | Inr _ \<Rightarrow> Inr (?g\<lparr>g_updated := utc now\<rparr>))"
      using upd valid q Inr g2 w by (cases w) (auto simp: goalService_Update_def Let_def)
    have "d \<in> set (docs c2)" "from_hex M (g_id ?g) = Some (gd_id d)" "gd_user d = g_user ?g"
      using d d1 goal.get_docs [OF M q] hex_roundtrip [OF M] by (simp_all add: goal_toDomain_def)
    then have "w \<noteq> Inl ErrNotFound" using goal.update_none [OF M, of now ?g c2 c3] w by auto
    with r date goal.update_other [OF M, of now ?g c2 _ c3] w show ?thesis by (cases w) auto
  qed
qed

lemma budget_maxAmount_val: "budget_maxAmount = Fin False (1000000000000 * f64_one)"
  unfolding budget_maxAmount_def by (rule f64_of_nat_exact) simp

definition demo_goals :: "goal_doc mem" where
  "demo_goals = mem_coll [\<lparr>gd_id = 7, gd_user = ''ann'', gd_name = ''Trip'', gd_target = Fin False 1, gd_date = 5000,
     gd_current = Fin False 0, gd_created = 0, gd_updated = 0\<rparr>]"

lemma demo_goals_inv: "goals_inv demo_goals"
  by (simp add: goals_inv_def coll_ok_def ids_distinct_def demo_goals_def mem_coll_def wf_goal_doc_def fle_def budget_maxAmount_val f64_one_def)

definition demo_late :: gotime where
  "demo_late = \<lparr>t_sec = 1000, t_nsec = 0, t_off = 0\<rparr>"

theorem goal_overdue_update_witness:
  "\<exists>r. fst (goalService_Update (mem_driver (same_id gd_id)) demo_late ''ann'' (mem_hex 7)
      \<lparr>ug_name = ''Trip'', ug_target = Fin False 1, ug_date = time_of_bson 5000, ug_current = Fin False 1\<rparr> demo_goals) = r \<and>
    ((\<exists>m. r = Inl (ErrOther m)) \<or> (\<exists>g. r = Inr g \<and> g_current g = Fin False 1))"
proof -
  let ?M = "mem_driver (same_id gd_id)"
  let ?inp = "\<lparr>ug_name = ''Trip'', ug_target = Fin False 1, ug_date = time_of_bson 5000, ug_current = Fin False 1\<rparr>"
  have "case goalService_Get ?M ''ann'' (mem_hex 7) demo_goals of (Inr g, c1) \<Rightarrow> g_date g = time_of_bson 5000 \<and> docs c1 = docs demo_goals \<and> env c1 = env demo_goals
     | _ \<Rightarrow> False" by code_simp
  then obtain g c1 where g: "goalService_Get ?M ''ann'' (mem_hex 7) demo_goals = (Inr g, c1)" "g_date g = time_of_bson 5000" "c1 = demo_goals"
    by (auto split: prod.splits sum.splits)
  have v: "validate_goal_update ?inp = None"
    by (simp add: validate_goal_update_def fle_def budget_maxAmount_val f64_one_def is_zero_time_def time_equal_def zero_time_def time_of_bson_def)
  obtain r c2 where r: "goalService_Update ?M demo_late ''ann'' (mem_hex 7) ?inp c1 = (r, c2)"
    by (cases "goalService_Update ?M demo_late ''ann'' (mem_hex 7) ?inp c1")
  have d: "ug_date ?inp = g_date g" using g(2) by simp
  from goal_overdue_update [OF lawful_mem demo_goals_inv g(1) v d r] r g(3) show ?thesis by auto
qed

text \<open>
  The date that \<open>Create\<close> returned is not always the stored one: MongoDB cuts it to the
  millisecond. A client that sends that date back after it has passed is refused.
\<close>

theorem goal_created_date_refused:
  "\<exists>g c1 c2. goalService_Create (mem_driver (same_id gd_id)) \<lparr>t_sec = 0, t_nsec = 0, t_off = 0\<rparr> 9 ''ann''
      \<lparr>cg_name = ''Car'', cg_target = Fin False 1, cg_date = \<lparr>t_sec = 5, t_nsec = 500, t_off = 0\<rparr>\<rparr> demo_goals = (Inr g, c1) \<and>
    goalService_Update (mem_driver (same_id gd_id)) demo_late ''ann'' (g_id g)
      \<lparr>ug_name = g_name g, ug_target = g_target g, ug_date = g_date g, ug_current = Fin False 1\<rparr> c1 =
      (Inl (ErrValidation ''target_date must be in the future''), c2)"
proof -
  let ?M = "mem_driver (same_id gd_id)"
  have h: "mem_from_hex (mem_hex 9) = Some 9" using hex_roundtrip [OF lawful_mem [of "same_id gd_id"], of 9] by (simp add: mem_driver_def)
  show ?thesis
    by (simp add: goalService_Create_def goalService_Update_def MongoGoalRepository_Create_def MongoGoalRepository_GetByIDForUser_def
        validate_goal_update_def fle_def budget_maxAmount_val f64_one_def is_zero_time_def time_equal_def time_before_def zero_time_def
        utc_def demo_late_def demo_goals_def mem_driver_def mem_coll_def mem_call_def h same_id_def goal_newDoc_def goal_toDomain_def
        time_of_bson_def bson_time_def)
qed

end
