(* ===== verification/Budget_Client.thy ===== *)
theory Budget_Client imports Expense_Http begin

text \<open>
  budget-service, the REST client of expense-service (\<open>client/expense_client.go\<close>). The
  network is a parameter \<open>H\<close>: the answer of expense-service to a GET with the
  \<open>X-User-Id\<close> header, or \<open>Inl\<close> when the call fails or its body is no JSON; it may change a
  state of its own. The answer is the envelope as expense-service built it, and the
  DTOs read the JSON fields that the client declares. \<open>n\<close> counts down the pages that
  the loop of \<open>SumExpensesByCategory\<close> may still ask for.
\<close>

type_synonym 's expense_http = "string \<Rightarrow> expense_request \<Rightarrow> 's \<Rightarrow> (string + expense_data response) \<times> 's"

record category_dto =
  cdto_id :: string
  cdto_name :: string
  cdto_type :: string

record transaction_dto =
  tdto_id :: string
  tdto_type :: string
  tdto_amount :: f64

definition reportPageSize :: nat where "reportPageSize = 100"
definition maxReportPages :: nat where "maxReportPages = 50"

definition doGet :: "'s expense_http \<Rightarrow> string \<Rightarrow> expense_request \<Rightarrow> 's \<Rightarrow> expense_data option res \<times> 's" where
  "doGet H userID req s = (case H userID req s of
      (Inl e, s1) \<Rightarrow> (Inl (ErrOther (''calling expense-service: '' @ e)), s1)
    | (Inr resp, s1) \<Rightarrow> (case re_body resp of
         None \<Rightarrow> (Inl (ErrOther ''decoding expense-service response''), s1)
       | Some envl \<Rightarrow>
          if en_success envl then (Inr (en_data envl), s1)
          else (Inl (ErrOther (''expense-service returned an error: '' @
                 (case en_error envl of None \<Rightarrow> ''unknown error'' | Some b \<Rightarrow> eb_message b))), s1)))"

text \<open>Decoding into a struct with one field: an object without that field leaves it empty.\<close>

fun decode_categories :: "expense_data option \<Rightarrow> category_dto list" where
  "decode_categories (Some (DCategories cs)) = map (\<lambda>c. \<lparr>cdto_id = c_id c, cdto_name = c_name c, cdto_type = c_type c\<rparr>) cs"
| "decode_categories _ = []"

fun decode_transactions :: "expense_data option \<Rightarrow> transaction_dto list" where
  "decode_transactions (Some (DTransactions pg)) =
     map (\<lambda>t. \<lparr>tdto_id = tx_id t, tdto_type = tx_type t, tdto_amount = tx_amount t\<rparr>) (tp_transactions pg)"
| "decode_transactions _ = []"

definition findCategoryIDByName ::
  "unicode \<Rightarrow> 's expense_http \<Rightarrow> string \<Rightarrow> string \<Rightarrow> 's \<Rightarrow> string option res \<times> 's" where
  "findCategoryIDByName U H userID name s = on_ok (doGet H userID GetCategories s) (\<lambda>data s1.
     (Inr (map_option cdto_id (find (\<lambda>c. equal_fold U (cdto_name c) name) (decode_categories data))), s1))"

definition page_query :: "string \<Rightarrow> gotime \<Rightarrow> gotime \<Rightarrow> nat \<Rightarrow> transactions_query" where
  "page_query cid from to page =
    \<lparr>qy_account_id = '''', qy_category = cid, qy_page = show_nat page, qy_page_size = show_nat reportPageSize,
     qy_from = format_rfc3339 from, qy_to = format_rfc3339 to\<rparr>"

definition add_expenses :: "f64 \<Rightarrow> transaction_dto list \<Rightarrow> f64" where
  "add_expenses acc txs = fold (\<lambda>t a. if tdto_type t = ''expense'' then fadd a (tdto_amount t) else a) txs acc"

fun sum_pages ::
  "'s expense_http \<Rightarrow> string \<Rightarrow> string \<Rightarrow> gotime \<Rightarrow> gotime \<Rightarrow> nat \<Rightarrow> nat \<Rightarrow> f64 \<Rightarrow> 's \<Rightarrow> f64 res \<times> 's" where
  "sum_pages H userID cid from to 0 page acc s = (Inr acc, s)"
| "sum_pages H userID cid from to (Suc n) page acc s =
    on_ok (doGet H userID (GetTransactions (page_query cid from to page)) s) (\<lambda>data s1.
      let txs = decode_transactions data; acc1 = add_expenses acc txs
      in if length txs < reportPageSize then (Inr acc1, s1)
         else sum_pages H userID cid from to n (Suc page) acc1 s1)"

definition SumExpensesByCategory ::
  "unicode \<Rightarrow> 's expense_http \<Rightarrow> string \<Rightarrow> string \<Rightarrow> gotime \<Rightarrow> gotime \<Rightarrow> 's \<Rightarrow> f64 res \<times> 's" where
  "SumExpensesByCategory U H userID name from to s =
    on_ok (findCategoryIDByName U H userID name s) (\<lambda>found s1.
      case found of None \<Rightarrow> (Inr f0, s1)
      | Some cid \<Rightarrow> sum_pages H userID cid from to maxReportPages 1 f0 s1)"

section \<open>The sum and its bound\<close>

lemma add_expenses_fsum: "add_expenses acc txs = fsum acc (map tdto_amount (filter (\<lambda>t. tdto_type t = ''expense'') txs))"
  unfolding add_expenses_def by (induction txs arbitrary: acc) auto

text \<open>A network that counts the calls made on it.\<close>

definition counted :: "'s expense_http \<Rightarrow> ('s \<times> nat) expense_http" where
  "counted H = (\<lambda>u q (s, k). case H u q s of (r, s1) \<Rightarrow> (r, (s1, Suc k)))"

lemma doGet_counted: "doGet (counted H) u q (s, k) = (case doGet H u q s of (r, s1) \<Rightarrow> (r, (s1, Suc k)))"
  by (auto simp: doGet_def counted_def split: prod.splits sum.splits option.splits)

lemma sum_pages_counted:
  "\<exists>m \<le> n. sum_pages (counted H) u cid from to n page acc (s, k) =
     (case sum_pages H u cid from to n page acc s of (r, s1) \<Rightarrow> (r, (s1, k + m)))"
proof (induction n arbitrary: page acc s k)
  case (Suc n)
  obtain r s1 where r: "doGet H u (GetTransactions (page_query cid from to page)) s = (r, s1)"
    by (cases "doGet H u (GetTransactions (page_query cid from to page)) s")
  show ?case
  proof (cases "\<exists>data. r = Inr data \<and> \<not> length (decode_transactions data) < reportPageSize")
    case True
    then obtain data where d: "r = Inr data" "\<not> length (decode_transactions data) < reportPageSize" by blast
    obtain m where m: "m \<le> n" "sum_pages (counted H) u cid from to n (Suc page) (add_expenses acc (decode_transactions data)) (s1, Suc k) =
       (case sum_pages H u cid from to n (Suc page) (add_expenses acc (decode_transactions data)) s1 of (r, s2) \<Rightarrow> (r, (s2, Suc k + m)))"
      using Suc.IH by blast
    with d r show ?thesis
      by (intro exI [of _ "Suc m"]) (simp add: doGet_counted Let_def split: prod.splits)
  next
    case False
    with r show ?thesis
      by (intro exI [of _ 1]) (cases r; auto simp: doGet_counted Let_def split: prod.splits)
  qed
qed auto

text \<open>
  C37. A report never loops: whatever expense-service answers, one \<open>SumExpensesByCategory\<close>
  returns after at most 51 requests, one for the categories and at most 50 pages; and
  counting the requests does not change its result.
\<close>

theorem sum_requests_bounded:
  "\<exists>m \<le> 51. SumExpensesByCategory U (counted H) userID name from to (s, 0) =
     (case SumExpensesByCategory U H userID name from to s of (r, s1) \<Rightarrow> (r, (s1, m)))"
proof -
  obtain r s1 where r: "doGet H userID GetCategories s = (r, s1)" by (cases "doGet H userID GetCategories s")
  show ?thesis
  proof (cases "\<exists>data cid. r = Inr data \<and> map_option cdto_id (find (\<lambda>c. equal_fold U (cdto_name c) name) (decode_categories data)) = Some cid")
    case True
    then obtain data cid where d: "r = Inr data"
      "map_option cdto_id (find (\<lambda>c. equal_fold U (cdto_name c) name) (decode_categories data)) = Some cid" by blast
    obtain m where m: "m \<le> maxReportPages" "sum_pages (counted H) userID cid from to maxReportPages 1 f0 (s1, 1) =
       (case sum_pages H userID cid from to maxReportPages 1 f0 s1 of (r, s2) \<Rightarrow> (r, (s2, 1 + m)))"
      using sum_pages_counted [of maxReportPages H userID cid "from" to 1 f0 s1 1] by auto
    with d r show ?thesis
      by (intro exI [of _ "1 + m"])
        (simp add: SumExpensesByCategory_def findCategoryIDByName_def doGet_counted maxReportPages_def split: prod.splits)
  next
    case False
    with r show ?thesis
      by (intro exI [of _ 1])
        (cases r; auto simp: SumExpensesByCategory_def findCategoryIDByName_def doGet_counted split: prod.splits option.splits)
  qed
qed

end
