(* ===== verification/Budget_Period.thy ===== *)
theory Budget_Period imports Budget_Budget begin

text \<open>
  budget-service: the start of the current budget period, \<open>currentPeriodStart\<close> of
  \<open>service/overspend_service.go\<close>, and what it means on the calendar.
\<close>

definition currentPeriodStart :: "string \<Rightarrow> gotime \<Rightarrow> gotime" where
  "currentPeriodStart period now =
    (case time_date (utc now) of (y, m, d) \<Rightarrow>
       if period = PeriodWeekly then
         (let offset = (time_weekday (utc now) + 6) mod 7
          in add_days (go_date y m d 0 0 0 0 0) (- offset))
       else if period = PeriodYearly then go_date y 1 1 0 0 0 0 0
       else go_date y m 1 0 0 0 0 0)"

lemma midnight: "go_date y m d 0 0 0 0 0 = \<lparr>t_sec = days_from_civil y m d * 86400, t_nsec = 0, t_off = 0\<rparr>"
  by (simp add: go_date_def)

lemma local_days_midnight: "local_days \<lparr>t_sec = z * 86400, t_nsec = n, t_off = 0\<rparr> = z"
  by (simp add: local_days_def)

lemma day_le: "z * 86400 \<le> t_sec t" "t_sec t < (z + 1) * 86400" if "z = local_days (utc t)"
  using that by (simp_all add: local_days_def utc_def)

lemma new_year_le:
  assumes "1 \<le> m" and "m \<le> 12"
  shows "days_from_civil y 1 1 \<le> days_from_civil y m 1"
proof -
  have "year_start y = year_start (y - 1) + 365 + (if is_leap y then 1 else 0)" using year_start_Suc [of "y - 1"] by simp
  then have "days_from_civil y 1 1 \<le> year_start y + march_doy m 1 - 719468" if "3 \<le> m"
    using months12 [OF assms] that by (elim disjE) (simp_all add: days_from_civil_march march_year_def march_doy_table)
  then show ?thesis
    using months12 [OF assms] by (elim disjE) (simp_all add: days_from_civil_march march_year_def march_doy_table)
qed

lemma week_start:
  fixes z :: int
  defines "w \<equiv> z - (weekday_of z + 6) mod 7"
  shows "weekday_of w = 1" "w \<le> z" "z < w + 7"
proof -
  have k: "0 \<le> (weekday_of z + 6) mod 7" "(weekday_of z + 6) mod 7 < 7" by simp_all
  show "w \<le> z" "z < w + 7" using k by (simp_all add: w_def)
  have e: "(weekday_of z + 6) mod 7 = (z + 10) mod 7" unfolding weekday_of_def by presburger
  have "(z - (z + 10) mod 7 + 4) mod 7 = (z + 4 - (z + 10)) mod 7"
    by (metis add_diff_eq diff_add_eq mod_diff_right_eq)
  then show "weekday_of w = 1" by (simp add: w_def weekday_of_def [of "z - _"] e)
qed

text \<open>
  C38. The start of the current period is a UTC midnight not after the present, and it is the
  right one: the Monday of the present week (at most seven days back), the first day of the
  present month, or the first of January of the present year.
\<close>

theorem period_start_correct:
  assumes "0 \<le> t_nsec now" and "time_date (utc now) = (y, m, d)" and "s = currentPeriodStart p now"
  shows "t_nsec s = 0 \<and> t_off s = 0 \<and> t_sec s mod 86400 = 0 \<and> \<not> time_before now s \<and>
    (if p = PeriodWeekly then time_weekday s = 1 \<and> t_sec now < t_sec s + 7 * 86400
     else if p = PeriodYearly then time_date s = (y, 1, 1)
     else time_date s = (y, m, 1))"
proof -
  define z where "z = local_days (utc now)"
  have c: "civil_from_days z = (y, m, d)" using assms(2) by (simp add: time_date_def z_def)
  then have z: "days_from_civil y m d = z" and v: "valid_ymd y m d" using civil_valid by simp_all
  have now: "z * 86400 \<le> t_sec now" "t_sec now < (z + 1) * 86400" by (rule day_le [OF z_def])+
  have v1: "valid_ymd y m 1" "valid_ymd y 1 1" using v by (auto simp: valid_ymd_def days_in_def)
  have m1: "days_from_civil y m 1 \<le> z" using z v days_from_civil_day [of y m d] by (simp add: valid_ymd_def)
  have y1: "days_from_civil y 1 1 \<le> z" using new_year_le [of m y] v m1 by (simp add: valid_ymd_def)
  have ok: "t_nsec s = 0 \<and> t_off s = 0 \<and> t_sec s mod 86400 = 0 \<and> \<not> time_before now s \<and> local_days s = k"
    if "s = \<lparr>t_sec = k * 86400, t_nsec = 0, t_off = 0\<rparr>" "k \<le> z" for k
  proof -
    have "k * 86400 \<le> t_sec now" using that(2) now(1) by linarith
    then show ?thesis using assms(1) by (auto simp: that(1) time_before_def local_days_def)
  qed
  show ?thesis
  proof (cases "p = PeriodWeekly")
    case True
    define k where "k = z - (weekday_of z + 6) mod 7"
    have s: "s = \<lparr>t_sec = k * 86400, t_nsec = 0, t_off = 0\<rparr>"
      using True z by (simp add: assms(3) currentPeriodStart_def assms(2) midnight add_days_def time_weekday_def z_def [symmetric] k_def algebra_simps)
    note w = week_start [of z, folded k_def]
    have "t_sec now < t_sec s + 7 * 86400" using w(3) now(2) by (simp add: s)
    with ok [OF s w(2)] w(1) True show ?thesis by (simp add: time_weekday_def)
  next
    case False
    define k where "k = days_from_civil y (if p = PeriodYearly then 1 else m) 1"
    have s: "s = \<lparr>t_sec = k * 86400, t_nsec = 0, t_off = 0\<rparr>"
      unfolding assms(3) currentPeriodStart_def assms(2) prod.case midnight k_def using False by (cases "p = PeriodYearly") simp_all
    have "civil_from_days k = (y, if p = PeriodYearly then 1 else m, 1)"
      unfolding k_def using civil_days [OF v1(1)] civil_days [OF v1(2)] by (cases "p = PeriodYearly") (simp_all only: if_True if_False simp_thms)
    moreover have "k \<le> z" using m1 y1 by (simp add: k_def)
    ultimately show ?thesis using ok [OF s] False by (simp only: time_date_def if_False) simp
  qed
qed

theorem period_start_correct_witness:
  "time_date (currentPeriodStart PeriodMonthly \<lparr>t_sec = 1773576000, t_nsec = 5, t_off = 3600\<rparr>) = (2026, 3, 1)"
proof -
  let ?now = "\<lparr>t_sec = 1773576000, t_nsec = 5, t_off = 3600\<rparr>"
  have "0 \<le> t_nsec ?now" "time_date (utc ?now) = (2026, 3, 15)" by code_simp+
  from period_start_correct [OF this refl, of PeriodMonthly] show ?thesis
    by (simp add: PeriodMonthly_def PeriodWeekly_def PeriodYearly_def)
qed

text \<open>A period start survives the millisecond clock of the database.\<close>

lemma period_start_exact: "time_of_bson (bson_time (currentPeriodStart p now)) = currentPeriodStart p now"
  by (simp add: currentPeriodStart_def midnight add_days_def time_of_bson_def bson_time_def Let_def split: prod.splits)

end
