(* ===== verification/Budget_Overspend.thy ===== *)
theory Budget_Overspend imports Budget_Period Budget_Goal Budget_Client "HOL-Library.Sublist" begin

text \<open>
  budget-service: the report (\<open>service/report_service.go\<close>), the overspend check that runs
  for every \<open>finora.transaction.created\<close> event (\<open>service/overspend_service.go\<close>) and the
  publisher of \<open>finora.budget.overspent\<close> (\<open>events/publisher.go\<close>). The database and the
  network that the expense client talks to are threaded side by side; \<open>gen k\<close> gives the
  clock and the object id that the \<open>k\<close>-th notification of a pass draws. Log lines are left
  out.
\<close>

section \<open>State\<close>

record 'e budget_db =
  db_budgets :: "'e budget_coll"
  db_goals :: "'e goal_coll"
  db_bout :: "'e outbox_coll"

record 'e budget_drivers =
  m_budgets :: "'e budget_driver"
  m_goals :: "'e goal_driver"
  m_bout :: "'e outbox_driver"

definition lawful_budget :: "'e budget_drivers \<Rightarrow> bool" where
  "lawful_budget D \<longleftrightarrow> lawful (same_id bd_id) (m_budgets D) \<and> lawful (same_id gd_id) (m_goals D) \<and> lawful (same_id ev_id) (m_bout D)"

lemma lawful_budgetD:
  assumes "lawful_budget D"
  shows "lawful (same_id bd_id) (m_budgets D)" "lawful (same_id gd_id) (m_goals D)" "lawful (same_id ev_id) (m_bout D)"
  using assms by (simp_all add: lawful_budget_def)

section \<open>The report\<close>

record category_summary =
  cs_category :: string
  cs_period :: string
  cs_budgeted :: f64
  cs_actual :: f64
  cs_remaining :: f64

record report_summary =
  rs_from :: string
  rs_to :: string
  rs_categories :: "category_summary list"
  rs_budgeted :: f64
  rs_actual :: f64

fun summary_loop ::
  "unicode \<Rightarrow> 's expense_http \<Rightarrow> string \<Rightarrow> gotime \<Rightarrow> gotime \<Rightarrow> budget list \<Rightarrow> report_summary \<Rightarrow> 's \<Rightarrow> report_summary res \<times> 's" where
  "summary_loop U H u from to [] acc net = (Inr acc, net)"
| "summary_loop U H u from to (b # bs) acc net =
    on_ok (SumExpensesByCategory U H u (b_category b) from to net) (\<lambda>actual net1.
      summary_loop U H u from to bs
        (acc\<lparr>rs_categories := rs_categories acc @ [\<lparr>cs_category = b_category b, cs_period = b_period b, cs_budgeted = b_amount b,
               cs_actual = actual, cs_remaining = fsub (b_amount b) actual\<rparr>],
             rs_budgeted := fadd (rs_budgeted acc) (b_amount b),
             rs_actual := fadd (rs_actual acc) actual\<rparr>) net1)"

definition reportService_Summary ::
  "unicode \<Rightarrow> 's expense_http \<Rightarrow> 'e budget_driver \<Rightarrow> string \<Rightarrow> gotime \<Rightarrow> gotime \<Rightarrow> 'e budget_coll \<times> 's \<Rightarrow>
   report_summary res \<times> 'e budget_coll \<times> 's" where
  "reportService_Summary U H M u from to = (\<lambda>(c, net).
    case MongoBudgetRepository_ListByUser M u c of
      (Inl e, c1) \<Rightarrow> (Inl e, (c1, net))
    | (Inr budgets, c1) \<Rightarrow>
       (case summary_loop U H u from to budgets
          \<lparr>rs_from = format_rfc3339 from, rs_to = format_rfc3339 to, rs_categories = [], rs_budgeted = f0, rs_actual = f0\<rparr> net of
          (r, net1) \<Rightarrow> (r, (c1, net1))))"

section \<open>Overspend\<close>

definition BudgetOverspentSubject :: string where "BudgetOverspentSubject = ''finora.budget.overspent''"

record overspent_event =
  oe_budget :: string
  oe_user :: string
  oe_category :: string
  oe_period :: string
  oe_budgeted :: f64
  oe_actual :: f64
  oe_start :: string

definition overspent_json :: "overspent_event \<Rightarrow> json option" where
  "overspent_json e = (case json_float (oe_budgeted e) of None \<Rightarrow> None
    | Some b \<Rightarrow> map_option (\<lambda>a. JObj
       [(''budget_id'', JStr (oe_budget e)), (''user_id'', JStr (oe_user e)), (''category'', JStr (oe_category e)),
        (''period'', JStr (oe_period e)), (''budgeted'', b), (''actual'', a), (''period_start'', JStr (oe_start e))])
       (json_float (oe_actual e)))"

definition OutboxPublisher_PublishBudgetOverspent ::
  "'e outbox_driver \<Rightarrow> gotime \<Rightarrow> oid \<Rightarrow> overspent_event \<Rightarrow> 'e outbox_coll \<Rightarrow> unit res \<times> 'e outbox_coll" where
  "OutboxPublisher_PublishBudgetOverspent M now i e c = (case overspent_json e of
      None \<Rightarrow> (Inl (ErrOther ''json: unsupported value''), c)
    | Some payload \<Rightarrow> Store_Enqueue M now i BudgetOverspentSubject payload (oe_budget e @ '':'' @ oe_start e) c)"

definition overspent_of :: "string \<Rightarrow> budget \<Rightarrow> f64 \<Rightarrow> gotime \<Rightarrow> overspent_event" where
  "overspent_of u b actual from = \<lparr>oe_budget = b_id b, oe_user = u, oe_category = b_category b, oe_period = b_period b,
     oe_budgeted = b_amount b, oe_actual = actual, oe_start = format_rfc3339 from\<rparr>"

definition notifyIfOverspent ::
  "'e budget_drivers \<Rightarrow> gotime \<times> oid \<Rightarrow> string \<Rightarrow> budget \<Rightarrow> f64 \<Rightarrow> gotime \<Rightarrow> 'e budget_db \<Rightarrow> 'e budget_db" where
  "notifyIfOverspent D g u b actual from s =
    (if (case b_notified b of None \<Rightarrow> False | Some t \<Rightarrow> time_equal t from) then s
     else (case OutboxPublisher_PublishBudgetOverspent (m_bout D) (fst g) (snd g) (overspent_of u b actual from) (db_bout s) of
        (Inl _, c) \<Rightarrow> s\<lparr>db_bout := c\<rparr>
      | (Inr _, c) \<Rightarrow>
         s\<lparr>db_bout := c,
           db_budgets := snd (MongoBudgetRepository_Update (fst g) (m_budgets D) (b\<lparr>b_notified := Some from\<rparr>) (db_budgets s))\<rparr>))"

fun overspend_loop ::
  "unicode \<Rightarrow> 's expense_http \<Rightarrow> 'e budget_drivers \<Rightarrow> (nat \<Rightarrow> gotime \<times> oid) \<Rightarrow> string \<Rightarrow> gotime \<Rightarrow> nat \<Rightarrow> budget list \<Rightarrow>
   'e budget_db \<Rightarrow> 's \<Rightarrow> 'e budget_db \<times> 's" where
  "overspend_loop U H D gen u now k [] s net = (s, net)"
| "overspend_loop U H D gen u now k (b # bs) s net =
    (let from = currentPeriodStart (b_period b) now in
     case SumExpensesByCategory U H u (b_category b) from now net of
       (Inl _, net1) \<Rightarrow> overspend_loop U H D gen u now (Suc k) bs s net1
     | (Inr actual, net1) \<Rightarrow>
        overspend_loop U H D gen u now (Suc k) bs
          (if flt (fsub (b_amount b) actual) f0 then notifyIfOverspent D (gen k) u b actual from s else s) net1)"

definition HandleTransactionCreated ::
  "unicode \<Rightarrow> 's expense_http \<Rightarrow> 'e budget_drivers \<Rightarrow> (nat \<Rightarrow> gotime \<times> oid) \<Rightarrow> string \<Rightarrow> gotime \<Rightarrow> 'e budget_db \<times> 's \<Rightarrow>
   unit res \<times> 'e budget_db \<times> 's" where
  "HandleTransactionCreated U H D gen u now = (\<lambda>(s, net).
    case MongoBudgetRepository_ListByUser (m_budgets D) u (db_budgets s) of
      (Inl e, c) \<Rightarrow> (Inl e, (s\<lparr>db_budgets := c\<rparr>, net))
    | (Inr budgets, c) \<Rightarrow> (Inr (), overspend_loop U H D gen u now 0 budgets (s\<lparr>db_budgets := c\<rparr>) net))"

section \<open>The report adds up\<close>

lemma summary_loop_result:
  "summary_loop U H u from to bs acc net = (Inr rep, net') \<Longrightarrow>
   \<exists>cs. rs_categories rep = rs_categories acc @ cs \<and>
     list_all2 (\<lambda>b c. cs_category c = b_category b \<and> cs_period c = b_period b \<and> cs_budgeted c = b_amount b \<and>
        cs_remaining c = fsub (b_amount b) (cs_actual c) \<and> (\<exists>n n'. SumExpensesByCategory U H u (b_category b) from to n = (Inr (cs_actual c), n'))) bs cs \<and>
     rs_budgeted rep = fsum (rs_budgeted acc) (map cs_budgeted cs) \<and> rs_actual rep = fsum (rs_actual acc) (map cs_actual cs) \<and>
     rs_from rep = rs_from acc \<and> rs_to rep = rs_to acc"
proof (induction bs arbitrary: acc net)
  case (Cons b bs)
  obtain actual net1 where a: "SumExpensesByCategory U H u (b_category b) from to net = (Inr actual, net1)"
    and rest: "summary_loop U H u from to bs (acc\<lparr>rs_categories := rs_categories acc @ [\<lparr>cs_category = b_category b, cs_period = b_period b,
       cs_budgeted = b_amount b, cs_actual = actual, cs_remaining = fsub (b_amount b) actual\<rparr>],
       rs_budgeted := fadd (rs_budgeted acc) (b_amount b), rs_actual := fadd (rs_actual acc) actual\<rparr>) net1 = (Inr rep, net')"
    using Cons.prems by (auto elim: on_okE)
  obtain cs where cs: "rs_categories rep = (rs_categories acc @ [\<lparr>cs_category = b_category b, cs_period = b_period b,
       cs_budgeted = b_amount b, cs_actual = actual, cs_remaining = fsub (b_amount b) actual\<rparr>]) @ cs"
    "list_all2 (\<lambda>b c. cs_category c = b_category b \<and> cs_period c = b_period b \<and> cs_budgeted c = b_amount b \<and>
        cs_remaining c = fsub (b_amount b) (cs_actual c) \<and> (\<exists>n n'. SumExpensesByCategory U H u (b_category b) from to n = (Inr (cs_actual c), n'))) bs cs"
    "rs_budgeted rep = fsum (fadd (rs_budgeted acc) (b_amount b)) (map cs_budgeted cs)"
    "rs_actual rep = fsum (fadd (rs_actual acc) actual) (map cs_actual cs)" "rs_from rep = rs_from acc" "rs_to rep = rs_to acc"
    using Cons.IH [OF rest] by auto
  show ?case
    by (rule exI [of _ "\<lparr>cs_category = b_category b, cs_period = b_period b, cs_budgeted = b_amount b, cs_actual = actual,
          cs_remaining = fsub (b_amount b) actual\<rparr> # cs"]) (use cs a in auto)
qed simp

text \<open>
  C35. The report is one line per budget of the caller, each with the sum that the expense
  client returned for its category and the difference to the budget, and totals that are
  the sums of the lines; building it changes no budget. The line is negative exactly when
  the actual spending is above the budget.
\<close>

theorem report_summary_correct:
  assumes "lawful (same_id bd_id) M" and "reportService_Summary U H M u from to (c, net) = (Inr rep, (c', net'))"
  shows "docs c' = docs c \<and> rs_from rep = format_rfc3339 from \<and> rs_to rep = format_rfc3339 to \<and>
    image_mset (\<lambda>l. (cs_category l, cs_period l, cs_budgeted l)) (mset (rs_categories rep)) =
      image_mset (\<lambda>d. (bd_category d, bd_period d, bd_amount d)) (mset (view bd_user u c)) \<and>
    (\<forall>l \<in> set (rs_categories rep). cs_remaining l = fsub (cs_budgeted l) (cs_actual l) \<and>
       (flt (cs_remaining l) f0 \<longleftrightarrow> flt (cs_budgeted l) (cs_actual l)) \<and>
       (\<exists>n n'. SumExpensesByCategory U H u (cs_category l) from to n = (Inr (cs_actual l), n'))) \<and>
    rs_budgeted rep = fsum f0 (map cs_budgeted (rs_categories rep)) \<and> rs_actual rep = fsum f0 (map cs_actual (rs_categories rep))"
proof -
  obtain bs where l: "MongoBudgetRepository_ListByUser M u c = (Inr bs, c')"
    and loop: "summary_loop U H u from to bs \<lparr>rs_from = format_rfc3339 from, rs_to = format_rfc3339 to, rs_categories = [], rs_budgeted = f0, rs_actual = f0\<rparr> net = (Inr rep, net')"
    using assms(2) by (auto simp: reportService_Summary_def split: prod.splits sum.splits)
  from summary_loop_result [OF loop] obtain cs where cs: "rs_categories rep = cs"
    "list_all2 (\<lambda>b c. cs_category c = b_category b \<and> cs_period c = b_period b \<and> cs_budgeted c = b_amount b \<and>
        cs_remaining c = fsub (b_amount b) (cs_actual c) \<and> (\<exists>n n'. SumExpensesByCategory U H u (b_category b) from to n = (Inr (cs_actual c), n'))) bs cs"
    "rs_budgeted rep = fsum f0 (map cs_budgeted cs)" "rs_actual rep = fsum f0 (map cs_actual cs)"
    "rs_from rep = format_rfc3339 from" "rs_to rep = format_rfc3339 to" by auto
  have "map (\<lambda>l. (cs_category l, cs_period l, cs_budgeted l)) cs = map (\<lambda>b. (b_category b, b_period b, b_amount b)) bs"
    using cs(2) by (induction rule: list_all2_induct) auto
  then have "image_mset (\<lambda>l. (cs_category l, cs_period l, cs_budgeted l)) (mset cs) = image_mset (\<lambda>b. (b_category b, b_period b, b_amount b)) (mset bs)"
    by (simp only: mset_map [symmetric])
  also have "\<dots> = image_mset (\<lambda>d. (bd_category d, bd_period d, bd_amount d)) (mset (view bd_user u c))"
    using budl.list_ok [OF assms(1) l] by (simp add: budget_toDomain_def comp_def multiset.map_comp)
  finally have lines: "image_mset (\<lambda>l. (cs_category l, cs_period l, cs_budgeted l)) (mset cs) =
      image_mset (\<lambda>d. (bd_category d, bd_period d, bd_amount d)) (mset (view bd_user u c))" .
  have each: "\<forall>l \<in> set cs. cs_remaining l = fsub (cs_budgeted l) (cs_actual l) \<and>
       (flt (cs_remaining l) f0 \<longleftrightarrow> flt (cs_budgeted l) (cs_actual l)) \<and>
       (\<exists>n n'. SumExpensesByCategory U H u (cs_category l) from to n = (Inr (cs_actual l), n'))"
    using cs(2)
  proof (induction rule: list_all2_induct)
    case (Cons b bs l cs)
    then show ?case unfolding list.set ball_simps by (intro conjI) (simp_all add: flt_fsub_zero)
  qed simp
  show ?thesis unfolding cs(1) by (intro conjI budl.list_docs [OF assms(1) l] cs(3-6) lines each)
qed

section \<open>What the overspend check queues\<close>

text \<open>
  The budgets of one pass, as they were listed: all of \<open>u\<close>, with distinct ids, and such that
  writing one back keeps its document well formed.
\<close>

definition listed :: "string \<Rightarrow> budget list \<Rightarrow> bool" where
  "listed u bs \<longleftrightarrow> distinct (map b_id bs) \<and>
     (\<forall>b \<in> set bs. b_user b = u \<and> (\<forall>now t d. wf_budget_doc (budget_set now (b\<lparr>b_notified := t\<rparr>) d)))"

definition already_notified :: "budget \<Rightarrow> gotime \<Rightarrow> bool" where
  "already_notified b from \<longleftrightarrow> (case b_notified b of None \<Rightarrow> False | Some t \<Rightarrow> time_equal t from)"

definition overspent_msg :: "string \<Rightarrow> budget \<Rightarrow> f64 \<Rightarrow> gotime \<Rightarrow> outbox_event \<Rightarrow> bool" where
  "overspent_msg u b actual from e \<longleftrightarrow> ev_subject e = BudgetOverspentSubject \<and> ev_published e = None \<and>
     overspent_json (overspent_of u b actual from) = Some (ev_payload e) \<and> ev_msg_id e = b_id b @ '':'' @ format_rfc3339 from"

lemma listed_Cons: "listed u (b # bs) \<Longrightarrow> listed u bs"
  by (simp add: listed_def)

lemma list_listed:
  assumes D: "lawful (same_id bd_id) M" and inv: "budgets_inv c"
    and l: "MongoBudgetRepository_ListByUser M u c = (Inr bs, c')"
  shows "listed u bs" and "\<forall>b \<in> set bs. \<exists>d \<in> set (docs c). bd_user d = u \<and> b = budget_toDomain M d"
proof -
  have m: "mset bs = mset (map (budget_toDomain M) (view bd_user u c))" by (rule budl.list_ok [OF D l])
  then have s: "set bs = budget_toDomain M ` set (view bd_user u c)" by (metis list.set_map set_mset_mset)
  then show ex: "\<forall>b \<in> set bs. \<exists>d \<in> set (docs c). bd_user d = u \<and> b = budget_toDomain M d" by (auto simp: view_def)
  have "distinct (map bd_id (view bd_user u c))"
    using inv by (auto simp: budgets_inv_def coll_ok_def ids_distinct_def view_def distinct_map_filter)
  then have "distinct (map (hex M) (map bd_id (view bd_user u c)))"
    unfolding distinct_map [of "hex M"] using hex_inj [OF D] by (auto simp: inj_on_def)
  then have "distinct (map b_id (map (budget_toDomain M) (view bd_user u c)))" by (simp add: budget_toDomain_def comp_def)
  moreover have "mset (map b_id bs) = mset (map b_id (map (budget_toDomain M) (view bd_user u c)))" using m by (simp only: mset_map)
  ultimately have "distinct (map b_id bs)" by (metis mset_eq_imp_distinct_iff)
  moreover have "wf_budget_doc (budget_set now (b\<lparr>b_notified := t\<rparr>) d)" if "b \<in> set bs" for b now t d
    using bspec [OF ex that] inv by (auto simp: budgets_inv_def coll_ok_def budget_toDomain_def budget_set_def wf_budget_doc_def)
  moreover have "b_user b = u" if "b \<in> set bs" for b using bspec [OF ex that] by (auto simp: budget_toDomain_def)
  ultimately show "listed u bs" by (simp add: listed_def)
qed

text \<open>One notification: at most one event, and the update that remembers it.\<close>

lemma enqueue_overspent:
  assumes "lawful (same_id ev_id) M" and "OutboxPublisher_PublishBudgetOverspent M now i (overspent_of u b actual from) c = (r, c')"
  shows "docs c' = docs c \<or> (\<exists>e. docs c' = docs c @ [e] \<and> overspent_msg u b actual from e)"
    and "r = Inr w \<Longrightarrow> \<exists>e. docs c' = docs c @ [e] \<and> overspent_msg u b actual from e"
proof -
  have "(docs c' = docs c \<or> (\<exists>e. docs c' = docs c @ [e] \<and> overspent_msg u b actual from e)) \<and>
    (r = Inr w \<longrightarrow> (\<exists>e. docs c' = docs c @ [e] \<and> overspent_msg u b actual from e))"
  proof (cases "overspent_json (overspent_of u b actual from)")
    case None
    then show ?thesis using assms(2) by (auto simp: OutboxPublisher_PublishBudgetOverspent_def)
  next
    case (Some p)
    let ?e = "\<lparr>ev_id = i, ev_subject = BudgetOverspentSubject, ev_msg_id = b_id b @ '':'' @ format_rfc3339 from, ev_payload = p,
      ev_created = bson_time (utc now), ev_published = None\<rparr>"
    obtain q c1 where q: "insert_one M ?e c = (q, c1)" by (cases "insert_one M ?e c")
    have rc: "c1 = c'" "r = Inr w \<Longrightarrow> \<exists>v. q = Inr v"
      using assms(2) Some q by (cases q; auto simp: OutboxPublisher_PublishBudgetOverspent_def Store_Enqueue_def overspent_of_def)+
    have e: "overspent_msg u b actual from ?e" using Some by (simp add: overspent_msg_def)
    show ?thesis using insert_any [OF assms(1) q] insert_ok(1) [OF assms(1)] q rc e by blast
  qed
  then show "docs c' = docs c \<or> (\<exists>e. docs c' = docs c @ [e] \<and> overspent_msg u b actual from e)"
    and "r = Inr w \<Longrightarrow> \<exists>e. docs c' = docs c @ [e] \<and> overspent_msg u b actual from e" by blast+
qed

lemma notify_effect:
  assumes D: "lawful_budget D" and n: "notifyIfOverspent D g u b actual from s = s'"
  shows "db_goals s' = db_goals s"
    and "docs (db_bout s') = docs (db_bout s) \<or>
      (\<exists>e. docs (db_bout s') = docs (db_bout s) @ [e] \<and> overspent_msg u b actual from e \<and> \<not> already_notified b from)"
    and "db_budgets s' = db_budgets s \<or>
      (\<exists>q. MongoBudgetRepository_Update (fst g) (m_budgets D) (b\<lparr>b_notified := Some from\<rparr>) (db_budgets s) = (q, db_budgets s'))"
proof -
  obtain r c where p: "OutboxPublisher_PublishBudgetOverspent (m_bout D) (fst g) (snd g) (overspent_of u b actual from) (db_bout s) = (r, c)"
    by (cases "OutboxPublisher_PublishBudgetOverspent (m_bout D) (fst g) (snd g) (overspent_of u b actual from) (db_bout s)")
  have s': "s' = (if already_notified b from then s else (case r of Inl _ \<Rightarrow> s\<lparr>db_bout := c\<rparr> | Inr _ \<Rightarrow> s\<lparr>db_bout := c,
     db_budgets := snd (MongoBudgetRepository_Update (fst g) (m_budgets D) (b\<lparr>b_notified := Some from\<rparr>) (db_budgets s))\<rparr>))"
    unfolding n [symmetric] notifyIfOverspent_def p already_notified_def by (simp split: sum.split)
  show "db_goals s' = db_goals s" by (simp add: s' split: sum.split)
  show "docs (db_bout s') = docs (db_bout s) \<or>
      (\<exists>e. docs (db_bout s') = docs (db_bout s) @ [e] \<and> overspent_msg u b actual from e \<and> \<not> already_notified b from)"
    using enqueue_overspent(1) [OF lawful_budgetD(3) [OF D] p] by (simp add: s' split: sum.split)
  show "db_budgets s' = db_budgets s \<or>
      (\<exists>q. MongoBudgetRepository_Update (fst g) (m_budgets D) (b\<lparr>b_notified := Some from\<rparr>) (db_budgets s) = (q, db_budgets s'))"
    by (cases "MongoBudgetRepository_Update (fst g) (m_budgets D) (b\<lparr>b_notified := Some from\<rparr>) (db_budgets s)")
      (simp add: s' split: sum.split)
qed

lemma notify_moves:
  assumes D: "lawful_budget D" and b: "listed u (b # bs)"
  shows "budget_moves u (db_budgets s) (db_budgets (notifyIfOverspent D g u b actual from s))"
  using notify_effect(3) [OF D refl, of g u b actual "from" s]
proof (elim disjE exE)
  fix q
  assume q: "MongoBudgetRepository_Update (fst g) (m_budgets D) (b\<lparr>b_notified := Some from\<rparr>) (db_budgets s) =
     (q, db_budgets (notifyIfOverspent D g u b actual from s))"
  show ?thesis
    by (rule bud.update_moves [OF lawful_budgetD(1) [OF D] q]) (use b in \<open>simp_all add: listed_def\<close>)
qed simp

text \<open>
  The events of one pass: each comes from a budget of \<open>sel\<close> (with the sum that the client
  returned for it), is due, and was not sent for this period before.
\<close>

definition due :: "unicode \<Rightarrow> 's expense_http \<Rightarrow> string \<Rightarrow> gotime \<Rightarrow> budget \<times> f64 \<Rightarrow> outbox_event \<Rightarrow> bool" where
  "due U H u now p e \<longleftrightarrow> (case p of (b, actual) \<Rightarrow>
     overspent_msg u b actual (currentPeriodStart (b_period b) now) e \<and>
     \<not> already_notified b (currentPeriodStart (b_period b) now) \<and> flt (b_amount b) actual \<and>
     (\<exists>n n'. SumExpensesByCategory U H u (b_category b) (currentPeriodStart (b_period b) now) now n = (Inr actual, n')))"

lemma subseq_distinct: "subseq xs ys \<Longrightarrow> distinct ys \<Longrightarrow> distinct xs"
  by (auto simp: subseq_conv_nths)

lemma subseq_set: "subseq xs ys \<Longrightarrow> set xs \<subseteq> set ys"
  by (auto simp: subseq_conv_nths dest: in_set_nthsD)

lemma due_step:
  assumes D: "lawful_budget D" and sum: "SumExpensesByCategory U H u (b_category b) (currentPeriodStart (b_period b) now) now net = (Inr actual, net1)"
    and s1: "s1 = (if flt (fsub (b_amount b) actual) f0 then notifyIfOverspent D g u b actual (currentPeriodStart (b_period b) now) s else s)"
  shows "docs (db_bout s1) = docs (db_bout s) \<or> (\<exists>e. docs (db_bout s1) = docs (db_bout s) @ [e] \<and> due U H u now (b, actual) e)"
proof (cases "flt (fsub (b_amount b) actual) f0")
  case True
  have "\<exists>n n'. SumExpensesByCategory U H u (b_category b) (currentPeriodStart (b_period b) now) now n = (Inr actual, n')" using sum by blast
  with True notify_effect(2) [OF D, of g u b actual "currentPeriodStart (b_period b) now" s s1] s1 show ?thesis
    by (simp only: due_def prod.case if_True flt_fsub_zero) blast
qed (simp add: s1)

lemma overspend_loop_sound:
  assumes D: "lawful_budget D"
  shows "listed u bs \<Longrightarrow> overspend_loop U H D gen u now k bs s net = (s', net') \<Longrightarrow>
    db_goals s' = db_goals s \<and> budget_moves u (db_budgets s) (db_budgets s') \<and>
    (\<exists>sel new. docs (db_bout s') = docs (db_bout s) @ new \<and> subseq (map fst sel) bs \<and> list_all2 (due U H u now) sel new)"
proof (induction bs arbitrary: k s net)
  case (Cons b bs)
  let ?from = "currentPeriodStart (b_period b) now"
  obtain r net1 where r: "SumExpensesByCategory U H u (b_category b) ?from now net = (r, net1)"
    by (cases "SumExpensesByCategory U H u (b_category b) ?from now net")
  note IH = Cons.IH [OF listed_Cons [OF Cons.prems(1)]]
  show ?case
  proof (cases r)
    case (Inl e)
    with r Cons.prems(2) have "overspend_loop U H D gen u now (Suc k) bs s net1 = (s', net')" by (simp add: Let_def)
    from IH [OF this] show ?thesis by auto
  next
    case (Inr actual)
    define s1 where "s1 = (if flt (fsub (b_amount b) actual) f0 then notifyIfOverspent D (gen k) u b actual ?from s else s)"
    have "overspend_loop U H D gen u now (Suc k) bs s1 net1 = (s', net')"
      using r Inr Cons.prems(2) by (simp add: Let_def s1_def)
    from IH [OF this] obtain sel new where rest: "db_goals s' = db_goals s1" "budget_moves u (db_budgets s1) (db_budgets s')"
      "docs (db_bout s') = docs (db_bout s1) @ new" "subseq (map fst sel) bs" "list_all2 (due U H u now) sel new" by blast
    have g: "db_goals s1 = db_goals s" using notify_effect(1) [OF D refl] by (simp add: s1_def)
    have m: "budget_moves u (db_budgets s) (db_budgets s1)" using notify_moves [OF D Cons.prems(1)] by (simp add: s1_def)
    from due_step [OF D r [unfolded Inr] s1_def] show ?thesis
    proof (elim disjE exE conjE)
      assume "docs (db_bout s1) = docs (db_bout s)"
      then have "docs (db_bout s') = docs (db_bout s) @ new" using rest(3) by simp
      then show ?thesis using rest(1,4,5) g moves_trans [OF m rest(2)] by auto
    next
      fix e assume e: "docs (db_bout s1) = docs (db_bout s) @ [e]" "due U H u now (b, actual) e"
      have "docs (db_bout s') = docs (db_bout s) @ e # new" using rest(3) e(1) by simp
      moreover have "subseq (map fst ((b, actual) # sel)) (b # bs)" using rest(4) by simp
      moreover have "list_all2 (due U H u now) ((b, actual) # sel) (e # new)" using rest(5) e(2) by simp
      ultimately show ?thesis using rest(1) g moves_trans [OF m rest(2)]
        by (intro conjI exI [of _ "(b, actual) # sel"] exI [of _ "e # new"]) simp_all
    qed
  qed
qed (auto intro!: exI [of _ "[]"])

lemma handle_sound:
  assumes D: "lawful_budget D" and inv: "budgets_inv (db_budgets s)"
    and run: "HandleTransactionCreated U H D gen u now (s, net) = (r, (s', net'))"
  shows "db_goals s' = db_goals s" and "budget_moves u (db_budgets s) (db_budgets s')"
    and "\<exists>sel new. docs (db_bout s') = docs (db_bout s) @ new \<and> list_all2 (due U H u now) sel new \<and> distinct (map (b_id \<circ> fst) sel) \<and>
       (\<forall>(b, actual) \<in> set sel. \<exists>d \<in> set (view bd_user u (db_budgets s)). b = budget_toDomain (m_budgets D) d)"
proof -
  obtain q c where l: "MongoBudgetRepository_ListByUser (m_budgets D) u (db_budgets s) = (q, c)"
    by (cases "MongoBudgetRepository_ListByUser (m_budgets D) u (db_budgets s)")
  have c: "docs c = docs (db_budgets s)" by (rule budl.list_docs [OF lawful_budgetD(1) [OF D] l])
  then have m0: "budget_moves u (db_budgets s) c" by (rule moves_docs)
  have "db_goals s' = db_goals s \<and> budget_moves u (db_budgets s) (db_budgets s') \<and>
    (\<exists>sel new. docs (db_bout s') = docs (db_bout s) @ new \<and> list_all2 (due U H u now) sel new \<and> distinct (map (b_id \<circ> fst) sel) \<and>
       (\<forall>(b, actual) \<in> set sel. \<exists>d \<in> set (view bd_user u (db_budgets s)). b = budget_toDomain (m_budgets D) d))"
  proof (cases q)
    case (Inl e)
    with run l have "s' = s\<lparr>db_budgets := c\<rparr>" by (simp add: HandleTransactionCreated_def)
    with m0 show ?thesis by (auto intro!: exI [of _ "[]"])
  next
    case (Inr bs)
    with run l have loop: "overspend_loop U H D gen u now 0 bs (s\<lparr>db_budgets := c\<rparr>) net = (s', net')"
      by (simp add: HandleTransactionCreated_def)
    note lst = list_listed [OF lawful_budgetD(1) [OF D] inv l [unfolded Inr]]
    from overspend_loop_sound [OF D lst(1) loop] obtain sel new where res: "db_goals s' = db_goals s" "budget_moves u c (db_budgets s')"
      "docs (db_bout s') = docs (db_bout s) @ new" "subseq (map fst sel) bs" "list_all2 (due U H u now) sel new" by auto
    have "subseq (map b_id (map fst sel)) (map b_id bs)" by (rule subseq_map [OF res(4)])
    then have d: "distinct (map (b_id \<circ> fst) sel)" using lst(1) by (simp add: listed_def subseq_distinct)
    have "set (map fst sel) \<subseteq> set bs" by (rule subseq_set [OF res(4)])
    then have o: "\<forall>(b, actual) \<in> set sel. \<exists>d \<in> set (view bd_user u (db_budgets s)). b = budget_toDomain (m_budgets D) d"
      using lst(2) by (fastforce simp: view_def)
    show ?thesis by (intro conjI exI [of _ sel] exI [of _ new] res(1,3,5) moves_trans [OF m0 res(2)] d o)
  qed
  then show "db_goals s' = db_goals s" and "budget_moves u (db_budgets s) (db_budgets s')"
    and "\<exists>sel new. docs (db_bout s') = docs (db_bout s) @ new \<and> list_all2 (due U H u now) sel new \<and> distinct (map (b_id \<circ> fst) sel) \<and>
       (\<forall>(b, actual) \<in> set sel. \<exists>d \<in> set (view bd_user u (db_budgets s)). b = budget_toDomain (m_budgets D) d)" by blast+
qed

text \<open>
  C33. One \<open>finora.transaction.created\<close> event for a user makes budget-service queue at most one
  \<open>finora.budget.overspent\<close> event for each of that user's budgets, and only for a budget
  whose spending, as expense-service summed it for the current period, is above the
  amount and that was not yet announced for that period. Goals and the budgets of
  others are untouched, and the stored budgets stay well formed, whatever fails.
\<close>

theorem overspend_events_sound:
  assumes D: "lawful_budget D" and inv: "budgets_inv (db_budgets s)"
    and run: "HandleTransactionCreated U H D gen u now (s, net) = (r, (s', net'))"
  shows "db_goals s' = db_goals s \<and> budgets_inv (db_budgets s') \<and>
    (\<forall>v. v \<noteq> u \<longrightarrow> view bd_user v (db_budgets s') = view bd_user v (db_budgets s)) \<and>
    (\<exists>sel new. docs (db_bout s') = docs (db_bout s) @ new \<and> list_all2 (due U H u now) sel new \<and>
       distinct (map (b_id \<circ> fst) sel) \<and>
       (\<forall>(b, actual) \<in> set sel. \<exists>d \<in> set (view bd_user u (db_budgets s)). b = budget_toDomain (m_budgets D) d))"
  using handle_sound [OF D inv run] inv by (simp add: moves_def budgets_inv_def)

section \<open>One announcement per budget and period\<close>

text \<open>
  A database that does not fault while its environment satisfies \<open>Q\<close> (a list may still
  fail, an insert may still be refused as a duplicate).
\<close>

definition calm :: "('e \<Rightarrow> bool) \<Rightarrow> 'e budget_drivers \<Rightarrow> bool" where
  "calm Q D \<longleftrightarrow>
     (\<forall>P fo c r c'. Q (env c) \<longrightarrow> find_all (m_budgets D) P fo c = (r, c') \<longrightarrow> Q (env c')) \<and>
     (\<forall>P f c r c'. Q (env c) \<longrightarrow> update_one (m_budgets D) P f c = (r, c') \<longrightarrow> Q (env c') \<and> (\<exists>n. r = Inr n)) \<and>
     (\<forall>d c r c'. Q (env c) \<longrightarrow> insert_one (m_bout D) d c = (r, c') \<longrightarrow> Q (env c') \<and> (\<forall>m. r \<noteq> Inl (DbFault m)))"

lemma calmD:
  assumes "calm Q D"
  shows "Q (env c) \<Longrightarrow> find_all (m_budgets D) P fo c = (r, c') \<Longrightarrow> Q (env c')"
    and "Q (env c) \<Longrightarrow> update_one (m_budgets D) P f c = (w, c') \<Longrightarrow> Q (env c') \<and> (\<exists>n. w = Inr n)"
    and "Q (env x) \<Longrightarrow> insert_one (m_bout D) e x = (q, x') \<Longrightarrow> Q (env x') \<and> (\<forall>m. q \<noteq> Inl (DbFault m))"
  using assms unfolding calm_def by blast+

definition event_budget :: "outbox_event \<Rightarrow> json" where
  "event_budget e = (case ev_payload e of JObj kvs \<Rightarrow> obj_get ''budget_id'' kvs | _ \<Rightarrow> JNull)"

lemma event_budget_msg: "overspent_msg u b actual from e \<Longrightarrow> event_budget e = JStr (b_id b)"
  by (auto simp: overspent_msg_def overspent_json_def overspent_of_def event_budget_def obj_get_def split: option.splits json.splits)

text \<open>The budgets that were announced for the period that starts at \<open>F\<close>.\<close>

definition noted :: "'e budget_driver \<Rightarrow> (string \<Rightarrow> gotime) \<Rightarrow> 'e budget_coll \<Rightarrow> string set" where
  "noted M F c = {i. \<exists>d \<in> set (docs c). i = hex M (bd_id d) \<and> already_notified (budget_toDomain M d) (F (bd_period d))}"

definition once ::
  "'e budget_drivers \<Rightarrow> ('e \<Rightarrow> bool) \<Rightarrow> (string \<Rightarrow> gotime) \<Rightarrow> outbox_event list \<Rightarrow> string set \<Rightarrow> 'e budget_db \<Rightarrow> bool" where
  "once D Q F old N s \<longleftrightarrow> Q (env (db_budgets s)) \<and> Q (env (db_bout s)) \<and> ids_distinct bd_id (db_budgets s) \<and>
     N \<subseteq> noted (m_budgets D) F (db_budgets s) \<and>
     (\<exists>acc. docs (db_bout s) = old @ acc \<and> distinct (map event_budget acc) \<and>
        (\<forall>e \<in> set acc. \<exists>i \<in> noted (m_budgets D) F (db_budgets s). event_budget e = JStr i \<and> i \<notin> N))"

lemma once_same:
  assumes "once D Q F old N s" and "docs (db_budgets s') = docs (db_budgets s)" and "docs (db_bout s') = docs (db_bout s)"
    and "Q (env (db_budgets s'))" and "Q (env (db_bout s'))"
  shows "once D Q F old N s'"
  using assms by (simp add: once_def ids_distinct_def noted_def)

lemma calm_publish:
  assumes D: "lawful_budget D" and Q: "calm Q D" "Q (env c)"
    and p: "OutboxPublisher_PublishBudgetOverspent (m_bout D) now i (overspent_of u b actual from) c = (r, c')"
  shows "Q (env c')" and "r = Inl e \<Longrightarrow> docs c' = docs c"
proof -
  have "Q (env c') \<and> (r = Inl e \<longrightarrow> docs c' = docs c)"
  proof (cases "overspent_json (overspent_of u b actual from)")
    case None
    then show ?thesis using p Q(2) by (auto simp: OutboxPublisher_PublishBudgetOverspent_def)
  next
    case (Some pl)
    let ?e = "\<lparr>ev_id = i, ev_subject = BudgetOverspentSubject, ev_msg_id = b_id b @ '':'' @ format_rfc3339 from, ev_payload = pl,
      ev_created = bson_time (utc now), ev_published = None\<rparr>"
    obtain q c1 where q: "insert_one (m_bout D) ?e c = (q, c1)" by (cases "insert_one (m_bout D) ?e c")
    have rc: "c1 = c'" "r = Inl e \<Longrightarrow> \<exists>v. q = Inl v"
      using p Some q by (cases q; auto simp: OutboxPublisher_PublishBudgetOverspent_def Store_Enqueue_def overspent_of_def)+
    have "docs c1 = docs c" if "q = Inl v" for v
      using insertD [OF lawful_budgetD(3) [OF D] q] calmD(3) [OF Q q] that by (cases v) auto
    then show ?thesis using calmD(3) [OF Q q] rc by blast
  qed
  then show "Q (env c')" and "r = Inl e \<Longrightarrow> docs c' = docs c" by blast+
qed

lemma calm_update:
  assumes D: "lawful_budget D" and Q: "calm Q D" "Q (env c)" and ids: "ids_distinct bd_id c" and d: "d \<in> set (docs c)"
    and u: "MongoBudgetRepository_Update now (m_budgets D) a c = (w, c')" and a: "b_id a = hex (m_budgets D) (bd_id d)" "b_user a = bd_user d"
  shows "Q (env c')" and "one_updated (\<lambda>x. x = d) (budget_set now a) (docs c) (docs c')"
proof -
  let ?P = "\<lambda>x. bd_id x = bd_id d \<and> bd_user x = bd_user d"
  obtain q c1 where q: "update_one (m_budgets D) ?P (budget_set now a) c = (q, c1)"
    by (cases "update_one (m_budgets D) ?P (budget_set now a) c")
  note calm = calmD(2) [OF Q q]
  then obtain n where n: "q = Inr n" by blast
  have "c1 = c'" using u q n a hex_roundtrip [OF lawful_budgetD(1) [OF D]]
    by (auto simp: MongoBudgetRepository_Update_def split: if_splits)
  with calm show "Q (env c')" by simp
  have "one_updated ?P (budget_set now a) (docs c) (docs c')"
    using update_one_ok [OF lawful_budgetD(1) [OF D] q [unfolded n]] d \<open>c1 = c'\<close> by auto
  then obtain xs x ys where x: "docs c = xs @ x # ys" "bd_id x = bd_id d" "docs c' = xs @ budget_set now a x # ys"
    unfolding one_updated_def by blast
  have "x = d" by (rule ids_distinct_unique [OF ids _ d x(2)]) (simp add: x(1))
  with x show "one_updated (\<lambda>x. x = d) (budget_set now a) (docs c) (docs c')" unfolding one_updated_def by blast
qed

lemma noted_notify:
  assumes M: "lawful (same_id bd_id) M" and ids: "ids_distinct bd_id c" and d: "d \<in> set (docs c)"
    and u: "one_updated (\<lambda>x. x = d) (budget_set now ((budget_toDomain M d)\<lparr>b_notified := Some (F (bd_period d))\<rparr>)) (docs c) (docs c')"
    and exact: "time_of_bson (bson_time (F (bd_period d))) = F (bd_period d)"
  shows "noted M F c' = insert (hex M (bd_id d)) (noted M F c)"
    and "ids_distinct bd_id c'" and "x \<in> set (docs c) \<Longrightarrow> x \<noteq> d \<Longrightarrow> x \<in> set (docs c')"
proof -
  let ?d = "budget_set now ((budget_toDomain M d)\<lparr>b_notified := Some (F (bd_period d))\<rparr>) d"
  obtain xs ys where x: "docs c = xs @ d # ys" "docs c' = xs @ ?d # ys" using u unfolding one_updated_def by blast
  have new: "already_notified (budget_toDomain M ?d) (F (bd_period ?d))" "bd_id ?d = bd_id d"
    by (simp_all add: already_notified_def budget_set_def budget_toDomain_def exact time_equal_def)
  show "ids_distinct bd_id c'" using ids x new(2) by (simp add: ids_distinct_def)
  show "x \<in> set (docs c) \<Longrightarrow> x \<noteq> d \<Longrightarrow> x \<in> set (docs c')" using x by auto
  show "noted M F c' = insert (hex M (bd_id d)) (noted M F c)"
    using new by (auto simp: noted_def x)
qed

lemma notify_once:
  assumes D: "lawful_budget D" and Q: "calm Q D" and o: "once D Q F old N s"
    and d: "d \<in> set (docs (db_budgets s))" and b: "b = budget_toDomain (m_budgets D) d" and from_F: "from = F (bd_period d)"
    and exact: "time_of_bson (bson_time from) = from" and s': "s' = notifyIfOverspent D g (bd_user d) b actual from s"
  shows "once D Q F old N s'" and "x \<in> set (docs (db_budgets s)) \<Longrightarrow> x \<noteq> d \<Longrightarrow> x \<in> set (docs (db_budgets s'))"
proof -
  note M = lawful_budgetD(1) [OF D]
  let ?N = "noted (m_budgets D) F"
  have q: "Q (env (db_budgets s))" "Q (env (db_bout s))" and ids: "ids_distinct bd_id (db_budgets s)" and N: "N \<subseteq> ?N (db_budgets s)"
    using o by (simp_all add: once_def)
  have "once D Q F old N s' \<and> (x \<in> set (docs (db_budgets s)) \<longrightarrow> x \<noteq> d \<longrightarrow> x \<in> set (docs (db_budgets s')))"
  proof (cases "already_notified b from")
    case True
    then have "s' = s" by (simp add: s' notifyIfOverspent_def already_notified_def)
    with o show ?thesis by simp
  next
    case False
    obtain r c where p: "OutboxPublisher_PublishBudgetOverspent (m_bout D) (fst g) (snd g) (overspent_of (bd_user d) b actual from) (db_bout s) = (r, c)"
      by (cases "OutboxPublisher_PublishBudgetOverspent (m_bout D) (fst g) (snd g) (overspent_of (bd_user d) b actual from) (db_bout s)")
    have n: "s' = (case r of Inl _ \<Rightarrow> s\<lparr>db_bout := c\<rparr> | Inr _ \<Rightarrow> s\<lparr>db_bout := c,
       db_budgets := snd (MongoBudgetRepository_Update (fst g) (m_budgets D) (b\<lparr>b_notified := Some from\<rparr>) (db_budgets s))\<rparr>)"
      using False unfolding s' notifyIfOverspent_def p already_notified_def by (simp split: sum.split)
    show ?thesis
    proof (cases r)
      case (Inl e)
      with n have "s' = s\<lparr>db_bout := c\<rparr>" by simp
      with once_same [OF o, of s'] calm_publish(1) [OF D Q q(2) p] calm_publish(2) [OF D Q q(2) p Inl] q(1) show ?thesis by simp
    next
      case (Inr w)
      obtain v c1 where u: "MongoBudgetRepository_Update (fst g) (m_budgets D) (b\<lparr>b_notified := Some from\<rparr>) (db_budgets s) = (v, c1)"
        by (cases "MongoBudgetRepository_Update (fst g) (m_budgets D) (b\<lparr>b_notified := Some from\<rparr>) (db_budgets s)")
      have s1: "s' = s\<lparr>db_bout := c, db_budgets := c1\<rparr>" using n Inr u by simp
      have upd: "Q (env c1)" "one_updated (\<lambda>x. x = d) (budget_set (fst g) (b\<lparr>b_notified := Some from\<rparr>)) (docs (db_budgets s)) (docs c1)"
        by (rule calm_update [OF D Q q(1) ids d u]; simp add: b budget_toDomain_def)+
      note nn = noted_notify [where F = F, OF M ids d upd(2) [unfolded b from_F] exact [unfolded from_F]]
      obtain e where e: "docs c = docs (db_bout s) @ [e]" "event_budget e = JStr (b_id b)"
        using enqueue_overspent(2) [OF lawful_budgetD(3) [OF D] p Inr] event_budget_msg by blast
      have bid: "b_id b = hex (m_budgets D) (bd_id d)" by (simp add: b budget_toDomain_def)
      have fresh: "b_id b \<notin> ?N (db_budgets s)"
      proof
        assume "b_id b \<in> ?N (db_budgets s)"
        then obtain x where x: "x \<in> set (docs (db_budgets s))" "hex (m_budgets D) (bd_id d) = hex (m_budgets D) (bd_id x)"
          "already_notified (budget_toDomain (m_budgets D) x) (F (bd_period x))" unfolding noted_def bid by blast
        have "x = d" by (rule ids_distinct_unique [OF ids x(1) d]) (rule hex_inj [OF M x(2) [symmetric]])
        with x(3) False show False by (simp add: b from_F)
      qed
      obtain acc where acc: "docs (db_bout s) = old @ acc" "distinct (map event_budget acc)"
        "\<forall>e \<in> set acc. \<exists>i \<in> ?N (db_budgets s). event_budget e = JStr i \<and> i \<notin> N" using o unfolding once_def by blast
      have "event_budget e \<notin> event_budget ` set acc" using acc(3) fresh e(2) by auto
      then have "distinct (map event_budget (acc @ [e]))" using acc(2) by simp
      moreover have "\<forall>e \<in> set (acc @ [e]). \<exists>i \<in> ?N c1. event_budget e = JStr i \<and> i \<notin> N"
        using acc(3) e(2) fresh N by (auto simp: nn(1) bid)
      ultimately have "once D Q F old N s'"
        unfolding once_def s1 using upd(1) calm_publish(1) [OF D Q q(2) p] nn(1,2) N acc(1) e(1)
        by (intro conjI exI [of _ "acc @ [e]"]) auto
      then show ?thesis using nn(3) by (simp add: s1)
    qed
  qed
  then show "once D Q F old N s'" and "x \<in> set (docs (db_budgets s)) \<Longrightarrow> x \<noteq> d \<Longrightarrow> x \<in> set (docs (db_budgets s'))" by blast+
qed

lemma overspend_loop_once:
  assumes D: "lawful_budget D" and Q: "calm Q D" and F: "\<And>p. currentPeriodStart p now = F p"
  shows "once D Q F old N s \<Longrightarrow> distinct (map b_id bs) \<Longrightarrow>
    \<forall>b \<in> set bs. \<exists>d \<in> set (docs (db_budgets s)). bd_user d = u \<and> b = budget_toDomain (m_budgets D) d \<Longrightarrow>
    overspend_loop U H D gen u now k bs s net = (s', net') \<Longrightarrow> once D Q F old N s'"
proof (induction bs arbitrary: k s net)
  case (Cons b bs)
  let ?from = "currentPeriodStart (b_period b) now"
  obtain r net1 where r: "SumExpensesByCategory U H u (b_category b) ?from now net = (r, net1)"
    by (cases "SumExpensesByCategory U H u (b_category b) ?from now net")
  obtain d where d: "d \<in> set (docs (db_budgets s))" "bd_user d = u" "b = budget_toDomain (m_budgets D) d" using Cons.prems(3) by auto
  define s1 where "s1 = (case r of Inl _ \<Rightarrow> s | Inr actual \<Rightarrow>
    if flt (fsub (b_amount b) actual) f0 then notifyIfOverspent D (gen k) u b actual ?from s else s)"
  have loop: "overspend_loop U H D gen u now (Suc k) bs s1 net1 = (s', net')"
    using r Cons.prems(4) by (cases r) (simp_all add: Let_def s1_def)
  have n: "once D Q F old N (notifyIfOverspent D (gen k) u b actual ?from s)"
    "x \<in> set (docs (db_budgets s)) \<Longrightarrow> x \<noteq> d \<Longrightarrow> x \<in> set (docs (db_budgets (notifyIfOverspent D (gen k) u b actual ?from s)))" for actual x
    by (rule notify_once [OF D Q Cons.prems(1) d(1,3), where g = "gen k" and actual = actual];
        simp add: d(2) F d(3) budget_toDomain_def period_start_exact [of _ now, unfolded F])+
  have s1: "once D Q F old N s1" "x \<in> set (docs (db_budgets s)) \<Longrightarrow> x \<noteq> d \<Longrightarrow> x \<in> set (docs (db_budgets s1))" for x
    using n Cons.prems(1) by (simp_all add: s1_def split: sum.split)
  have "\<forall>a \<in> set bs. \<exists>x \<in> set (docs (db_budgets s1)). bd_user x = u \<and> a = budget_toDomain (m_budgets D) x"
  proof
    fix a assume a: "a \<in> set bs"
    then obtain x where x: "x \<in> set (docs (db_budgets s))" "bd_user x = u" "a = budget_toDomain (m_budgets D) x" using Cons.prems(3) by auto
    have "x \<noteq> d" using Cons.prems(2) a x(3) d(3) by auto
    with x s1(2) show "\<exists>x \<in> set (docs (db_budgets s1)). bd_user x = u \<and> a = budget_toDomain (m_budgets D) x" by blast
  qed
  then show ?case using Cons.IH [OF s1(1) _ _ loop] Cons.prems(2) by simp
qed simp

definition overspend_run ::
  "unicode \<Rightarrow> 's expense_http \<Rightarrow> 'e budget_drivers \<Rightarrow> (string \<times> (nat \<Rightarrow> gotime \<times> oid) \<times> gotime) list \<Rightarrow> 'e budget_db \<times> 's \<Rightarrow> 'e budget_db \<times> 's" where
  "overspend_run U H D calls st = fold (\<lambda>(u, gen, now) st. snd (HandleTransactionCreated U H D gen u now st)) calls st"

lemma handle_once:
  assumes D: "lawful_budget D" and Q: "calm Q D" and F: "\<And>p. currentPeriodStart p now = F p"
    and o: "once D Q F old N s" and inv: "budgets_inv (db_budgets s)"
    and run: "HandleTransactionCreated U H D gen u now (s, net) = (r, (s', net'))"
  shows "once D Q F old N s'"
proof -
  obtain q c where l: "MongoBudgetRepository_ListByUser (m_budgets D) u (db_budgets s) = (q, c)"
    by (cases "MongoBudgetRepository_ListByUser (m_budgets D) u (db_budgets s)")
  have c: "docs c = docs (db_budgets s)" by (rule budl.list_docs [OF lawful_budgetD(1) [OF D] l])
  obtain f where "find_all (m_budgets D) (\<lambda>d. bd_user d = u) (find_sorted (\<lambda>_. 0)) (db_budgets s) = (f, c)"
    using l by (auto simp: MongoBudgetRepository_ListByUser_def split: prod.splits sum.splits)
  then have qc: "Q (env c)" using calmD(1) [OF Q] o unfolding once_def by blast
  have o1: "once D Q F old N (s\<lparr>db_budgets := c\<rparr>)"
    by (rule once_same [OF o]) (use c qc o in \<open>simp_all add: once_def\<close>)
  show ?thesis
  proof (cases q)
    case (Inl e)
    with run l o1 show ?thesis by (simp add: HandleTransactionCreated_def)
  next
    case (Inr bs)
    with run l have loop: "overspend_loop U H D gen u now 0 bs (s\<lparr>db_budgets := c\<rparr>) net = (s', net')"
      by (simp add: HandleTransactionCreated_def)
    note lst = list_listed [OF lawful_budgetD(1) [OF D] inv l [unfolded Inr]]
    show ?thesis
      by (rule overspend_loop_once [OF D Q F o1 _ _ loop]) (use lst c in \<open>simp_all add: listed_def\<close>)
  qed
qed


section \<open>Witnesses\<close>

definition demo_net :: "nat expense_http" where
  "demo_net u req n = (case req of
     GetCategories \<Rightarrow> (Inr (httpx_Success ''r1'' 200 (DCategories [\<lparr>c_id = ''c1'', c_user = u, c_name = ''Food'', c_type = ''expense'',
       c_created = zero_time, c_updated = zero_time\<rparr>])), n + 1)
   | _ \<Rightarrow> (Inr (httpx_Success ''r1'' 200 (DTransactions \<lparr>tp_transactions = [\<lparr>tx_id = ''t1'', tx_user = u, tx_account = ''a1'',
       tx_category = Some ''c1'', tx_type = ''expense'', tx_amount = Fin False 2, tx_currency = ''USD'', tx_date = zero_time, tx_note = '''',
       tx_created = zero_time, tx_updated = zero_time\<rparr>], tp_page = 1, tp_page_size = 100, tp_total = 1\<rparr>)), n + 1))"

definition demo_bdrivers :: "bool list budget_drivers" where
  "demo_bdrivers = \<lparr>m_budgets = mem_driver (same_id bd_id), m_goals = mem_driver (same_id gd_id), m_bout = mem_driver (same_id ev_id)\<rparr>"

definition demo_bdb :: "bool list budget_db" where
  "demo_bdb = \<lparr>db_budgets = mem_coll [\<lparr>bd_id = 7, bd_user = ''ann'', bd_category = ''food'', bd_amount = Fin False 1, bd_period = ''monthly'',
       bd_created = 0, bd_updated = 0, bd_notified = None\<rparr>], db_goals = demo_goals, db_bout = mem_coll []\<rparr>"

definition demo_march :: gotime where
  "demo_march = \<lparr>t_sec = 1773576000, t_nsec = 5, t_off = 0\<rparr>"

lemma lawful_demo_budget: "lawful_budget demo_bdrivers"
  by (simp add: lawful_budget_def demo_bdrivers_def)

lemma demo_bdb_inv: "budgets_inv (db_budgets demo_bdb)"
  by (simp add: budgets_inv_def coll_ok_def ids_distinct_def demo_bdb_def mem_coll_def wf_budget_doc_def fle_def budget_maxAmount_val
      f64_one_def ValidPeriod_def PeriodMonthly_def)

lemma calm_mem: "calm (\<lambda>fs. True \<notin> set fs) demo_bdrivers"
  unfolding calm_def demo_bdrivers_def
  by (auto simp: mem_driver_def mem_call_def split: list.splits bool.splits prod.splits if_splits dest: in_set_dropD)

lemma demo_sum_food: "SumExpensesByCategory demo_unicode demo_net u ''food'' from to n = (Inr (Fin False 2), n + 2)"
proof -
  have fold: "equal_fold demo_unicode ''Food'' ''food''" by code_simp
  have "bit_length 2 = 2" using bit_length_eqI [of 1 2] by simp
  then have "round_units False 2 = Fin False 2" by (intro round_exact) (simp_all add: rep53_def f64_limit_def)
  then have "fadd f0 (Fin False 2) = Fin False 2" by simp
  then have "sum_pages demo_net u ''c1'' from to (Suc 49) k f0 m = (Inr (Fin False 2), m + 1)" for k m
    unfolding sum_pages.simps(2) by (simp add: doGet_def demo_net_def httpx_Success_def Let_def add_expenses_def reportPageSize_def)
  moreover have "maxReportPages = Suc 49" by (simp add: maxReportPages_def)
  ultimately have pages: "sum_pages demo_net u ''c1'' from to maxReportPages k f0 m = (Inr (Fin False 2), m + 1)" for k m by simp
  have "findCategoryIDByName demo_unicode demo_net u ''food'' n = (Inr (Some ''c1''), n + 1)"
    by (simp add: findCategoryIDByName_def doGet_def demo_net_def httpx_Success_def fold)
  with pages show ?thesis by (simp add: SumExpensesByCategory_def)
qed

lemma demo_march_period: "currentPeriodStart ''monthly'' demo_march = \<lparr>t_sec = 1772323200, t_nsec = 0, t_off = 0\<rparr>"
  by code_simp

lemma demo_handle:
  "\<exists>s'. HandleTransactionCreated demo_unicode demo_net demo_bdrivers (\<lambda>k. (demo_march, of_nat k)) ''ann'' demo_march (demo_bdb, 0) =
     (Inr (), (s', 2)) \<and> length (docs (db_bout s')) = 1"
  by (simp add: HandleTransactionCreated_def MongoBudgetRepository_ListByUser_def demo_bdrivers_def demo_bdb_def mem_driver_def mem_call_def mem_coll_def
     find_sorted_def page_cut_def budget_toDomain_def demo_march_period demo_sum_food flt_fsub_zero notifyIfOverspent_def OutboxPublisher_PublishBudgetOverspent_def
     overspent_json_def overspent_of_def json_float_def Store_Enqueue_def MongoBudgetRepository_Update_def budget_set_def Let_def)

theorem overspend_events_sound_witness:
  "\<exists>s' sel new. snd (HandleTransactionCreated demo_unicode demo_net demo_bdrivers (\<lambda>k. (demo_march, of_nat k)) ''ann'' demo_march (demo_bdb, 0)) = (s', 2) \<and>
     docs (db_bout s') = new \<and> length new = 1 \<and> list_all2 (due demo_unicode demo_net ''ann'' demo_march) sel new"
proof -
  obtain s' where s': "HandleTransactionCreated demo_unicode demo_net demo_bdrivers (\<lambda>k. (demo_march, of_nat k)) ''ann'' demo_march (demo_bdb, 0) =
     (Inr (), (s', 2))" "length (docs (db_bout s')) = 1" using demo_handle by blast
  have "docs (db_bout demo_bdb) = []" by (simp add: demo_bdb_def mem_coll_def)
  with overspend_events_sound [OF lawful_demo_budget demo_bdb_inv s'(1)] s' show ?thesis by auto
qed


theorem report_summary_correct_witness:
  "\<exists>rep c' net'. reportService_Summary demo_unicode demo_net (m_budgets demo_bdrivers) ''ann'' demo_march demo_march (db_budgets demo_bdb, 0) = (Inr rep, (c', net')) \<and>
     (\<forall>l \<in> set (rs_categories rep). flt (cs_remaining l) f0 \<longleftrightarrow> flt (cs_budgeted l) (cs_actual l)) \<and> length (rs_categories rep) = 1"
proof -
  obtain rep c' net' where r: "reportService_Summary demo_unicode demo_net (m_budgets demo_bdrivers) ''ann'' demo_march demo_march (db_budgets demo_bdb, 0) =
      (Inr rep, (c', net'))" "length (rs_categories rep) = 1"
    by (simp add: reportService_Summary_def MongoBudgetRepository_ListByUser_def demo_bdrivers_def demo_bdb_def mem_driver_def mem_call_def mem_coll_def
     find_sorted_def page_cut_def budget_toDomain_def demo_sum_food)
  have M: "lawful (same_id bd_id) (m_budgets demo_bdrivers)" by (simp add: demo_bdrivers_def)
  from report_summary_correct [OF M r(1)] r show ?thesis by blast
qed

end
