(* ===== verification/Budget_Http.thy ===== *)
theory Budget_Http imports Budget_Overspend begin

text \<open>
  budget-service, the HTTP surface (\<open>handler/budget_handler.go\<close>, \<open>handler/goal_handler.go\<close>,
  \<open>handler/report_handler.go\<close>, \<open>router/router.go\<close>), the consumer of
  \<open>finora.transaction.created\<close> (\<open>cmd/server/main.go\<close>), and the service as a whole: what any
  sequence of requests and events keeps.
\<close>

section \<open>Requests and answers\<close>

datatype budget_data =
    DBudgets "budget list"
  | DBudget budget
  | DGoals "goal list"
  | DGoal goal
  | DSummary report_summary

type_synonym budget_answer = "budget_data response"

record create_goal_request =
  cq_name :: string
  cq_target :: f64
  cq_date :: string

record update_goal_request =
  uq_name :: string
  uq_target :: f64
  uq_date :: string
  uq_current :: f64

definition on_budgets :: "('e budget_coll \<Rightarrow> 'a \<times> 'e budget_coll) \<Rightarrow> 'e budget_db \<Rightarrow> 'a \<times> 'e budget_db" where
  "on_budgets f s = (case f (db_budgets s) of (r, c) \<Rightarrow> (r, s\<lparr>db_budgets := c\<rparr>))"

definition on_goals :: "('e goal_coll \<Rightarrow> 'a \<times> 'e goal_coll) \<Rightarrow> 'e budget_db \<Rightarrow> 'a \<times> 'e budget_db" where
  "on_goals f s = (case f (db_goals s) of (r, c) \<Rightarrow> (r, s\<lparr>db_goals := c\<rparr>))"

definition budget_writeServiceError :: "string \<Rightarrow> go_error \<Rightarrow> 'a response" where
  [http_defs]: "budget_writeServiceError rid err = (case err of
      ErrNotFound \<Rightarrow> httpx_Fail rid 404 CodeNotFound ''resource not found'' None
    | ErrValidation m \<Rightarrow> httpx_Fail rid 400 CodeValidation m None
    | _ \<Rightarrow> httpx_Fail rid 500 CodeInternal ''internal server error'' None)"

definition budget_answers :: "string \<Rightarrow> nat \<Rightarrow> ('a \<Rightarrow> budget_data) \<Rightarrow> 'a res \<times> 's \<Rightarrow> budget_answer \<times> 's" where
  [http_defs]: "budget_answers rid status f rs = (case rs of
      (Inl e, s) \<Rightarrow> (budget_writeServiceError rid e, s)
    | (Inr x, s) \<Rightarrow> (httpx_Success rid status (f x), s))"

definition budget_answers_204 :: "string \<Rightarrow> unit res \<times> 's \<Rightarrow> budget_answer \<times> 's" where
  [http_defs]: "budget_answers_204 rid rs = (case rs of
      (Inl e, s) \<Rightarrow> (budget_writeServiceError rid e, s)
    | (Inr _, s) \<Rightarrow> (no_content, s))"

text \<open>The list and report handlers answer every error alike.\<close>

definition or_500 :: "string \<Rightarrow> string \<Rightarrow> ('a \<Rightarrow> budget_data) \<Rightarrow> 'a res \<times> 's \<Rightarrow> budget_answer \<times> 's" where
  [http_defs]: "or_500 rid msg f rs = (case rs of
      (Inl e, s) \<Rightarrow> (httpx_Fail rid 500 CodeInternal msg None, s)
    | (Inr x, s) \<Rightarrow> (httpx_Success rid 200 (f x), s))"

definition budget_bad_body :: "string \<Rightarrow> string \<Rightarrow> 'a response" where
  [http_defs]: "budget_bad_body rid e = httpx_Fail rid 400 CodeValidation ''invalid request body'' (Some (Text e))"

section \<open>Budgets\<close>

definition BudgetHandler_List :: "'e budget_drivers \<Rightarrow> string \<Rightarrow> string \<Rightarrow> 'e budget_db \<Rightarrow> budget_answer \<times> 'e budget_db" where
  [http_defs]: "BudgetHandler_List D rid u s =
    or_500 rid ''failed to list budgets'' DBudgets (on_budgets (budgetService_List (m_budgets D) u) s)"

definition BudgetHandler_Create ::
  "'e budget_drivers \<Rightarrow> gotime \<Rightarrow> oid \<Rightarrow> string \<Rightarrow> string \<Rightarrow> string + budget_input \<Rightarrow> 'e budget_db \<Rightarrow> budget_answer \<times> 'e budget_db" where
  [http_defs]: "BudgetHandler_Create D now i rid u body s = (case body of
      Inl e \<Rightarrow> (budget_bad_body rid e, s)
    | Inr req \<Rightarrow> budget_answers rid 201 DBudget (on_budgets (budgetService_Create (m_budgets D) now i u req) s))"

definition BudgetHandler_Get :: "'e budget_drivers \<Rightarrow> string \<Rightarrow> string \<Rightarrow> string \<Rightarrow> 'e budget_db \<Rightarrow> budget_answer \<times> 'e budget_db" where
  [http_defs]: "BudgetHandler_Get D rid u k s = budget_answers rid 200 DBudget (on_budgets (budgetService_Get (m_budgets D) u k) s)"

definition BudgetHandler_Update ::
  "'e budget_drivers \<Rightarrow> gotime \<Rightarrow> string \<Rightarrow> string \<Rightarrow> string \<Rightarrow> string + budget_input \<Rightarrow> 'e budget_db \<Rightarrow> budget_answer \<times> 'e budget_db" where
  [http_defs]: "BudgetHandler_Update D now rid u k body s = (case body of
      Inl e \<Rightarrow> (budget_bad_body rid e, s)
    | Inr req \<Rightarrow> budget_answers rid 200 DBudget (on_budgets (budgetService_Update (m_budgets D) now u k req) s))"

definition BudgetHandler_Delete :: "'e budget_drivers \<Rightarrow> string \<Rightarrow> string \<Rightarrow> string \<Rightarrow> 'e budget_db \<Rightarrow> budget_answer \<times> 'e budget_db" where
  [http_defs]: "BudgetHandler_Delete D rid u k s = budget_answers_204 rid (on_budgets (budgetService_Delete (m_budgets D) u k) s)"

section \<open>Goals\<close>

definition parseGoalDate :: "string \<Rightarrow> gotime option" where
  "parseGoalDate v = (case parse_ymd v of Some t \<Rightarrow> Some t | None \<Rightarrow> parse_rfc3339 v)"

definition bad_target_date :: "string \<Rightarrow> 'a response" where
  [http_defs]: "bad_target_date rid = httpx_Fail rid 400 CodeValidation ''target_date must be an RFC3339 or YYYY-MM-DD date'' None"

definition GoalHandler_List :: "'e budget_drivers \<Rightarrow> string \<Rightarrow> string \<Rightarrow> 'e budget_db \<Rightarrow> budget_answer \<times> 'e budget_db" where
  [http_defs]: "GoalHandler_List D rid u s = or_500 rid ''failed to list goals'' DGoals (on_goals (goalService_List (m_goals D) u) s)"

definition GoalHandler_Create ::
  "'e budget_drivers \<Rightarrow> gotime \<Rightarrow> oid \<Rightarrow> string \<Rightarrow> string \<Rightarrow> string + create_goal_request \<Rightarrow> 'e budget_db \<Rightarrow>
   budget_answer \<times> 'e budget_db" where
  [http_defs]: "GoalHandler_Create D now i rid u body s = (case body of
      Inl e \<Rightarrow> (budget_bad_body rid e, s)
    | Inr req \<Rightarrow> (case parseGoalDate (cq_date req) of
          None \<Rightarrow> (bad_target_date rid, s)
        | Some date \<Rightarrow> budget_answers rid 201 DGoal (on_goals (goalService_Create (m_goals D) now i u
            \<lparr>cg_name = cq_name req, cg_target = cq_target req, cg_date = date\<rparr>) s)))"

definition GoalHandler_Get :: "'e budget_drivers \<Rightarrow> string \<Rightarrow> string \<Rightarrow> string \<Rightarrow> 'e budget_db \<Rightarrow> budget_answer \<times> 'e budget_db" where
  [http_defs]: "GoalHandler_Get D rid u k s = budget_answers rid 200 DGoal (on_goals (goalService_Get (m_goals D) u k) s)"

definition GoalHandler_Update ::
  "'e budget_drivers \<Rightarrow> gotime \<Rightarrow> string \<Rightarrow> string \<Rightarrow> string \<Rightarrow> string + update_goal_request \<Rightarrow> 'e budget_db \<Rightarrow>
   budget_answer \<times> 'e budget_db" where
  [http_defs]: "GoalHandler_Update D now rid u k body s = (case body of
      Inl e \<Rightarrow> (budget_bad_body rid e, s)
    | Inr req \<Rightarrow> (case parseGoalDate (uq_date req) of
          None \<Rightarrow> (bad_target_date rid, s)
        | Some date \<Rightarrow> budget_answers rid 200 DGoal (on_goals (goalService_Update (m_goals D) now u k
            \<lparr>ug_name = uq_name req, ug_target = uq_target req, ug_date = date, ug_current = uq_current req\<rparr>) s)))"

definition GoalHandler_Delete :: "'e budget_drivers \<Rightarrow> string \<Rightarrow> string \<Rightarrow> string \<Rightarrow> 'e budget_db \<Rightarrow> budget_answer \<times> 'e budget_db" where
  [http_defs]: "GoalHandler_Delete D rid u k s = budget_answers_204 rid (on_goals (goalService_Delete (m_goals D) u k) s)"

section \<open>Reports\<close>

definition parseReportDate :: "string \<Rightarrow> gotime option" where
  "parseReportDate v = (case parse_ymd v of Some t \<Rightarrow> Some t | None \<Rightarrow> parse_rfc3339 v)"

definition ReportHandler_Summary ::
  "unicode \<Rightarrow> 's expense_http \<Rightarrow> 'e budget_drivers \<Rightarrow> string \<Rightarrow> string \<Rightarrow> string \<Rightarrow> string \<Rightarrow> 'e budget_db \<times> 's \<Rightarrow>
   budget_answer \<times> 'e budget_db \<times> 's" where
  [http_defs]: "ReportHandler_Summary U H D rid u fromStr toStr st =
    (if fromStr = '''' \<or> toStr = '''' then
       (httpx_Fail rid 400 CodeValidation ''from and to query parameters are required'' None, st)
     else (case parseReportDate fromStr of
         None \<Rightarrow> (httpx_Fail rid 400 CodeValidation ''from must be an RFC3339 timestamp or YYYY-MM-DD date''
                  (Some (Fields [(''field'', ''from'')])), st)
       | Some from \<Rightarrow> (case parseReportDate toStr of
             None \<Rightarrow> (httpx_Fail rid 400 CodeValidation ''to must be an RFC3339 timestamp or YYYY-MM-DD date''
                      (Some (Fields [(''field'', ''to'')])), st)
           | Some to \<Rightarrow>
              if time_before to from then
                (httpx_Fail rid 400 CodeValidation ''to must not be before from'' (Some (Fields [(''field'', ''to'')])), st)
              else or_500 rid ''failed to build report summary'' DSummary
                (case reportService_Summary U H (m_budgets D) u from to (db_budgets (fst st), snd st) of
                   (r, (c, net)) \<Rightarrow> (r, ((fst st)\<lparr>db_budgets := c\<rparr>, net))))))"

section \<open>Routes\<close>

datatype budget_request =
    GetBudgets
  | PostBudget gotime oid "string + budget_input"
  | GetBudget string
  | PutBudget gotime string "string + budget_input"
  | DeleteBudget string
  | GetGoals
  | PostGoal gotime oid "string + create_goal_request"
  | GetGoal string
  | PutGoal gotime string "string + update_goal_request"
  | DeleteGoal string
  | GetSummary string string

text \<open>A route that never calls expense-service leaves the network alone.\<close>

definition local_route :: "('e budget_db \<Rightarrow> budget_answer \<times> 'e budget_db) \<Rightarrow> 'e budget_db \<times> 's \<Rightarrow> budget_answer \<times> 'e budget_db \<times> 's" where
  "local_route f st = (case f (fst st) of (r, s) \<Rightarrow> (r, (s, snd st)))"

fun budget_route ::
  "unicode \<Rightarrow> 's expense_http \<Rightarrow> 'e budget_drivers \<Rightarrow> string \<Rightarrow> budget_request \<Rightarrow> string \<Rightarrow> 'e budget_db \<times> 's \<Rightarrow>
   budget_answer \<times> 'e budget_db \<times> 's" where
  "budget_route U H D rid GetBudgets u st = local_route (BudgetHandler_List D rid u) st"
| "budget_route U H D rid (PostBudget now i body) u st = local_route (BudgetHandler_Create D now i rid u body) st"
| "budget_route U H D rid (GetBudget k) u st = local_route (BudgetHandler_Get D rid u k) st"
| "budget_route U H D rid (PutBudget now k body) u st = local_route (BudgetHandler_Update D now rid u k body) st"
| "budget_route U H D rid (DeleteBudget k) u st = local_route (BudgetHandler_Delete D rid u k) st"
| "budget_route U H D rid GetGoals u st = local_route (GoalHandler_List D rid u) st"
| "budget_route U H D rid (PostGoal now i body) u st = local_route (GoalHandler_Create D now i rid u body) st"
| "budget_route U H D rid (GetGoal k) u st = local_route (GoalHandler_Get D rid u k) st"
| "budget_route U H D rid (PutGoal now k body) u st = local_route (GoalHandler_Update D now rid u k body) st"
| "budget_route U H D rid (DeleteGoal k) u st = local_route (GoalHandler_Delete D rid u k) st"
| "budget_route U H D rid (GetSummary from to) u st = ReportHandler_Summary U H D rid u from to st"

definition budget_api ::
  "unicode \<Rightarrow> 's expense_http \<Rightarrow> 'e budget_drivers \<Rightarrow> string \<Rightarrow> string \<Rightarrow> budget_request \<Rightarrow> 'e budget_db \<times> 's \<Rightarrow>
   budget_answer \<times> 'e budget_db \<times> 's" where
  "budget_api U H D rid user_header req st = RequireIdentity rid user_header (budget_route U H D rid req) st"

section \<open>The consumer of finora.transaction.created\<close>

text \<open>
  \<open>json.Unmarshal\<close> into \<open>TransactionCreatedEvent\<close>, of which only the user is used afterwards: a
  field of the wrong type makes the whole payload malformed, an absent or null field leaves the zero
  value. Keys are matched exactly, as the producer writes them.
\<close>

fun is_string_or_null :: "json \<Rightarrow> bool" where
  "is_string_or_null (JStr _) = True"
| "is_string_or_null JNull = True"
| "is_string_or_null _ = False"

fun is_number_or_null :: "json \<Rightarrow> bool" where
  "is_number_or_null (JNum _) = True"
| "is_number_or_null (JInt _) = True"
| "is_number_or_null JNull = True"
| "is_number_or_null _ = False"

fun str_or_zero :: "json \<Rightarrow> string" where
  "str_or_zero (JStr s) = s"
| "str_or_zero _ = ''''"

definition created_event_user :: "json \<Rightarrow> string option" where
  "created_event_user data = (case data of
      JObj kvs \<Rightarrow>
        if list_all (\<lambda>k. is_string_or_null (obj_get k kvs))
             [''transaction_id'', ''user_id'', ''account_id'', ''category_id'', ''type'', ''currency'', ''date''] \<and>
           is_number_or_null (obj_get ''amount'' kvs)
        then Some (str_or_zero (obj_get ''user_id'' kvs)) else None
    | JNull \<Rightarrow> Some ''''
    | _ \<Rightarrow> None)"

definition on_transaction_created ::
  "unicode \<Rightarrow> 's expense_http \<Rightarrow> 'e budget_drivers \<Rightarrow> (nat \<Rightarrow> gotime \<times> oid) \<Rightarrow> gotime \<Rightarrow> json \<Rightarrow> 'e budget_db \<times> 's \<Rightarrow>
   unit res \<times> 'e budget_db \<times> 's" where
  "on_transaction_created U H D gen now data st = (case created_event_user data of
      None \<Rightarrow> (Inr (), st)
    | Some u \<Rightarrow> HandleTransactionCreated U H D gen u (utc now) st)"

section \<open>The service as a whole\<close>

definition budget_inv :: "'e budget_db \<Rightarrow> bool" where
  "budget_inv s \<longleftrightarrow> budgets_inv (db_budgets s) \<and> goals_inv (db_goals s)"

definition budget_tenant :: "string \<Rightarrow> 'e budget_db \<Rightarrow> budget_doc list \<times> goal_doc list" where
  "budget_tenant v s = (view bd_user v (db_budgets s), view gd_user v (db_goals s))"

definition acts_for :: "string \<Rightarrow> 'e budget_db \<Rightarrow> 'e budget_db \<Rightarrow> bool" where
  "acts_for u s s' \<longleftrightarrow> budget_moves u (db_budgets s) (db_budgets s') \<and> goal_moves u (db_goals s) (db_goals s')"

lemma acts_for_refl [simp]: "acts_for u s s"
  by (simp add: acts_for_def)

lemma acts_for_inv: "acts_for u s s' \<Longrightarrow> budget_inv s \<Longrightarrow> budget_inv s'"
  by (simp add: acts_for_def budget_inv_def moves_def budgets_inv_def goals_inv_def)

lemma acts_for_tenant: "acts_for u s s' \<Longrightarrow> v \<noteq> u \<Longrightarrow> budget_tenant v s' = budget_tenant v s"
  by (simp add: acts_for_def budget_tenant_def moves_def)

lemma acts_for_on [simp]:
  "acts_for u s (snd (on_budgets f s)) \<longleftrightarrow> budget_moves u (db_budgets s) (snd (f (db_budgets s)))"
  "acts_for u s (snd (on_goals g s)) \<longleftrightarrow> goal_moves u (db_goals s) (snd (g (db_goals s)))"
  by (simp_all add: acts_for_def on_budgets_def on_goals_def split: prod.splits)

lemma snd_budget_answers [simp]:
  "snd (budget_answers rid st f rs) = snd rs" "snd (budget_answers_204 rid qs) = snd qs" "snd (or_500 rid m f rs) = snd rs"
  by (simp_all add: budget_answers_def budget_answers_204_def or_500_def split: prod.splits sum.splits)

lemma local_route_state [simp]: "snd (local_route f st) = (snd (f (fst st)), snd st)"
  by (simp add: local_route_def split: prod.splits)

lemma summary_acts:
  assumes "lawful_budget D"
  shows "acts_for u (fst st) (fst (snd (ReportHandler_Summary U H D rid u f t st)))"
proof -
  have l: "docs (snd (MongoBudgetRepository_ListByUser (m_budgets D) u c)) = docs c" for c
    using budl.list_docs [OF lawful_budgetD(1) [OF assms]] by (metis prod.collapse)
  have "docs (fst (snd (reportService_Summary U H (m_budgets D) u from to (c, net)))) = docs c" for "from" to c net
    using l [of c] by (auto simp: reportService_Summary_def split: prod.splits sum.splits)
  then have "budget_moves u c (fst (snd (reportService_Summary U H (m_budgets D) u from to (c, net))))" for "from" to c net
    by (rule moves_docs)
  then show ?thesis
    by (auto simp: ReportHandler_Summary_def acts_for_def split: option.splits prod.splits) (metis fst_conv snd_conv)+
qed

lemma budget_api_acts:
  assumes D: "lawful_budget D"
  shows "acts_for hdr (fst st) (fst (snd (budget_api U H D rid hdr req st)))"
proof -
  note M = lawful_budgetD(1,2) [OF D]
  show ?thesis
    unfolding budget_api_def RequireIdentity_def
    by (cases req)
      (auto simp: summary_acts [OF D] BudgetHandler_List_def BudgetHandler_Create_def BudgetHandler_Get_def BudgetHandler_Update_def BudgetHandler_Delete_def
        GoalHandler_List_def GoalHandler_Create_def GoalHandler_Get_def GoalHandler_Update_def GoalHandler_Delete_def
        budgetService_moves [OF M(1)] goalService_moves [OF M(2)] split: sum.split option.split)
qed

lemma on_created_acts:
  assumes D: "lawful_budget D" and inv: "budget_inv (fst st)"
  shows "\<exists>u. (created_event_user data = None \<or> created_event_user data = Some u) \<and>
    acts_for u (fst st) (fst (snd (on_transaction_created U H D gen now data st)))"
proof (cases "created_event_user data")
  case None
  then show ?thesis by (simp add: on_transaction_created_def)
next
  case (Some u)
  obtain r s' net' where h: "HandleTransactionCreated U H D gen u (utc now) (fst st, snd st) = (r, (s', net'))" by (metis prod.collapse)
  have "budgets_inv (db_budgets (fst st))" using inv by (simp add: budget_inv_def)
  from handle_sound(1,2) [OF D this h] Some h show ?thesis
    by (simp add: on_transaction_created_def acts_for_def)
qed

text \<open>What happens to the service: a request with its request id and identity header, or an event from the bus.\<close>

datatype budget_event = BRequest string string budget_request | BCreated "nat \<Rightarrow> gotime \<times> oid" gotime json

fun budget_step :: "unicode \<Rightarrow> 's expense_http \<Rightarrow> 'e budget_drivers \<Rightarrow> budget_event \<Rightarrow> 'e budget_db \<times> 's \<Rightarrow> 'e budget_db \<times> 's" where
  "budget_step U H D (BRequest rid hdr req) st = snd (budget_api U H D rid hdr req st)"
| "budget_step U H D (BCreated gen now data) st = snd (on_transaction_created U H D gen now data st)"

fun budget_event_user :: "budget_event \<Rightarrow> string option" where
  "budget_event_user (BRequest rid hdr req) = Some hdr"
| "budget_event_user (BCreated gen now data) = created_event_user data"

definition budget_run :: "unicode \<Rightarrow> 's expense_http \<Rightarrow> 'e budget_drivers \<Rightarrow> budget_event list \<Rightarrow> 'e budget_db \<times> 's \<Rightarrow> 'e budget_db \<times> 's" where
  "budget_run U H D es st = fold (budget_step U H D) es st"

lemma budget_step_acts:
  assumes "lawful_budget D" and "budget_inv (fst st)"
  shows "\<exists>u. (budget_event_user e = None \<or> budget_event_user e = Some u) \<and> acts_for u (fst st) (fst (budget_step U H D e st))"
proof (cases e)
  case (BRequest rid hdr req)
  with budget_api_acts [OF assms(1), of hdr st U H rid req] show ?thesis by simp
qed (use on_created_acts [OF assms] in simp)

text \<open>
  Whatever requests and transaction events reach budget-service, with any database
  faults and any answers of expense-service, the stored budgets and goals stay well
  formed (unique ids, non-empty names, amounts in range, known periods), and those of
  a user for whom no request and no event came are exactly as before.
\<close>

theorem budget_run_isolated:
  assumes D: "lawful_budget D" and inv: "budget_inv (fst st)" and v: "\<forall>e \<in> set es. budget_event_user e \<noteq> Some v"
  shows "budget_inv (fst (budget_run U H D es st)) \<and> budget_tenant v (fst (budget_run U H D es st)) = budget_tenant v (fst st)"
  using inv v unfolding budget_run_def
proof (induction es arbitrary: st)
  case (Cons e es)
  obtain u where u: "budget_event_user e = None \<or> budget_event_user e = Some u" "acts_for u (fst st) (fst (budget_step U H D e st))"
    using budget_step_acts [OF D Cons.prems(1)] by blast
  show ?case
  proof (cases "budget_event_user e")
    case (Some k)
    then have "v \<noteq> u" using u(1) Cons.prems(2) by auto
    with Cons.IH [of "budget_step U H D e st"] acts_for_inv [OF u(2) Cons.prems(1)] acts_for_tenant [OF u(2)] Cons.prems(2) show ?thesis by simp
  next
    case None
    then obtain gen now data where e: "e = BCreated gen now data" "created_event_user data = None" by (cases e) auto
    then have "budget_step U H D e st = st" by (simp add: on_transaction_created_def)
    with Cons show ?thesis by simp
  qed
qed simp

theorem budget_run_isolated_witness:
  "budget_tenant ''ann'' (fst (budget_run demo_unicode demo_net demo_bdrivers
     [BRequest ''r1'' ''bob'' (DeleteBudget (mem_hex 7)), BRequest ''r2'' '''' GetGoals,
      BCreated (\<lambda>k. (demo_march, of_nat k)) demo_march (JObj [(''user_id'', JStr ''bob'')])] (demo_bdb, 0))) = budget_tenant ''ann'' demo_bdb"
proof -
  let ?es = "[BRequest ''r1'' ''bob'' (DeleteBudget (mem_hex 7)), BRequest ''r2'' '''' GetGoals,
      BCreated (\<lambda>k. (demo_march, of_nat k)) demo_march (JObj [(''user_id'', JStr ''bob'')])]"
  have "goals_inv (db_goals demo_bdb)" using demo_goals_inv by (simp add: demo_bdb_def)
  then have i: "budget_inv (fst (demo_bdb, 0 :: nat))" using demo_bdb_inv by (simp add: budget_inv_def)
  have v: "\<forall>e \<in> set ?es. budget_event_user e \<noteq> Some ''ann''" by (simp add: created_event_user_def obj_get_def)
  from budget_run_isolated [OF lawful_demo_budget i v] show ?thesis by simp
qed

section \<open>What a call does to expense-service\<close>

text \<open>
  A relation that every request made for \<open>u\<close> respects is respected by everything
  that budget-service does for \<open>u\<close>.
\<close>

definition net_step :: "('s \<Rightarrow> 's \<Rightarrow> bool) \<Rightarrow> string \<Rightarrow> 's expense_http \<Rightarrow> bool" where
  "net_step R u H \<longleftrightarrow> reflp R \<and> transp R \<and> (\<forall>q s. R s (snd (H u q s)))"

lemma doGet_net: "net_step R u H \<Longrightarrow> doGet H u q s = (r, s') \<Longrightarrow> R s s'"
  unfolding net_step_def doGet_def by (cases "H u q s") (auto split: sum.splits option.splits if_splits, (metis snd_conv)+)

lemma sum_pages_net: "net_step R u H \<Longrightarrow> sum_pages H u cid from to n page acc s = (r, s') \<Longrightarrow> R s s'"
proof (induction n arbitrary: page acc s)
  case 0
  then show ?case by (simp add: net_step_def reflp_def)
next
  case (Suc n)
  obtain q s1 where q: "doGet H u (GetTransactions (page_query cid from to page)) s = (q, s1)"
    by (cases "doGet H u (GetTransactions (page_query cid from to page)) s")
  have "R s s1" by (rule doGet_net [OF Suc.prems(1) q])
  moreover have "s' = s1 \<or> R s1 s'"
    using Suc.prems q Suc.IH [OF Suc.prems(1)] by (cases q) (auto simp: Let_def split: if_splits)
  ultimately show ?case using Suc.prems(1) by (auto simp: net_step_def elim: transpE)
qed

lemma SumExpenses_net: "net_step R u H \<Longrightarrow> SumExpensesByCategory U H u name from to s = (r, s') \<Longrightarrow> R s s'"
proof -
  assume H: "net_step R u H" and r: "SumExpensesByCategory U H u name from to s = (r, s')"
  obtain q s1 where q: "doGet H u GetCategories s = (q, s1)" by (cases "doGet H u GetCategories s")
  have "R s s1" by (rule doGet_net [OF H q])
  moreover have "s' = s1 \<or> R s1 s'"
    using r q sum_pages_net [OF H] unfolding SumExpensesByCategory_def findCategoryIDByName_def
    by (cases q) (auto split: option.splits)
  ultimately show ?thesis using H by (auto simp: net_step_def elim: transpE)
qed

lemma summary_loop_net: "net_step R u H \<Longrightarrow> summary_loop U H u from to bs acc s = (r, s') \<Longrightarrow> R s s'"
proof (induction bs arbitrary: acc s)
  case Nil
  then show ?case by (simp add: net_step_def reflp_def)
next
  case (Cons b bs)
  obtain q s1 where q: "SumExpensesByCategory U H u (b_category b) from to s = (q, s1)"
    by (cases "SumExpensesByCategory U H u (b_category b) from to s")
  have "R s s1" by (rule SumExpenses_net [OF Cons.prems(1) q])
  moreover have "s' = s1 \<or> R s1 s'" using Cons.prems q Cons.IH [OF Cons.prems(1)] by (cases q) auto
  ultimately show ?case using Cons.prems(1) by (auto simp: net_step_def elim: transpE)
qed

lemma overspend_loop_net: "net_step R u H \<Longrightarrow> overspend_loop U H D gen u now k bs s net = (s', net') \<Longrightarrow> R net net'"
proof (induction bs arbitrary: k s net)
  case Nil
  then show ?case by (simp add: net_step_def reflp_def)
next
  case (Cons b bs)
  obtain q s1 where q: "SumExpensesByCategory U H u (b_category b) (currentPeriodStart (b_period b) now) now net = (q, s1)"
    by (cases "SumExpensesByCategory U H u (b_category b) (currentPeriodStart (b_period b) now) now net")
  have "R net s1" by (rule SumExpenses_net [OF Cons.prems(1) q])
  moreover have "R s1 net'" using Cons.prems q Cons.IH [OF Cons.prems(1)] by (cases q) (auto simp: Let_def)
  ultimately show ?case using Cons.prems(1) by (auto simp: net_step_def elim: transpE)
qed

lemma budget_api_net:
  assumes H: "net_step R hdr H"
  shows "R (snd st) (snd (snd (budget_api U H D rid hdr req st)))"
proof -
  have same: "R s s" for s using H by (simp add: net_step_def reflp_def)
  have "R (snd st) (snd (snd (ReportHandler_Summary U H D rid hdr f t st)))" for f t
    using summary_loop_net [OF H] same
    by (auto simp: ReportHandler_Summary_def reportService_Summary_def split: option.split prod.split sum.split)
  with same show ?thesis unfolding budget_api_def RequireIdentity_def by (cases req) auto
qed

lemma on_created_net:
  assumes u: "created_event_user data = Some u" and H: "net_step R u H"
  shows "R (snd st) (snd (snd (on_transaction_created U H D gen now data st)))"
proof -
  obtain q c where q: "MongoBudgetRepository_ListByUser (m_budgets D) u (db_budgets (fst st)) = (q, c)"
    by (cases "MongoBudgetRepository_ListByUser (m_budgets D) u (db_budgets (fst st))")
  have h: "HandleTransactionCreated U H D gen u (utc now) st = (case q of
      Inl e \<Rightarrow> (Inl e, ((fst st)\<lparr>db_budgets := c\<rparr>, snd st))
    | Inr bs \<Rightarrow> (Inr (), overspend_loop U H D gen u (utc now) 0 bs ((fst st)\<lparr>db_budgets := c\<rparr>) (snd st)))"
    using q by (cases st) (simp add: HandleTransactionCreated_def split: sum.split)
  have "R (snd st) (snd (overspend_loop U H D gen u (utc now) 0 bs s1 (snd st)))" for bs s1
    using overspend_loop_net [OF H] by (metis prod.collapse)
  moreover have "R (snd st) (snd st)" using H by (simp add: net_step_def reflp_def)
  ultimately show ?thesis by (simp add: on_transaction_created_def u h split: sum.split)
qed

end
