(* ===== verification/Report_System.thy ===== *)
theory Report_System imports Expense_System Budget_Client begin

text \<open>
  budget-service's client against expense-service itself: the network is the model of
  the expense API over its database, and an answer with a NaN or infinite amount, for
  which \<open>json.Marshal\<close> has no text, reaches the client as an undecodable body. The result
  of the paging loop is compared with one fold over the stored transactions.
\<close>

fun encodable :: "expense_data \<Rightarrow> bool" where
  "encodable (DAccounts as) = list_all (\<lambda>a. is_finite (a_balance a)) as"
| "encodable (DAccount a) = is_finite (a_balance a)"
| "encodable (DTransactions pg) = list_all (\<lambda>t. is_finite (tx_amount t)) (tp_transactions pg)"
| "encodable (DTransaction t) = is_finite (tx_amount t)"
| "encodable _ = True"

definition expense_http :: "unicode \<Rightarrow> 'e expense_drivers \<Rightarrow> string \<Rightarrow> 'e expense_db expense_http" where
  "expense_http U D rid = (\<lambda>u q s. case expense_api U D rid u q s of (r, s1) \<Rightarrow>
     (case Option.bind (re_body r) en_data of
        None \<Rightarrow> (Inr r, s1)
      | Some x \<Rightarrow> if encodable x then (Inr r, s1) else (Inl ''unexpected end of JSON input'', s1)))"

section \<open>The reference\<close>

text \<open>What the sum is of: the user's transactions of the category in the window, in whole seconds, latest first.\<close>

definition report_filter :: "string \<Rightarrow> string \<Rightarrow> gotime \<Rightarrow> gotime \<Rightarrow> transaction_doc \<Rightarrow> bool" where
  "report_filter u cid from to d \<longleftrightarrow> td_user d = u \<and> (cid \<noteq> '''' \<longrightarrow> td_category d = Some cid) \<and>
     t_sec from * 1000 \<le> td_date d \<and> td_date d \<le> t_sec to * 1000"

definition report_docs :: "string \<Rightarrow> string \<Rightarrow> gotime \<Rightarrow> gotime \<Rightarrow> transaction_doc list \<Rightarrow> transaction_doc list" where
  "report_docs u cid from to ds = sort_key (\<lambda>d. - td_date d) (filter (report_filter u cid from to) ds)"

definition expense_total :: "transaction_doc list \<Rightarrow> f64" where
  "expense_total ds = fsum f0 (map td_amount (filter (\<lambda>d. td_type d = ''expense'') ds))"

text \<open>A list sorted by distinct keys is determined by its elements.\<close>

lemma sorted_desc_unique:
  assumes "mset ys = mset xs" and "sorted_wrt (\<lambda>a b. f b \<le> f a) ys" and "distinct (map f xs)"
  shows "ys = sort_key (\<lambda>d. - f d :: int) xs"
proof (rule properties_for_sort_key [symmetric])
  show "sorted (map (\<lambda>d. - f d) ys)" using assms(2) by (simp add: sorted_map)
  have inj: "inj_on f (set xs)" "distinct xs" using assms(3) by (simp_all add: distinct_map)
  have dy: "distinct ys" "set ys = set xs" using assms(1) inj(2) by (metis mset_eq_imp_distinct_iff, metis mset_eq_setD)
  have one: "filter (\<lambda>x. - f k = - f x) zs = [k]" if "set zs = set xs" "distinct zs" "k \<in> set zs" for k zs
  proof -
    have "filter (\<lambda>x. - f k = - f x) zs = filter (\<lambda>x. x = k) zs"
      using inj(1) that by (intro filter_cong) (auto simp: inj_on_def)
    also have "\<dots> = [k]" using that(2,3) by (induction zs) (auto simp: filter_empty_conv)
    finally show ?thesis .
  qed
  show "filter (\<lambda>x. - f k = - f x) ys = filter (\<lambda>x. - f k = - f x) xs" if "k \<in> set ys" for k
    using one [of ys k] one [of xs k] that dy inj(2) by simp
qed (rule assms(1))

definition rfc3339_ok :: "gotime \<Rightarrow> bool" where
  "rfc3339_ok t \<longleftrightarrow> 0 \<le> fst (time_date t) \<and> fst (time_date t) < 10000 \<and> t_off t mod 60 = 0 \<and> \<bar>t_off t\<bar> < 90000"

lemma parseDate_format: "rfc3339_ok t \<Longrightarrow> parseDate (format_rfc3339 t) = Some (t\<lparr>t_nsec := 0\<rparr>)" "format_rfc3339 t \<noteq> ''''"
proof -
  show "format_rfc3339 t \<noteq> ''''" by (simp add: format_rfc3339_def Let_def split: prod.splits)
  then show "rfc3339_ok t \<Longrightarrow> parseDate (format_rfc3339 t) = Some (t\<lparr>t_nsec := 0\<rparr>)"
    using parse_format_rfc3339 [of t] by (simp add: rfc3339_ok_def parseDate_def)
qed

lemma query_page: "n < 2 ^ 63 \<Longrightarrow> query_int (show_nat n) = of_nat n"
  using atoi_show_nat [of n] by (simp add: query_int_def)

text \<open>The list call that a page of the loop makes, and that page.\<close>

definition report_input :: "string \<Rightarrow> gotime \<Rightarrow> gotime \<Rightarrow> nat \<Rightarrow> list_transactions_input" where
  "report_input cid from to p = \<lparr>li_account = '''', li_category = cid, li_from = Some (from\<lparr>t_nsec := 0\<rparr>),
     li_to = Some (to\<lparr>t_nsec := 0\<rparr>), li_page = of_nat p, li_page_size = 100\<rparr>"

lemma report_call:
  assumes u: "u \<noteq> ''''" and win: "rfc3339_ok from" "rfc3339_ok to" and p: "p < 2 ^ 63"
  shows "expense_api U D rid u (GetTransactions (page_query cid from to p)) s =
    answer rid 200 DTransactions (transactionService_List D u (report_input cid from to p) s)"
proof -
  have "query_int (show_nat p) = of_nat p" "query_int (show_nat reportPageSize) = 100"
    using query_page [OF p] query_page [of 100] by (simp_all add: reportPageSize_def)
  with u show ?thesis
    by (simp add: expense_api_def RequireIdentity_def TransactionHandler_List_def page_query_def parseDate_format(1) [OF win(1)]
        parseDate_format(1) [OF win(2)] parseDate_format(2) report_input_def)
qed

lemma report_page:
  assumes D: "lawful_expense D" and u: "u \<noteq> ''''" and win: "rfc3339_ok from" "rfc3339_ok to"
    and dates: "distinct (map td_date (filter (report_filter u cid from to) (docs (db_tx s))))"
    and p: "1 \<le> p" "p \<le> 50"
    and get: "doGet (expense_http U D rid) u (GetTransactions (page_query cid from to p)) s = (Inr data, s1)"
  shows "same_docs s s1"
    and "decode_transactions data = map (\<lambda>d. \<lparr>tdto_id = hex (m_tx D) (td_id d), tdto_type = td_type d, tdto_amount = td_amount d\<rparr>)
      (page_of 100 (p - 1) (report_docs u cid from to (docs (db_tx s))))"
proof -
  define inp where "inp = report_input cid from to p"
  obtain r t where r: "transactionService_List D u inp s = (r, t)" by (cases "transactionService_List D u inp s")
  have api: "expense_api U D rid u (GetTransactions (page_query cid from to p)) s = answer rid 200 DTransactions (r, t)"
    using report_call [OF u win, of p U D rid cid s] p r by (simp add: inp_def)
  obtain pgd where ok: "r = Inr pgd" "s1 = t" "data = Some (DTransactions pgd)"
  proof (cases r)
    case (Inl e)
    then show ?thesis using get that
      by (auto simp: doGet_def expense_http_def api answer_def writeServiceError_def httpx_Fail_def split: go_error.splits)
  next
    case (Inr x)
    then show ?thesis using get that [of x]
      by (auto simp: doGet_def expense_http_def api answer_def httpx_Success_def split: if_splits)
  qed
  show "same_docs s s1" using good_step_List(2) [OF D, of s u inp] r ok(2) by simp
  have "\<not> time_before (to\<lparr>t_nsec := 0\<rparr>) (from\<lparr>t_nsec := 0\<rparr>)" using r ok(1) by (auto simp: List_def_applied inp_def report_input_def split: if_splits)
  then have range: "\<not> (case (li_from inp, li_to inp) of (Some f, Some t) \<Rightarrow> time_before t f | _ \<Rightarrow> False)" by (simp add: inp_def report_input_def)
  have sp: "sint (of_nat p :: int64) = int p" using p by (simp add: signed_of_nat signed_take_bit_int_eq_self)
  then have ap: "applied_page (li_page inp) = of_nat p" "applied_size (li_page_size inp) = 100"
    using p by (simp_all add: inp_def report_input_def applied_page_def applied_size_def word_sless_alt sint_consts)
  from D r range show "decode_transactions data = map (\<lambda>d. \<lparr>tdto_id = hex (m_tx D) (td_id d), tdto_type = td_type d, tdto_amount = td_amount d\<rparr>)
      (page_of 100 (p - 1) (report_docs u cid from to (docs (db_tx s))))"
  proof (cases rule: List_result)
    case (err m)
    with ok(1) show ?thesis by simp
  next
    case L: (ok ds ys q n skip filt)
    have f: "filt = report_filter u cid from to"
      by (rule ext) (simp add: L(3) inp_def report_input_def buildTransactionFilter_def report_filter_def bson_time_def conj_ac)
    have y: "ys = report_docs u cid from to (docs (db_tx s))"
      unfolding report_docs_def by (rule sorted_desc_unique) (use L(6,7) f dates in simp_all)
    have "(sint (applied_page (li_page inp)) - 1) * sint (applied_size (li_page_size inp)) < 2 ^ 63"
      using p by (simp add: ap sp sint_consts)
    from skip_exact [OF this] have "skip = (int p - 1) * 100" by (simp add: L(1,2,4) ap sp sint_consts)
    then have "nat skip = (p - 1) * 100" using p by simp
    then have "ds = page_of 100 (p - 1) ys" using L(2,8) ap by (simp add: page_of_def sint_consts)
    with L(9) ok(1,3) y show ?thesis by (auto simp: transaction_toDomain_def)
  qed
qed

lemma expense_total_append: "fsum (expense_total xs) (map td_amount (filter (\<lambda>d. td_type d = ''expense'') ys)) = expense_total (xs @ ys)"
  by (simp add: expense_total_def fsum_append)

lemma sum_pages_exact:
  assumes D: "lawful_expense D" and u: "u \<noteq> ''''" and win: "rfc3339_ok from" "rfc3339_ok to"
  shows "distinct (map td_date (filter (report_filter u cid from to) (docs (db_tx s)))) \<Longrightarrow> 1 \<le> p \<Longrightarrow> p + n = 51 \<Longrightarrow>
    acc = expense_total (take ((p - 1) * 100) (report_docs u cid from to (docs (db_tx s)))) \<Longrightarrow>
    sum_pages (expense_http U D rid) u cid from to n p acc s = (Inr tot, s') \<Longrightarrow>
    same_docs s s' \<and> tot = expense_total (take 5000 (report_docs u cid from to (docs (db_tx s))))"
proof (induction n arbitrary: p acc s)
  case 0
  then have "p = 51" by simp
  with 0 show ?case by auto
next
  case (Suc n)
  define Y where "Y = report_docs u cid from to (docs (db_tx s))"
  let ?get = "doGet (expense_http U D rid) u (GetTransactions (page_query cid from to p)) s"
  obtain data s1 where get: "?get = (Inr data, s1)"
    and rest: "(let txs = decode_transactions data; acc1 = add_expenses acc txs in if length txs < reportPageSize then (Inr acc1, s1)
         else sum_pages (expense_http U D rid) u cid from to n (Suc p) acc1 s1) = (Inr tot, s')"
    using Suc.prems(5) by (auto elim: on_okE)
  have p: "p \<le> 50" using Suc.prems(3) by simp
  note pg = report_page [OF D u win Suc.prems(1,2) p get]
  let ?X = "page_of 100 (p - 1) Y"
  have cut: "take ((p - 1) * 100) Y @ ?X = take (p * 100) Y"
    using Suc.prems(2) by (simp add: page_of_def flip: take_add) (simp add: algebra_simps)
  have len: "length (decode_transactions data) = length ?X" by (simp add: pg(2) Y_def)
  have acc1: "add_expenses acc (decode_transactions data) = expense_total (take (p * 100) Y)"
    unfolding add_expenses_fsum pg(2) Suc.prems(4) Y_def [symmetric] cut [symmetric] expense_total_append [symmetric]
    by (simp add: filter_map comp_def)
  show ?case
  proof (cases "length ?X < 100")
    case True
    have "length Y \<le> p * 100" using short_page_last [OF True] Suc.prems(2) by simp
    then have "take (p * 100) Y = take 5000 Y" using p by simp
    with rest True len acc1 pg(1) show ?thesis by (simp add: reportPageSize_def Let_def Y_def)
  next
    case False
    then have nxt: "sum_pages (expense_http U D rid) u cid from to n (Suc p) (expense_total (take (p * 100) Y)) s1 = (Inr tot, s')"
      using rest len acc1 by (simp add: reportPageSize_def Let_def)
    have tx: "docs (db_tx s1) = docs (db_tx s)" using pg(1) by (simp add: same_docs_def)
    from Suc.IH [OF _ _ _ _ nxt] Suc.prems(1,3) tx have "same_docs s1 s' \<and> tot = expense_total (take 5000 Y)" by (simp add: Y_def)
    with same_docs_trans [OF pg(1)] show ?thesis by (simp add: Y_def)
  qed
qed


definition demo_report_db :: "bool list expense_db" where
  "demo_report_db = demo_db\<lparr>db_tx := mem_coll [\<lparr>td_id = 4, td_user = ''ann'', td_account = mem_hex 7, td_category = Some (mem_hex 3),
     td_type = ''expense'', td_amount = Fin False 1, td_currency = ''USD'', td_date = 6000, td_note = '''', td_created = 6, td_updated = 6\<rparr>]\<rparr>"

lemma demo_sum: "\<exists>tot s'. SumExpensesByCategory demo_unicode (expense_http demo_unicode demo_drivers ''r1'') ''ann'' ''food''
      (time_of_bson 0) (time_of_bson 100000) demo_report_db = (Inr tot, s')"
proof -
  let ?f = "time_of_bson 0" and ?t = "time_of_bson 100000"
  have w: "rfc3339_ok ?f" "rfc3339_ok ?t" by code_simp+
  have fold: "equal_fold demo_unicode ''Food'' ''food''" by code_simp
  have cats: "findCategoryIDByName demo_unicode (expense_http demo_unicode demo_drivers ''r1'') ''ann'' ''food'' demo_report_db =
      (Inr (Some (mem_hex 3)), demo_report_db)"
    by (simp add: findCategoryIDByName_def doGet_def expense_http_def expense_api_def RequireIdentity_def CategoryHandler_List_def on_cat_def
        categoryService_List_def CategoryRepository_ListByUser_def answer_def httpx_Success_def demo_drivers_def mem_driver_def mem_call_def
        demo_report_db_def demo_db_def mem_coll_def find_sorted_def page_cut_def category_toDomain_def fold)
  have sz: "applied_page 1 = 1" "applied_size 100 = 100" "repo_page 1 = 1" "repo_page_size 100 = 100" by code_simp+
  obtain pg where l: "transactionService_List demo_drivers ''ann'' (report_input (mem_hex 3) ?f ?t 1) demo_report_db = (Inr pg, demo_report_db)"
    and one: "length (tp_transactions pg) = 1" "encodable (DTransactions pg)"
    by (simp add: List_def_applied report_input_def sz TransactionRepository_ListByUser_def on_tx_def time_before_def time_of_bson_def
        buildTransactionFilter_def bson_time_def page_cut_def sint_consts transaction_toDomain_def
        demo_drivers_def mem_driver_def mem_call_def demo_report_db_def demo_db_def mem_coll_def Let_def)
  have "doGet (expense_http demo_unicode demo_drivers ''r1'') ''ann'' (GetTransactions (page_query (mem_hex 3) ?f ?t 1)) demo_report_db =
      (Inr (Some (DTransactions pg)), demo_report_db)"
    using one(2) by (simp add: doGet_def expense_http_def report_call [OF _ w] l answer_def httpx_Success_def del: One_nat_def)
  then have "\<exists>tot s'. sum_pages (expense_http demo_unicode demo_drivers ''r1'') ''ann'' (mem_hex 3) ?f ?t (Suc 49) 1 f0 demo_report_db = (Inr tot, s')"
    unfolding sum_pages.simps(2) using one(1) by (simp add: reportPageSize_def Let_def)
  moreover have "maxReportPages = Suc 49" by (simp add: maxReportPages_def)
  ultimately show ?thesis using cats by (simp only: SumExpensesByCategory_def on_ok_simps option.case)
qed


end
