(* ===== verification/Notif_Service.thy ===== *)
theory Notif_Service imports Repo_Spec Go_ParseFloat Paging Outbox begin

text \<open>
  notification-service: \<open>domain/notification.go\<close>, \<open>repository/mongo_notification.go\<close>,
  \<open>service/notification_service.go\<close>, \<open>service/email_sender.go\<close> and the consumer of
  \<open>finora.budget.overspent\<close> (\<open>service/overspend_consumer.go\<close>, \<open>domain/event.go\<close> and the
  callback in \<open>cmd/server/main.go\<close>). The email sender is a function on a state of its own.
\<close>

section \<open>Domain\<close>

record notification =
  n_id :: string
  n_user :: string
  n_title :: string
  n_message :: string
  n_type :: string
  n_read :: bool
  n_created :: gotime

record notification_filter =
  nf_unread :: bool
  nf_page :: int64
  nf_page_size :: int64

record notification_page =
  np_notifications :: "notification list"
  np_page :: int64
  np_page_size :: int64
  np_total :: nat

section \<open>Repository\<close>

record notification_doc =
  nd_id :: oid
  nd_user :: string
  nd_title :: string
  nd_message :: string
  nd_type :: string
  nd_read :: bool
  nd_created :: int

type_synonym 'e notif_coll = "('e, notification_doc) coll"
type_synonym 'e notif_driver = "('e, notification_doc) driver"

definition notification_toDomain :: "'e notif_driver \<Rightarrow> notification_doc \<Rightarrow> notification" where
  "notification_toDomain M d = \<lparr>n_id = hex M (nd_id d), n_user = nd_user d, n_title = nd_title d, n_message = nd_message d,
     n_type = nd_type d, n_read = nd_read d, n_created = time_of_bson (nd_created d)\<rparr>"

text \<open>The document has no \<open>_id\<close> of its own (\<open>omitempty\<close>): the driver draws \<open>i\<close>.\<close>

definition notification_newDoc :: "oid \<Rightarrow> notification \<Rightarrow> notification_doc" where
  "notification_newDoc i n = \<lparr>nd_id = i, nd_user = n_user n, nd_title = n_title n, nd_message = n_message n,
     nd_type = n_type n, nd_read = n_read n, nd_created = bson_time (n_created n)\<rparr>"

definition MongoNotificationRepository_Create ::
  "'e notif_driver \<Rightarrow> oid \<Rightarrow> notification \<Rightarrow> 'e notif_coll \<Rightarrow> notification res \<times> 'e notif_coll" where
  [repo_defs]: "MongoNotificationRepository_Create M i n c =
    (case insert_one M (notification_newDoc i n) c of
       (Inl e, c') \<Rightarrow> (Inl (db_err e), c')
     | (Inr _, c') \<Rightarrow> (Inr (n\<lparr>n_id := hex M i\<rparr>), c'))"

definition notification_query :: "string \<Rightarrow> notification_filter \<Rightarrow> notification_doc \<Rightarrow> bool" where
  "notification_query u f d \<longleftrightarrow> nd_user d = u \<and> (nf_unread f \<longrightarrow> \<not> nd_read d)"

definition MongoNotificationRepository_ListByUser ::
  "'e notif_driver \<Rightarrow> string \<Rightarrow> notification_filter \<Rightarrow> 'e notif_coll \<Rightarrow> notification_page res \<times> 'e notif_coll" where
  [repo_defs]: "MongoNotificationRepository_ListByUser M u f c =
    (case count_docs M (notification_query u f) c of
       (Inl e, c1) \<Rightarrow> (Inl (db_err e), c1)
     | (Inr cnt, c1) \<Rightarrow>
        (let skip = (nf_page f - 1) * nf_page_size f
         in case find_all M (notification_query u f)
              \<lparr>sort_desc = nd_created, skip_of = sint skip, limit_of = nat (sint (nf_page_size f))\<rparr> c1 of
              (Inl e, c2) \<Rightarrow> (Inl (db_err e), c2)
            | (Inr ds, c2) \<Rightarrow>
                (Inr \<lparr>np_notifications = map (notification_toDomain M) ds, np_page = 0, np_page_size = 0, np_total = cnt\<rparr>, c2)))"

definition MongoNotificationRepository_MarkRead ::
  "'e notif_driver \<Rightarrow> string \<Rightarrow> string \<Rightarrow> 'e notif_coll \<Rightarrow> notification res \<times> 'e notif_coll" where
  [repo_defs]: "MongoNotificationRepository_MarkRead M u s c =
    (case from_hex M s of
       None \<Rightarrow> (Inl ErrNotFound, c)
     | Some i \<Rightarrow>
        (case find_update M (\<lambda>d. nd_id d = i \<and> nd_user d = u) (\<lambda>d. d\<lparr>nd_read := True\<rparr>) c of
           (Inl NoDocuments, c') \<Rightarrow> (Inl ErrNotFound, c')
         | (Inl e, c') \<Rightarrow> (Inl (db_err e), c')
         | (Inr d, c') \<Rightarrow> (Inr (notification_toDomain M d), c')))"

section \<open>Service\<close>

text \<open>The pattern \<open>^[a-z0-9_]+$\<close>.\<close>

definition validNotifType :: "string \<Rightarrow> bool" where
  "validNotifType t \<longleftrightarrow> t \<noteq> '''' \<and>
     list_all (\<lambda>c. (97 \<le> ord c \<and> ord c \<le> 122) \<or> (48 \<le> ord c \<and> ord c \<le> 57) \<or> c = CHR ''_'') t"

type_synonym 'm email_sender = "string \<Rightarrow> string \<Rightarrow> string \<Rightarrow> 'm \<Rightarrow> unit res \<times> 'm"

text \<open>The only sender: a log line with the length of the body.\<close>

definition LoggingEmailSender_Send :: "(string \<times> string \<times> nat) list email_sender" where
  "LoggingEmailSender_Send to subject body log = (Inr (), log @ [(to, subject, length body)])"

definition notificationService_Create ::
  "'m email_sender \<Rightarrow> 'e notif_driver \<Rightarrow> gotime \<Rightarrow> oid \<Rightarrow> string \<Rightarrow> string \<Rightarrow> string \<Rightarrow> string \<Rightarrow> 'e notif_coll \<times> 'm \<Rightarrow>
   notification res \<times> 'e notif_coll \<times> 'm" where
  [svc_defs]: "notificationService_Create E M now i u title msg ty st =
    (if \<not> validNotifType ty
     then (Inl (ErrValidation ''type must contain only lowercase letters, digits, and underscores''), st)
     else (case MongoNotificationRepository_Create M i
          \<lparr>n_id = '''', n_user = u, n_title = title, n_message = msg, n_type = ty, n_read = False, n_created = utc now\<rparr> (fst st) of
        (Inl e, c) \<Rightarrow> (Inl e, (c, snd st))
      | (Inr n, c) \<Rightarrow> (Inr n, (c, snd (E u title msg (snd st))))))"

definition notificationService_List ::
  "'e notif_driver \<Rightarrow> string \<Rightarrow> notification_filter \<Rightarrow> 'e notif_coll \<Rightarrow> notification_page res \<times> 'e notif_coll" where
  [svc_defs]: "notificationService_List M u f c =
    (let page = (if nf_page f <s 1 then 1 else nf_page f);
         pageSize0 = (if nf_page_size f <s 1 then 20 else nf_page_size f);
         pageSize = (if 100 <s pageSize0 then 100 else pageSize0)
     in on_ok (MongoNotificationRepository_ListByUser M u \<lparr>nf_unread = nf_unread f, nf_page = page, nf_page_size = pageSize\<rparr> c)
          (\<lambda>result c1. (Inr (result\<lparr>np_page := page, np_page_size := pageSize\<rparr>), c1)))"

definition notificationService_MarkRead ::
  "'e notif_driver \<Rightarrow> string \<Rightarrow> string \<Rightarrow> 'e notif_coll \<Rightarrow> notification res \<times> 'e notif_coll" where
  [svc_defs]: "notificationService_MarkRead M u s c = MongoNotificationRepository_MarkRead M u s c"

section \<open>The consumer of finora.budget.overspent\<close>

record overspent_notice =
  on_budget :: string
  on_user :: string
  on_category :: string
  on_period :: string
  on_budgeted :: f64
  on_actual :: f64
  on_start :: string

text \<open>
  \<open>json.Unmarshal\<close>: absent and null fields keep the zero value, a field of another type makes the
  payload malformed. Keys are matched exactly, as the producer writes them.
\<close>

fun notice_str :: "json \<Rightarrow> string option" where
  "notice_str (JStr s) = Some s"
| "notice_str JNull = Some ''''"
| "notice_str _ = None"

fun notice_num :: "json \<Rightarrow> f64 option" where
  "notice_num (JNum x) = Some x"
| "notice_num (JInt k) = Some (if k < 0 then fneg (f64_of_nat (nat (- k))) else f64_of_nat (nat k))"
| "notice_num JNull = Some (Fin False 0)"
| "notice_num _ = None"

definition decode_notice :: "json \<Rightarrow> overspent_notice option" where
  "decode_notice data = (case (case data of JObj kvs \<Rightarrow> Some kvs | JNull \<Rightarrow> Some [] | _ \<Rightarrow> None) of
      None \<Rightarrow> None
    | Some kvs \<Rightarrow>
       (case (notice_str (obj_get ''budget_id'' kvs), notice_str (obj_get ''user_id'' kvs), notice_str (obj_get ''category'' kvs),
              notice_str (obj_get ''period'' kvs), notice_num (obj_get ''budgeted'' kvs), notice_num (obj_get ''actual'' kvs),
              notice_str (obj_get ''period_start'' kvs)) of
          (Some b, Some u, Some cat, Some p, Some x, Some y, Some st) \<Rightarrow>
            Some \<lparr>on_budget = b, on_user = u, on_category = cat, on_period = p, on_budgeted = x, on_actual = y, on_start = st\<rparr>
        | _ \<Rightarrow> None))"

definition overspent_message :: "overspent_notice \<Rightarrow> string" where
  "overspent_message ev = ''You've spent '' @ show_fixed2 (on_actual ev) @ '' of your '' @ show_fixed2 (on_budgeted ev) @ '' '' @
     on_period ev @ '' '' @ on_category ev @ '' budget.''"

definition HandleBudgetOverspent ::
  "'m email_sender \<Rightarrow> 'e notif_driver \<Rightarrow> gotime \<Rightarrow> oid \<Rightarrow> overspent_notice \<Rightarrow> 'e notif_coll \<times> 'm \<Rightarrow> unit res \<times> 'e notif_coll \<times> 'm" where
  [svc_defs]: "HandleBudgetOverspent E M now i ev st =
    on_ok (notificationService_Create E M now i (on_user ev) ''Budget exceeded'' (overspent_message ev) ''overspend'' st)
      (\<lambda>_ st1. (Inr (), st1))"

definition on_budget_overspent ::
  "'m email_sender \<Rightarrow> 'e notif_driver \<Rightarrow> gotime \<Rightarrow> oid \<Rightarrow> json \<Rightarrow> 'e notif_coll \<times> 'm \<Rightarrow> unit res \<times> 'e notif_coll \<times> 'm" where
  "on_budget_overspent E M now i data st = (case decode_notice data of
      None \<Rightarrow> (Inr (), st)
    | Some ev \<Rightarrow> HandleBudgetOverspent E M now i ev st)"

section \<open>How the collection of notifications evolves\<close>

text \<open>
  What calls on behalf of the users in \<open>A\<close> may do: append notifications of these users with a
  legal type, and mark theirs as read. Nothing is deleted, rewritten or marked as unread.
\<close>

definition read_or_same :: "(string \<Rightarrow> bool) \<Rightarrow> notification_doc \<Rightarrow> notification_doc \<Rightarrow> bool" where
  "read_or_same A d d' \<longleftrightarrow> d' = d \<or> (A (nd_user d) \<and> d' = d\<lparr>nd_read := True\<rparr>)"

definition evolves :: "(string \<Rightarrow> bool) \<Rightarrow> 'e notif_coll \<Rightarrow> 'e notif_coll \<Rightarrow> bool" where
  "evolves A c c' \<longleftrightarrow> (ids_distinct nd_id c \<longrightarrow> ids_distinct nd_id c') \<and>
     (\<exists>old new. docs c' = old @ new \<and> list_all2 (read_or_same A) (docs c) old \<and>
        (\<forall>n \<in> set new. A (nd_user n) \<and> validNotifType (nd_type n)))"

lemma read_or_same_refl: "list_all2 (read_or_same A) ds ds"
  by (rule list.rel_refl) (simp add: read_or_same_def)

lemma read_or_same_user: "read_or_same A d d' \<Longrightarrow> nd_user d' = nd_user d \<and> nd_type d' = nd_type d"
  by (auto simp: read_or_same_def)

lemma evolves_same: "docs c' = docs c \<Longrightarrow> evolves A c c'"
proof -
  assume c: "docs c' = docs c"
  then have "docs c' = docs c @ [] \<and> list_all2 (read_or_same A) (docs c) (docs c) \<and> (\<forall>n \<in> set []. A (nd_user n) \<and> validNotifType (nd_type n))"
    using read_or_same_refl by simp
  with c show ?thesis unfolding evolves_def ids_distinct_def by metis
qed

lemma evolves_refl [simp]: "evolves A c c"
  by (rule evolves_same) simp

lemma evolves_mono:
  assumes "evolves A c c'" and "\<And>v. A v \<Longrightarrow> B v"
  shows "evolves B c c'"
proof -
  have "list_all2 (read_or_same B) ds old" if "list_all2 (read_or_same A) ds old" for ds old
    by (rule list_all2_mono [OF that]) (use assms(2) in \<open>auto simp: read_or_same_def\<close>)
  with assms show ?thesis unfolding evolves_def by blast
qed

lemma evolves_trans:
  assumes "evolves A c c1" and "evolves A c1 c2"
  shows "evolves A c c2"
proof -
  obtain o1 n1 where 1: "docs c1 = o1 @ n1" "list_all2 (read_or_same A) (docs c) o1" "\<forall>n \<in> set n1. A (nd_user n) \<and> validNotifType (nd_type n)"
    using assms(1) unfolding evolves_def by blast
  obtain o2 n2 where 2: "docs c2 = o2 @ n2" "list_all2 (read_or_same A) (docs c1) o2" "\<forall>n \<in> set n2. A (nd_user n) \<and> validNotifType (nd_type n)"
    using assms(2) unfolding evolves_def by blast
  obtain x y where xy: "o2 = x @ y" "list_all2 (read_or_same A) o1 x" "list_all2 (read_or_same A) n1 y"
    using 2(2) unfolding 1(1) list_all2_append1 by blast
  have "list_all2 (read_or_same A) (docs c) x"
    by (rule list_all2_trans [OF _ 1(2) xy(2)]) (auto simp: read_or_same_def)
  moreover have "\<forall>n \<in> set (y @ n2). A (nd_user n) \<and> validNotifType (nd_type n)"
  proof -
    have "A (nd_user n) \<and> validNotifType (nd_type n)" if "n \<in> set y" for n
    proof -
      obtain k where "k < length y" "n = y ! k" using \<open>n \<in> set y\<close> by (metis in_set_conv_nth)
      with xy(3) have "n1 ! k \<in> set n1" "read_or_same A (n1 ! k) n" by (simp_all add: list_all2_conv_all_nth)
      with 1(3) read_or_same_user show ?thesis by metis
    qed
    with 2(3) show ?thesis by auto
  qed
  moreover have "docs c2 = x @ (y @ n2)" using 2(1) xy(1) by simp
  ultimately show ?thesis using assms unfolding evolves_def by blast
qed

lemma updated_read:
  assumes "one_updated (\<lambda>d. nd_id d = i \<and> nd_user d = u) (\<lambda>d. d\<lparr>nd_read := True\<rparr>) (docs c) (docs c')"
  shows "evolves (\<lambda>v. v = u) c c'"
proof -
  obtain xs d ys where d: "docs c = xs @ d # ys" "nd_user d = u" "docs c' = xs @ d\<lparr>nd_read := True\<rparr> # ys"
    using assms unfolding one_updated_def by blast
  have "list_all2 (read_or_same (\<lambda>v. v = u)) (docs c) (docs c')"
    unfolding d(1,3) using read_or_same_refl d(2) by (auto simp: read_or_same_def intro!: list_all2_appendI)
  then have "docs c' = docs c' @ [] \<and> list_all2 (read_or_same (\<lambda>v. v = u)) (docs c) (docs c') \<and>
      (\<forall>n \<in> set []. nd_user n = u \<and> validNotifType (nd_type n))" by simp
  moreover have "map nd_id (docs c') = map nd_id (docs c)" using d by simp
  ultimately show ?thesis unfolding evolves_def ids_distinct_def by metis
qed

lemma Create_evolves:
  assumes M: "lawful (same_id nd_id) M" and r: "notificationService_Create E M now i u title msg ty (c, m) = (r, (c', m'))"
  shows "evolves (\<lambda>v. v = u) c c'"
    and "r = Inr n \<Longrightarrow> docs c' = docs c @ [notification_newDoc i n] \<and> n_user n = u \<and> n_title n = title \<and> n_message n = msg \<and> n_type n = ty \<and>
      \<not> n_read n \<and> n_id n = hex M i \<and> m' = snd (E u title msg m)"
proof -
  let ?n = "\<lparr>n_id = '''', n_user = u, n_title = title, n_message = msg, n_type = ty, n_read = False, n_created = utc now\<rparr>"
  obtain q c1 where q: "MongoNotificationRepository_Create M i ?n c = (q, c1)" by (cases "MongoNotificationRepository_Create M i ?n c")
  note sh = create_shape [OF M q [unfolded MongoNotificationRepository_Create_def]]
  have "evolves (\<lambda>v. v = u) c c' \<and> (r = Inr n \<longrightarrow> docs c' = docs c @ [notification_newDoc i n] \<and> n_user n = u \<and> n_title n = title \<and>
      n_message n = msg \<and> n_type n = ty \<and> \<not> n_read n \<and> n_id n = hex M i \<and> m' = snd (E u title msg m))"
  proof (cases "validNotifType ty")
    case True
    with r q have c1: "c1 = c'" "r = q" "\<And>x. r = Inr x \<Longrightarrow> m' = snd (E u title msg m)"
      by (auto simp: notificationService_Create_def split: sum.splits)
    have "evolves (\<lambda>v. v = u) c c1" using sh(1)
    proof
      assume a: "docs c1 = docs c @ [notification_newDoc i ?n] \<and> (\<forall>x \<in> set (docs c). nd_id x \<noteq> nd_id (notification_newDoc i ?n))"
      have "list_all2 (read_or_same (\<lambda>v. v = u)) (docs c) (docs c) \<and>
          (\<forall>n \<in> set [notification_newDoc i ?n]. nd_user n = u \<and> validNotifType (nd_type n))"
        using True read_or_same_refl by (simp add: notification_newDoc_def)
      moreover have "ids_distinct nd_id c \<longrightarrow> ids_distinct nd_id c1" using a by (auto simp: ids_distinct_def)
      ultimately show ?thesis unfolding evolves_def using a by blast
    qed (rule evolves_same)
    moreover have "r = Inr n \<longrightarrow> docs c' = docs c @ [notification_newDoc i n] \<and> n_user n = u \<and> n_title n = title \<and>
      n_message n = msg \<and> n_type n = ty \<and> \<not> n_read n \<and> n_id n = hex M i"
      using sh(2) [of n] c1 by (auto simp: notification_newDoc_def)
    ultimately show ?thesis using c1 by blast
  next
    case False
    with r show ?thesis by (auto simp: notificationService_Create_def)
  qed
  then show "evolves (\<lambda>v. v = u) c c'"
    and "r = Inr n \<Longrightarrow> docs c' = docs c @ [notification_newDoc i n] \<and> n_user n = u \<and> n_title n = title \<and> n_message n = msg \<and> n_type n = ty \<and>
      \<not> n_read n \<and> n_id n = hex M i \<and> m' = snd (E u title msg m)" by blast+
qed

lemma List_same:
  assumes M: "lawful cf M" and r: "notificationService_List M u f c = (r, c')"
  shows "docs c' = docs c"
proof -
  have "docs c2 = docs c" if l: "MongoNotificationRepository_ListByUser M u g c = (q, c2)" for g q c2
  proof -
    obtain k c1 where k: "count_docs M (notification_query u g) c = (k, c1)" by (cases "count_docs M (notification_query u g) c")
    note count_docs_docs [OF M k]
    then show ?thesis using l k by (auto simp: MongoNotificationRepository_ListByUser_def Let_def dest: find_all_docs [OF M] split: sum.splits prod.splits)
  qed
  with r show ?thesis by (auto simp: notificationService_List_def Let_def elim: on_okE)
qed

lemma MarkRead_cases:
  assumes M: "lawful cf M" and r: "MongoNotificationRepository_MarkRead M u s c = (r, c')"
  shows "evolves (\<lambda>v. v = u) c c'"
    and "r = Inr n \<Longrightarrow> \<exists>xs d ys. docs c = xs @ d # ys \<and> from_hex M s = Some (nd_id d) \<and> nd_user d = u \<and>
      docs c' = xs @ d\<lparr>nd_read := True\<rparr> # ys \<and> n = notification_toDomain M (d\<lparr>nd_read := True\<rparr>)"
    and "r = Inl ErrNotFound \<Longrightarrow> docs c' = docs c \<and> (\<forall>d \<in> set (docs c). \<not> (from_hex M s = Some (nd_id d) \<and> nd_user d = u))"
proof -
  have "evolves (\<lambda>v. v = u) c c' \<and>
    (r = Inr n \<longrightarrow> (\<exists>xs d ys. docs c = xs @ d # ys \<and> from_hex M s = Some (nd_id d) \<and> nd_user d = u \<and>
      docs c' = xs @ d\<lparr>nd_read := True\<rparr> # ys \<and> n = notification_toDomain M (d\<lparr>nd_read := True\<rparr>))) \<and>
    (r = Inl ErrNotFound \<longrightarrow> docs c' = docs c \<and> (\<forall>d \<in> set (docs c). \<not> (from_hex M s = Some (nd_id d) \<and> nd_user d = u)))"
  proof (cases "from_hex M s")
    case None
    with r show ?thesis by (auto simp: MongoNotificationRepository_MarkRead_def)
  next
    case (Some i)
    let ?P = "\<lambda>d. nd_id d = i \<and> nd_user d = u" and ?f = "\<lambda>d. d\<lparr>nd_read := True\<rparr>"
    obtain q c1 where q: "find_update M ?P ?f c = (q, c1)" by (cases "find_update M ?P ?f c")
    note fu = find_updateD [OF M q]
    have c1: "c1 = c'" using r Some q by (auto simp: MongoNotificationRepository_MarkRead_def split: sum.splits db_error.splits)
    have ev: "evolves (\<lambda>v. v = u) c c'"
    proof (cases q)
      case (Inl e)
      with fu c1 show ?thesis by (cases e) (auto intro: evolves_same updated_read)
    next
      case (Inr d')
      with fu c1 have "one_updated ?P ?f (docs c) (docs c')" by (auto simp: one_updated_def)
      then show ?thesis by (rule updated_read)
    qed
    show ?thesis
    proof (cases q)
      case (Inl e)
      with r Some q fu c1 ev show ?thesis
        by (cases e) (auto simp: MongoNotificationRepository_MarkRead_def)
    next
      case (Inr d')
      with r Some q fu c1 ev show ?thesis by (auto simp: MongoNotificationRepository_MarkRead_def)
    qed
  qed
  then show "evolves (\<lambda>v. v = u) c c'"
    and "r = Inr n \<Longrightarrow> \<exists>xs d ys. docs c = xs @ d # ys \<and> from_hex M s = Some (nd_id d) \<and> nd_user d = u \<and>
      docs c' = xs @ d\<lparr>nd_read := True\<rparr> # ys \<and> n = notification_toDomain M (d\<lparr>nd_read := True\<rparr>)"
    and "r = Inl ErrNotFound \<Longrightarrow> docs c' = docs c \<and> (\<forall>d \<in> set (docs c). \<not> (from_hex M s = Some (nd_id d) \<and> nd_user d = u))" by blast+
qed

end
