(* ===== verification/Notif_Http.thy ===== *)
theory Notif_Http imports Notif_Service Httpx begin

text \<open>
  notification-service, the HTTP surface (\<open>handler/notification_handler.go\<close>,
  \<open>router/router.go\<close>) and the service as a whole: requests and delivered
  \<open>finora.budget.overspent\<close> events in any order.
\<close>

section \<open>Handlers\<close>

datatype notif_data =
    DNotifications notification_page
  | DNotification notification

type_synonym notif_answer = "notif_data response"

record notification_request =
  nr_title :: string
  nr_message :: string
  nr_type :: string

record notifications_query =
  nq_unread_only :: string
  nq_page :: string
  nq_page_size :: string

definition NotificationHandler_List ::
  "'e notif_driver \<Rightarrow> string \<Rightarrow> string \<Rightarrow> notifications_query \<Rightarrow> 'e notif_coll \<Rightarrow> notif_answer \<times> 'e notif_coll" where
  [http_defs]: "NotificationHandler_List M rid u q c =
    (case notificationService_List M u
       \<lparr>nf_unread = (nq_unread_only q = ''true''), nf_page = query_int (nq_page q), nf_page_size = query_int (nq_page_size q)\<rparr> c of
      (Inl e, c1) \<Rightarrow> (httpx_Fail rid 500 CodeInternal ''failed to list notifications'' None, c1)
    | (Inr pg, c1) \<Rightarrow> (httpx_Success rid 200 (DNotifications pg), c1))"

definition NotificationHandler_Create ::
  "'m email_sender \<Rightarrow> 'e notif_driver \<Rightarrow> gotime \<Rightarrow> oid \<Rightarrow> string \<Rightarrow> string \<Rightarrow> string + notification_request \<Rightarrow> 'e notif_coll \<times> 'm \<Rightarrow>
   notif_answer \<times> 'e notif_coll \<times> 'm" where
  [http_defs]: "NotificationHandler_Create E M now i rid u body st = (case body of
      Inl e \<Rightarrow> (httpx_Fail rid 400 CodeValidation ''invalid request body'' (Some (Fields [(''error'', e)])), st)
    | Inr req \<Rightarrow> (case notificationService_Create E M now i u (nr_title req) (nr_message req) (nr_type req) st of
          (Inl e, st1) \<Rightarrow> (case e of
              ErrValidation m \<Rightarrow> (httpx_Fail rid 400 CodeValidation m None, st1)
            | _ \<Rightarrow> (httpx_Fail rid 500 CodeInternal ''failed to create notification'' None, st1))
        | (Inr n, st1) \<Rightarrow> (httpx_Success rid 201 (DNotification n), st1)))"

definition NotificationHandler_MarkRead ::
  "'e notif_driver \<Rightarrow> string \<Rightarrow> string \<Rightarrow> string \<Rightarrow> 'e notif_coll \<Rightarrow> notif_answer \<times> 'e notif_coll" where
  [http_defs]: "NotificationHandler_MarkRead M rid u k c = (case notificationService_MarkRead M u k c of
      (Inl e, c1) \<Rightarrow>
        if e = ErrNotFound then (httpx_Fail rid 404 CodeNotFound ''notification not found'' None, c1)
        else (httpx_Fail rid 500 CodeInternal ''failed to mark notification read'' None, c1)
    | (Inr n, c1) \<Rightarrow> (httpx_Success rid 200 (DNotification n), c1))"

section \<open>Routes\<close>

datatype notif_request =
    GetNotifications notifications_query
  | PostNotification gotime oid "string + notification_request"
  | PatchRead string

fun notif_route ::
  "'m email_sender \<Rightarrow> 'e notif_driver \<Rightarrow> string \<Rightarrow> notif_request \<Rightarrow> string \<Rightarrow> 'e notif_coll \<times> 'm \<Rightarrow> notif_answer \<times> 'e notif_coll \<times> 'm" where
  "notif_route E M rid (GetNotifications q) u st = (case NotificationHandler_List M rid u q (fst st) of (r, c) \<Rightarrow> (r, (c, snd st)))"
| "notif_route E M rid (PostNotification now i body) u st = NotificationHandler_Create E M now i rid u body st"
| "notif_route E M rid (PatchRead k) u st = (case NotificationHandler_MarkRead M rid u k (fst st) of (r, c) \<Rightarrow> (r, (c, snd st)))"

definition notif_api ::
  "'m email_sender \<Rightarrow> 'e notif_driver \<Rightarrow> string \<Rightarrow> string \<Rightarrow> notif_request \<Rightarrow> 'e notif_coll \<times> 'm \<Rightarrow> notif_answer \<times> 'e notif_coll \<times> 'm" where
  "notif_api E M rid user_header req st = RequireIdentity rid user_header (notif_route E M rid req) st"

section \<open>The service as a whole\<close>

datatype notif_event = NRequest string string notif_request | NOverspent gotime oid json

fun notif_step :: "'m email_sender \<Rightarrow> 'e notif_driver \<Rightarrow> notif_event \<Rightarrow> 'e notif_coll \<times> 'm \<Rightarrow> 'e notif_coll \<times> 'm" where
  "notif_step E M (NRequest rid hdr req) st = snd (notif_api E M rid hdr req st)"
| "notif_step E M (NOverspent now i data) st = snd (on_budget_overspent E M now i data st)"

fun notif_event_user :: "notif_event \<Rightarrow> string option" where
  "notif_event_user (NRequest rid hdr req) = Some hdr"
| "notif_event_user (NOverspent now i data) = map_option on_user (decode_notice data)"

definition notif_run :: "'m email_sender \<Rightarrow> 'e notif_driver \<Rightarrow> notif_event list \<Rightarrow> 'e notif_coll \<times> 'm \<Rightarrow> 'e notif_coll \<times> 'm" where
  "notif_run E M es st = fold (notif_step E M) es st"

lemma on_budget_overspent_evolves:
  assumes M: "lawful (same_id nd_id) M"
  shows "evolves (\<lambda>v. map_option on_user (decode_notice data) = Some v) (fst st) (fst (snd (on_budget_overspent E M now i data st)))"
proof (cases "decode_notice data")
  case None
  then show ?thesis by (simp add: on_budget_overspent_def)
next
  case (Some ev)
  obtain r c' m' where r: "notificationService_Create E M now i (on_user ev) ''Budget exceeded'' (overspent_message ev) ''overspend'' (fst st, snd st) = (r, (c', m'))"
    by (metis prod.collapse)
  from Create_evolves(1) [OF M r] r Some show ?thesis
    by (cases r) (auto simp: on_budget_overspent_def HandleBudgetOverspent_def elim: evolves_mono)
qed

lemma notif_api_evolves:
  assumes M: "lawful (same_id nd_id) M"
  shows "evolves (\<lambda>v. v = hdr) (fst st) (fst (snd (notif_api E M rid hdr req st)))"
proof (cases "hdr = ''''")
  case True
  then show ?thesis by (simp add: notif_api_def RequireIdentity_def)
next
  case False
  show ?thesis
  proof (cases req)
    case (GetNotifications q)
    obtain r c' where r: "notificationService_List M hdr
       \<lparr>nf_unread = (nq_unread_only q = ''true''), nf_page = query_int (nq_page q), nf_page_size = query_int (nq_page_size q)\<rparr> (fst st) = (r, c')"
      by (metis prod.collapse)
    with List_same [OF M r] False GetNotifications show ?thesis
      by (cases r) (simp_all add: notif_api_def RequireIdentity_def NotificationHandler_List_def evolves_same)
  next
    case (PostNotification now i body)
    show ?thesis
    proof (cases body)
      case (Inr req)
      obtain r c' m' where r: "notificationService_Create E M now i hdr (nr_title req) (nr_message req) (nr_type req) (fst st, snd st) = (r, (c', m'))"
        by (metis prod.collapse)
      with Create_evolves(1) [OF M r] False PostNotification Inr show ?thesis
        by (cases r) (auto simp: notif_api_def RequireIdentity_def NotificationHandler_Create_def split: go_error.splits)
    qed (use False PostNotification in \<open>simp add: notif_api_def RequireIdentity_def NotificationHandler_Create_def\<close>)
  next
    case (PatchRead k)
    obtain r c' where r: "MongoNotificationRepository_MarkRead M hdr k (fst st) = (r, c')" by (metis prod.collapse)
    with MarkRead_cases(1) [OF M r] False PatchRead show ?thesis
      by (cases r) (simp_all add: notif_api_def RequireIdentity_def NotificationHandler_MarkRead_def notificationService_MarkRead_def)
  qed
qed

lemma notif_step_evolves:
  assumes "lawful (same_id nd_id) M"
  shows "evolves (\<lambda>v. notif_event_user e = Some v) (fst st) (fst (notif_step E M e st))"
proof (cases e)
  case (NRequest rid hdr req)
  with notif_api_evolves [OF assms, of hdr st E rid req] show ?thesis by (auto elim: evolves_mono)
qed (use on_budget_overspent_evolves [OF assms] in simp)

text \<open>
  C30. The history of notifications is append-only: over any sequence of requests and
  delivered events, with any faults, no notification is lost, rewritten, handed to
  somebody else or marked as unread again; a notification becomes read only when
  something happened on behalf of its owner, and a new one belongs to such a user and
  has a type of the allowed form.
\<close>

theorem notif_run_history:
  assumes "lawful (same_id nd_id) M" and "notif_run E M es (c, m) = (c', m')"
  shows "\<exists>old new. docs c' = old @ new \<and>
    list_all2 (\<lambda>d d'. d' = d \<or> (Some (nd_user d) \<in> notif_event_user ` set es \<and> d' = d\<lparr>nd_read := True\<rparr>)) (docs c) old \<and>
    (\<forall>n \<in> set new. Some (nd_user n) \<in> notif_event_user ` set es \<and> validNotifType (nd_type n))"
proof -
  have "evolves (\<lambda>v. Some v \<in> notif_event_user ` set es) (fst st) (fst (fold (notif_step E M) es st))" for es st
  proof (induction es arbitrary: st)
    case (Cons e es)
    let ?A = "\<lambda>v. Some v \<in> notif_event_user ` set (e # es)"
    have "evolves ?A (fst st) (fst (notif_step E M e st))"
      by (rule evolves_mono [OF notif_step_evolves [OF assms(1)]]) simp
    moreover have "evolves ?A (fst (notif_step E M e st)) (fst (fold (notif_step E M) es (notif_step E M e st)))"
      by (rule evolves_mono [OF Cons.IH]) simp
    ultimately have "evolves ?A (fst st) (fst (fold (notif_step E M) es (notif_step E M e st)))" by (rule evolves_trans)
    then show ?case by simp
  qed simp
  note run = this [of es "(c, m)"]
  have "read_or_same (\<lambda>v. Some v \<in> notif_event_user ` set es) =
      (\<lambda>d d'. d' = d \<or> (Some (nd_user d) \<in> notif_event_user ` set es \<and> d' = d\<lparr>nd_read := True\<rparr>))"
    by (simp add: read_or_same_def fun_eq_iff)
  with run assms(2) show ?thesis unfolding notif_run_def evolves_def by simp
qed

definition demo_notifs :: "notification_doc mem" where
  "demo_notifs = mem_coll [\<lparr>nd_id = 7, nd_user = ''ann'', nd_title = ''Hi'', nd_message = ''there'', nd_type = ''info'', nd_read = False, nd_created = 0\<rparr>]"

theorem notif_run_history_witness:
  "\<exists>d new. docs (fst (notif_run LoggingEmailSender_Send (mem_driver (same_id nd_id))
      [NRequest ''r1'' ''bob'' (PatchRead (mem_hex 7)), NRequest ''r2'' ''bob'' (PostNotification zero_time 9 (Inr \<lparr>nr_title = ''t'', nr_message = ''m'', nr_type = ''x''\<rparr>))]
      (demo_notifs, []))) = d # new \<and> nd_id d = 7 \<and> \<not> nd_read d"
proof -
  let ?M = "mem_driver (same_id nd_id)"
  let ?es = "[NRequest ''r1'' ''bob'' (PatchRead (mem_hex 7)), NRequest ''r2'' ''bob'' (PostNotification zero_time 9 (Inr \<lparr>nr_title = ''t'', nr_message = ''m'', nr_type = ''x''\<rparr>))]"
  obtain c' m' where r: "notif_run LoggingEmailSender_Send ?M ?es (demo_notifs, []) = (c', m')"
    by (cases "notif_run LoggingEmailSender_Send ?M ?es (demo_notifs, [])")
  from notif_run_history [OF lawful_mem r] r show ?thesis
    by (auto simp: demo_notifs_def mem_coll_def list_all2_Cons1)
qed

end
