(* ===== verification/Event_Bus.thy ===== *)
theory Event_Bus imports Expense_System Budget_Http Notif_Http begin

text \<open>
  shared/eventbus (\<open>shared/eventbus/eventbus.go\<close>) over NATS JetStream, and the chain of events
  that runs through it: expense-service announces a transaction, budget-service checks the
  budgets of its owner and announces those that are over, notification-service tells the
  owner. JetStream itself is a parameter: what \<open>PublishMsg\<close> answers, and that a message that was
  not acknowledged is delivered again, at most \<open>MaxDeliver\<close> times in all.
\<close>

section \<open>Publish and Subscribe\<close>

type_synonym 'p jetstream = "string \<Rightarrow> json \<Rightarrow> string option \<Rightarrow> 'p \<Rightarrow> (string + unit) \<times> 'p"

definition Bus_Publish :: "'p jetstream \<Rightarrow> 'p publisher" where
  "Bus_Publish js subject data msgID p =
    (case js subject data (if msgID \<noteq> '''' then Some msgID else None) p of
       (Inl e, p') \<Rightarrow> (Inl (''eventbus: publish '' @ subject @ '': '' @ e), p')
     | (Inr _, p') \<Rightarrow> (Inr (), p'))"

definition MaxDeliver :: nat where "MaxDeliver = 10"

datatype ack = Ack | Nak

text \<open>The callback that \<open>Subscribe\<close> gives to \<open>Consume\<close>.\<close>

definition Subscribe_callback :: "(json \<Rightarrow> 's \<Rightarrow> unit res \<times> 's) \<Rightarrow> json \<Rightarrow> 's \<Rightarrow> ack \<times> 's" where
  "Subscribe_callback handler data st = (case handler data st of (Inl _, st') \<Rightarrow> (Nak, st') | (Inr _, st') \<Rightarrow> (Ack, st'))"

text \<open>
  All deliveries of one message, with \<open>n\<close> left; \<open>handler k\<close> is the handler at the clock and with
  the random values of the \<open>k\<close>-th attempt.
\<close>

fun deliver :: "nat \<Rightarrow> nat \<Rightarrow> (nat \<Rightarrow> json \<Rightarrow> 's \<Rightarrow> unit res \<times> 's) \<Rightarrow> json \<Rightarrow> 's \<Rightarrow> ack \<times> 's" where
  "deliver 0 k handler data st = (Nak, st)"
| "deliver (Suc n) k handler data st = (case Subscribe_callback (handler k) data st of
      (Ack, st') \<Rightarrow> (Ack, st')
    | (Nak, st') \<Rightarrow> deliver n (Suc k) handler data st')"

text \<open>A JetStream that keeps what it acknowledges makes the bus an honest publisher for the relay.\<close>

definition honest_js :: "('p \<Rightarrow> (string \<times> json \<times> string) set) \<Rightarrow> 'p jetstream \<Rightarrow> bool" where
  "honest_js sent js \<longleftrightarrow> (\<forall>s d m p r p'. js s d m p = (r, p') \<longrightarrow> sent p \<subseteq> sent p' \<and>
     (r = Inr () \<longrightarrow> (s, d, case m of None \<Rightarrow> '''' | Some i \<Rightarrow> i) \<in> sent p'))"

lemma honest_bus: "honest_js sent js \<Longrightarrow> honest sent (Bus_Publish js)"
  unfolding honest_def
proof (intro allI impI)
  fix s d m p r p' assume h: "honest_js sent js" and pub: "Bus_Publish js s d m p = (r, p')"
  let ?id = "if m \<noteq> '''' then Some m else None"
  obtain q p1 where q: "js s d ?id p = (q, p1)" by (cases "js s d ?id p")
  have "sent p \<subseteq> sent p1 \<and> (q = Inr () \<longrightarrow> (s, d, case ?id of None \<Rightarrow> '''' | Some i \<Rightarrow> i) \<in> sent p1)"
    using h q unfolding honest_js_def by blast
  moreover have "(case ?id of None \<Rightarrow> '''' | Some i \<Rightarrow> i) = m" by simp
  moreover have "p' = p1 \<and> (r = Inr () \<longrightarrow> q = Inr ())"
    using pub unfolding Bus_Publish_def q by (auto split: sum.splits)
  ultimately show "sent p \<subseteq> sent p' \<and> (r = Inr () \<longrightarrow> (s, d, m) \<in> sent p')" by simp
qed

section \<open>The event contracts\<close>

lemma created_contract: "transaction_event t = Some p \<Longrightarrow> created_event_user p = Some (tx_user t)"
  by (auto simp: transaction_event_def created_event_user_def obj_get_def json_float_def split: option.splits if_splits)

lemma overspent_contract:
  "overspent_json e = Some p \<Longrightarrow> decode_notice p = Some
     \<lparr>on_budget = oe_budget e, on_user = oe_user e, on_category = oe_category e, on_period = oe_period e,
      on_budgeted = oe_budgeted e, on_actual = oe_actual e, on_start = oe_start e\<rparr>"
proof -
  assume "overspent_json e = Some p"
  then have p: "p = JObj
       [(''budget_id'', JStr (oe_budget e)), (''user_id'', JStr (oe_user e)), (''category'', JStr (oe_category e)),
        (''period'', JStr (oe_period e)), (''budgeted'', JNum (oe_budgeted e)), (''actual'', JNum (oe_actual e)),
        (''period_start'', JStr (oe_start e))]"
    unfolding overspent_json_def json_float_def by (simp split: if_splits)
  show ?thesis unfolding decode_notice_def p by (simp add: obj_get_def)
qed

definition overspent_text :: "budget \<Rightarrow> f64 \<Rightarrow> string" where
  "overspent_text b actual = ''You've spent '' @ show_fixed2 actual @ '' of your '' @ show_fixed2 (b_amount b) @ '' '' @
     b_period b @ '' '' @ b_category b @ '' budget.''"

lemma overspent_decoded:
  assumes "overspent_msg u b actual from e"
  shows "\<exists>ev. decode_notice (ev_payload e) = Some ev \<and> on_user ev = u \<and> overspent_message ev = overspent_text b actual"
  using overspent_contract [of "overspent_of u b actual from" "ev_payload e"] assms
  by (simp add: overspent_msg_def overspent_of_def overspent_message_def overspent_text_def)

section \<open>Delivery of an overspent event\<close>

definition is_overspent_notice :: "string \<Rightarrow> string \<Rightarrow> notification_doc \<Rightarrow> bool" where
  "is_overspent_notice u msg n \<longleftrightarrow> nd_user n = u \<and> nd_title n = ''Budget exceeded'' \<and> nd_message n = msg \<and>
     nd_type n = ''overspend'' \<and> \<not> nd_read n"

lemma consume_overspent:
  assumes M: "lawful (same_id nd_id) M" and dec: "decode_notice data = Some ev"
    and step: "on_budget_overspent E M now i data (c, m) = (r, (c', m'))"
  shows "docs c' = docs c \<or> (\<exists>n. docs c' = docs c @ [n] \<and> is_overspent_notice (on_user ev) (overspent_message ev) n)"
    and "r = Inr w \<Longrightarrow> \<exists>n. docs c' = docs c @ [n] \<and> is_overspent_notice (on_user ev) (overspent_message ev) n"
proof -
  let ?n = "\<lparr>n_id = '''', n_user = on_user ev, n_title = ''Budget exceeded'', n_message = overspent_message ev, n_type = ''overspend'',
    n_read = False, n_created = utc now\<rparr>"
  have ty: "validNotifType ''overspend''" by code_simp
  obtain q c1 where q: "MongoNotificationRepository_Create M i ?n c = (q, c1)" by (cases "MongoNotificationRepository_Create M i ?n c")
  note sh = create_shape [OF M q [unfolded MongoNotificationRepository_Create_def]]
  have c1: "c1 = c'" "r = Inr w \<Longrightarrow> \<exists>x. q = Inr x"
    using step dec q ty by (cases q; auto simp: on_budget_overspent_def HandleBudgetOverspent_def notificationService_Create_def)+
  have n: "is_overspent_notice (on_user ev) (overspent_message ev) (notification_newDoc i ?n)"
    by (simp add: is_overspent_notice_def notification_newDoc_def)
  show "docs c' = docs c \<or> (\<exists>n. docs c' = docs c @ [n] \<and> is_overspent_notice (on_user ev) (overspent_message ev) n)"
    using sh(1) n c1(1) by blast
  show "r = Inr w \<Longrightarrow> \<exists>n. docs c' = docs c @ [n] \<and> is_overspent_notice (on_user ev) (overspent_message ev) n"
    using sh(2) n c1 by blast
qed

lemma deliver_overspent:
  assumes M: "lawful (same_id nd_id) M" and dec: "decode_notice data = Some ev"
  shows "deliver n k (\<lambda>k. on_budget_overspent E M (fst (gen k)) (snd (gen k))) data (c, m) = (a, (c', m')) \<Longrightarrow>
    \<exists>new. docs c' = docs c @ new \<and> length new \<le> n \<and> (a = Ack \<longrightarrow> new \<noteq> []) \<and>
      (\<forall>x \<in> set new. is_overspent_notice (on_user ev) (overspent_message ev) x)"
proof (induction n arbitrary: k c m)
  case (Suc n)
  obtain r c1 m1 where s: "on_budget_overspent E M (fst (gen k)) (snd (gen k)) data (c, m) = (r, (c1, m1))" by (metis prod.collapse)
  note co = consume_overspent [OF M dec s]
  show ?case
  proof (cases r)
    case (Inl e)
    with s Suc.prems have "deliver n (Suc k) (\<lambda>k. on_budget_overspent E M (fst (gen k)) (snd (gen k))) data (c1, m1) = (a, (c', m'))"
      by (simp add: Subscribe_callback_def)
    from Suc.IH [OF this] obtain new where new: "docs c' = docs c1 @ new" "length new \<le> n" "a = Ack \<longrightarrow> new \<noteq> []"
      "\<forall>x \<in> set new. is_overspent_notice (on_user ev) (overspent_message ev) x" by blast
    from co(1) show ?thesis
    proof
      assume "docs c1 = docs c"
      with new show ?thesis by (intro exI [of _ new]) auto
    next
      assume "\<exists>x. docs c1 = docs c @ [x] \<and> is_overspent_notice (on_user ev) (overspent_message ev) x"
      then obtain x where "docs c1 = docs c @ [x]" "is_overspent_notice (on_user ev) (overspent_message ev) x" by blast
      with new show ?thesis by (intro exI [of _ "x # new"]) auto
    qed
  next
    case (Inr w)
    with s Suc.prems have "a = Ack" "c' = c1" by (simp_all add: Subscribe_callback_def)
    moreover obtain x where "docs c1 = docs c @ [x]" "is_overspent_notice (on_user ev) (overspent_message ev) x" using co(2) [OF Inr] by blast
    ultimately show ?thesis by (intro exI [of _ "[x]"]) simp
  qed
qed simp

text \<open>
  C29. An overspent event that budget-service queued for a user reaches this user: when the
  bus delivers it to notification-service, up to ten times until it is acknowledged, the
  collection grows only by unread notifications of that user with the sums, the period and the
  category of the budget in the text; by at least one when the message was acknowledged, by at
  most ten in any case, and by exactly one when the database takes the first write.
\<close>

theorem overspent_delivered:
  assumes M: "lawful (same_id nd_id) M" and e: "overspent_msg u b actual from e"
    and run: "deliver MaxDeliver 0 (\<lambda>k. on_budget_overspent E M (fst (gen k)) (snd (gen k))) (ev_payload e) (c, m) = (a, (c', m'))"
  shows "\<exists>new. docs c' = docs c @ new \<and> length new \<le> 10 \<and> (a = Ack \<longrightarrow> new \<noteq> []) \<and>
    (\<forall>n \<in> set new. is_overspent_notice u (overspent_text b actual) n) \<and>
    ((\<forall>d. fst (insert_one M d c) = Inr ()) \<longrightarrow> a = Ack \<and> length new = 1)"
proof -
  obtain ev where ev: "decode_notice (ev_payload e) = Some ev" "on_user ev = u" "overspent_message ev = overspent_text b actual"
    using overspent_decoded [OF e] by blast
  from deliver_overspent [OF M ev(1) run] obtain new where new: "docs c' = docs c @ new" "length new \<le> 10" "a = Ack \<longrightarrow> new \<noteq> []"
    "\<forall>x \<in> set new. is_overspent_notice u (overspent_text b actual) x" unfolding ev MaxDeliver_def by blast
  have "a = Ack \<and> length new = 1" if ok: "\<forall>d. fst (insert_one M d c) = Inr ()"
  proof -
    obtain r c1 m1 where s: "on_budget_overspent E M (fst (gen 0)) (snd (gen 0)) (ev_payload e) (c, m) = (r, (c1, m1))" by (metis prod.collapse)
    have ty: "validNotifType ''overspend''" by code_simp
    have "r = Inr ()" using s ok ev(1) ty
      by (auto simp: on_budget_overspent_def HandleBudgetOverspent_def notificationService_Create_def MongoNotificationRepository_Create_def
          on_ok_def split: prod.splits sum.splits)
        (metis fst_conv sum.distinct(1))+
    with run s have "a = Ack" "c' = c1" by (simp_all add: MaxDeliver_def Subscribe_callback_def eval_nat_numeral)
    with consume_overspent(2) [OF M ev(1) s \<open>r = Inr ()\<close>] new(1) show ?thesis by auto
  qed
  with new show ?thesis by blast
qed

definition demo_over_event :: outbox_event where
  "demo_over_event = \<lparr>ev_id = 1, ev_subject = BudgetOverspentSubject, ev_msg_id = ''b1:2026-03-01T00:00:00Z'',
     ev_payload = JObj [(''budget_id'', JStr ''b1''), (''user_id'', JStr ''ann''), (''category'', JStr ''food''), (''period'', JStr ''monthly''),
       (''budgeted'', JNum (Fin False 1)), (''actual'', JNum (Fin False 2)), (''period_start'', JStr ''2026-03-01T00:00:00Z'')],
     ev_created = 0, ev_published = None\<rparr>"

definition demo_budget :: budget where
  "demo_budget = \<lparr>b_id = ''b1'', b_user = ''ann'', b_category = ''food'', b_amount = Fin False 1, b_period = ''monthly'',
     b_created = zero_time, b_updated = zero_time, b_notified = None\<rparr>"

lemma demo_over_msg: "overspent_msg ''ann'' demo_budget (Fin False 2) (currentPeriodStart ''monthly'' demo_march) demo_over_event"
proof -
  have "format_rfc3339 (currentPeriodStart ''monthly'' demo_march) = ''2026-03-01T00:00:00Z''" by code_simp
  then show ?thesis
    by (simp add: overspent_msg_def demo_over_event_def overspent_json_def overspent_of_def demo_budget_def json_float_def)
qed

theorem overspent_delivered_witness:
  "\<exists>c' m'. deliver MaxDeliver 0 (\<lambda>k. on_budget_overspent LoggingEmailSender_Send (mem_driver (same_id nd_id)) (fst (demo_march, of_nat k :: oid)) (snd (demo_march, of_nat k)))
      (ev_payload demo_over_event) (mem_coll [], []) = (Ack, (c', m')) \<and> length (docs c') = 1"
proof -
  let ?M = "mem_driver (same_id nd_id)" and ?g = "\<lambda>k. (demo_march, of_nat k :: oid)"
  obtain a c' m' where r: "deliver MaxDeliver 0 (\<lambda>k. on_budget_overspent LoggingEmailSender_Send ?M (fst (?g k)) (snd (?g k))) (ev_payload demo_over_event) (mem_coll [], []) = (a, (c', m'))"
    by (rule prod_cases3)
  have "\<forall>d. fst (insert_one ?M d (mem_coll [])) = Inr ()" by (simp add: mem_driver_def mem_call_def mem_coll_def)
  with overspent_delivered [where gen = ?g, OF lawful_mem demo_over_msg r] have "a = Ack" "length (docs c') = 1"
    by (auto simp: mem_coll_def)
  with r show ?thesis by blast
qed

section \<open>The whole chain\<close>

lemma created_event_of:
  assumes D: "lawful_expense D" and create: "transactionService_Create D now i j u inp s = (Inr t, s')"
    and ev: "ev \<in> set (drop (length (docs (db_out s))) (docs (db_out s')))"
  shows "transaction_event t = Some (ev_payload ev)" and "tx_user t = u"
proof -
  from D create have "transaction_event t = Some (ev_payload ev) \<and> tx_user t = u"
  proof (cases rule: transactionService_Create_cases)
    case (called t0 q s2 c)
    then obtain t1 where q: "q = Inr t1" "t1 = t" "s' = transactionService_publishCreated D now j t (s2\<lparr>db_tx := c\<rparr>)"
      by (cases q) auto
    have "t = t0\<lparr>tx_id := hex (m_tx D) i\<rparr>"
      using create_shape(2) [OF lawful_expenseD(3) [OF D] called(6) [unfolded TransactionRepository_Create_def] q(1)] q(2) by simp
    then have "tx_user t = u" by (simp add: called(5))
    moreover have "docs (db_out s2) = docs (db_out s)" using called(4) by (simp add: same_docs_def)
    ultimately show ?thesis
      using publishCreated_cases(4) [OF D, of now j t "s2\<lparr>db_tx := c\<rparr>"] ev by (auto simp: q(3))
  qed simp
  then show "transaction_event t = Some (ev_payload ev)" and "tx_user t = u" by blast+
qed

text \<open>
  C28. A transaction that a user records has consequences for this user alone. Take any event
  that creating it queued, deliver it to budget-service, take any event that this queued,
  and deliver that one to notification-service: the budgets and goals of everybody else are as
  before, and the notifications only grew, by notifications of the user who recorded the
  transaction. This holds whatever fails on the way.
\<close>

theorem event_chain_same_user:
  assumes DE: "lawful_expense DE" and DB: "lawful_budget DB" and M: "lawful (same_id nd_id) M" and inv: "budget_inv s"
    and create: "transactionService_Create DE now i j u inp x = (Inr t, x')"
    and ev1: "ev1 \<in> set (drop (length (docs (db_out x))) (docs (db_out x')))"
    and check: "on_transaction_created U H DB gen now' (ev_payload ev1) (s, net) = (r, (s', net'))"
    and ev2: "ev2 \<in> set (drop (length (docs (db_bout s))) (docs (db_bout s')))"
    and notify: "deliver MaxDeliver 0 (\<lambda>k. on_budget_overspent E M (fst (g k)) (snd (g k))) (ev_payload ev2) (c, m) = (a, (c', m'))"
  shows "(\<forall>v. v \<noteq> u \<longrightarrow> budget_tenant v s' = budget_tenant v s) \<and> budget_inv s' \<and>
    (\<exists>new. docs c' = docs c @ new \<and> (\<forall>n \<in> set new. nd_user n = u))"
proof -
  note t = created_event_of [OF DE create ev1]
  have "HandleTransactionCreated U H DB gen u (utc now') (s, net) = (r, (s', net'))"
    using check created_contract [OF t(1)] t(2) by (simp add: on_transaction_created_def)
  note h = handle_sound [OF DB _ this]
  have b: "budgets_inv (db_budgets s)" using inv by (simp add: budget_inv_def)
  have "acts_for u s s'" using h(1,2) [OF b] by (simp add: acts_for_def)
  then have acts: "\<forall>v. v \<noteq> u \<longrightarrow> budget_tenant v s' = budget_tenant v s" "budget_inv s'"
    using acts_for_tenant acts_for_inv inv by blast+
  obtain sel new where new: "docs (db_bout s') = docs (db_bout s) @ new" "list_all2 (due U H u (utc now')) sel new"
    using h(3) [OF b] by blast
  have "ev2 \<in> set new" using ev2 new(1) by simp
  then obtain k where "k < length new" "ev2 = new ! k" by (metis in_set_conv_nth)
  with new(2) have "due U H u (utc now') (sel ! k) ev2" by (simp add: list_all2_conv_all_nth)
  then obtain bud actual start where "overspent_msg u bud actual start ev2" by (cases "sel ! k") (auto simp: due_def)
  then obtain ev where d: "decode_notice (ev_payload ev2) = Some ev" "on_user ev = u" using overspent_decoded by blast
  from deliver_overspent [OF M d(1) notify] d(2) have "\<exists>new. docs c' = docs c @ new \<and> (\<forall>n \<in> set new. nd_user n = u)"
    unfolding is_overspent_notice_def by blast
  with acts show ?thesis by blast
qed

theorem event_chain_same_user_witness:
  "\<exists>(s' :: bool list budget_db) c' m' a. budget_tenant ''bob'' s' = budget_tenant ''bob'' demo_bdb \<and> length (docs (db_bout s')) = 1 \<and>
     deliver MaxDeliver 0 (\<lambda>k. on_budget_overspent LoggingEmailSender_Send (mem_driver (same_id nd_id)) demo_march (of_nat k))
       (ev_payload (hd (docs (db_bout s')))) (mem_coll [], []) = (a, (c', m')) \<and> (\<forall>n \<in> set (docs c'). nd_user n = ''ann'')"
proof -
  let ?M = "mem_driver (same_id nd_id)" and ?g = "\<lambda>k. (demo_march, of_nat k :: oid)" and ?b = "\<lambda>k. (demo_march, of_nat k :: oid)"
  obtain t x' where c: "transactionService_Create demo_drivers zero_time 50 51 ''ann'' demo_input demo_db = (Inr t, x')" "length (docs (db_out x')) = 1"
    using demo_create by blast
  have ev1: "hd (docs (db_out x')) \<in> set (drop (length (docs (db_out demo_db))) (docs (db_out x')))"
    using c(2) by (cases "docs (db_out x')") (simp_all add: demo_db_def mem_coll_def)
  have "utc demo_march = demo_march" by code_simp
  moreover obtain s' where s': "HandleTransactionCreated demo_unicode demo_net demo_bdrivers ?b ''ann'' demo_march (demo_bdb, 0) = (Inr (), (s', 2))"
    "length (docs (db_bout s')) = 1" using demo_handle by blast
  ultimately have chk: "on_transaction_created demo_unicode demo_net demo_bdrivers ?b demo_march (ev_payload (hd (docs (db_out x')))) (demo_bdb, 0) = (Inr (), (s', 2))"
    using created_contract [OF created_event_of(1) [OF lawful_demo c(1) ev1]] created_event_of(2) [OF lawful_demo c(1) ev1]
    by (simp add: on_transaction_created_def)
  have ev2: "hd (docs (db_bout s')) \<in> set (drop (length (docs (db_bout demo_bdb))) (docs (db_bout s')))"
    using s'(2) by (cases "docs (db_bout s')") (simp_all add: demo_bdb_def mem_coll_def)
  obtain a c' m' where d: "deliver MaxDeliver 0 (\<lambda>k. on_budget_overspent LoggingEmailSender_Send ?M (fst (?g k)) (snd (?g k))) (ev_payload (hd (docs (db_bout s')))) (mem_coll [], []) = (a, (c', m'))"
    by (rule prod_cases3)
  have "budget_inv demo_bdb" using demo_bdb_inv demo_goals_inv by (simp add: budget_inv_def) (simp add: demo_bdb_def)
  from event_chain_same_user [where g = ?g, OF lawful_demo lawful_demo_budget lawful_mem this c(1) ev1 chk ev2 d]
  have "budget_tenant ''bob'' s' = budget_tenant ''bob'' demo_bdb" "\<forall>n \<in> set (docs c'). nd_user n = ''ann''"
    by (auto simp: mem_coll_def)
  with s'(2) d [unfolded fst_conv snd_conv] show ?thesis
    by blast
qed

end
