(* ===== verification/Go_Config.thy ===== *)
theory Go_Config imports Go_Strings Go_Float begin

text \<open>
  \<open>shared/config\<close>: the readers of environment variables, with \<open>time.ParseDuration\<close>. The environment
  is a function from names to values in which a variable that is not set reads as the empty
  string, as \<open>os.Getenv\<close> has it. Durations are in nanoseconds.
\<close>

section \<open>\<open>time.ParseDuration\<close>\<close>

text \<open>Multiplication and division of two positive floats, as the fraction of a duration needs them.\<close>

fun fmul_pos :: "f64 \<Rightarrow> f64 \<Rightarrow> f64" where
  "fmul_pos (Fin _ x) (Fin _ y) = round_ratio False (x * y) f64_one"
| "fmul_pos _ _ = NaN"

fun fdiv_pos :: "f64 \<Rightarrow> f64 \<Rightarrow> f64" where
  "fdiv_pos (Fin _ x) (Fin _ y) = round_ratio False (x * f64_one) y"
| "fdiv_pos _ _ = NaN"

fun trunc_pos :: "f64 \<Rightarrow> nat" where
  "trunc_pos (Fin _ x) = x div f64_one"
| "trunc_pos _ = 0"

text \<open>The two spellings of the microsecond are the UTF-8 bytes of the micro sign and of the Greek letter.\<close>

definition unit_map :: "string \<Rightarrow> nat option" where
  "unit_map u =
    (if u = ''ns'' then Some 1
     else if u \<in> {''us'', [CHR 0xC2, CHR 0xB5, CHR ''s''], [CHR 0xCE, CHR 0xBC, CHR ''s'']} then Some 1000
     else if u = ''ms'' then Some 1000000
     else if u = ''s'' then Some 1000000000
     else if u = ''m'' then Some 60000000000
     else if u = ''h'' then Some 3600000000000
     else None)"

text \<open>The digits after the point, as many as fit, and the power of ten they are parts of.\<close>

fun leading_fraction :: "string \<Rightarrow> nat \<Rightarrow> nat \<Rightarrow> bool \<Rightarrow> nat \<times> nat" where
  "leading_fraction [] x scale full = (x, scale)"
| "leading_fraction (c # cs) x scale full =
    (if full \<or> (2 ^ 63 - 1) div 10 < x \<or> 2 ^ 63 < 10 * x + digit_val c then leading_fraction cs x scale True
     else leading_fraction cs (10 * x + digit_val c) (10 * scale) False)"

text \<open>One number with its unit, in nanoseconds, and the rest of the text.\<close>

definition duration_item :: "string \<Rightarrow> (nat \<times> string) option" where
  "duration_item s =
    (let ds = takeWhile is_digit s; r1 = dropWhile is_digit s;
         point = is_prefix ''.'' r1;
         fs = (if point then takeWhile is_digit (tl r1) else []);
         r2 = (if point then dropWhile is_digit (tl r1) else r1);
         u = takeWhile (\<lambda>c. \<not> (c = CHR ''.'' \<or> is_digit c)) r2;
         rest = dropWhile (\<lambda>c. \<not> (c = CHR ''.'' \<or> is_digit c)) r2;
         v = read_digits ds
     in if 2 ^ 63 < v \<or> (ds = [] \<and> fs = []) \<or> u = [] then None
        else (case unit_map u of None \<Rightarrow> None
          | Some unit \<Rightarrow>
             if 2 ^ 63 div unit < v then None
             else (case leading_fraction fs 0 1 False of (f, scale) \<Rightarrow>
               let w = v * unit + (if 0 < f then trunc_pos (fmul_pos (f64_of_nat f) (fdiv_pos (f64_of_nat unit) (f64_of_nat scale))) else 0)
               in if 2 ^ 63 < w then None else Some (w, rest))))"

lemma duration_item_shorter: "duration_item s = Some (v, r) \<Longrightarrow> length r < length s"
proof -
  assume r: "duration_item s = Some (v, r)"
  define r1 where "r1 = dropWhile is_digit s"
  define r2 where "r2 = (if is_prefix ''.'' r1 then dropWhile is_digit (tl r1) else r1)"
  let ?P = "\<lambda>c. \<not> (c = CHR ''.'' \<or> is_digit c)"
  have "takeWhile ?P r2 \<noteq> [] \<and> r = dropWhile ?P r2"
    using r by (auto simp: duration_item_def Let_def r1_def r2_def split: if_splits option.splits prod.splits)
  then have "length r < length r2"
    by (metis append_Nil length_append length_greater_0_conv less_add_same_cancel2 takeWhile_dropWhile_id)
  also have "length r2 \<le> length r1"
    using length_dropWhile_le [of is_digit "tl r1"] length_tl [of r1] by (simp add: r2_def del: length_tl) linarith
  also have "length r1 \<le> length s" by (simp add: r1_def length_dropWhile_le)
  finally show ?thesis .
qed

function duration_sum :: "string \<Rightarrow> nat \<Rightarrow> nat option" where
  "duration_sum s d = (if s = [] then Some d
    else (case duration_item s of None \<Rightarrow> None
      | Some (v, r) \<Rightarrow> let e = (d + v) mod 2 ^ 64 in if 2 ^ 63 < e then None else duration_sum r e))"
  by pat_completeness auto
termination
  by (relation "measure (\<lambda>(s, d). length s)") (auto dest: duration_item_shorter)

declare duration_sum.simps [simp del]

definition parse_duration :: "string \<Rightarrow> int option" where
  "parse_duration s = (let neg = is_prefix ''-'' s; t = (if neg \<or> is_prefix ''+'' s then tl s else s)
     in if t = ''0'' then Some 0
        else if t = [] then None
        else (case duration_sum t 0 of None \<Rightarrow> None
          | Some d \<Rightarrow> if neg then Some (- int d) else if 2 ^ 63 - 1 < d then None else Some (int d)))"

lemma duration_sum_bound: "duration_sum s d = Some n \<Longrightarrow> d \<le> 2 ^ 63 \<Longrightarrow> n \<le> 2 ^ 63"
proof (induction s d rule: duration_sum.induct)
  case (1 s d)
  then show ?case
    by (subst (asm) (2) duration_sum.simps) (auto simp: Let_def split: if_splits option.splits)
qed

text \<open>A duration that is accepted fits the 64 bits of \<open>time.Duration\<close>.\<close>

lemma parse_duration_bound: "parse_duration s = Some d \<Longrightarrow> - (2 ^ 63) \<le> d \<and> d < 2 ^ 63"
  using duration_sum_bound [of _ 0] by (fastforce simp: parse_duration_def Let_def split: if_splits option.splits)

lemma parse_duration_examples:
  "parse_duration ''15m'' = Some 900000000000"
  "parse_duration ''1h15m30s'' = Some 4530000000000"
  "parse_duration ''-2s'' = Some (- 2000000000)"
  "parse_duration ''0'' = Some 0"
  "parse_duration ''5'' = None"
  "parse_duration ''.s'' = None"
  by (simp_all add: parse_duration_def duration_sum.simps duration_item_def unit_map_def is_digit_def read_digits_def digit_val_def Let_def ord_def)

section \<open>The readers\<close>

type_synonym environment = "string \<Rightarrow> string"

text \<open>\<open>None\<close> is the panic of \<open>MustGetEnv\<close>.\<close>

definition MustGetEnv :: "environment \<Rightarrow> string \<Rightarrow> string option" where
  "MustGetEnv en key = (if en key = '''' then None else Some (en key))"

definition GetEnv :: "environment \<Rightarrow> string \<Rightarrow> string \<Rightarrow> string" where
  "GetEnv en key fallback = (if en key \<noteq> '''' then en key else fallback)"

definition GetEnvInt :: "environment \<Rightarrow> string \<Rightarrow> int64 \<Rightarrow> int64" where
  "GetEnvInt en key fallback = (if en key = '''' then fallback else (case atoi (en key) of None \<Rightarrow> fallback | Some i \<Rightarrow> i))"

definition GetEnvDuration :: "environment \<Rightarrow> string \<Rightarrow> int \<Rightarrow> int" where
  "GetEnvDuration en key fallback = (if en key = '''' then fallback else (case parse_duration (en key) of None \<Rightarrow> fallback | Some d \<Rightarrow> d))"

end
