(* ===== verification/Gateway.thy ===== *)
theory Gateway imports Httpx Jwtx Go_Config begin

text \<open>
  The gateway: \<open>internal/config\<close>,
  \<open>shared/health\<close>, the rate limiter of \<open>shared/middleware/ratelimit.go\<close>,
  \<open>internal/authmw\<close>, \<open>internal/proxy\<close> and \<open>internal/router\<close>. The backends are a function on
  a state of their own: what the transport of the reverse proxy makes of one request,
  under the limit on its body. The token bucket of golang.org/x/time/rate and the JWT library
  are parameters too. Redirects that gin answers itself (a trailing slash) are left out.
\<close>

section \<open>Configuration\<close>

definition splitAndTrim :: "string \<Rightarrow> string list" where
  "splitAndTrim csv = filter (\<lambda>p. p \<noteq> '''') (map trim_space (split_on CHR '','' csv))"

record gw_config =
  cfg_port :: string
  cfg_user_url :: string
  cfg_expense_url :: string
  cfg_budget_url :: string
  cfg_notification_url :: string
  cfg_secret :: string
  cfg_log_level :: string
  cfg_shutdown :: int
  cfg_origins :: "string list"
  cfg_rps :: int64
  cfg_burst :: int64
  cfg_max_body :: int64

definition gw_Load :: "environment \<Rightarrow> gw_config option" where
  "gw_Load en =
    Option.bind (MustGetEnv en ''USER_SERVICE_URL'') (\<lambda>u.
    Option.bind (MustGetEnv en ''EXPENSE_SERVICE_URL'') (\<lambda>e.
    Option.bind (MustGetEnv en ''BUDGET_SERVICE_URL'') (\<lambda>b.
    Option.bind (MustGetEnv en ''NOTIFICATION_SERVICE_URL'') (\<lambda>n.
    Option.bind (MustGetEnv en ''JWT_ACCESS_SECRET'') (\<lambda>s. Some \<lparr>
      cfg_port = GetEnv en ''GATEWAY_PORT'' ''8080'',
      cfg_user_url = u, cfg_expense_url = e, cfg_budget_url = b, cfg_notification_url = n, cfg_secret = s,
      cfg_log_level = GetEnv en ''LOG_LEVEL'' ''info'',
      cfg_shutdown = GetEnvDuration en ''SHUTDOWN_TIMEOUT'' 10000000000,
      cfg_origins = splitAndTrim (GetEnv en ''CORS_ALLOWED_ORIGINS'' ''http://localhost:3000''),
      cfg_rps = GetEnvInt en ''RATE_LIMIT_REQUESTS_PER_SECOND'' 10,
      cfg_burst = GetEnvInt en ''RATE_LIMIT_BURST'' 20,
      cfg_max_body = GetEnvInt en ''MAX_REQUEST_BODY_BYTES'' 1048576\<rparr>)))))"

section \<open>Health\<close>

record check_result =
  cr_name :: string
  cr_ok :: bool
  cr_error :: string

text \<open>A checker is its name and what its check returned.\<close>

definition runChecks :: "(string \<times> string option) list \<Rightarrow> check_result list \<times> bool" where
  "runChecks checkers =
    (map (\<lambda>(n, e). case e of Some m \<Rightarrow> \<lparr>cr_name = n, cr_ok = False, cr_error = m\<rparr> | None \<Rightarrow> \<lparr>cr_name = n, cr_ok = True, cr_error = ''''\<rparr>) checkers,
     list_all (\<lambda>(n, e). e = None) checkers)"

record probe =
  pr_status :: nat
  pr_state :: string
  pr_service :: string
  pr_checks :: "check_result list option"

definition health_Register :: "string \<Rightarrow> (string \<times> string option) list \<Rightarrow> string \<Rightarrow> probe option" where
  "health_Register service checkers path =
    (case runChecks checkers of (results, allOK) \<Rightarrow>
     if path = ''/live'' then Some \<lparr>pr_status = 200, pr_state = ''ok'', pr_service = service, pr_checks = None\<rparr>
     else if path = ''/ready'' then
       (if allOK then Some \<lparr>pr_status = 200, pr_state = ''ok'', pr_service = service, pr_checks = Some results\<rparr>
        else Some \<lparr>pr_status = 503, pr_state = ''not_ready'', pr_service = service, pr_checks = Some results\<rparr>)
     else if path = ''/health'' then
       Some \<lparr>pr_status = (if allOK then 200 else 503), pr_state = (if allOK then ''ok'' else ''degraded''), pr_service = service,
             pr_checks = Some results\<rparr>
     else None)"

section \<open>The rate limiter\<close>

record 'l limiter_lib =
  lim_new :: "f64 \<Rightarrow> int64 \<Rightarrow> 'l"
  lim_allow :: "gotime \<Rightarrow> 'l \<Rightarrow> bool \<times> 'l"

type_synonym 'l visitors = "string \<Rightarrow> ('l \<times> gotime) option"

definition float64_of_int :: "int64 \<Rightarrow> f64" where
  "float64_of_int n = (if n <s 0 then fneg (f64_of_nat (nat (- sint n))) else f64_of_nat (nat (sint n)))"

text \<open>Whether the request goes on, and the map of visitors afterwards.\<close>

definition RateLimit :: "'l limiter_lib \<Rightarrow> f64 \<Rightarrow> int64 \<Rightarrow> gotime \<Rightarrow> string \<Rightarrow> 'l visitors \<Rightarrow> bool \<times> 'l visitors" where
  "RateLimit L rps burst now ip vs =
    (if fle rps f0 \<or> burst \<le>s 0 then (True, vs)
     else (let l = (case vs ip of None \<Rightarrow> lim_new L rps burst | Some (l, _) \<Rightarrow> l)
           in case lim_allow L now l of (allowed, l') \<Rightarrow> (allowed, vs(ip \<mapsto> (l', now)))))"

definition time_since :: "gotime \<Rightarrow> gotime \<Rightarrow> int" where
  "time_since now t = (t_sec now - t_sec t) * 1000000000 + (t_nsec now - t_nsec t)"

text \<open>The sweep that runs every minute.\<close>

definition sweep_visitors :: "gotime \<Rightarrow> 'l visitors \<Rightarrow> 'l visitors" where
  "sweep_visitors now vs = (\<lambda>ip. case vs ip of None \<Rightarrow> None
    | Some (l, seen) \<Rightarrow> if time_since now seen > 180000000000 then None else Some (l, seen))"

section \<open>Requests, backends and the proxy\<close>

record 'q http_request =
  hq_method :: string
  hq_path :: string
  hq_auth :: string
  hq_user :: string
  hq_rid :: string
  hq_origin :: string
  hq_ip :: string
  hq_rest :: 'q

datatype backend = BUser | BExpense | BBudget | BNotification

datatype proxy_error = MaxBytesError | Unreachable string

type_synonym ('q, 's, 'a) backends = "backend \<Rightarrow> int64 option \<Rightarrow> 'q http_request \<Rightarrow> 's \<Rightarrow> (proxy_error + 'a response) \<times> 's"

definition proxy_ErrorHandler :: "'q http_request \<Rightarrow> proxy_error \<Rightarrow> 'a response" where
  "proxy_ErrorHandler req err = (case err of
      MaxBytesError \<Rightarrow> httpx_Fail (hq_rid req) 400 CodeValidation ''request body too large'' None
    | Unreachable _ \<Rightarrow> httpx_Fail (hq_rid req) 502 CodeInternal ''upstream service unavailable'' None)"

definition proxy_Handler ::
  "('q, 's, 'a) backends \<Rightarrow> int64 option \<Rightarrow> string \<Rightarrow> backend \<Rightarrow> 'q http_request \<Rightarrow> 's \<Rightarrow> 'a response \<times> 's" where
  "proxy_Handler B lim rid b req s =
    (let req1 = (if rid \<noteq> '''' then req\<lparr>hq_rid := rid\<rparr> else req)
     in case B b lim req1 s of (Inl e, s') \<Rightarrow> (proxy_ErrorHandler req1 e, s') | (Inr r, s') \<Rightarrow> (r, s'))"

fun resolve_from :: "string \<Rightarrow> (string \<times> 'b) list \<Rightarrow> (string \<times> 'b) option \<Rightarrow> (string \<times> 'b) option" where
  "resolve_from path [] best = best"
| "resolve_from path (r # t) best =
    resolve_from path t
      (if is_prefix (fst r) path \<and> (case best of None \<Rightarrow> True | Some b \<Rightarrow> length (fst b) < length (fst r)) then Some r else best)"

definition Table_Resolve :: "(string \<times> 'b) list \<Rightarrow> string \<Rightarrow> 'b option" where
  "Table_Resolve t path = map_option snd (resolve_from path t None)"

section \<open>Authentication\<close>

definition bearerPrefix :: string where "bearerPrefix = ''Bearer ''"

definition RequireAccessToken ::
  "jwt_lib \<Rightarrow> string \<Rightarrow> gotime \<Rightarrow> string \<Rightarrow> ('q http_request \<Rightarrow> 's \<Rightarrow> 'a response \<times> 's) \<Rightarrow> 'q http_request \<Rightarrow> 's \<Rightarrow> 'a response \<times> 's" where
  "RequireAccessToken J secret now rid next req s =
    (if hq_auth req = '''' \<or> \<not> is_prefix bearerPrefix (hq_auth req) then
       (httpx_Fail rid 401 CodeUnauthorized ''missing or malformed authorization header'' None, s)
     else (let tok = trim_prefix bearerPrefix (hq_auth req) in
       if tok = '''' then (httpx_Fail rid 401 CodeUnauthorized ''missing or malformed authorization header'' None, s)
       else (case jwtx_Parse J now secret tok TypeAccess of
           None \<Rightarrow> (httpx_Fail rid 401 CodeUnauthorized ''invalid or expired token'' None, s)
         | Some cl \<Rightarrow>
            let req1 = req\<lparr>hq_user := cl_user cl\<rparr>
            in next (if rid \<noteq> '''' then req1\<lparr>hq_rid := rid\<rparr> else req1) s)))"

section \<open>The routes of the gateway\<close>

definition public_paths :: "string list" where
  "public_paths = [''/api/v1/auth/register'', ''/api/v1/auth/login'', ''/api/v1/auth/refresh'', ''/api/v1/auth/password-reset'']"

definition gateway_table :: "(string \<times> backend) list" where
  "gateway_table =
    [(''/api/v1/auth/logout'', BUser),
     (''/api/v1/users/me'', BUser),
     (''/api/v1/accounts'', BExpense),
     (''/api/v1/transactions'', BExpense),
     (''/api/v1/categories'', BExpense),
     (''/api/v1/budgets'', BBudget),
     (''/api/v1/goals'', BBudget),
     (''/api/v1/reports'', BBudget),
     (''/api/v1/notifications'', BNotification)]"

datatype 'a gw_answer = Api "'a response" | Probe probe | Spec | Preflight

definition gateway_route ::
  "gw_config \<Rightarrow> jwt_lib \<Rightarrow> ('q, 's, 'a) backends \<Rightarrow> gotime \<Rightarrow> string \<Rightarrow> 'q http_request \<Rightarrow> 's \<Rightarrow> 'a gw_answer \<times> 's" where
  "gateway_route cfg J B now rid req s =
    (if hq_method req = ''GET'' \<and> health_Register ''gateway'' [] (hq_path req) \<noteq> None then
       (Probe (the (health_Register ''gateway'' [] (hq_path req))), s)
     else if hq_method req = ''GET'' \<and> hq_path req = ''/openapi.yaml'' then (Spec, s)
     else (case (if hq_method req = ''POST'' \<and> hq_path req \<in> set public_paths
          then proxy_Handler B (BodyLimit (cfg_max_body cfg)) rid BUser req s
          else RequireAccessToken J (cfg_secret cfg) now rid (\<lambda>req1 s1.
            case Table_Resolve gateway_table (hq_path req1) of
              None \<Rightarrow> (httpx_Fail rid 404 CodeNotFound ''no route matches this path'' None, s1)
            | Some b \<Rightarrow> proxy_Handler B (BodyLimit (cfg_max_body cfg)) rid b req1 s1) req s)
       of (r, s') \<Rightarrow> (Api r, s')))"

text \<open>
  The whole chain: request id, CORS, rate limit, routes (recovery and the log change no answer
  here). The answer comes with the CORS headers.
\<close>

definition gateway ::
  "gw_config \<Rightarrow> jwt_lib \<Rightarrow> 'l limiter_lib \<Rightarrow> ('q, 's, 'a) backends \<Rightarrow> gotime \<Rightarrow> string \<Rightarrow> 'q http_request \<Rightarrow> 'l visitors \<times> 's \<Rightarrow>
   ((string \<times> string) list \<times> 'a gw_answer) \<times> 'l visitors \<times> 's" where
  "gateway cfg J L B now fresh req = (\<lambda>(vs, s).
    let rid = RequestID fresh (hq_rid req) in
    case CORS (cfg_origins cfg) (hq_method req) (hq_origin req) of (hs, goes_on) \<Rightarrow>
      if \<not> goes_on then ((hs, Preflight), (vs, s))
      else (case RateLimit L (float64_of_int (cfg_rps cfg)) (cfg_burst cfg) now (hq_ip req) vs of
          (False, vs1) \<Rightarrow> ((hs, Api (httpx_Fail rid 429 CodeRateLimited ''too many requests, slow down and try again'' None)), (vs1, s))
        | (True, vs1) \<Rightarrow> (case gateway_route cfg J B now rid req s of (a, s1) \<Rightarrow> ((hs, a), (vs1, s1)))))"

section \<open>Routing\<close>

text \<open>The entry that the loop keeps is the first of the longest prefixes seen so far.\<close>

definition best_route :: "string \<Rightarrow> (string \<times> 'b) list \<Rightarrow> (string \<times> 'b) option \<Rightarrow> bool" where
  "best_route path t best \<longleftrightarrow> (case best of
      None \<Rightarrow> \<forall>r \<in> set t. \<not> is_prefix (fst r) path
    | Some b \<Rightarrow> is_prefix (fst b) path \<and> (\<exists>pre post. t = pre @ b # post \<and>
        (\<forall>r \<in> set pre. is_prefix (fst r) path \<longrightarrow> length (fst r) < length (fst b)) \<and>
        (\<forall>r \<in> set post. is_prefix (fst r) path \<longrightarrow> length (fst r) \<le> length (fst b))))"

lemma best_route_snoc:
  assumes "best_route path t best"
  shows "best_route path (t @ [r])
    (if is_prefix (fst r) path \<and> (case best of None \<Rightarrow> True | Some b \<Rightarrow> length (fst b) < length (fst r)) then Some r else best)"
proof (cases best)
  case None
  then have "\<forall>r \<in> set t. \<not> is_prefix (fst r) path" using assms by (simp add: best_route_def)
  then have "best_route path (t @ [r]) (Some r)" if "is_prefix (fst r) path"
    using that \<open>\<forall>r \<in> set t. \<not> is_prefix (fst r) path\<close>
    unfolding best_route_def option.case by (intro conjI exI [of _ t] exI [of _ "[] :: (string \<times> 'b) list"]) auto
  moreover have "best_route path (t @ [r]) None" if "\<not> is_prefix (fst r) path"
    using that \<open>\<forall>r \<in> set t. \<not> is_prefix (fst r) path\<close> by (auto simp: best_route_def)
  ultimately show ?thesis using None by simp
next
  case (Some b)
  then obtain pre post where b: "is_prefix (fst b) path" "t = pre @ b # post"
    "\<forall>r \<in> set pre. is_prefix (fst r) path \<longrightarrow> length (fst r) < length (fst b)"
    "\<forall>r \<in> set post. is_prefix (fst r) path \<longrightarrow> length (fst r) \<le> length (fst b)"
    using assms by (auto simp: best_route_def)
  show ?thesis
  proof (cases "is_prefix (fst r) path \<and> length (fst b) < length (fst r)")
    case True
    then have "\<forall>x \<in> set t. is_prefix (fst x) path \<longrightarrow> length (fst x) < length (fst r)" using b by fastforce
    with True Some show ?thesis by (auto simp: best_route_def intro: exI [of _ t])
  next
    case False
    have "t @ [r] = pre @ b # (post @ [r])" by (simp add: b(2))
    moreover have "\<forall>x \<in> set (post @ [r]). is_prefix (fst x) path \<longrightarrow> length (fst x) \<le> length (fst b)" using b(4) False by auto
    ultimately have "best_route path (t @ [r]) (Some b)" unfolding best_route_def option.case using b(1,3) by blast
    with False Some show ?thesis by (simp only: option.case if_False)
  qed
qed

lemma resolve_from_best: "best_route path pre best \<Longrightarrow> best_route path (pre @ t) (resolve_from path t best)"
proof (induction t arbitrary: pre best)
  case (Cons r t)
  from Cons.IH [OF best_route_snoc [OF Cons.prems, of r]] show ?case by simp
qed simp

text \<open>
  The gateway sends a path to the owner of the longest matching prefix of the table,
  the first one if several are equally long, and finds no owner exactly if no prefix matches.
\<close>

theorem resolve_longest:
  "case Table_Resolve t path of
     None \<Rightarrow> \<forall>r \<in> set t. \<not> is_prefix (fst r) path
   | Some b \<Rightarrow> \<exists>pre p post. t = pre @ (p, b) # post \<and> is_prefix p path \<and>
       (\<forall>r \<in> set pre. is_prefix (fst r) path \<longrightarrow> length (fst r) < length p) \<and>
       (\<forall>r \<in> set post. is_prefix (fst r) path \<longrightarrow> length (fst r) \<le> length p)"
proof -
  have "best_route path t (resolve_from path t None)"
    using resolve_from_best [of path "[]" None t] by (simp add: best_route_def)
  then show ?thesis
    by (cases "resolve_from path t None") (force simp: Table_Resolve_def best_route_def)+
qed

theorem resolve_longest_witness:
  "Table_Resolve [(''/api'', 1 :: nat), (''/api/v1'', 2)] ''/api/v1/goals'' = Some 2 \<and>
   (\<exists>pre p post. [(''/api'', 1 :: nat), (''/api/v1'', 2)] = pre @ (p, 2) # post \<and> is_prefix p ''/api/v1/goals'')"
proof -
  have r: "Table_Resolve [(''/api'', 1 :: nat), (''/api/v1'', 2)] ''/api/v1/goals'' = Some 2" by code_simp
  from resolve_longest [of "[(''/api'', 1 :: nat), (''/api/v1'', 2)]" "''/api/v1/goals''"] show ?thesis
    unfolding r by auto
qed

section \<open>The rate limit\<close>

text \<open>What happens to the map of visitors: requests, and the sweep of every minute.\<close>

datatype limit_event = Hit gotime string | Sweep gotime

fun event_time :: "limit_event \<Rightarrow> gotime" where
  "event_time (Hit now _) = now"
| "event_time (Sweep now) = now"

fun limit_run :: "'l limiter_lib \<Rightarrow> f64 \<Rightarrow> int64 \<Rightarrow> limit_event list \<Rightarrow> 'l visitors \<Rightarrow> (string \<times> bool) list" where
  "limit_run L rps burst [] vs = []"
| "limit_run L rps burst (Hit now ip # es) vs = (case RateLimit L rps burst now ip vs of
     (ok, vs') \<Rightarrow> (ip, ok) # limit_run L rps burst es vs')"
| "limit_run L rps burst (Sweep now # es) vs = limit_run L rps burst es (sweep_visitors now vs)"

text \<open>The reference: one limiter of the library, asked at these times.\<close>

fun own_limiter :: "'l limiter_lib \<Rightarrow> gotime list \<Rightarrow> 'l \<Rightarrow> bool list \<times> 'l" where
  "own_limiter L [] l = ([], l)"
| "own_limiter L (t # ts) l = (case lim_allow L t l of (b, l') \<Rightarrow> case own_limiter L ts l' of (bs, l'') \<Rightarrow> (b # bs, l''))"

lemma own_limiter_Cons:
  assumes "lim_allow L t l = (b, l')"
  shows "own_limiter L (t # ts) l = (b # fst (own_limiter L ts l'), snd (own_limiter L ts l'))"
  using assms by (simp split: prod.splits)

lemma own_limiter_append:
  "own_limiter L (ts @ us) l = (case own_limiter L ts l of (bs, l') \<Rightarrow> case own_limiter L us l' of (cs, l'') \<Rightarrow> (bs @ cs, l''))"
  by (induction ts arbitrary: l) (auto split: prod.splits)

definition hits :: "string \<Rightarrow> limit_event list \<Rightarrow> gotime list" where
  "hits ip es = concat (map (\<lambda>e. case e of Hit now x \<Rightarrow> if x = ip then [now] else [] | Sweep _ \<Rightarrow> []) es)"

text \<open>
  What the sweep relies on: a limiter that nobody asked for more than three minutes answers
  like a new one. The bucket of the library does when burst / rps is at most 180 s.
\<close>

definition refills :: "'l limiter_lib \<Rightarrow> f64 \<Rightarrow> int64 \<Rightarrow> bool" where
  "refills L rps burst \<longleftrightarrow> (\<forall>ts t us. (\<forall>x \<in> set ts. 0 \<le> time_since t x) \<longrightarrow> (\<forall>u \<in> set us. 180000000000 < time_since u t) \<longrightarrow>
     fst (own_limiter L us (snd (own_limiter L (ts @ [t]) (lim_new L rps burst)))) = fst (own_limiter L us (lim_new L rps burst)))"

fun time_ordered :: "limit_event list \<Rightarrow> bool" where
  "time_ordered [] = True"
| "time_ordered (e # es) = ((\<forall>x \<in> set es. 0 \<le> time_since (event_time x) (event_time e)) \<and> time_ordered es)"

lemma time_since_trans: "time_since a c = time_since a b + time_since b c"
  by (simp add: time_since_def algebra_simps)

lemma hits_simps [simp]:
  "hits ip [] = []" "hits ip (Hit now x # es) = (if x = ip then now # hits ip es else hits ip es)"
  "hits ip (Sweep now # es) = hits ip es"
  by (simp_all add: hits_def)

lemma hits_later: "u \<in> set (hits ip es) \<Longrightarrow> \<exists>e \<in> set es. event_time e = u"
  by (force simp: hits_def split: limit_event.splits if_splits)

definition answers_for :: "string \<Rightarrow> (string \<times> bool) list \<Rightarrow> bool list" where
  "answers_for ip rs = map snd (filter (\<lambda>r. fst r = ip) rs)"

definition limiter_of :: "'l limiter_lib \<Rightarrow> f64 \<Rightarrow> int64 \<Rightarrow> 'l visitors \<Rightarrow> string \<Rightarrow> 'l" where
  "limiter_of L rps burst vs ip = (case vs ip of None \<Rightarrow> lim_new L rps burst | Some (l, _) \<Rightarrow> l)"

lemma limiter_of_upd [simp]: "limiter_of L rps burst (vs(x \<mapsto> (l, t))) ip = (if x = ip then l else limiter_of L rps burst vs ip)"
  by (simp add: limiter_of_def)

text \<open>A stored limiter is what the hits since its creation made of a new one.\<close>

definition tracked :: "'l limiter_lib \<Rightarrow> f64 \<Rightarrow> int64 \<Rightarrow> limit_event list \<Rightarrow> 'l visitors \<Rightarrow> string \<Rightarrow> bool" where
  "tracked L rps burst es vs ip \<longleftrightarrow> (case vs ip of None \<Rightarrow> True
    | Some (l, seen) \<Rightarrow> (\<exists>ts. l = snd (own_limiter L (ts @ [seen]) (lim_new L rps burst)) \<and> (\<forall>x \<in> set ts. 0 \<le> time_since seen x)) \<and>
        (\<forall>x \<in> set es. 0 \<le> time_since (event_time x) seen))"

lemma RateLimit_enabled:
  assumes "\<not> fle rps f0" and "\<not> burst \<le>s 0" and "lim_allow L now (limiter_of L rps burst vs ip) = (b, l')"
  shows "RateLimit L rps burst now ip vs = (b, vs(ip \<mapsto> (l', now)))"
  using assms by (simp add: RateLimit_def limiter_of_def Let_def)

lemma tracked_hit:
  assumes "tracked L rps burst (Hit now ip # es) vs ip" and "time_ordered (Hit now ip # es)"
    and "lim_allow L now (limiter_of L rps burst vs ip) = (b, l')"
  shows "tracked L rps burst es (vs(ip \<mapsto> (l', now))) ip"
proof -
  obtain ts where ts: "limiter_of L rps burst vs ip = snd (own_limiter L ts (lim_new L rps burst))" "\<forall>x \<in> set ts. 0 \<le> time_since now x"
  proof (cases "vs ip")
    case None
    then show ?thesis using that [of "[]"] by (simp add: limiter_of_def)
  next
    case (Some a)
    then obtain l seen us where a: "vs ip = Some (l, seen)" "l = snd (own_limiter L (us @ [seen]) (lim_new L rps burst))"
      "\<forall>x \<in> set us. 0 \<le> time_since seen x" "0 \<le> time_since now seen"
      using assms(1) by (cases a) (auto simp: tracked_def)
    moreover have "0 \<le> time_since now x" if "x \<in> set us" for x
      using a(3,4) that time_since_trans [of now x seen] by fastforce
    ultimately show ?thesis by (intro that [of "us @ [seen]"]) (auto simp: limiter_of_def)
  qed
  have "l' = snd (own_limiter L (ts @ [now]) (lim_new L rps burst))"
    using assms(3) ts(1) by (cases "own_limiter L ts (lim_new L rps burst)") (simp add: own_limiter_append)
  then show ?thesis using assms(2) ts(2) by (auto simp: tracked_def)
qed

lemma limit_run_own:
  assumes on: "\<not> fle rps f0" "\<not> burst \<le>s 0" and refills: "refills L rps burst"
  shows "time_ordered es \<Longrightarrow> tracked L rps burst es vs ip \<Longrightarrow>
    answers_for ip (limit_run L rps burst es vs) = fst (own_limiter L (hits ip es) (limiter_of L rps burst vs ip))"
proof (induction es arbitrary: vs)
  case (Cons e es)
  have ord: "time_ordered es" using Cons.prems(1) by simp
  show ?case
  proof (cases e)
    case (Hit now x)
    obtain b l' where a: "lim_allow L now (limiter_of L rps burst vs x) = (b, l')" by (cases "lim_allow L now (limiter_of L rps burst vs x)")
    have r: "limit_run L rps burst (e # es) vs = (x, b) # limit_run L rps burst es (vs(x \<mapsto> (l', now)))"
      by (simp add: Hit RateLimit_enabled [OF on a])
    show ?thesis
    proof (cases "x = ip")
      case True
      have "tracked L rps burst es (vs(x \<mapsto> (l', now))) ip" using tracked_hit [of L rps burst now ip es vs] Cons.prems a Hit True by simp
      then have "answers_for ip (limit_run L rps burst es (vs(x \<mapsto> (l', now)))) =
        fst (own_limiter L (hits ip es) (limiter_of L rps burst (vs(x \<mapsto> (l', now))) ip))" by (rule Cons.IH [OF ord])
      then show ?thesis
        using a True own_limiter_Cons [OF a] unfolding r by (simp add: Hit answers_for_def del: own_limiter.simps)
    next
      case False
      then have "tracked L rps burst es (vs(x \<mapsto> (l', now))) ip" using Cons.prems(2) by (auto simp: tracked_def split: option.splits)
      then have "answers_for ip (limit_run L rps burst es (vs(x \<mapsto> (l', now)))) =
        fst (own_limiter L (hits ip es) (limiter_of L rps burst (vs(x \<mapsto> (l', now))) ip))" by (rule Cons.IH [OF ord])
      then show ?thesis using False unfolding r by (simp add: Hit answers_for_def)
    qed
  next
    case (Sweep now)
    have tr: "tracked L rps burst es (sweep_visitors now vs) ip"
      using Cons.prems(2) by (auto simp: tracked_def sweep_visitors_def split: option.splits)
    have "fst (own_limiter L (hits ip es) (limiter_of L rps burst (sweep_visitors now vs) ip)) =
      fst (own_limiter L (hits ip es) (limiter_of L rps burst vs ip))"
    proof (cases "\<exists>l seen. vs ip = Some (l, seen) \<and> 180000000000 < time_since now seen")
      case True
      then obtain l seen where v: "vs ip = Some (l, seen)" "180000000000 < time_since now seen" by blast
      obtain ts where l: "l = snd (own_limiter L (ts @ [seen]) (lim_new L rps burst))" "\<forall>x \<in> set ts. 0 \<le> time_since seen x" using Cons.prems(2) v(1) by (auto simp: tracked_def)
      have "\<forall>u \<in> set (hits ip es). 180000000000 < time_since u seen"
      proof
        fix u assume "u \<in> set (hits ip es)"
        then have "0 \<le> time_since u now" using hits_later Cons.prems(1) Sweep by fastforce
        then show "180000000000 < time_since u seen" using v(2) time_since_trans [of u seen now] by linarith
      qed
      with refills l have "fst (own_limiter L (hits ip es) l) = fst (own_limiter L (hits ip es) (lim_new L rps burst))"
        unfolding refills_def by blast
      with v show ?thesis by (simp add: limiter_of_def sweep_visitors_def)
    next
      case False
      then have "sweep_visitors now vs ip = vs ip" by (auto simp: sweep_visitors_def split: option.splits)
      then show ?thesis by (simp add: limiter_of_def)
    qed
    with Cons.IH [OF ord tr] Sweep show ?thesis by simp
  qed
qed (simp add: answers_for_def)


text \<open>A limiter for the witness: one request per second, the state is the last request it let through.\<close>

definition demo_limiter :: "gotime option limiter_lib" where
  "demo_limiter = \<lparr>lim_new = (\<lambda>_ _. None),
     lim_allow = (\<lambda>now l. case l of None \<Rightarrow> (True, Some now)
       | Some t \<Rightarrow> if 1000000000 \<le> time_since now t then (True, Some now) else (False, l))\<rparr>"

lemma demo_limiter_state:
  "\<forall>x \<in> set ts. 0 \<le> time_since t x \<Longrightarrow> (case l of None \<Rightarrow> True | Some x \<Rightarrow> 0 \<le> time_since t x) \<Longrightarrow>
   case snd (own_limiter demo_limiter ts l) of None \<Rightarrow> True | Some x \<Rightarrow> 0 \<le> time_since t x"
proof (induction ts arbitrary: l)
  case (Cons a ts)
  obtain b l' where a: "lim_allow demo_limiter a l = (b, l')" by (cases "lim_allow demo_limiter a l")
  then have "case l' of None \<Rightarrow> True | Some x \<Rightarrow> 0 \<le> time_since t x"
    using Cons.prems by (auto simp: demo_limiter_def split: option.splits if_splits)
  from Cons.IH [OF _ this] Cons.prems(1) show ?case unfolding own_limiter_Cons [OF a] snd_conv by simp
qed simp

lemma demo_limiter_refills: "refills demo_limiter rps burst"
  unfolding refills_def
proof (intro allI impI)
  fix ts t us assume t: "\<forall>x \<in> set ts. 0 \<le> time_since t x" and u: "\<forall>u \<in> set us. 180000000000 < time_since u t"
  let ?l = "snd (own_limiter demo_limiter (ts @ [t]) (lim_new demo_limiter rps burst))"
  have new: "lim_new demo_limiter rps burst = None" by (simp add: demo_limiter_def)
  have "case ?l of None \<Rightarrow> True | Some x \<Rightarrow> 0 \<le> time_since t x"
    by (rule demo_limiter_state) (use t in \<open>auto simp: new time_since_def\<close>)
  moreover have "180000000000 < time_since (hd us) t" if "us \<noteq> []" using u that by simp
  ultimately show "fst (own_limiter demo_limiter us ?l) = fst (own_limiter demo_limiter us (lim_new demo_limiter rps burst))"
    using time_since_trans [of "hd us" "the ?l" t]
    by (cases us; cases ?l) (auto simp: new demo_limiter_def split: prod.splits)
qed

definition at_sec :: "int \<Rightarrow> gotime" where "at_sec n = \<lparr>t_sec = n, t_nsec = 0, t_off = 0\<rparr>"


section \<open>Identity\<close>

text \<open>The user that the access token of a request names, if it carries one that verifies.\<close>

definition token_user :: "jwt_lib \<Rightarrow> string \<Rightarrow> gotime \<Rightarrow> 'q http_request \<Rightarrow> string option" where
  "token_user J secret now req =
    (if is_prefix bearerPrefix (hq_auth req) \<and> trim_prefix bearerPrefix (hq_auth req) \<noteq> ''''
     then map_option cl_user (jwtx_Parse J now secret (trim_prefix bearerPrefix (hq_auth req)) TypeAccess) else None)"

definition is_public :: "'q http_request \<Rightarrow> bool" where
  "is_public req \<longleftrightarrow> hq_method req = ''POST'' \<and> hq_path req \<in> set public_paths"

lemma RequireAccessToken_user:
  "RequireAccessToken J secret now rid next req s = (case token_user J secret now req of
      None \<Rightarrow> (fst (RequireAccessToken J secret now rid next req s), s)
    | Some u \<Rightarrow> next (if rid \<noteq> '''' then req\<lparr>hq_user := u, hq_rid := rid\<rparr> else req\<lparr>hq_user := u\<rparr>) s)"
  by (auto simp: RequireAccessToken_def token_user_def Let_def bearerPrefix_def split: option.splits)

lemma RequireAccessToken_no_user:
  "RequireAccessToken J secret now rid next (req\<lparr>hq_user := x\<rparr>) s = RequireAccessToken J secret now rid next req s"
  by (simp add: RequireAccessToken_def Let_def split: option.split)

lemma proxy_state:
  assumes "hq_rid req = hq_rid req0 \<or> hq_rid req = RequestID fresh (hq_rid req0)"
  shows "snd (proxy_Handler B lim (RequestID fresh (hq_rid req0)) b req s) = snd (B b lim (req\<lparr>hq_rid := RequestID fresh (hq_rid req0)\<rparr>) s)"
proof -
  have "(if RequestID fresh (hq_rid req0) \<noteq> '''' then req\<lparr>hq_rid := RequestID fresh (hq_rid req0)\<rparr> else req) = req\<lparr>hq_rid := RequestID fresh (hq_rid req0)\<rparr>"
    using assms by (auto simp: RequestID_def)
  then show ?thesis unfolding proxy_Handler_def Let_def by (simp split: prod.splits sum.splits)
qed

text \<open>What a request does to the backends: nothing, or one call of one of them.\<close>

definition forwarded :: "gw_config \<Rightarrow> jwt_lib \<Rightarrow> gotime \<Rightarrow> string \<Rightarrow> 'q http_request \<Rightarrow> (backend \<times> 'q http_request) option" where
  "forwarded cfg J now fresh req =
    (let req1 = req\<lparr>hq_rid := RequestID fresh (hq_rid req)\<rparr> in
     if is_public req then Some (BUser, req1)
     else (case token_user J (cfg_secret cfg) now req of
        None \<Rightarrow> None
      | Some u \<Rightarrow> map_option (\<lambda>b. (b, req1\<lparr>hq_user := u\<rparr>)) (Table_Resolve gateway_table (hq_path req))))"

definition protected ::
  "gw_config \<Rightarrow> ('q, 's, 'a) backends \<Rightarrow> string \<Rightarrow> 'q http_request \<Rightarrow> 's \<Rightarrow> 'a response \<times> 's" where
  "protected cfg B rid = (\<lambda>req1 s1. case Table_Resolve gateway_table (hq_path req1) of
      None \<Rightarrow> (httpx_Fail rid 404 CodeNotFound ''no route matches this path'' None, s1)
    | Some b \<Rightarrow> proxy_Handler B (BodyLimit (cfg_max_body cfg)) rid b req1 s1)"

lemma gateway_route_cases:
  "gateway_route cfg J B now rid req s =
    (if hq_method req = ''GET'' \<and> health_Register ''gateway'' [] (hq_path req) \<noteq> None then
       (Probe (the (health_Register ''gateway'' [] (hq_path req))), s)
     else if hq_method req = ''GET'' \<and> hq_path req = ''/openapi.yaml'' then (Spec, s)
     else if is_public req then map_prod Api id (proxy_Handler B (BodyLimit (cfg_max_body cfg)) rid BUser req s)
     else map_prod Api id (RequireAccessToken J (cfg_secret cfg) now rid (protected cfg B rid) req s))"
  by (simp add: gateway_route_def is_public_def protected_def map_prod_def split: prod.splits)

lemma protected_state:
  assumes "token_user J (cfg_secret cfg) now req = Some u" and "\<not> is_public req"
  shows "snd (RequireAccessToken J (cfg_secret cfg) now (RequestID fresh (hq_rid req)) (protected cfg B (RequestID fresh (hq_rid req))) req s) =
    (case forwarded cfg J now fresh req of None \<Rightarrow> s | Some (b, r) \<Rightarrow> snd (B b (BodyLimit (cfg_max_body cfg)) r s))"
proof -
  let ?rid = "RequestID fresh (hq_rid req)"
  define q where "q = (if ?rid \<noteq> '''' then req\<lparr>hq_user := u, hq_rid := ?rid\<rparr> else req\<lparr>hq_user := u\<rparr>)"
  have q: "hq_rid q = hq_rid req \<or> hq_rid q = ?rid" "hq_path q = hq_path req" "q\<lparr>hq_rid := ?rid\<rparr> = req\<lparr>hq_rid := ?rid, hq_user := u\<rparr>"
    by (simp_all add: q_def)
  have "snd (RequireAccessToken J (cfg_secret cfg) now ?rid (protected cfg B ?rid) req s) = snd (protected cfg B ?rid q s)"
    by (subst RequireAccessToken_user) (simp add: assms(1) q_def)
  also have "\<dots> = (case Table_Resolve gateway_table (hq_path req) of None \<Rightarrow> s
      | Some b \<Rightarrow> snd (B b (BodyLimit (cfg_max_body cfg)) (q\<lparr>hq_rid := ?rid\<rparr>) s))"
    by (simp add: protected_def q(2) proxy_state [OF q(1)] split: option.split)
  finally show ?thesis
    by (simp add: forwarded_def assms q(3) Let_def split: option.split)
qed

lemma gateway_route_state:
  "snd (gateway_route cfg J B now (RequestID fresh (hq_rid req)) req s) = s \<or>
   (\<exists>b r. forwarded cfg J now fresh req = Some (b, r) \<and>
      snd (gateway_route cfg J B now (RequestID fresh (hq_rid req)) req s) = snd (B b (BodyLimit (cfg_max_body cfg)) r s))"
proof (cases "is_public req")
  case True
  then show ?thesis by (simp add: gateway_route_cases forwarded_def proxy_state)
next
  case False
  note st = protected_state [OF _ False, of J cfg now _ fresh B s]
  show ?thesis
  proof (cases "token_user J (cfg_secret cfg) now req")
    case None
    let ?rid = "RequestID fresh (hq_rid req)"
    have "snd (RequireAccessToken J (cfg_secret cfg) now ?rid (protected cfg B ?rid) req s) = s"
      by (subst RequireAccessToken_user) (simp add: None)
    with False show ?thesis by (simp only: gateway_route_cases) simp
  next
    case (Some u)
    from st [OF Some] False show ?thesis by (auto simp: gateway_route_cases split: option.splits)
  qed
qed

lemma gateway_state:
  "snd (snd (gateway cfg J L B now fresh req (vs, s))) = s \<or>
   (\<exists>b r. forwarded cfg J now fresh req = Some (b, r) \<and>
      snd (snd (gateway cfg J L B now fresh req (vs, s))) = snd (B b (BodyLimit (cfg_max_body cfg)) r s))"
  using gateway_route_state [of cfg J B now fresh req s]
  by (auto simp: gateway_def Let_def split: prod.splits bool.splits)

lemma gateway_route_no_user:
  assumes "\<not> is_public req"
  shows "gateway_route cfg J B now rid (req\<lparr>hq_user := x\<rparr>) s = gateway_route cfg J B now rid req s"
proof -
  have "\<not> is_public (req\<lparr>hq_user := x\<rparr>)" using assms by (simp add: is_public_def)
  moreover have "hq_method (req\<lparr>hq_user := x\<rparr>) = hq_method req" "hq_path (req\<lparr>hq_user := x\<rparr>) = hq_path req" by simp_all
  ultimately show ?thesis using assms by (simp only: gateway_route_cases RequireAccessToken_no_user if_False)
qed

text \<open>
  C2. Identity comes from the token alone. Outside the four public routes the \<open>X-User-Id\<close> that
  a client sends has no influence on anything; without an access token that verifies no backend
  is called; and otherwise at most one call is made, by the owner of the longest prefix, and it
  carries the user of the token and the request id that the client is answered with.
\<close>

theorem gateway_identity:
  assumes "\<not> is_public req"
  shows "gateway cfg J L B now fresh (req\<lparr>hq_user := x\<rparr>) st = gateway cfg J L B now fresh req st \<and>
    (snd (snd (gateway cfg J L B now fresh req st)) = snd st \<or>
     (\<exists>u b. token_user J (cfg_secret cfg) now req = Some u \<and> Table_Resolve gateway_table (hq_path req) = Some b \<and>
        snd (snd (gateway cfg J L B now fresh req st)) =
          snd (B b (BodyLimit (cfg_max_body cfg)) (req\<lparr>hq_rid := RequestID fresh (hq_rid req), hq_user := u\<rparr>) (snd st))))"
proof -
  obtain vs s where st: "st = (vs, s)" by (cases st)
  have same: "gateway cfg J L B now fresh (req\<lparr>hq_user := x\<rparr>) st = gateway cfg J L B now fresh req st"
    by (simp add: gateway_def st Let_def gateway_route_no_user [OF assms] split: prod.split bool.split)
  from gateway_state [of cfg J L B now fresh req vs s] have
    "snd (snd (gateway cfg J L B now fresh req st)) = snd st \<or>
     (\<exists>u b. token_user J (cfg_secret cfg) now req = Some u \<and> Table_Resolve gateway_table (hq_path req) = Some b \<and>
        snd (snd (gateway cfg J L B now fresh req st)) =
          snd (B b (BodyLimit (cfg_max_body cfg)) (req\<lparr>hq_rid := RequestID fresh (hq_rid req), hq_user := u\<rparr>) (snd st)))"
    using assms by (auto simp: st forwarded_def Let_def split: option.splits)
  with same show ?thesis by blast
qed

definition demo_cfg :: gw_config where
  "demo_cfg = \<lparr>cfg_port = ''8080'', cfg_user_url = ''http://user'', cfg_expense_url = ''http://expense'', cfg_budget_url = ''http://budget'',
     cfg_notification_url = ''http://notification'', cfg_secret = ''k'', cfg_log_level = ''info'', cfg_shutdown = 10000000000,
     cfg_origins = [''*''], cfg_rps = 0, cfg_burst = 0, cfg_max_body = 1048576\<rparr>"

definition demo_req :: "string \<Rightarrow> string \<Rightarrow> string \<Rightarrow> 'q \<Rightarrow> 'q http_request" where
  "demo_req method path auth rest = \<lparr>hq_method = method, hq_path = path, hq_auth = auth, hq_user = '''', hq_rid = ''r1'', hq_origin = '''',
     hq_ip = ''::1'', hq_rest = rest\<rparr>"

text \<open>Backends that write down the user of each call.\<close>

definition demo_backends :: "(unit, (backend \<times> string) list, unit) backends" where
  "demo_backends b lim req log = (Inr no_content, log @ [(b, hq_user req)])"

definition demo_token :: string where
  "demo_token = the (GenerateAccessToken demo_jwt (at_sec 0) ''k'' ''ann'' ''a@x.io'' 900000000000)"

lemma demo_token: "jwt_sign demo_jwt ''k'' \<lparr>cl_user = ''ann'', cl_email = ''a@x.io'', cl_type = TypeAccess, cl_jti = ''''\<rparr> (at_sec 0) (at_sec 900) = Some demo_token"
  by (simp add: demo_token_def GenerateAccessToken_def demo_jwt_def time_add_def at_sec_def)

lemma demo_token_parse:
  "jwtx_Parse demo_jwt (at_sec 9) ''k'' demo_token TypeAccess = Some \<lparr>cl_user = ''ann'', cl_email = ''a@x.io'', cl_type = TypeAccess, cl_jti = ''''\<rparr>"
  using Parse_signed [OF lawful_demo_jwt demo_token, of "at_sec 9"] by (simp add: at_sec_def)

lemma demo_token_ne: "demo_token \<noteq> ''''"
  using demo_token by (auto simp: demo_jwt_def put_def split: if_splits)

lemma demo_token_user: "hq_auth req = ''Bearer '' @ demo_token \<Longrightarrow> token_user demo_jwt ''k'' (at_sec 9) req = Some ''ann''"
  using demo_token_parse demo_token_ne by (simp add: token_user_def bearerPrefix_def trim_prefix_def)

lemma demo_gateway_state:
  "snd (snd (gateway demo_cfg J L B now ''f'' (demo_req method path auth rest) (vs, s))) =
   (if method = ''OPTIONS'' then s else snd (gateway_route demo_cfg J B now ''r1'' (demo_req method path auth rest) s))"
  by (simp add: gateway_def RateLimit_def CORS_def demo_cfg_def demo_req_def RequestID_def Let_def float64_of_int_def split: prod.split)

theorem gateway_identity_witness:
  "snd (snd (gateway demo_cfg demo_jwt demo_limiter demo_backends (at_sec 9) ''f''
     (demo_req ''PUT'' ''/api/v1/goals'' (''Bearer '' @ demo_token) ()\<lparr>hq_user := ''eve''\<rparr>) (\<lambda>_. None, []))) = [(BBudget, ''ann'')]"
proof -
  define req where "req = demo_req ''PUT'' ''/api/v1/goals'' (''Bearer '' @ demo_token) ()"
  have np: "\<not> is_public req" by (simp add: req_def is_public_def demo_req_def)
  from gateway_identity [OF np, of demo_cfg demo_jwt demo_limiter demo_backends "at_sec 9" "''f''" "''eve''" "(\<lambda>_. None, [])"]
  have "gateway demo_cfg demo_jwt demo_limiter demo_backends (at_sec 9) ''f'' (req\<lparr>hq_user := ''eve''\<rparr>) (\<lambda>_. None, []) =
    gateway demo_cfg demo_jwt demo_limiter demo_backends (at_sec 9) ''f'' req (\<lambda>_. None, [])" by blast
  moreover have t: "Table_Resolve gateway_table ''/api/v1/goals'' = Some BBudget" by code_simp
  have u: "token_user demo_jwt (cfg_secret demo_cfg) (at_sec 9) req = Some ''ann''"
    using demo_token_user [of req] by (simp add: req_def demo_cfg_def demo_req_def)
  have r: "RequestID ''f'' (hq_rid req) = ''r1''" by (simp add: req_def RequestID_def demo_req_def)
  have q: "hq_path req = ''/api/v1/goals''" "hq_method req = ''PUT''" by (simp_all add: req_def demo_req_def)
  have "forwarded demo_cfg demo_jwt (at_sec 9) ''f'' req = Some (BBudget, req\<lparr>hq_rid := ''r1'', hq_user := ''ann''\<rparr>)"
    unfolding forwarded_def Let_def r by (simp add: np u q(1) t)
  with protected_state [OF u np, of "''f''" demo_backends "[]", unfolded r]
  have "snd (RequireAccessToken demo_jwt (cfg_secret demo_cfg) (at_sec 9) ''r1'' (protected demo_cfg demo_backends ''r1'') req []) = [(BBudget, ''ann'')]"
    by (simp add: demo_backends_def)
  then have "snd (snd (gateway demo_cfg demo_jwt demo_limiter demo_backends (at_sec 9) ''f'' req (\<lambda>_. None, []))) = [(BBudget, ''ann'')]"
    using demo_gateway_state [of demo_jwt demo_limiter demo_backends "at_sec 9" "''PUT''" "''/api/v1/goals''" "''Bearer '' @ demo_token" "()", folded req_def]
    by (simp add: gateway_route_cases np q)
  ultimately show ?thesis by (simp only: req_def)
qed

end
