(* ===== verification/Platform.thy ===== *)
theory Platform imports Gateway Event_Bus User_Http Report_System begin

text \<open>
  Finora as a whole: the four services with their databases behind the gateway, and the bus
  between them. A request comes in at the gateway, which reaches a service through its reverse
  proxy; budget-service reads expense-service through its client; the consumers of the two
  subjects run when the bus delivers. The payload of a request says which handler of which
  service it is meant for, decoded as in the theories of the services, and what happens on the
  wire between the gateway and that service.
\<close>

section \<open>Paths\<close>

text \<open>
  The method and path under which a router mounts each handler; \<open>None\<close> for an id that is no
  single path segment, which no client can send.
\<close>

definition with_id :: "string \<Rightarrow> string \<Rightarrow> string \<Rightarrow> string \<Rightarrow> (string \<times> string) option" where
  "with_id method base k rest = (if k = '''' \<or> CHR ''/'' \<in> set k then None else Some (method, base @ k @ rest))"

fun user_endpoint :: "user_request \<Rightarrow> (string \<times> string) option" where
  "user_endpoint (PostRegister _ _ _) = Some (''POST'', ''/api/v1/auth/register'')"
| "user_endpoint (PostLogin _ _ _) = Some (''POST'', ''/api/v1/auth/login'')"
| "user_endpoint (PostRefresh _ _ _) = Some (''POST'', ''/api/v1/auth/refresh'')"
| "user_endpoint (PostLogout _) = Some (''POST'', ''/api/v1/auth/logout'')"
| "user_endpoint (PostPasswordReset _) = Some (''POST'', ''/api/v1/auth/password-reset'')"
| "user_endpoint GetMe = Some (''GET'', ''/api/v1/users/me'')"
| "user_endpoint (PutMe _) = Some (''PUT'', ''/api/v1/users/me'')"
| "user_endpoint GetMySettings = Some (''GET'', ''/api/v1/users/me/settings'')"
| "user_endpoint (PutMySettings _) = Some (''PUT'', ''/api/v1/users/me/settings'')"

fun expense_endpoint :: "expense_request \<Rightarrow> (string \<times> string) option" where
  "expense_endpoint GetAccounts = Some (''GET'', ''/api/v1/accounts'')"
| "expense_endpoint (PostAccount _ _ _) = Some (''POST'', ''/api/v1/accounts'')"
| "expense_endpoint (GetAccount k) = with_id ''GET'' ''/api/v1/accounts/'' k ''''"
| "expense_endpoint (PutAccount _ k _) = with_id ''PUT'' ''/api/v1/accounts/'' k ''''"
| "expense_endpoint (DeleteAccount k) = with_id ''DELETE'' ''/api/v1/accounts/'' k ''''"
| "expense_endpoint (GetTransactions _) = Some (''GET'', ''/api/v1/transactions'')"
| "expense_endpoint (PostTransaction _ _ _ _) = Some (''POST'', ''/api/v1/transactions'')"
| "expense_endpoint (PostImport _ _ _ _) = Some (''POST'', ''/api/v1/transactions/import'')"
| "expense_endpoint (GetTransaction k) = with_id ''GET'' ''/api/v1/transactions/'' k ''''"
| "expense_endpoint (PutTransaction _ k _) = with_id ''PUT'' ''/api/v1/transactions/'' k ''''"
| "expense_endpoint (DeleteTransaction k) = with_id ''DELETE'' ''/api/v1/transactions/'' k ''''"
| "expense_endpoint GetCategories = Some (''GET'', ''/api/v1/categories'')"
| "expense_endpoint (PostCategory _ _ _) = Some (''POST'', ''/api/v1/categories'')"

fun budget_endpoint :: "budget_request \<Rightarrow> (string \<times> string) option" where
  "budget_endpoint GetBudgets = Some (''GET'', ''/api/v1/budgets'')"
| "budget_endpoint (PostBudget _ _ _) = Some (''POST'', ''/api/v1/budgets'')"
| "budget_endpoint (GetBudget k) = with_id ''GET'' ''/api/v1/budgets/'' k ''''"
| "budget_endpoint (PutBudget _ k _) = with_id ''PUT'' ''/api/v1/budgets/'' k ''''"
| "budget_endpoint (DeleteBudget k) = with_id ''DELETE'' ''/api/v1/budgets/'' k ''''"
| "budget_endpoint GetGoals = Some (''GET'', ''/api/v1/goals'')"
| "budget_endpoint (PostGoal _ _ _) = Some (''POST'', ''/api/v1/goals'')"
| "budget_endpoint (GetGoal k) = with_id ''GET'' ''/api/v1/goals/'' k ''''"
| "budget_endpoint (PutGoal _ k _) = with_id ''PUT'' ''/api/v1/goals/'' k ''''"
| "budget_endpoint (DeleteGoal k) = with_id ''DELETE'' ''/api/v1/goals/'' k ''''"
| "budget_endpoint (GetSummary _ _) = Some (''GET'', ''/api/v1/reports/summary'')"

fun notif_endpoint :: "notif_request \<Rightarrow> (string \<times> string) option" where
  "notif_endpoint (GetNotifications _) = Some (''GET'', ''/api/v1/notifications'')"
| "notif_endpoint (PostNotification _ _ _) = Some (''POST'', ''/api/v1/notifications'')"
| "notif_endpoint (PatchRead k) = with_id ''PATCH'' ''/api/v1/notifications/'' k ''/read''"

section \<open>The services behind the gateway\<close>

datatype api_request = ForUser user_request | ForExpense expense_request | ForBudget budget_request | ForNotif notif_request

datatype api_data = UserData user_data | ExpenseData expense_data | BudgetData budget_data | NotifData notif_data

text \<open>The wire: the service answers, or the proxy fails before or after the service has run.\<close>

datatype transport = Served | FailedBefore proxy_error | FailedAfter proxy_error

record call =
  ca_request :: api_request
  ca_wire :: "int64 option \<Rightarrow> transport"
  ca_fresh :: string

record ('e, 'm) services =
  sv_unicode :: unicode
  sv_zones :: "string \<Rightarrow> bool"
  sv_auth :: auth
  sv_user :: "'e user_drivers"
  sv_expense :: "'e expense_drivers"
  sv_budget :: "'e budget_drivers"
  sv_notif :: "'e notif_driver"
  sv_mail :: "'m email_sender"

record ('e, 'm) platform =
  pf_user :: "'e user_db"
  pf_expense :: "'e expense_db"
  pf_budget :: "'e budget_db"
  pf_notif :: "'e notif_coll"
  pf_mail :: 'm

fun map_response :: "('a \<Rightarrow> 'b) \<Rightarrow> 'a response \<Rightarrow> 'b response" where
  "map_response f r = \<lparr>re_status = re_status r, re_body = map_option (\<lambda>e.
     \<lparr>en_success = en_success e, en_data = map_option f (en_data e), en_error = en_error e, en_request_id = en_request_id e\<rparr>) (re_body r)\<rparr>"

text \<open>gin's own answer to a path that no handler is mounted on has no envelope.\<close>

definition gin_not_found :: "'a response" where
  "gin_not_found = \<lparr>re_status = 404, re_body = None\<rparr>"

definition serve_user :: "('e, 'm) services \<Rightarrow> gotime \<Rightarrow> call http_request \<Rightarrow> ('e, 'm) platform \<Rightarrow> api_data response \<times> ('e, 'm) platform" where
  "serve_user S now req s = (case ca_request (hq_rest req) of
      ForUser q \<Rightarrow>
        if user_endpoint q = Some (hq_method req, hq_path req) then
          (case user_api (sv_zones S) (sv_auth S) (sv_user S) now (RequestID (ca_fresh (hq_rest req)) (hq_rid req)) (hq_user req) q (pf_user s) of
             (r, t) \<Rightarrow> (map_response UserData r, s\<lparr>pf_user := t\<rparr>))
        else (gin_not_found, s)
    | _ \<Rightarrow> (gin_not_found, s))"

definition serve_expense :: "('e, 'm) services \<Rightarrow> call http_request \<Rightarrow> ('e, 'm) platform \<Rightarrow> api_data response \<times> ('e, 'm) platform" where
  "serve_expense S req s = (case ca_request (hq_rest req) of
      ForExpense q \<Rightarrow>
        if expense_endpoint q = Some (hq_method req, hq_path req) then
          (case expense_api (sv_unicode S) (sv_expense S) (RequestID (ca_fresh (hq_rest req)) (hq_rid req)) (hq_user req) q (pf_expense s) of
             (r, t) \<Rightarrow> (map_response ExpenseData r, s\<lparr>pf_expense := t\<rparr>))
        else (gin_not_found, s)
    | _ \<Rightarrow> (gin_not_found, s))"

text \<open>budget-service's client sends no request id, so expense-service draws one.\<close>

definition serve_budget :: "('e, 'm) services \<Rightarrow> call http_request \<Rightarrow> ('e, 'm) platform \<Rightarrow> api_data response \<times> ('e, 'm) platform" where
  "serve_budget S req s = (case ca_request (hq_rest req) of
      ForBudget q \<Rightarrow>
        if budget_endpoint q = Some (hq_method req, hq_path req) then
          (case budget_api (sv_unicode S) (expense_http (sv_unicode S) (sv_expense S) (ca_fresh (hq_rest req))) (sv_budget S)
               (RequestID (ca_fresh (hq_rest req)) (hq_rid req)) (hq_user req) q (pf_budget s, pf_expense s) of
             (r, (b, x)) \<Rightarrow> (map_response BudgetData r, s\<lparr>pf_budget := b, pf_expense := x\<rparr>))
        else (gin_not_found, s)
    | _ \<Rightarrow> (gin_not_found, s))"

definition serve_notif :: "('e, 'm) services \<Rightarrow> call http_request \<Rightarrow> ('e, 'm) platform \<Rightarrow> api_data response \<times> ('e, 'm) platform" where
  "serve_notif S req s = (case ca_request (hq_rest req) of
      ForNotif q \<Rightarrow>
        if notif_endpoint q = Some (hq_method req, hq_path req) then
          (case notif_api (sv_mail S) (sv_notif S) (RequestID (ca_fresh (hq_rest req)) (hq_rid req)) (hq_user req) q (pf_notif s, pf_mail s) of
             (r, (c, m)) \<Rightarrow> (map_response NotifData r, s\<lparr>pf_notif := c, pf_mail := m\<rparr>))
        else (gin_not_found, s)
    | _ \<Rightarrow> (gin_not_found, s))"

definition serve :: "('e, 'm) services \<Rightarrow> gotime \<Rightarrow> backend \<Rightarrow> call http_request \<Rightarrow> ('e, 'm) platform \<Rightarrow> api_data response \<times> ('e, 'm) platform" where
  "serve S now b req s = (case b of
      BUser \<Rightarrow> serve_user S now req s
    | BExpense \<Rightarrow> serve_expense S req s
    | BBudget \<Rightarrow> serve_budget S req s
    | BNotification \<Rightarrow> serve_notif S req s)"

definition services_net :: "('e, 'm) services \<Rightarrow> gotime \<Rightarrow> (call, ('e, 'm) platform, api_data) backends" where
  "services_net S now b lim req s = (case ca_wire (hq_rest req) lim of
      Served \<Rightarrow> (case serve S now b req s of (r, s') \<Rightarrow> (Inr r, s'))
    | FailedBefore e \<Rightarrow> (Inl e, s)
    | FailedAfter e \<Rightarrow> (Inl e, snd (serve S now b req s)))"

section \<open>What happens to the platform\<close>

datatype platform_event =
    PHttp gotime string "call http_request"
  | PCreated "nat \<Rightarrow> gotime \<times> oid" gotime string json
  | POverspent gotime oid json
  | PSweepTokens gotime
  | PSweepVisitors gotime

fun platform_step ::
  "gw_config \<Rightarrow> jwt_lib \<Rightarrow> 'l limiter_lib \<Rightarrow> ('e, 'm) services \<Rightarrow> platform_event \<Rightarrow> 'l visitors \<times> ('e, 'm) platform \<Rightarrow>
   'l visitors \<times> ('e, 'm) platform" where
  "platform_step cfg J L S (PHttp now fresh req) st = snd (gateway cfg J L (services_net S now) now fresh req st)"
| "platform_step cfg J L S (PCreated gen now rid data) (vs, s) =
    (case on_transaction_created (sv_unicode S) (expense_http (sv_unicode S) (sv_expense S) rid) (sv_budget S) gen now data (pf_budget s, pf_expense s) of
       (_, (b, x)) \<Rightarrow> (vs, s\<lparr>pf_budget := b, pf_expense := x\<rparr>))"
| "platform_step cfg J L S (POverspent now i data) (vs, s) =
    (case on_budget_overspent (sv_mail S) (sv_notif S) now i data (pf_notif s, pf_mail s) of
       (_, (c, m)) \<Rightarrow> (vs, s\<lparr>pf_notif := c, pf_mail := m\<rparr>))"
| "platform_step cfg J L S (PSweepTokens now) (vs, s) = (vs, s\<lparr>pf_user := sweep_tokens now (pf_user s)\<rparr>)"
| "platform_step cfg J L S (PSweepVisitors now) (vs, s) = (sweep_visitors now vs, s)"

definition platform_run ::
  "gw_config \<Rightarrow> jwt_lib \<Rightarrow> 'l limiter_lib \<Rightarrow> ('e, 'm) services \<Rightarrow> platform_event list \<Rightarrow> 'l visitors \<times> ('e, 'm) platform \<Rightarrow>
   'l visitors \<times> ('e, 'm) platform" where
  "platform_run cfg J L S es st = fold (platform_step cfg J L S) es st"

text \<open>On whose behalf an event acts.\<close>

fun acting_user :: "gw_config \<Rightarrow> jwt_lib \<Rightarrow> platform_event \<Rightarrow> string option" where
  "acting_user cfg J (PHttp now fresh req) =
    (if is_public req then (case ca_request (hq_rest req) of ForUser (PostRegister salt uid body) \<Rightarrow> Some uid | _ \<Rightarrow> None)
     else token_user J (cfg_secret cfg) now req)"
| "acting_user cfg J (PCreated gen now rid data) = created_event_user data"
| "acting_user cfg J (POverspent now i data) = map_option on_user (decode_notice data)"
| "acting_user cfg J _ = None"

section \<open>What one event can do\<close>

definition lawful_services :: "('e, 'm) services \<Rightarrow> bool" where
  "lawful_services S \<longleftrightarrow> lawful_user (sv_user S) \<and> lawful_expense (sv_expense S) \<and> lawful_budget (sv_budget S) \<and>
     lawful (same_id nd_id) (sv_notif S) \<and> sv_zones S ''UTC''"

definition platform_inv :: "('e, 'm) services \<Rightarrow> ('e, 'm) platform \<Rightarrow> bool" where
  "platform_inv S s \<longleftrightarrow> user_inv (sv_zones S) (pf_user s) \<and> expense_inv (pf_expense s) \<and> budget_inv (pf_budget s) \<and> ids_distinct nd_id (pf_notif s)"

text \<open>Everything stored about a user, sessions and queued events apart.\<close>

definition platform_tenant :: "string \<Rightarrow> ('e, 'm) platform \<Rightarrow>
    (user list \<times> settings list) \<times> (account_doc list \<times> category_doc list \<times> transaction_doc list) \<times>
    (budget_doc list \<times> goal_doc list) \<times> notification_doc list" where
  "platform_tenant v s = ((filter (\<lambda>d. us_id d = v) (docs (db_users (pf_user s))), filter (\<lambda>d. se_user d = v) (docs (db_settings (pf_user s)))),
     tenant v (pf_expense s), budget_tenant v (pf_budget s), filter (\<lambda>d. nd_user d = v) (docs (pf_notif s)))"

definition platform_acts :: "('e, 'm) services \<Rightarrow> string \<Rightarrow> ('e, 'm) platform \<Rightarrow> ('e, 'm) platform \<Rightarrow> bool" where
  "platform_acts S u s s' \<longleftrightarrow> step_on (sv_zones S) u (pf_user s) (pf_user s') \<and> good_step u (pf_expense s) (pf_expense s') \<and>
     acts_for u (pf_budget s) (pf_budget s') \<and> evolves (\<lambda>v. v = u) (pf_notif s) (pf_notif s')"

lemma good_step_refl [simp]: "good_step u s s"
  by (simp add: good_step_def)

lemma platform_acts_refl [simp]: "platform_acts S u s s"
  by (simp add: platform_acts_def)

lemma platform_acts_inv:
  assumes "platform_acts S u s s'" and "platform_inv S s"
  shows "platform_inv S s'"
proof -
  have a: "step_on (sv_zones S) u (pf_user s) (pf_user s')" "good_step u (pf_expense s) (pf_expense s')"
    "acts_for u (pf_budget s) (pf_budget s')" "ids_distinct nd_id (pf_notif s) \<longrightarrow> ids_distinct nd_id (pf_notif s')"
    using assms(1) unfolding platform_acts_def evolves_def by blast+
  have i: "user_inv (sv_zones S) (pf_user s)" "expense_inv (pf_expense s)" "budget_inv (pf_budget s)" "ids_distinct nd_id (pf_notif s)"
    using assms(2) unfolding platform_inv_def by blast+
  have "expense_inv (pf_expense s')" using a(2) [unfolded good_step_def] i(2) by (simp only: simp_thms)
  moreover have "ids_distinct nd_id (pf_notif s')" using a(4) i(4) by (rule mp)
  moreover note step_on_inv [where L = "sv_zones S", OF a(1) i(1)] acts_for_inv [OF a(3) i(3)]
  ultimately show ?thesis unfolding platform_inv_def by (intro conjI)
qed

lemma evolves_other:
  assumes "evolves A c c'" and "\<not> A v"
  shows "filter (\<lambda>d. nd_user d = v) (docs c') = filter (\<lambda>d. nd_user d = v) (docs c)"
proof -
  obtain old new where c: "docs c' = old @ new" "list_all2 (read_or_same A) (docs c) old" "\<forall>n \<in> set new. A (nd_user n)"
    using assms(1) by (auto simp: evolves_def)
  from c(2) have "filter (\<lambda>d. nd_user d = v) old = filter (\<lambda>d. nd_user d = v) (docs c)"
  proof (induction rule: list_all2_induct)
    case (Cons x xs y ys)
    from Cons(1) have "y = x \<or> (nd_user x \<noteq> v \<and> nd_user y \<noteq> v)"
      unfolding read_or_same_def using assms(2) by (elim disjE conjE) (simp, metis notification_doc.select_convs(2) notification_doc.surjective notification_doc.update_convs(6))
    with Cons.IH show ?case by auto
  qed simp
  moreover have "filter (\<lambda>d. nd_user d = v) new = []" using c(3) assms(2) by (auto simp: filter_empty_conv)
  ultimately show ?thesis by (simp add: c(1))
qed

lemma platform_acts_tenant:
  assumes "platform_acts S u s s'" and "v \<noteq> u"
  shows "platform_tenant v s' = platform_tenant v s"
proof -
  have "filter (\<lambda>d. us_id d = v) (docs (db_users (pf_user s'))) = filter (\<lambda>d. us_id d = v) (docs (db_users (pf_user s)))"
    "filter (\<lambda>d. se_user d = v) (docs (db_settings (pf_user s'))) = filter (\<lambda>d. se_user d = v) (docs (db_settings (pf_user s)))"
    using assms(1) users_step_other [OF _ assms(2) [symmetric]] settings_step_other [OF _ assms(2) [symmetric]]
    unfolding platform_acts_def step_on_def by blast+
  moreover have "tenant v (pf_expense s') = tenant v (pf_expense s)" "budget_tenant v (pf_budget s') = budget_tenant v (pf_budget s)"
    using assms acts_for_tenant by (auto simp: platform_acts_def good_step_def)
  moreover have "filter (\<lambda>d. nd_user d = v) (docs (pf_notif s')) = filter (\<lambda>d. nd_user d = v) (docs (pf_notif s))"
    using assms by (intro evolves_other [where A = "\<lambda>x. x = u"]) (auto simp: platform_acts_def)
  ultimately show ?thesis by (simp add: platform_tenant_def)
qed

lemma expense_net:
  assumes "lawful_expense D"
  shows "net_step (good_step u) u (expense_http U D rid)"
proof -
  have "good_step u s (snd (expense_http U D rid u q s))" for q s
    using expense_api_good [OF assms, of u s U rid q] by (auto simp: expense_http_def split: prod.splits option.splits)
  then show ?thesis by (auto simp: net_step_def reflp_def transp_def intro: good_step_trans)
qed

lemma serve_user_acts:
  assumes S: "lawful_services S" and inv: "platform_inv S s"
    and u: "\<And>q. ca_request (hq_rest req) = ForUser q \<Longrightarrow> user_endpoint q = Some (hq_method req, hq_path req) \<Longrightarrow>
      event_user (URequest now (RequestID (ca_fresh (hq_rest req)) (hq_rid req)) (hq_user req) q) \<in> {None, Some u}"
  shows "platform_acts S u s (snd (serve_user S now req s))"
proof (cases "\<exists>q. ca_request (hq_rest req) = ForUser q \<and> user_endpoint q = Some (hq_method req, hq_path req)")
  case True
  then obtain q where q: "ca_request (hq_rest req) = ForUser q" "user_endpoint q = Some (hq_method req, hq_path req)" by blast
  have "step_on (sv_zones S) u (pf_user s) (user_step (sv_zones S) (sv_auth S) (sv_user S)
      (URequest now (RequestID (ca_fresh (hq_rest req)) (hq_rid req)) (hq_user req) q) (pf_user s))"
    using S inv u [OF q] by (intro user_step_on) (auto simp: lawful_services_def platform_inv_def)
  with q show ?thesis by (simp add: serve_user_def platform_acts_def case_prod_beta)
next
  case False
  then show ?thesis by (auto simp: serve_user_def split: api_request.splits)
qed

lemma serve_expense_acts: "lawful_services S \<Longrightarrow> platform_acts S (hq_user req) s (snd (serve_expense S req s))"
  using expense_api_good [of "sv_expense S" "hq_user req" "pf_expense s" "sv_unicode S" "RequestID (ca_fresh (hq_rest req)) (hq_rid req)"]
  by (auto simp: serve_expense_def platform_acts_def lawful_services_def case_prod_beta split: api_request.split)

lemma serve_budget_acts: "lawful_services S \<Longrightarrow> platform_acts S (hq_user req) s (snd (serve_budget S req s))"
proof -
  assume S: "lawful_services S"
  let ?H = "expense_http (sv_unicode S) (sv_expense S) (ca_fresh (hq_rest req))"
  note b = budget_api_acts [of "sv_budget S" "hq_user req" "(pf_budget s, pf_expense s)" "sv_unicode S" ?H "RequestID (ca_fresh (hq_rest req)) (hq_rid req)"]
  note n = budget_api_net [OF expense_net [of "sv_expense S"], of "hq_user req" "(pf_budget s, pf_expense s)" "sv_unicode S" "sv_unicode S"
    "ca_fresh (hq_rest req)" "sv_budget S" "RequestID (ca_fresh (hq_rest req)) (hq_rid req)"]
  show ?thesis using S b n
    by (auto simp: serve_budget_def platform_acts_def lawful_services_def case_prod_beta split: api_request.split)
qed

lemma serve_notif_acts: "lawful_services S \<Longrightarrow> platform_acts S (hq_user req) s (snd (serve_notif S req s))"
  using notif_api_evolves [of "sv_notif S" "hq_user req" "(pf_notif s, pf_mail s)" "sv_mail S" "RequestID (ca_fresh (hq_rest req)) (hq_rid req)"]
  by (auto simp: serve_notif_def platform_acts_def lawful_services_def case_prod_beta split: api_request.split)

lemma services_net_state: "snd (services_net S now b lim req s) \<in> {s, snd (serve S now b req s)}"
  by (auto simp: services_net_def split: transport.splits prod.splits)

text \<open>No other route leads to the registration handler.\<close>

lemma not_public_user_event:
  assumes "\<not> is_public req" and "user_endpoint q = Some (hq_method req, hq_path req)"
  shows "event_user (URequest now rid hdr q) \<in> {None, Some hdr}"
  using assms by (cases q) (auto simp: is_public_def public_paths_def)

lemma public_user_event:
  assumes "is_public req" and "user_endpoint q = Some (hq_method req, hq_path req)"
  shows "event_user (URequest now rid hdr q) = (case q of PostRegister salt uid body \<Rightarrow> Some uid | _ \<Rightarrow> None)"
  using assms by (cases q) (auto simp: is_public_def public_paths_def)

lemma http_acts:
  assumes S: "lawful_services S" and inv: "platform_inv S s" and u: "acting_user cfg J (PHttp now fresh req) \<in> {None, Some u}"
  shows "platform_acts S u s (snd (snd (gateway cfg J L (services_net S now) now fresh req (vs, s))))"
  using gateway_state [of cfg J L "services_net S now" now fresh req vs s]
proof (elim disjE exE conjE)
  fix b r
  assume f: "forwarded cfg J now fresh req = Some (b, r)"
    and st: "snd (snd (gateway cfg J L (services_net S now) now fresh req (vs, s))) = snd (services_net S now b (BodyLimit (cfg_max_body cfg)) r s)"
  let ?r0 = "req\<lparr>hq_rid := RequestID fresh (hq_rid req)\<rparr>"
  have "platform_acts S u s (snd (serve S now b r s))"
  proof (cases "is_public req")
    case True
    with f have r: "b = BUser" "r = ?r0" by (simp_all add: forwarded_def Let_def)
    have p: "is_public ?r0" using True by (simp add: is_public_def)
    have "event_user (URequest now rid hdr q) \<in> {None, Some u}"
      if "ca_request (hq_rest ?r0) = ForUser q" "user_endpoint q = Some (hq_method ?r0, hq_path ?r0)" for rid hdr q
      unfolding public_user_event [OF p that(2)] using u True that(1) by (cases q) simp_all
    then have "platform_acts S u s (snd (serve_user S now ?r0 s))" by (rule serve_user_acts [OF S inv])
    then show ?thesis by (simp add: serve_def r)
  next
    case False
    with f obtain w where w: "token_user J (cfg_secret cfg) now req = Some w" "r = ?r0\<lparr>hq_user := w\<rparr>"
      by (auto simp: forwarded_def Let_def split: option.splits)
    have h: "hq_user r = u" using u False w by simp
    have "\<not> is_public r" using False by (simp add: is_public_def w(2))
    then have "event_user (URequest now rid (hq_user r) q) \<in> {None, Some u}"
      if "user_endpoint q = Some (hq_method r, hq_path r)" for rid q
      using not_public_user_event [OF _ that] h by simp
    then show ?thesis
      using serve_user_acts [OF S inv, of r] serve_expense_acts [OF S, of r s] serve_budget_acts [OF S, of r s] serve_notif_acts [OF S, of r s]
      by (cases b) (simp_all add: serve_def h)
  qed
  then show ?thesis using services_net_state [of S now b "BodyLimit (cfg_max_body cfg)" r s] st by auto
qed simp

lemma platform_step_acts:
  assumes S: "lawful_services S" and inv: "platform_inv S (snd st)" and u: "acting_user cfg J e \<in> {None, Some u}"
  shows "platform_acts S u (snd st) (snd (platform_step cfg J L S e st))"
proof (cases e)
  case (PHttp now fresh req)
  with http_acts [OF S inv, of cfg J now fresh req u L "fst st"] u show ?thesis by simp
next
  case (PCreated gen now rid data)
  obtain vs s where st: "st = (vs, s)" by (cases st)
  let ?run = "on_transaction_created (sv_unicode S) (expense_http (sv_unicode S) (sv_expense S) rid) (sv_budget S) gen now data (pf_budget s, pf_expense s)"
  have run: "snd (platform_step cfg J L S e st) = s\<lparr>pf_budget := fst (snd ?run), pf_expense := snd (snd ?run)\<rparr>"
    by (simp add: PCreated st case_prod_beta)
  show ?thesis
  proof (cases "created_event_user data")
    case None
    then show ?thesis unfolding run by (simp add: st on_transaction_created_def)
  next
    case (Some w)
    then have w: "created_event_user data = Some u" using u PCreated by simp
    have L: "lawful_expense (sv_expense S)" "lawful_budget (sv_budget S)" using S by (simp_all add: lawful_services_def)
    have b: "budget_inv (fst (pf_budget s, pf_expense s))" using inv st by (simp add: platform_inv_def)
    from on_created_acts [OF L(2) b, of data "sv_unicode S" "expense_http (sv_unicode S) (sv_expense S) rid" gen now] w
    have "acts_for u (pf_budget s) (fst (snd ?run))" by auto
    moreover have "good_step u (pf_expense s) (snd (snd ?run))"
      using on_created_net [OF w expense_net [OF L(1)], of "(pf_budget s, pf_expense s)"] by simp
    ultimately show ?thesis unfolding run by (simp add: platform_acts_def st)
  qed
next
  case (POverspent now i data)
  obtain vs s where st: "st = (vs, s)" by (cases st)
  have "lawful (same_id nd_id) (sv_notif S)" using S by (simp add: lawful_services_def)
  from on_budget_overspent_evolves [OF this, of data "(pf_notif s, pf_mail s)" "sv_mail S" now i]
  have "evolves (\<lambda>v. v = u) (pf_notif s) (fst (snd (on_budget_overspent (sv_mail S) (sv_notif S) now i data (pf_notif s, pf_mail s))))"
    using u POverspent by (auto elim: evolves_mono)
  then show ?thesis by (simp add: POverspent st case_prod_beta platform_acts_def)
next
  case (PSweepTokens now)
  obtain vs s where st: "st = (vs, s)" by (cases st)
  have "step_on (sv_zones S) u (pf_user s) (user_step (sv_zones S) (sv_auth S) (sv_user S) (USweep now) (pf_user s))"
    using S inv st by (intro user_step_on) (auto simp: lawful_services_def platform_inv_def)
  then show ?thesis by (simp add: PSweepTokens st platform_acts_def)
next
  case (PSweepVisitors now)
  then show ?thesis by (cases st) simp
qed

text \<open>
  C1. Nobody but v touches what is stored about v, over the whole system. Take any sequence of
  requests to the gateway, deliveries of the two subjects and background sweeps, with any faults
  of the databases and any failures on the wire. If no access token that verifies names v, no
  delivered event is about v and no registration draws the id v, then the profile, the settings,
  accounts, categories, transactions, budgets, goals and notifications of v are at the end what
  they were, whatever identity headers the clients sent; and every database stays well formed.
\<close>

theorem platform_run_isolated:
  assumes S: "lawful_services S" and inv: "platform_inv S (snd st)" and v: "\<forall>e \<in> set es. acting_user cfg J e \<noteq> Some v"
  shows "platform_inv S (snd (platform_run cfg J L S es st)) \<and>
    platform_tenant v (snd (platform_run cfg J L S es st)) = platform_tenant v (snd st)"
  using inv v unfolding platform_run_def
proof (induction es arbitrary: st)
  case (Cons e es)
  obtain u where u: "v \<noteq> u" "acting_user cfg J e \<in> {None, Some u}"
  proof (cases "acting_user cfg J e")
    case None
    then show ?thesis using that [of "v @ ''x''"] by simp
  next
    case (Some w)
    then show ?thesis using that [of w] Cons.prems(2) by auto
  qed
  note act = platform_step_acts [OF S Cons.prems(1) u(2), of L]
  from Cons.IH [of "platform_step cfg J L S e st"] platform_acts_inv [OF act Cons.prems(1)] platform_acts_tenant [OF act u(1)] Cons.prems(2)
  show ?case by simp
qed simp

definition demo_services :: "(bool list, (string \<times> string \<times> nat) list) services" where
  "demo_services = \<lparr>sv_unicode = demo_unicode, sv_zones = (\<lambda>z. z = ''UTC''), sv_auth = demo_auth, sv_user = demo_udrivers,
     sv_expense = demo_drivers, sv_budget = demo_bdrivers, sv_notif = mem_driver (same_id nd_id), sv_mail = LoggingEmailSender_Send\<rparr>"

definition demo_platform :: "(bool list, (string \<times> string \<times> nat) list) platform" where
  "demo_platform = \<lparr>pf_user = demo_udb False, pf_expense = demo_db, pf_budget = demo_bdb, pf_notif = demo_notifs, pf_mail = []\<rparr>"

lemma demo_platform_ok: "lawful_services demo_services" "platform_inv demo_services demo_platform"
proof -
  show "lawful_services demo_services"
    using lawful_demo_user(1) lawful_demo lawful_demo_budget lawful_mem by (simp add: lawful_services_def demo_services_def)
  have "goals_inv (db_goals demo_bdb)" using demo_goals_inv by (simp add: demo_bdb_def)
  then have "budget_inv demo_bdb" using demo_bdb_inv by (simp add: budget_inv_def)
  moreover have "ids_distinct nd_id demo_notifs" by (simp add: ids_distinct_def demo_notifs_def mem_coll_def)
  ultimately show "platform_inv demo_services demo_platform"
    using demo_user_inv demo_inv by (simp add: platform_inv_def demo_services_def demo_platform_def)
qed

definition demo_call :: "api_request \<Rightarrow> call" where
  "demo_call q = \<lparr>ca_request = q, ca_wire = (\<lambda>_. Served), ca_fresh = ''f''\<rparr>"

text \<open>Ann deletes an account of hers and claims to be u1, somebody without a token renames u1, and an event about bob arrives.\<close>

theorem platform_run_isolated_witness:
  "platform_tenant ''u1'' (snd (platform_run demo_cfg demo_jwt demo_limiter demo_services
     [PHttp (at_sec 9) ''f'' (demo_req ''DELETE'' ''/api/v1/accounts/a'' (''Bearer '' @ demo_token) (demo_call (ForExpense (DeleteAccount ''a'')))\<lparr>hq_user := ''u1''\<rparr>),
      PHttp (at_sec 9) ''f'' (demo_req ''PUT'' ''/api/v1/users/me'' '''' (demo_call (ForUser (PutMe (Inr ''Eve''))))\<lparr>hq_user := ''u1''\<rparr>),
      PCreated (\<lambda>k. (demo_march, of_nat k)) demo_march ''f'' (JObj [(''user_id'', JStr ''bob'')])]
     (\<lambda>_. None, demo_platform))) = platform_tenant ''u1'' demo_platform"
proof -
  let ?r1 = "demo_req ''DELETE'' ''/api/v1/accounts/a'' (''Bearer '' @ demo_token) (demo_call (ForExpense (DeleteAccount ''a'')))\<lparr>hq_user := ''u1''\<rparr>"
  let ?r2 = "demo_req ''PUT'' ''/api/v1/users/me'' '''' (demo_call (ForUser (PutMe (Inr ''Eve''))))\<lparr>hq_user := ''u1''\<rparr>"
  let ?e3 = "PCreated (\<lambda>k. (demo_march, of_nat k)) demo_march ''f'' (JObj [(''user_id'', JStr ''bob'')])"
  have "token_user demo_jwt (cfg_secret demo_cfg) (at_sec 9) ?r1 = Some ''ann''"
    using demo_token_user [of ?r1] by (simp add: demo_cfg_def demo_req_def)
  moreover have "token_user demo_jwt (cfg_secret demo_cfg) (at_sec 9) ?r2 = None"
    by (simp add: token_user_def demo_req_def bearerPrefix_def)
  moreover have "\<not> is_public ?r1" "\<not> is_public ?r2" by (simp_all add: is_public_def demo_req_def)
  ultimately have a: "acting_user demo_cfg demo_jwt (PHttp (at_sec 9) ''f'' ?r1) \<noteq> Some ''u1''"
    "acting_user demo_cfg demo_jwt (PHttp (at_sec 9) ''f'' ?r2) \<noteq> Some ''u1''" by simp_all
  have "acting_user demo_cfg demo_jwt ?e3 \<noteq> Some ''u1''" by (simp add: created_event_user_def obj_get_def)
  with a have v: "\<forall>e \<in> set [PHttp (at_sec 9) ''f'' ?r1, PHttp (at_sec 9) ''f'' ?r2, ?e3]. acting_user demo_cfg demo_jwt e \<noteq> Some ''u1''"
    by (simp only: list.set ball_simps) simp
  have i: "platform_inv demo_services (snd (\<lambda>_. None, demo_platform))" by (simp add: demo_platform_ok(2))
  from platform_run_isolated [OF demo_platform_ok(1) i v, of demo_limiter] show ?thesis by simp
qed

end
