(* ===== verification/Service_Boot.thy ===== *)
theory Service_Boot imports Go_Config Gateway User_Repo Event_Bus begin

text \<open>
  How a process of Finora comes up and goes down: the configuration of each service, connecting to
  MongoDB (\<open>shared/mongox\<close>) and NATS (\<open>shared/eventbus\<close>), the indexes of each database, the
  order of the steps in the five \<open>main\<close> functions, and \<open>shared/server\<close>. What the outside answers to
  each step is a parameter, the world; a step leaves its effects in a list, in their order. A
  fatal error is logged and ends the process with status 1, without the deferred calls. The lines of
  the log that only inform are left out.
\<close>

section \<open>Configuration of the services\<close>

definition user_splitCSV :: "string \<Rightarrow> string list" where
  "user_splitCSV v = fold (\<lambda>p out. let q = trim_space p in if q \<noteq> '''' then out @ [q] else out) (split_on CHR '','' v) []"

definition expense_splitCSV :: "string \<Rightarrow> string list" where
  "expense_splitCSV v = fold (\<lambda>p out. let q = trim_space p in if q \<noteq> '''' then out @ [q] else out) (split_on CHR '','' v) []"

definition budget_splitCSV :: "string \<Rightarrow> string list" where
  "budget_splitCSV v = fold (\<lambda>p out. let q = trim_space p in if q \<noteq> '''' then out @ [q] else out) (split_on CHR '','' v) []"

record user_config =
  uc_port :: string
  uc_mongo :: string
  uc_access_secret :: string
  uc_refresh_secret :: string
  uc_access_ttl :: int
  uc_refresh_ttl :: int
  uc_log_level :: string
  uc_shutdown :: int
  uc_origins :: "string list"

definition user_Load :: "environment \<Rightarrow> user_config option" where
  "user_Load en =
    Option.bind (MustGetEnv en ''USER_SERVICE_MONGO_URI'') (\<lambda>m.
    Option.bind (MustGetEnv en ''JWT_ACCESS_SECRET'') (\<lambda>a.
    Option.bind (MustGetEnv en ''JWT_REFRESH_SECRET'') (\<lambda>r. Some \<lparr>
      uc_port = GetEnv en ''USER_SERVICE_PORT'' ''8081'', uc_mongo = m, uc_access_secret = a, uc_refresh_secret = r,
      uc_access_ttl = GetEnvDuration en ''JWT_ACCESS_TTL'' 900000000000,
      uc_refresh_ttl = GetEnvDuration en ''JWT_REFRESH_TTL'' 604800000000000,
      uc_log_level = GetEnv en ''LOG_LEVEL'' ''info'',
      uc_shutdown = GetEnvDuration en ''SHUTDOWN_TIMEOUT'' 10000000000,
      uc_origins = user_splitCSV (GetEnv en ''CORS_ALLOWED_ORIGINS'' ''http://localhost:3000'')\<rparr>)))"

record expense_config =
  ec_port :: string
  ec_mongo :: string
  ec_log_level :: string
  ec_shutdown :: int
  ec_origins :: "string list"
  ec_nats :: string
  ec_relay :: int

definition expense_Load :: "environment \<Rightarrow> expense_config option" where
  "expense_Load en = Option.bind (MustGetEnv en ''EXPENSE_SERVICE_MONGO_URI'') (\<lambda>m. Some \<lparr>
      ec_port = GetEnv en ''EXPENSE_SERVICE_PORT'' ''8082'', ec_mongo = m,
      ec_log_level = GetEnv en ''LOG_LEVEL'' ''info'',
      ec_shutdown = GetEnvDuration en ''SHUTDOWN_TIMEOUT'' 10000000000,
      ec_origins = expense_splitCSV (GetEnv en ''CORS_ALLOWED_ORIGINS'' ''http://localhost:3000''),
      ec_nats = GetEnv en ''NATS_URL'' ''nats://nats:4222'',
      ec_relay = GetEnvDuration en ''OUTBOX_RELAY_INTERVAL'' 2000000000\<rparr>)"

definition expense_Addr :: "expense_config \<Rightarrow> string" where
  "expense_Addr c = ''0.0.0.0:'' @ ec_port c"

record budget_config =
  bc_port :: string
  bc_mongo :: string
  bc_log_level :: string
  bc_shutdown :: int
  bc_origins :: "string list"
  bc_expense_url :: string
  bc_nats :: string
  bc_relay :: int

definition budget_Load :: "environment \<Rightarrow> budget_config option" where
  "budget_Load en = Option.bind (MustGetEnv en ''BUDGET_SERVICE_MONGO_URI'') (\<lambda>m. Some \<lparr>
      bc_port = GetEnv en ''BUDGET_SERVICE_PORT'' ''8083'', bc_mongo = m,
      bc_log_level = GetEnv en ''LOG_LEVEL'' ''info'',
      bc_shutdown = GetEnvDuration en ''SHUTDOWN_TIMEOUT'' 10000000000,
      bc_origins = budget_splitCSV (GetEnv en ''CORS_ALLOWED_ORIGINS'' ''http://localhost:3000''),
      bc_expense_url = GetEnv en ''EXPENSE_SERVICE_URL'' ''http://expense-service:8082'',
      bc_nats = GetEnv en ''NATS_URL'' ''nats://nats:4222'',
      bc_relay = GetEnvDuration en ''OUTBOX_RELAY_INTERVAL'' 2000000000\<rparr>)"

record notif_config =
  nc_port :: string
  nc_mongo :: string
  nc_log_level :: string
  nc_shutdown :: int
  nc_origins :: "string list"
  nc_nats :: string

definition notif_Load :: "environment \<Rightarrow> notif_config option" where
  "notif_Load en =
    (let origins = fold (\<lambda>p out. let q = trim_space p in if q \<noteq> '''' then out @ [q] else out)
           (split_on CHR '','' (GetEnv en ''CORS_ALLOWED_ORIGINS'' ''http://localhost:3000'')) []
     in Option.bind (MustGetEnv en ''NOTIFICATION_SERVICE_MONGO_URI'') (\<lambda>m. Some \<lparr>
      nc_port = GetEnv en ''NOTIFICATION_SERVICE_PORT'' ''8084'', nc_mongo = m,
      nc_log_level = GetEnv en ''LOG_LEVEL'' ''info'',
      nc_shutdown = GetEnvDuration en ''SHUTDOWN_TIMEOUT'' 10000000000,
      nc_origins = origins,
      nc_nats = GetEnv en ''NATS_URL'' ''nats://nats:4222''\<rparr>))"

text \<open>The copies of the loop agree with the one of the gateway.\<close>

lemma split_csv_fold:
  "fold (\<lambda>p out. let q = trim_space p in if q \<noteq> '''' then out @ [q] else out) ps acc = acc @ filter (\<lambda>p. p \<noteq> '''') (map trim_space ps)"
  by (induction ps arbitrary: acc) (auto simp: Let_def)

lemma split_csv_agree: "user_splitCSV = splitAndTrim" "expense_splitCSV = splitAndTrim" "budget_splitCSV = splitAndTrim"
  by (simp_all add: fun_eq_iff user_splitCSV_def expense_splitCSV_def budget_splitCSV_def splitAndTrim_def split_csv_fold)

section \<open>The outside world, and what a process does to it\<close>

record index_model =
  ix_collection :: string
  ix_keys :: "(string \<times> int) list"
  ix_unique :: bool
  ix_sparse :: bool
  ix_ttl :: "int option"

record stream_config =
  sc_name :: string
  sc_subjects :: "string list"
  sc_max_age :: int

record consumer_config =
  cc_durable :: string
  cc_subject :: string
  cc_max_deliver :: nat

datatype effect =
    DialMongo string
  | PingMongo
  | UseDatabase string
  | CreateIndex index_model
  | DialNats string
  | NewJetStream
  | EnsureStream stream_config
  | RelayEvery int
  | OpenStream string
  | CreateConsumer consumer_config
  | Consume string
  | StopConsuming
  | Spawn "effect list"
  | Crash string
  | ParseURL string
  | ReadFile string
  | Listen string
  | DrainRequests int
  | StopBackground
  | DisconnectMongo
  | CloseNats
  | Log string string

datatype outcome = Panicked | ExitOne

text \<open>
  \<open>None\<close> is success of a step, \<open>Some e\<close> its error; \<open>wd_url_path\<close> is \<open>url.Parse\<close> with the path of the
  result, and \<open>wd_listen\<close> is an error exactly when the listener ended by itself.
\<close>

record world =
  wd_env :: environment
  wd_url_path :: "string \<Rightarrow> string + string"
  wd_dial_mongo :: "string \<Rightarrow> string option"
  wd_ping :: "string option"
  wd_disconnect :: "string option"
  wd_create_index :: "index_model \<Rightarrow> string option"
  wd_dial_nats :: "string \<Rightarrow> string option"
  wd_jetstream :: "string option"
  wd_stream :: "stream_config \<Rightarrow> string option"
  wd_open_stream :: "string \<Rightarrow> string option"
  wd_consumer :: "consumer_config \<Rightarrow> string option"
  wd_consume :: "string \<Rightarrow> string option"
  wd_file :: "string \<Rightarrow> string + string"
  wd_listen :: "string \<Rightarrow> string option"
  wd_shutdown :: "int \<Rightarrow> string option"

type_synonym 'a boot = "effect list \<times> (outcome + 'a)"

definition boot_ok :: "'a \<Rightarrow> 'a boot" where
  "boot_ok x = ([], Inr x)"

definition boot_then :: "'a boot \<Rightarrow> ('a \<Rightarrow> 'b boot) \<Rightarrow> 'b boot" where
  "boot_then m f = (case m of (es, Inl o') \<Rightarrow> (es, Inl o') | (es, Inr x) \<Rightarrow> (case f x of (fs, r) \<Rightarrow> (es @ fs, r)))"

text \<open>\<open>log.Error(msg, err); os.Exit(1)\<close>\<close>

definition or_exit :: "string \<Rightarrow> effect list \<times> string option \<Rightarrow> unit boot" where
  "or_exit msg m = (case m of (es, Some e) \<Rightarrow> (es @ [Log msg e], Inl ExitOne) | (es, None) \<Rightarrow> (es, Inr ()))"

definition load_or_panic :: "'a option \<Rightarrow> 'a boot" where
  "load_or_panic c = (case c of None \<Rightarrow> ([], Inl Panicked) | Some x \<Rightarrow> ([], Inr x))"

text \<open>The calls that \<open>main\<close> deferred, which run when it returns.\<close>

definition deferring :: "effect list \<Rightarrow> unit boot \<Rightarrow> unit boot" where
  "deferring fs m = (case m of (es, Inr _) \<Rightarrow> (es @ fs, Inr ()) | (es, Inl o') \<Rightarrow> (es, Inl o'))"

section \<open>Connecting\<close>

definition mongox_Connect :: "world \<Rightarrow> string \<Rightarrow> effect list \<times> string option" where
  "mongox_Connect W uri = (case wd_dial_mongo W uri of
      Some e \<Rightarrow> ([DialMongo uri], Some e)
    | None \<Rightarrow> ([DialMongo uri, PingMongo], wd_ping W))"

definition mongox_Checker :: "world \<Rightarrow> string \<times> string option" where
  "mongox_Checker W = (''mongodb'', wd_ping W)"

definition eventbus_Connect :: "world \<Rightarrow> string \<Rightarrow> effect list \<times> string option" where
  "eventbus_Connect W url = (case wd_dial_nats W url of
      Some e \<Rightarrow> ([DialNats url], Some (''eventbus: connect: '' @ e))
    | None \<Rightarrow> (case wd_jetstream W of
         Some e \<Rightarrow> ([DialNats url, NewJetStream, CloseNats], Some (''eventbus: jetstream: '' @ e))
       | None \<Rightarrow> ([DialNats url, NewJetStream], None)))"

definition eventbus_Checker :: "bool \<Rightarrow> string \<Rightarrow> string \<times> string option" where
  "eventbus_Checker connected status =
    (''nats'', if connected then None else Some (''nats: not connected (status: '' @ status @ '')''))"

text \<open>Retention by limits, thirty days.\<close>

definition EnsureStream_config :: "string \<Rightarrow> string list \<Rightarrow> stream_config" where
  "EnsureStream_config name subjects = \<lparr>sc_name = name, sc_subjects = subjects, sc_max_age = 30 * 24 * 3600 * 1000000000\<rparr>"

definition Bus_EnsureStream :: "world \<Rightarrow> string \<Rightarrow> string list \<Rightarrow> effect list \<times> string option" where
  "Bus_EnsureStream W name subjects =
    ([EnsureStream (EnsureStream_config name subjects)],
     case wd_stream W (EnsureStream_config name subjects) of None \<Rightarrow> None | Some e \<Rightarrow> Some (''eventbus: ensure stream '' @ name @ '': '' @ e))"

text \<open>
  \<open>Subscribe\<close>, which a goroutine runs until the process stops: the durable consumer with its bounded
  redelivery, then the callback for each message (\<open>deliver\<close> of \<open>Event_Bus\<close>).
\<close>

definition Subscribe_config :: "string \<Rightarrow> string \<Rightarrow> consumer_config" where
  "Subscribe_config durable subject = \<lparr>cc_durable = durable, cc_subject = subject, cc_max_deliver = MaxDeliver\<rparr>"

definition Bus_Subscribe :: "world \<Rightarrow> string \<Rightarrow> string \<Rightarrow> string \<Rightarrow> effect list \<times> string option" where
  "Bus_Subscribe W stream durable subject =
    (let cc = Subscribe_config durable subject in
     case wd_open_stream W stream of
       Some e \<Rightarrow> ([OpenStream stream], Some (''eventbus: stream '' @ stream @ '': '' @ e))
     | None \<Rightarrow> (case wd_consumer W cc of
         Some e \<Rightarrow> ([OpenStream stream, CreateConsumer cc], Some (''eventbus: consumer '' @ durable @ '': '' @ e))
       | None \<Rightarrow> (case wd_consume W durable of
           Some e \<Rightarrow> ([OpenStream stream, CreateConsumer cc, Consume durable], Some (''eventbus: consume '' @ durable @ '': '' @ e))
         | None \<Rightarrow> ([OpenStream stream, CreateConsumer cc, Consume durable, StopConsuming], None))))"

definition subscription :: "string \<Rightarrow> effect list \<times> string option \<Rightarrow> effect" where
  "subscription msg m = (case m of (es, Some e) \<Rightarrow> Spawn (es @ [Log msg e]) | (es, None) \<Rightarrow> Spawn es)"

text \<open>
  The goroutine of the relay: \<open>time.NewTicker\<close>, the first call of \<open>Run\<close>, panics for an interval that is
  not positive, which takes the whole process down; the passes are in \<open>Outbox\<close>.
\<close>

definition relay_goroutine :: "int \<Rightarrow> effect" where
  "relay_goroutine interval =
    (if interval \<le> 0 then Spawn [Crash ''non-positive interval for NewTicker''] else Spawn [RelayEvery interval])"

section \<open>Indexes\<close>

definition plain_index :: "string \<Rightarrow> string list \<Rightarrow> index_model" where
  "plain_index coll ks = \<lparr>ix_collection = coll, ix_keys = map (\<lambda>k. (k, 1)) ks, ix_unique = False, ix_sparse = False, ix_ttl = None\<rparr>"

text \<open>The indexes of a database, in the order in which they are created; the first error ends the creation.\<close>

fun create_all :: "world \<Rightarrow> index_model list \<Rightarrow> effect list \<times> string option" where
  "create_all W [] = ([], None)"
| "create_all W (i # is) = (case wd_create_index W i of
      Some e \<Rightarrow> ([CreateIndex i], Some e)
    | None \<Rightarrow> (case create_all W is of (es, r) \<Rightarrow> (CreateIndex i # es, r)))"

definition user_indexes :: "index_model list" where
  "user_indexes =
    [(plain_index ''users'' [''email''])\<lparr>ix_unique := True\<rparr>,
     (plain_index ''refresh_tokens'' [''jti_hash''])\<lparr>ix_unique := True\<rparr>,
     plain_index ''refresh_tokens'' [''user_id''],
     (plain_index ''refresh_tokens'' [''expires_at''])\<lparr>ix_ttl := Some 0\<rparr>,
     (plain_index ''settings'' [''user_id''])\<lparr>ix_unique := True\<rparr>]"

definition expense_indexes :: "index_model list" where
  "expense_indexes =
    [plain_index ''accounts'' [''user_id''],
     plain_index ''transactions'' [''user_id'', ''account_id'', ''date''],
     (plain_index ''transactions'' [''user_id'', ''category_id''])\<lparr>ix_sparse := True\<rparr>,
     plain_index ''categories'' [''user_id'']]"

definition budget_indexes :: "index_model list" where
  "budget_indexes =
    [plain_index ''budgets'' [''user_id''],
     plain_index ''budgets'' [''user_id'', ''period''],
     plain_index ''goals'' [''user_id'']]"

definition notif_indexes :: "index_model list" where
  "notif_indexes = [plain_index ''notifications'' [''user_id'', ''read'']]"

definition outbox_indexes :: "index_model list" where
  "outbox_indexes = [plain_index ''outbox_events'' [''published_at'']]"

section \<open>Serving\<close>

text \<open>\<open>None\<close> of \<open>wd_listen\<close>: the listener ran until a signal came.\<close>

definition server_Run :: "world \<Rightarrow> string \<Rightarrow> int \<Rightarrow> effect list \<times> string option" where
  "server_Run W addr timeout = (case wd_listen W addr of
      Some e \<Rightarrow> ([Listen addr], Some e)
    | None \<Rightarrow> (case wd_shutdown W timeout of
         Some e \<Rightarrow> ([Listen addr, DrainRequests timeout, Log ''graceful shutdown failed'' e], Some e)
       | None \<Rightarrow> ([Listen addr, DrainRequests timeout], None)))"

text \<open>The line of the log is shortened to its first clause.\<close>

definition openapidoc_Load :: "world \<Rightarrow> string \<Rightarrow> effect list \<times> string" where
  "openapidoc_Load W path = (case wd_file W path of
      Inl e \<Rightarrow> ([ReadFile path, Log ''could not read openapi.yaml'' e], '''')
    | Inr b \<Rightarrow> ([ReadFile path], b))"

definition openapidoc_Handler :: "string \<Rightarrow> string \<Rightarrow> 'a response + string" where
  "openapidoc_Handler rid spec =
    (if spec = '''' then Inl (httpx_Fail rid 404 CodeNotFound ''openapi spec not available'' None) else Inr spec)"

datatype log_level = LevelDebug | LevelInfo | LevelWarn | LevelError

text \<open>The levels in the order of \<open>slog\<close>: a handler writes the records of its level and above.\<close>

fun level_value :: "log_level \<Rightarrow> int" where
  "level_value LevelDebug = -4"
| "level_value LevelInfo = 0"
| "level_value LevelWarn = 4"
| "level_value LevelError = 8"

lemma level_value_inj: "level_value l = level_value k \<Longrightarrow> l = k"
  by (cases l; cases k) simp_all

instantiation log_level :: linorder
begin

definition less_eq_log_level :: "log_level \<Rightarrow> log_level \<Rightarrow> bool" where
  "less_eq_log_level l k \<longleftrightarrow> level_value l \<le> level_value k"

definition less_log_level :: "log_level \<Rightarrow> log_level \<Rightarrow> bool" where
  "less_log_level l k \<longleftrightarrow> level_value l < level_value k"

instance
  by standard (auto simp: less_eq_log_level_def less_log_level_def intro: level_value_inj)

end

record logger =
  lg_service :: string
  lg_level :: log_level

definition logger_New :: "string \<Rightarrow> string \<Rightarrow> logger" where
  "logger_New service name = \<lparr>lg_service = service, lg_level =
     (if name = ''debug'' then LevelDebug else if name = ''warn'' then LevelWarn
      else if name = ''error'' then LevelError else LevelInfo)\<rparr>"

definition written :: "logger \<Rightarrow> log_level \<Rightarrow> bool" where
  "written lg l \<longleftrightarrow> lg_level lg \<le> l"

lemma written_error: "written (logger_New service name) LevelError"
  by (simp add: written_def logger_New_def less_eq_log_level_def)

lemma written_info: "written (logger_New service name) LevelInfo \<longleftrightarrow> name \<noteq> ''warn'' \<and> name \<noteq> ''error''"
  by (auto simp: written_def logger_New_def less_eq_log_level_def)

text \<open>The line that the logging middleware writes for a request; probes leave none.\<close>

record access_line =
  al_level :: log_level
  al_message :: string
  al_rid :: string
  al_method :: string
  al_path :: string
  al_status :: nat
  al_latency :: int
  al_errors :: "string option"

definition healthCheckPaths :: "string set" where
  "healthCheckPaths = {''/live'', ''/ready'', ''/health''}"

definition Logging :: "string \<Rightarrow> string \<Rightarrow> string \<Rightarrow> nat \<Rightarrow> int \<Rightarrow> string option \<Rightarrow> access_line option" where
  "Logging rid method path status latency errors =
    (if path \<in> healthCheckPaths then None
     else (case errors of
        Some e \<Rightarrow> Some \<lparr>al_level = LevelError, al_message = ''request completed with errors'', al_rid = rid, al_method = method,
          al_path = path, al_status = status, al_latency = latency, al_errors = Some e\<rparr>
      | None \<Rightarrow> Some \<lparr>al_level = LevelInfo, al_message = ''request completed'', al_rid = rid, al_method = method,
          al_path = path, al_status = status, al_latency = latency, al_errors = None\<rparr>))"

section \<open>The \<open>main\<close> functions\<close>

definition user_DBNameFromURI :: "world \<Rightarrow> string \<Rightarrow> string" where
  "user_DBNameFromURI W uri = (case wd_url_path W uri of Inl _ \<Rightarrow> ''finora_users''
    | Inr p \<Rightarrow> let name = trim_prefix ''/'' p in if name = '''' then ''finora_users'' else name)"

definition budget_DBNameFromURI :: "world \<Rightarrow> string \<Rightarrow> string" where
  "budget_DBNameFromURI W uri = (case wd_url_path W uri of Inl _ \<Rightarrow> ''finora_budgets''
    | Inr p \<Rightarrow> let name = trim_prefix ''/'' p in if name = '''' then ''finora_budgets'' else name)"

definition disconnect :: "world \<Rightarrow> string \<Rightarrow> effect list" where
  "disconnect W msg = DisconnectMongo # (case wd_disconnect W of None \<Rightarrow> [] | Some e \<Rightarrow> [Log msg e])"

definition EventsStreamName :: string where "EventsStreamName = ''FINORA_EVENTS''"

definition go_effects :: "effect list \<Rightarrow> unit boot" where
  "go_effects es = (es, Inr ())"

definition load_spec :: "world \<Rightarrow> unit boot" where
  "load_spec W = (fst (openapidoc_Load W ''openapi.yaml''), Inr ())"

definition user_main :: "world \<Rightarrow> unit boot" where
  "user_main W =
    boot_then (load_or_panic (user_Load (wd_env W))) (\<lambda>cfg.
    boot_then (or_exit ''failed to connect to mongo'' (mongox_Connect W (uc_mongo cfg))) (\<lambda>_.
    deferring (disconnect W ''failed to disconnect from mongo'') (
    boot_then (go_effects [UseDatabase (user_DBNameFromURI W (uc_mongo cfg))]) (\<lambda>_.
    boot_then (or_exit ''failed to ensure indexes'' (create_all W user_indexes)) (\<lambda>_.
    boot_then (load_spec W) (\<lambda>_.
    or_exit ''server exited with error'' (server_Run W (''0.0.0.0:'' @ uc_port cfg) (uc_shutdown cfg))))))))"

definition expense_main :: "world \<Rightarrow> unit boot" where
  "expense_main W =
    boot_then (load_or_panic (expense_Load (wd_env W))) (\<lambda>cfg.
    boot_then (or_exit ''failed to connect to mongodb'' (mongox_Connect W (ec_mongo cfg))) (\<lambda>_.
    deferring (disconnect W ''failed to disconnect from mongodb'') (
    boot_then (go_effects [UseDatabase ''finora_expenses'']) (\<lambda>_.
    boot_then (or_exit ''failed to ensure indexes'' (create_all W expense_indexes)) (\<lambda>_.
    boot_then (or_exit ''failed to ensure outbox indexes'' (create_all W outbox_indexes)) (\<lambda>_.
    boot_then (or_exit ''failed to connect to nats'' (eventbus_Connect W (ec_nats cfg))) (\<lambda>_.
    deferring [CloseNats] (
    boot_then (or_exit ''failed to ensure nats stream'' (Bus_EnsureStream W EventsStreamName [''finora.>''])) (\<lambda>_.
    deferring [StopBackground] (
    boot_then (go_effects [relay_goroutine (ec_relay cfg)]) (\<lambda>_.
    boot_then (load_spec W) (\<lambda>_.
    or_exit ''server exited with error'' (server_Run W (expense_Addr cfg) (ec_shutdown cfg))))))))))))))"

text \<open>budget-service and notification-service do not disconnect from MongoDB.\<close>

definition budget_main :: "world \<Rightarrow> unit boot" where
  "budget_main W =
    boot_then (load_or_panic (budget_Load (wd_env W))) (\<lambda>cfg.
    boot_then (or_exit ''failed to connect to mongo'' (mongox_Connect W (bc_mongo cfg))) (\<lambda>_.
    boot_then (go_effects [UseDatabase (budget_DBNameFromURI W (bc_mongo cfg))]) (\<lambda>_.
    boot_then (or_exit ''failed to ensure mongo indexes'' (create_all W budget_indexes)) (\<lambda>_.
    boot_then (or_exit ''failed to ensure outbox indexes'' (create_all W outbox_indexes)) (\<lambda>_.
    boot_then (or_exit ''failed to connect to nats'' (eventbus_Connect W (bc_nats cfg))) (\<lambda>_.
    deferring [CloseNats] (
    boot_then (or_exit ''failed to ensure nats stream'' (Bus_EnsureStream W EventsStreamName [''finora.>''])) (\<lambda>_.
    deferring [StopBackground] (
    boot_then (go_effects [relay_goroutine (bc_relay cfg),
       subscription ''transaction.created subscription exited with error''
         (Bus_Subscribe W EventsStreamName ''budget-service-transaction-created'' TransactionCreatedSubject)]) (\<lambda>_.
    boot_then (load_spec W) (\<lambda>_.
    or_exit ''server exited with error'' (server_Run W (''0.0.0.0:'' @ bc_port cfg) (bc_shutdown cfg)))))))))))))"

definition notif_main :: "world \<Rightarrow> unit boot" where
  "notif_main W =
    boot_then (load_or_panic (notif_Load (wd_env W))) (\<lambda>cfg.
    boot_then (or_exit ''failed to connect to mongo'' (mongox_Connect W (nc_mongo cfg))) (\<lambda>_.
    boot_then (go_effects [UseDatabase ''finora_notifications'']) (\<lambda>_.
    boot_then (or_exit ''failed to ensure mongo indexes'' (create_all W notif_indexes)) (\<lambda>_.
    boot_then (or_exit ''failed to connect to nats'' (eventbus_Connect W (nc_nats cfg))) (\<lambda>_.
    deferring [CloseNats] (
    boot_then (or_exit ''failed to ensure nats stream'' (Bus_EnsureStream W EventsStreamName [''finora.>''])) (\<lambda>_.
    deferring [StopBackground] (
    boot_then (go_effects [subscription ''budget.overspent subscription exited with error''
         (Bus_Subscribe W EventsStreamName ''notification-service-budget-overspent'' BudgetOverspentSubject)]) (\<lambda>_.
    boot_then (load_spec W) (\<lambda>_.
    or_exit ''server exited with error'' (server_Run W (''0.0.0.0:'' @ nc_port cfg) (nc_shutdown cfg))))))))))))"

definition proxy_New :: "world \<Rightarrow> string \<Rightarrow> effect list \<times> string option" where
  "proxy_New W target = ([ParseURL target], case wd_url_path W target of Inl e \<Rightarrow> Some e | Inr _ \<Rightarrow> None)"

definition gateway_main :: "world \<Rightarrow> unit boot" where
  "gateway_main W =
    boot_then (load_or_panic (gw_Load (wd_env W))) (\<lambda>cfg.
    boot_then (or_exit ''invalid USER_SERVICE_URL'' (proxy_New W (cfg_user_url cfg))) (\<lambda>_.
    boot_then (or_exit ''invalid EXPENSE_SERVICE_URL'' (proxy_New W (cfg_expense_url cfg))) (\<lambda>_.
    boot_then (or_exit ''invalid BUDGET_SERVICE_URL'' (proxy_New W (cfg_budget_url cfg))) (\<lambda>_.
    boot_then (or_exit ''invalid NOTIFICATION_SERVICE_URL'' (proxy_New W (cfg_notification_url cfg))) (\<lambda>_.
    boot_then (load_spec W) (\<lambda>_.
    or_exit ''server exited with error'' (server_Run W (''0.0.0.0:'' @ cfg_port cfg) (cfg_shutdown cfg))))))))"

section \<open>Nothing is served before the ground is laid\<close>

definition listening :: "effect list \<Rightarrow> bool" where
  "listening es \<longleftrightarrow> (\<exists>a. Listen a \<in> set es)"

lemma listening_simps [simp]:
  "\<not> listening []" "listening (e # es) \<longleftrightarrow> (\<exists>a. e = Listen a) \<or> listening es" "listening (es @ fs) \<longleftrightarrow> listening es \<or> listening fs"
  by (auto simp: listening_def)

fun index_of :: "effect \<Rightarrow> index_model option" where
  "index_of (CreateIndex i) = Some i"
| "index_of _ = None"

definition indexes_in :: "effect list \<Rightarrow> index_model list" where
  "indexes_in es = List.map_filter index_of es"

lemma indexes_in_simps [simp]:
  "indexes_in [] = []" "indexes_in (e # es) = (case index_of e of None \<Rightarrow> [] | Some i \<Rightarrow> [i]) @ indexes_in es"
  "indexes_in (es @ fs) = indexes_in es @ indexes_in fs"
  by (auto simp: indexes_in_def List.map_filter_def split: option.splits)

text \<open>
  If a process that does \<open>m\<close> ever listens, it created the indexes \<open>is\<close> before, in this order and no
  others. The rules below run through a \<open>main\<close> from its first step to its last.
\<close>

definition serves_after :: "index_model list \<Rightarrow> unit boot \<Rightarrow> bool" where
  "serves_after is m \<longleftrightarrow> (listening (fst m) \<longrightarrow> (\<exists>pre a post. fst m = pre @ Listen a # post \<and> \<not> listening pre \<and> indexes_in pre = is))"

lemma serves_afterI:
  assumes "fst m = pre @ Listen a # post" and "\<not> listening pre" and "indexes_in pre = is"
  shows "serves_after is m"
  using assms unfolding serves_after_def by blast

lemma serves_run: "serves_after [] (or_exit msg (server_Run W addr t))"
  by (cases "wd_listen W addr"; cases "wd_shutdown W t")
     (rule serves_afterI [where pre = "[]" and a = addr]; simp add: or_exit_def server_Run_def)+

lemma serves_prefix:
  assumes "\<not> listening es" and "serves_after is m"
  shows "serves_after (indexes_in es @ is) (es @ fst m, r)"
proof (cases "listening (fst m)")
  case True
  with assms(2) obtain pre a post where "fst m = pre @ Listen a # post" "\<not> listening pre" "indexes_in pre = is"
    by (auto simp: serves_after_def)
  then show ?thesis using assms(1) by (intro serves_afterI [where pre = "es @ pre" and a = a and post = post]) simp_all
next
  case False
  with assms(1) show ?thesis by (simp add: serves_after_def)
qed

text \<open>A step that can end the process, and the rest that runs when it does not.\<close>

lemma then_or_exit:
  "boot_then (or_exit msg m) f =
     (case snd m of None \<Rightarrow> (fst m @ fst (f ()), snd (f ())) | Some e \<Rightarrow> (fst m @ [Log msg e], Inl ExitOne))"
  by (cases m; cases "f ()") (simp add: boot_then_def or_exit_def split: option.split)

lemma then_effects: "boot_then (go_effects es) f = (es @ fst (f ()), snd (f ()))"
  by (cases "f ()") (simp add: boot_then_def go_effects_def)

lemma then_spec: "boot_then (load_spec W) f = boot_then (go_effects (fst (openapidoc_Load W ''openapi.yaml''))) f"
  by (simp add: load_spec_def go_effects_def)

lemma serves_check:
  assumes "\<not> listening (fst m)" and "indexes_in (fst m) = []" and "serves_after is (f ())"
  shows "serves_after is (boot_then (or_exit msg m) f)"
  using serves_prefix [OF assms(1,3)] assms by (cases "snd m") (simp_all add: then_or_exit serves_after_def)

lemma create_all_props:
  "\<not> listening (fst (create_all W is))" "snd (create_all W is) = None \<Longrightarrow> indexes_in (fst (create_all W is)) = is"
  "snd (create_all W is) = None \<longleftrightarrow> (\<forall>i \<in> set is. wd_create_index W i = None)"
  by (induction "is") (auto split: option.splits prod.splits)

lemma serves_create:
  assumes "serves_after is (f ())"
  shows "serves_after (js @ is) (boot_then (or_exit msg (create_all W js)) f)"
  using serves_prefix [OF create_all_props(1) assms, of W js] create_all_props(1,2) [of W js]
  by (cases "snd (create_all W js)") (simp_all add: then_or_exit serves_after_def)

lemma serves_effects:
  assumes "\<not> listening es" and "indexes_in es = []" and "serves_after is (f ())"
  shows "serves_after is (boot_then (go_effects es) f)"
  using serves_prefix [OF assms(1,3)] assms(2) by (simp add: then_effects)

lemma load_effects: "\<not> listening (fst (openapidoc_Load W p))" "indexes_in (fst (openapidoc_Load W p)) = []"
  by (simp_all add: openapidoc_Load_def split: sum.split)

lemma serves_spec: "serves_after is (f ()) \<Longrightarrow> serves_after is (boot_then (load_spec W) f)"
  by (simp add: then_spec serves_effects load_effects)

lemma serves_load:
  assumes "\<And>cfg. c = Some cfg \<Longrightarrow> serves_after is (f cfg)"
  shows "serves_after is (boot_then (load_or_panic c) f)"
  using assms by (cases c) (auto simp: boot_then_def load_or_panic_def serves_after_def split: prod.splits)

lemma deferring_effects: "\<exists>gs. fst (deferring fs m) = fst m @ gs \<and> set gs \<subseteq> set fs"
  by (cases m; cases "snd m") (auto simp: deferring_def)

lemma listens_deferring:
  assumes "\<not> listening fs"
  shows "listening (fst (deferring fs m)) \<longleftrightarrow> listening (fst m)"
proof -
  obtain gs where "fst (deferring fs m) = fst m @ gs" "set gs \<subseteq> set fs" using deferring_effects by blast
  with assms show ?thesis by (auto simp: listening_def)
qed

lemma serves_deferring:
  assumes "serves_after is m" and "\<not> listening fs"
  shows "serves_after is (deferring fs m)"
proof -
  obtain gs where gs: "fst (deferring fs m) = fst m @ gs" using deferring_effects by blast
  show ?thesis
  proof (cases "listening (fst m)")
    case True
    with assms(1) obtain pre a post where "fst m = pre @ Listen a # post" "\<not> listening pre" "indexes_in pre = is"
      by (auto simp: serves_after_def)
    then show ?thesis using gs(1) by (intro serves_afterI [where pre = pre and a = a and post = "post @ gs"]) simp_all
  next
    case False
    then show ?thesis by (simp add: serves_after_def listens_deferring [OF assms(2)])
  qed
qed

lemma connect_props:
  "\<not> listening (fst (mongox_Connect W uri))" "indexes_in (fst (mongox_Connect W uri)) = []"
  "\<not> listening (fst (eventbus_Connect W url))" "indexes_in (fst (eventbus_Connect W url)) = []"
  "\<not> listening (fst (Bus_EnsureStream W nm ss))" "indexes_in (fst (Bus_EnsureStream W nm ss)) = []"
  "\<not> listening (fst (proxy_New W url))"
  "snd (mongox_Connect W uri) = None \<longleftrightarrow> wd_dial_mongo W uri = None \<and> wd_ping W = None"
  "snd (eventbus_Connect W url) = None \<longleftrightarrow> wd_dial_nats W url = None \<and> wd_jetstream W = None"
  "snd (Bus_EnsureStream W nm ss) = None \<longleftrightarrow> wd_stream W (EnsureStream_config nm ss) = None"
  by (auto simp: mongox_Connect_def eventbus_Connect_def Bus_EnsureStream_def proxy_New_def split: option.splits)

lemma background_props:
  "\<not> listening (disconnect W msg)" "\<not> listening [subscription msg m]" "indexes_in [subscription msg m] = []"
  "subscription msg m \<noteq> Listen a" "index_of (subscription msg m) = None"
  "relay_goroutine d \<noteq> Listen a" "index_of (relay_goroutine d) = None"
  by (auto simp: disconnect_def subscription_def relay_goroutine_def split: option.splits prod.splits)

lemmas serves_rules = serves_load serves_deferring serves_create serves_check serves_effects serves_spec serves_run

lemma main_serves_after:
  "serves_after (user_indexes @ []) (user_main W)"
  "serves_after (expense_indexes @ outbox_indexes @ []) (expense_main W)"
  "serves_after (budget_indexes @ outbox_indexes @ []) (budget_main W)"
  "serves_after (notif_indexes @ []) (notif_main W)"
  unfolding user_main_def expense_main_def budget_main_def notif_main_def
  by (intro serves_rules; simp add: connect_props background_props)+

text \<open>Whether a process listens at all.\<close>

lemma listens_steps:
  "listening (fst (boot_then (or_exit msg m) f)) \<longleftrightarrow> listening (fst m) \<or> (snd m = None \<and> listening (fst (f ())))"
  "listening (fst (boot_then (go_effects es) f)) \<longleftrightarrow> listening es \<or> listening (fst (f ()))"
  "listening (fst (boot_then (load_spec W) f)) \<longleftrightarrow> listening (fst (f ()))"
  "listening (fst (boot_then (load_or_panic c) g)) \<longleftrightarrow> (case c of None \<Rightarrow> False | Some cfg \<Rightarrow> listening (fst (g cfg)))"
  "listening (fst (or_exit msg (server_Run W addr t)))"
proof -
  show "listening (fst (boot_then (or_exit msg m) f)) \<longleftrightarrow> listening (fst m) \<or> (snd m = None \<and> listening (fst (f ())))"
    by (simp add: then_or_exit split: option.split)
  show "listening (fst (boot_then (go_effects es) f)) \<longleftrightarrow> listening es \<or> listening (fst (f ()))"
    by (simp add: then_effects)
  show "listening (fst (boot_then (load_spec W) f)) \<longleftrightarrow> listening (fst (f ()))"
    by (simp add: then_spec then_effects load_effects)
qed (auto simp: or_exit_def server_Run_def load_or_panic_def boot_then_def split: option.splits prod.splits)

definition finora_stream :: stream_config where
  "finora_stream = EnsureStream_config EventsStreamName [''finora.>'']"

text \<open>What a service needs: MongoDB at its address with the indexes, and NATS at its address with the stream.\<close>

definition mongo_ready :: "world \<Rightarrow> string \<Rightarrow> index_model list \<Rightarrow> bool" where
  "mongo_ready W uri is \<longleftrightarrow> wd_dial_mongo W uri = None \<and> wd_ping W = None \<and> list_all (\<lambda>i. wd_create_index W i = None) is"

definition nats_ready :: "world \<Rightarrow> string \<Rightarrow> bool" where
  "nats_ready W url \<longleftrightarrow> wd_dial_nats W url = None \<and> wd_jetstream W = None \<and> wd_stream W finora_stream = None"

definition configured :: "'a option \<Rightarrow> ('a \<Rightarrow> bool) \<Rightarrow> bool" where
  "configured c P = (case c of None \<Rightarrow> False | Some cfg \<Rightarrow> P cfg)"

lemma main_listens_iff:
  "listening (fst (user_main W)) \<longleftrightarrow> configured (user_Load (wd_env W)) (\<lambda>c. mongo_ready W (uc_mongo c) user_indexes)"
  "listening (fst (expense_main W)) \<longleftrightarrow> configured (expense_Load (wd_env W))
     (\<lambda>c. mongo_ready W (ec_mongo c) (expense_indexes @ outbox_indexes) \<and> nats_ready W (ec_nats c))"
  "listening (fst (budget_main W)) \<longleftrightarrow> configured (budget_Load (wd_env W))
     (\<lambda>c. mongo_ready W (bc_mongo c) (budget_indexes @ outbox_indexes) \<and> nats_ready W (bc_nats c))"
  "listening (fst (notif_main W)) \<longleftrightarrow> configured (notif_Load (wd_env W))
     (\<lambda>c. mongo_ready W (nc_mongo c) notif_indexes \<and> nats_ready W (nc_nats c))"
  "listening (fst (gateway_main W)) \<longleftrightarrow> configured (gw_Load (wd_env W))
     (\<lambda>c. list_all (\<lambda>u. \<not> isl (wd_url_path W u)) [cfg_user_url c, cfg_expense_url c, cfg_budget_url c, cfg_notification_url c])"
  unfolding user_main_def expense_main_def budget_main_def notif_main_def gateway_main_def configured_def
  by (auto simp: listens_steps listens_deferring connect_props background_props create_all_props mongo_ready_def nats_ready_def finora_stream_def
       list_all_iff proxy_New_def split: option.splits sum.splits)

text \<open>The conflicts of the collections of user-service are \<open>_id\<close> and the unique indexes above.\<close>

definition unique_keys :: "string \<Rightarrow> index_model list \<Rightarrow> string list list" where
  "unique_keys coll is = map (\<lambda>i. map fst (ix_keys i)) (filter (\<lambda>i. ix_collection i = coll \<and> ix_unique i) is)"

lemma unique_keys_of_users:
  "unique_keys ''users'' user_indexes = [[''email'']]"
  "unique_keys ''settings'' user_indexes = [[''user_id'']]"
  "unique_keys ''refresh_tokens'' user_indexes = [[''jti_hash'']]"
  by (simp_all add: unique_keys_def user_indexes_def plain_index_def)

lemma conflicts_are_unique_indexes:
  "user_conflict x y \<longleftrightarrow> us_id x = us_id y \<or> list_ex (\<lambda>ks. map [''email'' \<mapsto> us_email x] ks = map [''email'' \<mapsto> us_email y] ks)
     (unique_keys ''users'' user_indexes)"
  "token_conflict t u \<longleftrightarrow> rt_id t = rt_id u \<or> list_ex (\<lambda>ks. map [''jti_hash'' \<mapsto> rt_jti_hash t] ks = map [''jti_hash'' \<mapsto> rt_jti_hash u] ks)
     (unique_keys ''refresh_tokens'' user_indexes)"
  "settings_conflict p q \<longleftrightarrow> list_ex (\<lambda>ks. map [''user_id'' \<mapsto> se_user p] ks = map [''user_id'' \<mapsto> se_user q] ks)
     (unique_keys ''settings'' user_indexes)"
  unfolding unique_keys_of_users by (simp_all add: user_conflict_def token_conflict_def settings_conflict_def)

text \<open>A demonstration: a world in which everything answers, and the same one without NATS.\<close>

definition demo_world :: world where
  "demo_world = \<lparr>wd_env = (\<lambda>k. if k = ''BUDGET_SERVICE_MONGO_URI'' then ''mongodb://mongo:27017/finora_budgets'' else ''''),
     wd_url_path = (\<lambda>_. Inr ''/finora_budgets''), wd_dial_mongo = (\<lambda>_. None), wd_ping = None, wd_disconnect = None,
     wd_create_index = (\<lambda>_. None), wd_dial_nats = (\<lambda>_. None), wd_jetstream = None, wd_stream = (\<lambda>_. None), wd_open_stream = (\<lambda>_. None),
     wd_consumer = (\<lambda>_. None), wd_consume = (\<lambda>_. None),
     wd_file = (\<lambda>_. Inr ''openapi: 3.0.3''), wd_listen = (\<lambda>_. None), wd_shutdown = (\<lambda>_. None)\<rparr>"

lemma demo_budget_boot:
  "snd (budget_main demo_world) = Inr ()"
  "Listen ''0.0.0.0:8083'' \<in> set (fst (budget_main demo_world))"
  "relay_goroutine 2000000000 \<in> set (fst (budget_main demo_world))"
  "snd (user_main demo_world) = Inl Panicked"
  "snd (budget_main (demo_world\<lparr>wd_stream := \<lambda>_. Some ''timeout''\<rparr>)) = Inl ExitOne"
  by code_simp+

text \<open>
  What the configuration accepts and the start does not refuse: a relay interval of zero, with which
  the goroutine of the relay takes the process down, and a subscription that could not be made,
  with which the service serves without consuming.
\<close>

definition zero_interval_world :: world where
  "zero_interval_world = demo_world\<lparr>wd_env := (wd_env demo_world)(''OUTBOX_RELAY_INTERVAL'' := ''0'')\<rparr>"

lemma zero_interval_crashes:
  "snd (budget_main zero_interval_world) = Inr ()"
  "Spawn [Crash ''non-positive interval for NewTicker''] \<in> set (fst (budget_main zero_interval_world))"
  by code_simp+

lemma serves_without_consumer:
  "snd (budget_main (demo_world\<lparr>wd_consumer := \<lambda>_. Some ''timeout''\<rparr>)) = Inr ()"
  by code_simp


end
