(* ===== verification/Service_Http.thy ===== *)
theory Service_Http imports Platform Service_Boot begin

text \<open>
  The whole router of each service, as its \<open>router.New\<close> puts it together: request id, log line and
  recovery around the probes, the specification and the API, which is \<open>serve\<close> of \<open>Platform\<close>. The
  world says what the checkers find when a probe runs them. No handler records an error in the
  context, so the log line is always the informing one.
\<close>

section \<open>The router\<close>

datatype 'a served = ServedApi "'a response" | ServedProbe probe | ServedSpec string

fun served_status :: "'a served \<Rightarrow> nat" where
  "served_status (ServedApi r) = re_status r"
| "served_status (ServedProbe p) = pr_status p"
| "served_status (ServedSpec _) = 200"

definition engine_routes ::
  "string \<Rightarrow> (string \<times> string option) list \<Rightarrow> string \<Rightarrow> string \<Rightarrow> ('q http_request \<Rightarrow> 's \<Rightarrow> 'a response \<times> 's) \<Rightarrow>
   'q http_request \<Rightarrow> 's \<Rightarrow> 'a served \<times> 's" where
  "engine_routes name checkers spec rid api req s =
    (case (if hq_method req = ''GET'' then health_Register name checkers (hq_path req) else None) of
       Some p \<Rightarrow> (ServedProbe p, s)
     | None \<Rightarrow>
         if hq_method req = ''GET'' \<and> hq_path req = ''/openapi.yaml'' then
           (case openapidoc_Handler rid spec of Inl r \<Rightarrow> (ServedApi r, s) | Inr b \<Rightarrow> (ServedSpec b, s))
         else (case api req s of (r, s') \<Rightarrow> (ServedApi r, s')))"

definition service_engine ::
  "string \<Rightarrow> (string \<times> string option) list \<Rightarrow> string \<Rightarrow> string \<Rightarrow> int \<Rightarrow> ('q http_request \<Rightarrow> 's \<Rightarrow> 'a response \<times> 's) \<Rightarrow>
   'q http_request \<Rightarrow> 's \<Rightarrow> ('a served \<times> access_line option) \<times> 's" where
  "service_engine name checkers spec fresh latency api req s =
    (let rid = RequestID fresh (hq_rid req)
     in case engine_routes name checkers spec rid api req s of
       (a, s') \<Rightarrow> ((a, Logging rid (hq_method req) (hq_path req) (served_status a) latency None), s'))"

text \<open>What the checkers of \<open>main\<close> see: a ping of MongoDB, and the state of the connection to NATS.\<close>

record vitals =
  vt_world :: world
  vt_connected :: bool
  vt_status :: string

definition with_nats :: "vitals \<Rightarrow> (string \<times> string option) list" where
  "with_nats V = [mongox_Checker (vt_world V), eventbus_Checker (vt_connected V) (vt_status V)]"

definition user_engine ::
  "vitals \<Rightarrow> ('e, 'm) services \<Rightarrow> string \<Rightarrow> gotime \<Rightarrow> int \<Rightarrow> call http_request \<Rightarrow> ('e, 'm) platform \<Rightarrow>
   (api_data served \<times> access_line option) \<times> ('e, 'm) platform" where
  "user_engine V S spec now latency req =
    service_engine ''user-service'' [mongox_Checker (vt_world V)] spec (ca_fresh (hq_rest req)) latency (serve_user S now) req"

definition expense_engine ::
  "vitals \<Rightarrow> ('e, 'm) services \<Rightarrow> string \<Rightarrow> int \<Rightarrow> call http_request \<Rightarrow> ('e, 'm) platform \<Rightarrow>
   (api_data served \<times> access_line option) \<times> ('e, 'm) platform" where
  "expense_engine V S spec latency req =
    service_engine ''expense-service'' (with_nats V) spec (ca_fresh (hq_rest req)) latency (serve_expense S) req"

definition budget_engine ::
  "vitals \<Rightarrow> ('e, 'm) services \<Rightarrow> string \<Rightarrow> int \<Rightarrow> call http_request \<Rightarrow> ('e, 'm) platform \<Rightarrow>
   (api_data served \<times> access_line option) \<times> ('e, 'm) platform" where
  "budget_engine V S spec latency req =
    service_engine ''budget-service'' (with_nats V) spec (ca_fresh (hq_rest req)) latency (serve_budget S) req"

definition notif_engine ::
  "vitals \<Rightarrow> ('e, 'm) services \<Rightarrow> string \<Rightarrow> int \<Rightarrow> call http_request \<Rightarrow> ('e, 'm) platform \<Rightarrow>
   (api_data served \<times> access_line option) \<times> ('e, 'm) platform" where
  "notif_engine V S spec latency req =
    service_engine ''notification-service'' (with_nats V) spec (ca_fresh (hq_rest req)) latency (serve_notif S) req"

section \<open>What the router adds to the API\<close>

lemmas engine_defs = user_engine_def expense_engine_def budget_engine_def notif_engine_def

text \<open>Only the API touches the state, and a path of the API is never taken for a probe.\<close>

definition probe_or_spec :: "'q http_request \<Rightarrow> bool" where
  "probe_or_spec req \<longleftrightarrow> hq_method req = ''GET'' \<and> hq_path req \<in> insert ''/openapi.yaml'' healthCheckPaths"

lemma health_Register_None: "health_Register name checkers path = None \<longleftrightarrow> path \<notin> healthCheckPaths"
  by (simp add: health_Register_def healthCheckPaths_def split: prod.split)

lemma engine_routes_cases:
  "engine_routes name checkers spec rid api req s =
    (if \<not> probe_or_spec req then map_prod ServedApi id (api req s)
     else (case health_Register name checkers (hq_path req) of
         Some p \<Rightarrow> (ServedProbe p, s)
       | None \<Rightarrow> (case openapidoc_Handler rid spec of Inl r \<Rightarrow> (ServedApi r, s) | Inr b \<Rightarrow> (ServedSpec b, s))))"
proof (cases "health_Register name checkers (hq_path req)")
  case None
  moreover from this have "hq_path req \<notin> healthCheckPaths" by (simp add: health_Register_None)
  ultimately show ?thesis
    by (cases "api req s") (simp add: engine_routes_def probe_or_spec_def split: sum.split)
next
  case (Some p)
  then have "hq_path req \<in> healthCheckPaths" by (metis health_Register_None option.distinct(1))
  moreover from this have "hq_path req \<noteq> ''/openapi.yaml''" by (auto simp: healthCheckPaths_def)
  ultimately show ?thesis using Some
    by (cases "api req s") (simp add: engine_routes_def probe_or_spec_def)
qed

lemma engine_state:
  "snd (service_engine name checkers spec fresh latency api req s) = (if probe_or_spec req then s else snd (api req s))"
  by (auto simp: service_engine_def engine_routes_cases Let_def case_prod_beta map_prod_def split: option.split sum.split)

lemma engine_log:
  "snd (fst (service_engine name checkers spec fresh latency api req s)) =
    (if hq_path req \<in> healthCheckPaths then None
     else Some \<lparr>al_level = LevelInfo, al_message = ''request completed'', al_rid = RequestID fresh (hq_rid req),
       al_method = hq_method req, al_path = hq_path req,
       al_status = served_status (fst (fst (service_engine name checkers spec fresh latency api req s))),
       al_latency = latency, al_errors = None\<rparr>)"
  by (simp add: service_engine_def Logging_def Let_def case_prod_beta)

lemma ready_iff:
  assumes "hq_method req = ''GET''" and "hq_path req = ''/ready''"
  shows "served_status (fst (fst (service_engine name checkers spec fresh latency api req s))) =
    (if list_all (\<lambda>c. snd c = None) checkers then 200 else 503)"
  using assms
  by (simp add: service_engine_def engine_routes_def health_Register_def runChecks_def Let_def split_def)

lemma services_ready:
  assumes "hq_method req = ''GET''" and "hq_path req = ''/ready''"
  shows "served_status (fst (fst (user_engine V S spec now latency req s))) = 200 \<longleftrightarrow> wd_ping (vt_world V) = None"
    and "served_status (fst (fst (expense_engine V S spec latency req s))) = 200 \<longleftrightarrow> wd_ping (vt_world V) = None \<and> vt_connected V"
    and "served_status (fst (fst (budget_engine V S spec latency req s))) = 200 \<longleftrightarrow> wd_ping (vt_world V) = None \<and> vt_connected V"
    and "served_status (fst (fst (notif_engine V S spec latency req s))) = 200 \<longleftrightarrow> wd_ping (vt_world V) = None \<and> vt_connected V"
  by (simp_all add: engine_defs ready_iff [OF assms] with_nats_def mongox_Checker_def eventbus_Checker_def)

text \<open>For what the gateway forwards, the router is the API: \<open>Platform\<close> may leave the rest of it out.\<close>

lemma engines_serve:
  assumes "\<not> probe_or_spec req"
  shows "fst (fst (user_engine V S spec now latency req s)) = ServedApi (fst (serve_user S now req s))"
    and "fst (fst (expense_engine V S spec latency req s)) = ServedApi (fst (serve_expense S req s))"
    and "fst (fst (budget_engine V S spec latency req s)) = ServedApi (fst (serve_budget S req s))"
    and "fst (fst (notif_engine V S spec latency req s)) = ServedApi (fst (serve_notif S req s))"
    and "snd (user_engine V S spec now latency req s) = snd (serve_user S now req s)"
    and "snd (expense_engine V S spec latency req s) = snd (serve_expense S req s)"
    and "snd (budget_engine V S spec latency req s) = snd (serve_budget S req s)"
    and "snd (notif_engine V S spec latency req s) = snd (serve_notif S req s)"
  using assms by (simp_all add: engine_defs engine_state)
    (simp_all add: service_engine_def engine_routes_cases Let_def case_prod_beta map_prod_def)

lemma table_has_no_probes:
  assumes "Table_Resolve gateway_table (hq_path req) = Some b"
  shows "\<not> probe_or_spec req"
proof
  assume "probe_or_spec req"
  then have "hq_path req \<in> {''/openapi.yaml'', ''/live'', ''/ready'', ''/health''}"
    by (auto simp: probe_or_spec_def healthCheckPaths_def)
  then have "Table_Resolve gateway_table (hq_path req) = None"
    by (elim insertE emptyE) (simp_all add: Table_Resolve_def gateway_table_def)
  with assms show False by simp
qed

end
