(* ===== verification/Interleave.thy ===== *)
theory Interleave imports Prelude begin

text \<open>
  Requests that overlap. A handler runs in a goroutine of its own, and between two calls of the
  database any other goroutine may run: a program is what it does until its next call, the call
  is one atomic step on the shared state, and a scheduler picks who moves. The reasoning is
  rely-guarantee: what every program guarantees of its steps is what all of them may rely on.
\<close>

section \<open>Programs\<close>

datatype ('s, 'a) prog = Done 'a | Act "'s \<Rightarrow> ('s, 'a) prog \<times> 's"

definition step :: "('s \<Rightarrow> 'r \<times> 's) \<Rightarrow> ('r \<Rightarrow> ('s, 'a) prog) \<Rightarrow> ('s, 'a) prog" where
  "step f k = Act (\<lambda>s. case f s of (r, s') \<Rightarrow> (k r, s'))"

definition ok_then :: "'r res \<Rightarrow> ('r \<Rightarrow> ('s, 'a res) prog) \<Rightarrow> ('s, 'a res) prog" where
  "ok_then q k = (case q of Inl e \<Rightarrow> Done (Inl e) | Inr x \<Rightarrow> k x)"

lemma ok_then_simps [simp]: "ok_then (Inl e) k = Done (Inl e)" "ok_then (Inr x) k = k x"
  by (simp_all add: ok_then_def)

text \<open>Nobody else moves: the program runs to its end.\<close>

primrec run :: "('s, 'a) prog \<Rightarrow> 's \<Rightarrow> 'a \<times> 's" where
  "run (Done a) = (\<lambda>s. (a, s))"
| "run (Act f) = (\<lambda>s. case map_prod run id (f s) of (g, s') \<Rightarrow> g s')"

lemma run_step [simp]: "run (step f k) s = (case f s of (r, s') \<Rightarrow> run (k r) s')"
  by (simp add: step_def split: prod.split)

lemma run_ok_then: "run (ok_then q k) s = on_ok (q, s) (\<lambda>x s'. run (k x) s')"
  by (cases q) simp_all

lemma run_map: "run (map_prog g p) s = map_prod g id (run p s)"
proof (induction p arbitrary: s)
  case (Act f)
  obtain p s' where f: "f s = (p, s')" by (cases "f s")
  have "run (map_prog g p) s' = map_prod g id (run p s')" by (rule Act [OF rangeI [of f s]]) (simp add: f prod_set_simps)
  with f show ?case by (simp add: id_def)
qed simp

lemma map_step: "map_prog g (step f k) = step f (\<lambda>r. map_prog g (k r))"
  by (simp add: step_def fun_eq_iff split: prod.split)

section \<open>Pools\<close>

type_synonym ('s, 'a) pool = "('s, 'a) prog list \<times> 's"

fun turn :: "nat \<Rightarrow> ('s, 'a) pool \<Rightarrow> ('s, 'a) pool" where
  "turn i (ps, s) =
    (if i < length ps then (case ps ! i of Done a \<Rightarrow> (ps, s) | Act f \<Rightarrow> (case f s of (p, s') \<Rightarrow> (ps[i := p], s')))
     else (ps, s))"

definition schedule :: "nat list \<Rightarrow> ('s, 'a) pool \<Rightarrow> ('s, 'a) pool" where
  "schedule is st = fold turn is st"

lemma schedule_simps [simp]: "schedule [] st = st" "schedule (i # is) st = schedule is (turn i st)"
  by (simp_all add: schedule_def)

lemma turn_length [simp]: "length (fst (turn i st)) = length (fst st)"
  by (cases st) (auto split: prog.split prod.split)

lemma turn_other: "turn i (ps, s) = (ps', s') \<Longrightarrow> j \<noteq> i \<Longrightarrow> ps' ! j = ps ! j"
  by (auto split: if_splits prog.splits prod.splits)

lemma schedule_length [simp]: "length (fst (schedule is st)) = length (fst st)"
  by (induction "is" arbitrary: st) simp_all

text \<open>A single program of which every step is scheduled gives the sequential result.\<close>

lemma schedule_alone: "\<exists>n. schedule (replicate n 0) ([p], s) = ([Done (fst (run p s))], snd (run p s))"
proof (induction p arbitrary: s)
  case (Done a)
  show ?case by (intro exI [of _ 0]) simp
next
  case (Act f)
  obtain p s' where f: "f s = (p, s')" by (cases "f s")
  obtain n where "schedule (replicate n 0) ([p], s') = ([Done (fst (run p s'))], snd (run p s'))"
    using Act [OF rangeI [of f s], of p s'] by (auto simp: f prod_set_simps)
  with f show ?case by (intro exI [of _ "Suc n"]) simp
qed

text \<open>Turns of one program that end it are its run.\<close>

lemma schedule_solo:
  "i < length ps \<Longrightarrow> schedule (replicate n i) (ps, s) = (ps', s') \<Longrightarrow> ps' ! i = Done a \<Longrightarrow>
   run (ps ! i) s = (a, s') \<and> ps' = ps[i := Done a]"
proof (induction n arbitrary: ps s)
  case 0
  then show ?case by (metis list_update_id prod.inject replicate_0 run.simps(1) schedule_simps(1))
next
  case (Suc n)
  show ?case
  proof (cases "ps ! i")
    case (Done b)
    then have "turn i (ps, s) = (ps, s)" using Suc.prems(1) by simp
    with Suc show ?thesis by simp
  next
    case (Act f)
    obtain p s1 where f: "f s = (p, s1)" by (cases "f s")
    then have "schedule (replicate n i) (ps[i := p], s1) = (ps', s')" using Suc.prems(1,2) Act by simp
    from Suc.IH [OF _ this Suc.prems(3)] Suc.prems(1) Act f show ?thesis by simp
  qed
qed

section \<open>Rely and guarantee\<close>

definition stable :: "('s \<Rightarrow> 's \<Rightarrow> bool) \<Rightarrow> ('s \<Rightarrow> bool) \<Rightarrow> bool" where
  "stable G P \<longleftrightarrow> (\<forall>s s'. P s \<longrightarrow> G s s' \<longrightarrow> P s')"

lemma stableI [intro?]: "(\<And>s s'. P s \<Longrightarrow> G s s' \<Longrightarrow> P s') \<Longrightarrow> stable G P"
  by (simp add: stable_def)

lemma stableD: "stable G P \<Longrightarrow> P s \<Longrightarrow> G s s' \<Longrightarrow> P s'"
  by (simp add: stable_def)

lemma stable_conj: "stable G P \<Longrightarrow> stable G Q \<Longrightarrow> stable G (\<lambda>s. P s \<and> Q s)"
  unfolding stable_def by blast

lemma stable_const: "stable G (\<lambda>_. b)"
  by (simp add: stable_def)

lemma stable_imp: "stable G P \<Longrightarrow> stable G (\<lambda>s. b \<longrightarrow> P s)"
  unfolding stable_def by blast

text \<open>
  \<open>safe G P p Q\<close>: started in a state with \<open>P\<close>, among programs whose steps are all in \<open>G\<close>, every step
  of \<open>p\<close> is in \<open>G\<close>, and a result that it ends with satisfies \<open>Q\<close>, then and later.
\<close>

inductive safe :: "('s \<Rightarrow> 's \<Rightarrow> bool) \<Rightarrow> ('s \<Rightarrow> bool) \<Rightarrow> ('s, 'a) prog \<Rightarrow> ('a \<Rightarrow> 's \<Rightarrow> bool) \<Rightarrow> bool" where
  safe_Done: "stable G P \<Longrightarrow> (\<And>s. P s \<Longrightarrow> Q a s) \<Longrightarrow> safe G P (Done a) Q"
| safe_Act: "stable G P \<Longrightarrow> (\<And>s. P s \<Longrightarrow> G s (snd (f s)) \<and> (\<exists>M. M (snd (f s)) \<and> safe G M (fst (f s)) Q)) \<Longrightarrow> safe G P (Act f) Q"

inductive_cases safe_DoneE: "safe G P (Done a) Q"
inductive_cases safe_ActE: "safe G P (Act f) Q"

lemma safe_step:
  assumes "stable G P" and "\<And>s r s'. P s \<Longrightarrow> f s = (r, s') \<Longrightarrow> G s s' \<and> (\<exists>M. M s' \<and> safe G M (k r) Q)"
  shows "safe G P (step f k) Q"
  unfolding step_def using assms by (intro safe_Act) (auto split: prod.split)

lemma safe_stable: "safe G P p Q \<Longrightarrow> stable G P"
  by (induction rule: safe.induct)

lemma safe_pre: "safe G P p Q \<Longrightarrow> stable G P' \<Longrightarrow> (\<And>s. P' s \<Longrightarrow> P s) \<Longrightarrow> safe G P' p Q"
  by (erule safe.cases) (auto intro: safe.intros)

lemma safe_False: "safe G (\<lambda>_. False) p Q"
  by (cases p) (auto intro!: safe.intros simp: stable_def)

lemma safe_post:
  assumes "safe G P p Q" and "\<And>a s. Q a s \<Longrightarrow> Q' a s"
  shows "safe G P p Q'"
  using assms
proof (induction rule: safe.induct)
  case (safe_Done G P Q a)
  then show ?case by (intro safe.safe_Done) auto
next
  case (safe_Act G P f Q)
  then show ?case by (intro safe.safe_Act) fastforce+
qed

text \<open>A step after which \<open>E\<close> holds of its result, whatever the others do.\<close>

lemma safe_step_and:
  assumes "stable G P" and "\<And>r. stable G (E r)"
    and "\<And>s r s'. P s \<Longrightarrow> f s = (r, s') \<Longrightarrow> G s s' \<and> E r s'"
    and "\<And>r. safe G (\<lambda>s. P s \<and> E r s) (k r) Q"
  shows "safe G P (step f k) Q"
proof (rule safe_step [OF assms(1)])
  fix s r s' assume "P s" "f s = (r, s')"
  then show "G s s' \<and> (\<exists>M. M s' \<and> safe G M (k r) Q)"
    using assms(3,4) stableD [OF assms(1)] by (intro conjI exI [of _ "\<lambda>s. P s \<and> E r s"]) blast+
qed

lemma safe_step_quiet:
  assumes "stable G P" and "\<And>s r s'. P s \<Longrightarrow> f s = (r, s') \<Longrightarrow> G s s'" and "\<And>r. safe G P (k r) Q"
  shows "safe G P (step f k) Q"
  by (rule safe_step_and [where E = "\<lambda>_ _. True"]) (use assms stable_const in auto)

text \<open>A step of whose result \<open>E\<close> is known, once and for all.\<close>

lemma safe_step_pure:
  assumes "stable G P" and "\<And>s r s'. P s \<Longrightarrow> f s = (r, s') \<Longrightarrow> G s s' \<and> E r" and "\<And>r. E r \<Longrightarrow> safe G P (k r) Q"
  shows "safe G P (step f k) Q"
proof (rule safe_step [OF assms(1)])
  fix s r s' assume "P s" "f s = (r, s')"
  then show "G s s' \<and> (\<exists>M. M s' \<and> safe G M (k r) Q)"
    using assms(2,3) stableD [OF assms(1)] by (intro conjI exI [of _ P]) blast+
qed

lemma safe_map: "safe G P p (\<lambda>a. Q (g a)) \<Longrightarrow> safe G P (map_prog g p) Q"
proof (induction G P p "\<lambda>a. Q (g a)" rule: safe.induct)
  case (safe_Done G P a)
  then show ?case by (auto intro: safe.intros)
next
  case (safe_Act G P f)
  then show ?case by (fastforce intro!: safe.intros)
qed

text \<open>What programs with one guarantee do together.\<close>

locale interference =
  fixes G :: "'s \<Rightarrow> 's \<Rightarrow> bool"
  assumes refl: "G s s"
    and trans: "G a b \<Longrightarrow> G b c \<Longrightarrow> G a c"
begin

definition pool_safe :: "('s, 'a) pool \<Rightarrow> (nat \<Rightarrow> 'a \<Rightarrow> 's \<Rightarrow> bool) \<Rightarrow> bool" where
  "pool_safe st Q \<longleftrightarrow> (\<forall>i < length (fst st). \<exists>P. P (snd st) \<and> safe G P (fst st ! i) (Q i))"

lemma pool_turn:
  assumes st: "pool_safe st Q"
  shows "pool_safe (turn i st) Q \<and> G (snd st) (snd (turn i st))"
proof (cases st)
  case (Pair ps s)
  show ?thesis
  proof (cases "\<exists>f. i < length ps \<and> ps ! i = Act f")
    case True
    then obtain f where f: "i < length ps" "ps ! i = Act f" by blast
    obtain P where P: "P s" "safe G P (Act f) (Q i)" using st f Pair by (auto simp: pool_safe_def)
    obtain p s' where ps': "f s = (p, s')" by (cases "f s")
    from P(2) have step: "G s s' \<and> (\<exists>M. M s' \<and> safe G M p (Q i))" by (rule safe_ActE) (use P(1) ps' in force)
    have "\<exists>R. R s' \<and> safe G R (ps[i := p] ! j) (Q j)" if j: "j < length ps" for j
    proof (cases "j = i")
      case False
      obtain R where "R s" "safe G R (ps ! j) (Q j)" using st j Pair by (auto simp: pool_safe_def)
      then show ?thesis using False step stableD [OF safe_stable] by (intro exI [of _ R]) auto
    qed (use step f in auto)
    then show ?thesis using Pair f ps' step by (simp add: pool_safe_def)
  next
    case False
    then have "turn i st = st" using Pair by (auto split: prog.split)
    with st refl show ?thesis by simp
  qed
qed

lemma pool_schedule:
  assumes "pool_safe st Q"
  shows "pool_safe (schedule is st) Q \<and> G (snd st) (snd (schedule is st))"
  using assms
proof (induction "is" arbitrary: st)
  case (Cons i "is")
  from pool_turn [OF Cons.prems] Cons.IH [of "turn i st"] show ?case by (auto intro: trans)
qed (simp add: refl)

lemma pool_result:
  assumes "pool_safe st Q" and "i < length (fst st)" and "fst (schedule is st) ! i = Done a"
  shows "Q i a (snd (schedule is st))"
proof -
  obtain P where "P (snd (schedule is st))" "safe G P (Done a) (Q i)"
    using pool_schedule [OF assms(1), of "is"] assms(2,3) by (auto simp: pool_safe_def)
  then show ?thesis by (auto elim: safe_DoneE)
qed

text \<open>Programs that join later.\<close>

lemma pool_join:
  assumes "pool_safe (ps, s) Q" and "\<And>j. j < length qs \<Longrightarrow> \<exists>P. P s \<and> safe G P (qs ! j) (R j)"
  shows "pool_safe (ps @ qs, s) (\<lambda>i. if i < length ps then Q i else R (i - length ps))"
  using assms by (auto simp: pool_safe_def nth_append)

end

end
