(* ===== verification/User_Concurrent.thy ===== *)
theory User_Concurrent imports Interleave User_Http begin

text \<open>
  user-service with overlapping requests. Each operation is the program of its database calls, in
  the order of \<open>service/auth_service.go\<close> and \<open>service/user_service.go\<close>; run alone it is the
  operation of \<open>User_Auth\<close> or \<open>User_Profile\<close>. What the programs guarantee each other keeps the
  database well formed, a spent token spent, an email with one owner, and the data of users who
  made no request as it was, under every schedule.
\<close>

section \<open>The operations as programs\<close>

definition Register_prog ::
  "auth \<Rightarrow> 'e user_drivers \<Rightarrow> gotime \<Rightarrow> string \<Rightarrow> string \<Rightarrow> register_input \<Rightarrow> ('e user_db, user res) prog" where
  "Register_prog A D now salt uid inp =
    (let email = normalizeEmail A (ri_email inp) in
     step (on_users (userRepository_FindByEmail (m_users D) email)) (\<lambda>q.
       case q of
         Inr _ \<Rightarrow> Done (Inl ErrDuplicateEmail)
       | Inl e \<Rightarrow>
          if e \<noteq> ErrNotFound then Done (Inl e)
          else (case au_bcrypt A salt (ri_password inp) of
              None \<Rightarrow> Done (Inl (ErrOther ''bcrypt: password length exceeds 72 bytes''))
            | Some hash \<Rightarrow>
                (let u = \<lparr>us_id = uid, us_email = email, us_hash = hash, us_name = ri_name inp,
                          us_created = utc now, us_updated = utc now\<rparr>
                 in step (on_users (userRepository_Create (m_users D) u)) (\<lambda>w. ok_then w (\<lambda>_.
                    step (on_settings (settingsRepository_Upsert (m_settings D)
                        \<lparr>se_user = uid, se_currency = ''USD'', se_timezone = ''UTC'', se_updated = utc now\<rparr>))
                      (\<lambda>v. ok_then v (\<lambda>_. Done (Inr u)))))))))"

definition issueTokenPair_prog ::
  "auth \<Rightarrow> 'e user_drivers \<Rightarrow> gotime \<Rightarrow> string \<Rightarrow> string \<Rightarrow> user \<Rightarrow> ('e user_db, login_result res) prog" where
  "issueTokenPair_prog A D now jti tid u =
    (case GenerateAccessToken (au_jwt A) now (au_access_secret A) (us_id u) (us_email u) (au_access_ttl A) of
       None \<Rightarrow> Done (Inl (ErrOther ''jwt: signing failed''))
     | Some access \<Rightarrow>
        (case GenerateRefreshToken (au_jwt A) now (au_refresh_secret A) (us_id u) jti (au_refresh_ttl A) of
           None \<Rightarrow> Done (Inl (ErrOther ''jwt: signing failed''))
         | Some refresh \<Rightarrow>
            step (on_tokens (refreshTokenRepository_Create (m_tokens D)
                \<lparr>rt_id = tid, rt_user = us_id u, rt_jti_hash = hashJTI A jti,
                 rt_expires = time_add (utc now) (au_refresh_ttl A), rt_revoked = False, rt_created = utc now\<rparr>))
              (\<lambda>w. ok_then w (\<lambda>_. Done (Inr \<lparr>lr_access = access, lr_refresh = refresh, lr_user = u\<rparr>)))))"

definition Login_prog ::
  "auth \<Rightarrow> 'e user_drivers \<Rightarrow> gotime \<Rightarrow> string \<Rightarrow> string \<Rightarrow> string \<Rightarrow> string \<Rightarrow> ('e user_db, login_result res) prog" where
  "Login_prog A D now jti tid email password =
    step (on_users (userRepository_FindByEmail (m_users D) (normalizeEmail A email))) (\<lambda>q.
      case q of
        Inl e \<Rightarrow> Done (Inl (if e = ErrNotFound then ErrInvalidCredentials else e))
      | Inr u \<Rightarrow> if \<not> au_check A (us_hash u) password then Done (Inl ErrInvalidCredentials)
                 else issueTokenPair_prog A D now jti tid u)"

definition Refresh_prog ::
  "auth \<Rightarrow> 'e user_drivers \<Rightarrow> gotime \<Rightarrow> string \<Rightarrow> string \<Rightarrow> string \<Rightarrow> ('e user_db, login_result res) prog" where
  "Refresh_prog A D now jti tid tok =
    (case jwtx_Parse (au_jwt A) now (au_refresh_secret A) tok TypeRefresh of
       None \<Rightarrow> Done (Inl ErrInvalidToken)
     | Some cl \<Rightarrow>
        step (on_tokens (refreshTokenRepository_FindByJTIHash (m_tokens D) (hashJTI A (cl_jti cl)))) (\<lambda>q.
          case q of
            Inl e \<Rightarrow> Done (Inl (if e = ErrNotFound then ErrInvalidToken else e))
          | Inr rt \<Rightarrow>
              if rt_revoked rt then
                step (on_tokens (refreshTokenRepository_RevokeAllForUser (m_tokens D) (rt_user rt)))
                  (\<lambda>w. ok_then w (\<lambda>_. Done (Inl ErrInvalidToken)))
              else if time_after now (rt_expires rt) then Done (Inl ErrInvalidToken)
              else step (on_users (userRepository_FindByID (m_users D) (cl_user cl))) (\<lambda>v.
                case v of
                  Inl e \<Rightarrow> Done (Inl (if e = ErrNotFound then ErrInvalidToken else e))
                | Inr u \<Rightarrow> step (on_tokens (refreshTokenRepository_Revoke (m_tokens D) (rt_id rt)))
                    (\<lambda>w. ok_then w (\<lambda>_. issueTokenPair_prog A D now jti tid u)))))"

definition Logout_prog :: "auth \<Rightarrow> 'e user_drivers \<Rightarrow> gotime \<Rightarrow> string \<Rightarrow> ('e user_db, unit res) prog" where
  "Logout_prog A D now tok =
    (case jwtx_Parse (au_jwt A) now (au_refresh_secret A) tok TypeRefresh of
       None \<Rightarrow> Done (Inr ())
     | Some cl \<Rightarrow>
        step (on_tokens (refreshTokenRepository_FindByJTIHash (m_tokens D) (hashJTI A (cl_jti cl)))) (\<lambda>q.
          case q of
            Inl e \<Rightarrow> Done (if e = ErrNotFound then Inr () else Inl e)
          | Inr rt \<Rightarrow>
              if rt_revoked rt then Done (Inr ())
              else step (on_tokens (refreshTokenRepository_Revoke (m_tokens D) (rt_id rt))) Done))"

definition RequestPasswordReset_prog :: "auth \<Rightarrow> 'e user_drivers \<Rightarrow> string \<Rightarrow> ('e user_db, unit res) prog" where
  "RequestPasswordReset_prog A D email =
    step (on_users (userRepository_FindByEmail (m_users D) (normalizeEmail A email))) (\<lambda>_. Done (Inr ()))"

definition GetProfile_prog :: "'e user_drivers \<Rightarrow> string \<Rightarrow> ('e user_db, user res) prog" where
  "GetProfile_prog D u = step (on_users (userRepository_FindByID (m_users D) u)) Done"

definition UpdateProfile_prog :: "'e user_drivers \<Rightarrow> gotime \<Rightarrow> string \<Rightarrow> string \<Rightarrow> ('e user_db, user res) prog" where
  "UpdateProfile_prog D now u in_name =
    (let name = trim_space in_name in
     if name = '''' then Done (Inl (ValidationError ''name'' ''name must not be blank''))
     else if length name > maxNameLength then
       Done (Inl (ValidationError ''name'' ''name must be at most 100 characters''))
     else step (on_users (userRepository_FindByID (m_users D) u)) (\<lambda>q. ok_then q (\<lambda>x.
       let x' = x\<lparr>us_name := name, us_updated := utc now\<rparr>
       in step (on_users (userRepository_Update (m_users D) x')) (\<lambda>w. ok_then w (\<lambda>_. Done (Inr x'))))))"

definition settings_found :: "string \<Rightarrow> settings res \<Rightarrow> settings res" where
  "settings_found u q = (case q of
      Inl e \<Rightarrow> if e = ErrNotFound
        then Inr \<lparr>se_user = u, se_currency = ''USD'', se_timezone = ''UTC'', se_updated = zero_time\<rparr> else Inl e
    | Inr x \<Rightarrow> Inr x)"

definition GetSettings_prog :: "'e user_drivers \<Rightarrow> string \<Rightarrow> ('e user_db, settings res) prog" where
  "GetSettings_prog D u =
    step (on_settings (settingsRepository_FindByUserID (m_settings D) u)) (\<lambda>q. Done (settings_found u q))"

definition UpdateSettings_prog ::
  "(string \<Rightarrow> bool) \<Rightarrow> 'e user_drivers \<Rightarrow> gotime \<Rightarrow> string \<Rightarrow> update_settings_input \<Rightarrow> ('e user_db, settings res) prog" where
  "UpdateSettings_prog L D now u inp =
    (let currency = trim_space (us_currency inp); timezone = trim_space (us_timezone inp) in
     if currency \<noteq> '''' \<and> \<not> currencyPattern currency then
       Done (Inl (ValidationError ''currency'' ''currency must be a 3-letter uppercase code (e.g. USD)''))
     else if timezone \<noteq> '''' \<and> \<not> L timezone then
       Done (Inl (ValidationError ''timezone'' ''timezone must be a valid IANA timezone (e.g. America/New_York)''))
     else step (on_settings (settingsRepository_FindByUserID (m_settings D) u)) (\<lambda>q. ok_then (settings_found u q) (\<lambda>x.
       let x' = \<lparr>se_user = u, se_currency = (if currency \<noteq> '''' then currency else se_currency x),
                 se_timezone = (if timezone \<noteq> '''' then timezone else se_timezone x), se_updated = utc now\<rparr>
       in step (on_settings (settingsRepository_Upsert (m_settings D) x')) (\<lambda>w. ok_then w (\<lambda>_. Done (Inr x'))))))"

text \<open>Without overlap the programs are the operations.\<close>

lemma run_sequential:
  "run (Register_prog A D now salt uid inp) s = authService_Register A D now salt uid inp s"
  "run (issueTokenPair_prog A D now jti tid v) s = authService_issueTokenPair A D now jti tid v s"
  "run (Logout_prog A D now tok) s = authService_Logout A D now tok s"
  "run (RequestPasswordReset_prog A D email) s = authService_RequestPasswordReset A D email s"
  "run (GetProfile_prog D u) s = userService_GetProfile D u s"
  "run (UpdateProfile_prog D now u nm) s = userService_UpdateProfile D now u nm s"
  "run (GetSettings_prog D u) s = userService_GetSettings D u s"
  by (auto simp: Register_prog_def authService_Register_def issueTokenPair_prog_def authService_issueTokenPair_def
      Logout_prog_def authService_Logout_def RequestPasswordReset_prog_def authService_RequestPasswordReset_def
      GetProfile_prog_def userService_GetProfile_def UpdateProfile_prog_def userService_UpdateProfile_def
      GetSettings_prog_def userService_GetSettings_def settings_found_def Let_def ok_then_def on_ok_def
      split: prod.split sum.split option.split)

lemma run_UpdateSettings: "run (UpdateSettings_prog L D now u inp) s = userService_UpdateSettings L D now u inp s"
  by (auto simp: UpdateSettings_prog_def userService_UpdateSettings_def userService_GetSettings_def settings_found_def
      Let_def ok_then_def on_ok_def split: prod.split sum.split)

lemma run_Login: "run (Login_prog A D now jti tid email pw) s = authService_Login A D now jti tid email pw s"
  by (simp add: Login_prog_def authService_Login_def run_sequential split: prod.split sum.split)

lemma run_Refresh: "run (Refresh_prog A D now jti tid tok) s = authService_Refresh A D now jti tid tok s"
  by (simp add: Refresh_prog_def authService_Refresh_def authService_Refresh_check_def authService_Refresh_rotate_def
      run_sequential run_ok_then on_ok_def split: prod.split sum.split option.split)

section \<open>What the programs guarantee each other\<close>

text \<open>What no operation changes of a user.\<close>

definition persona :: "user \<Rightarrow> user \<Rightarrow> bool" where
  "persona u d \<longleftrightarrow> us_id d = us_id u \<and> us_email d = us_email u \<and> us_hash d = us_hash u \<and> ms_time (us_created d) = ms_time (us_created u)"

lemma persona_simps [simp]: "persona u u" "persona u (user_ms v) = persona u v" "persona (user_ms u) v = persona u v"
  by (auto simp: persona_def user_ms_def ms_time_def)

lemma persona_trans: "persona u v \<Longrightarrow> persona v w \<Longrightarrow> persona u w"
  by (simp add: persona_def)

lemma persona_edit:
  assumes "persona u d"
  shows "user_ms (u\<lparr>us_name := n, us_updated := t\<rparr>) = user_ms (d\<lparr>us_name := n, us_updated := t\<rparr>)"
  using assms by (cases u; cases d) (simp add: persona_def user_ms_def)

definition user_guar :: "(string \<Rightarrow> bool) \<Rightarrow> string set \<Rightarrow> string set \<Rightarrow> 'e user_db \<Rightarrow> 'e user_db \<Rightarrow> bool" where
  "user_guar L F K s s' \<longleftrightarrow> (user_inv L s \<longrightarrow> user_inv L s') \<and> tokens_from F (db_tokens s) (db_tokens s') \<and>
     (\<forall>d \<in> set (docs (db_users s)). \<exists>d' \<in> set (docs (db_users s')). persona d d') \<and>
     (\<forall>v. v \<notin> K \<longrightarrow> filter (\<lambda>d. us_id d = v) (docs (db_users s')) = filter (\<lambda>d. us_id d = v) (docs (db_users s)) \<and>
        filter (\<lambda>d. se_user d = v) (docs (db_settings s')) = filter (\<lambda>d. se_user d = v) (docs (db_settings s)))"

interpretation ug: interference "user_guar L F K"
proof
  fix s show "user_guar L F K s s" by (auto simp: user_guar_def tokens_from_same intro: persona_simps)
next
  fix a b c :: "'e user_db" assume g: "user_guar L F K a b" "user_guar L F K b c"
  have "\<exists>d' \<in> set (docs (db_users c)). persona d d'" if "d \<in> set (docs (db_users a))" for d
    using g that persona_trans unfolding user_guar_def by meson
  with g show "user_guar L F K a c" by (simp add: user_guar_def tokens_from_trans [of F "db_tokens a" "db_tokens b"])
qed

lemma guar_tokens:
  assumes "docs (db_users s') = docs (db_users s)" "docs (db_settings s') = docs (db_settings s)"
    and "tokens_from F (db_tokens s) (db_tokens s')"
  shows "user_guar L F K s s'"
  using assms by (auto simp: user_guar_def user_inv_def users_inv_def tokens_from_def intro: persona_simps)

lemma users_step_persona:
  assumes "users_step k c c'" and "users_inv c" and "d \<in> set (docs c)"
  shows "\<exists>d' \<in> set (docs c'). persona d d'"
  using assms(1) unfolding users_step_def
proof (elim disjE exE conjE)
  fix u n t assume u: "u \<in> set (docs c)" "us_id u = k"
    and up: "one_updated (\<lambda>d. us_id d = k) (\<lambda>_. user_ms (u\<lparr>us_name := n, us_updated := t\<rparr>)) (docs c) (docs c')"
  then obtain xs e ys where e: "docs c = xs @ e # ys" "us_id e = k" "docs c' = xs @ user_ms (u\<lparr>us_name := n, us_updated := t\<rparr>) # ys"
    by (auto simp: one_updated_def)
  have "e = u" using u e(1,2) assms(2) by (auto simp: users_inv_def distinct_map inj_on_def)
  then have "persona e (user_ms (u\<lparr>us_name := n, us_updated := t\<rparr>))"
    by (simp only: persona_simps) (simp add: persona_def)
  with e assms(3) show ?thesis by (auto intro: persona_simps)
qed (use assms(3) in \<open>auto intro: persona_simps\<close>)

lemma guar_profile:
  assumes inv: "user_inv L s" and k: "k \<in> K" and us: "users_step k (db_users s) (db_users s')"
    and se: "settings_step (settings_ok L) k (db_settings s) (db_settings s')" and tk: "docs (db_tokens s') = docs (db_tokens s)"
  shows "user_guar L F K s s'"
  unfolding user_guar_def
proof (intro conjI allI impI ballI)
  note i = inv [unfolded user_inv_def]
  show "user_inv L s'"
    using users_step_inv [OF us] settings_step_inv [OF se] i tk by (simp add: user_inv_def tok_inv_def)
  show "tokens_from F (db_tokens s) (db_tokens s')" by (rule tokens_from_same [OF tk])
  show "\<exists>d' \<in> set (docs (db_users s')). persona d d'" if "d \<in> set (docs (db_users s))" for d
    by (rule users_step_persona [OF us]) (use i that in simp_all)
  fix v assume "v \<notin> K"
  then have "k \<noteq> v" using k by blast
  then show "filter (\<lambda>d. us_id d = v) (docs (db_users s')) = filter (\<lambda>d. us_id d = v) (docs (db_users s))"
    "filter (\<lambda>d. se_user d = v) (docs (db_settings s')) = filter (\<lambda>d. se_user d = v) (docs (db_settings s))"
    by (rule users_step_other [OF us], rule settings_step_other [OF se])
qed

text \<open>What the others cannot take away.\<close>

definition calm_db :: "(string \<Rightarrow> bool) \<Rightarrow> string \<Rightarrow> bool \<Rightarrow> 'e user_db \<Rightarrow> bool" where
  "calm_db L h B s \<longleftrightarrow> user_inv L s \<and> (B \<longrightarrow> dead h (db_tokens s))"

definition known :: "user \<Rightarrow> 'e user_db \<Rightarrow> bool" where
  "known u s \<longleftrightarrow> (\<exists>d \<in> set (docs (db_users s)). persona u d)"

definition only_id :: "string \<Rightarrow> string \<Rightarrow> 'e token_coll \<Rightarrow> bool" where
  "only_id h i c \<longleftrightarrow> (\<forall>d \<in> set (docs c). rt_jti_hash d = h \<longrightarrow> rt_id d = i)"

lemma stable_dead: "h \<notin> F \<Longrightarrow> stable (user_guar L F K) (\<lambda>s. dead h (db_tokens s))"
  using dead_from by (auto simp: stable_def user_guar_def)

lemma stable_calm: "h \<notin> F \<Longrightarrow> stable (user_guar L F K) (calm_db L h B)"
  using dead_from by (auto simp: stable_def calm_db_def user_guar_def)

lemma stable_only_id: "h \<notin> F \<Longrightarrow> stable (user_guar L F K) (\<lambda>s. only_id h i (db_tokens s))"
  by (fastforce simp: stable_def only_id_def user_guar_def tokens_from_def)

lemma stable_known: "stable (user_guar L F K) (known u)"
  unfolding stable_def known_def user_guar_def by (meson persona_trans)

section \<open>Every call is safe\<close>

lemma guar_read_users:
  assumes "on_users f s = (r, s')" and "\<And>c. f (db_users s) = (r, c) \<Longrightarrow> docs c = docs (db_users s)"
  shows "user_guar L F K s s'"
proof -
  obtain c where c: "f (db_users s) = (r, c)" "s' = s\<lparr>db_users := c\<rparr>" using assms(1) by (auto simp: on_users_eq)
  show ?thesis by (rule guar_tokens) (simp_all add: c(2) assms(2) [OF c(1)] tokens_from_same)
qed

lemma guar_read_settings:
  assumes "on_settings f s = (r, s')" and "\<And>c. f (db_settings s) = (r, c) \<Longrightarrow> docs c = docs (db_settings s)"
  shows "user_guar L F K s s'"
proof -
  obtain c where c: "f (db_settings s) = (r, c)" "s' = s\<lparr>db_settings := c\<rparr>" using assms(1) by (auto simp: on_settings_eq)
  show ?thesis by (rule guar_tokens) (simp_all add: c(2) assms(2) [OF c(1)] tokens_from_same)
qed

lemma guar_on_tokens:
  assumes "on_tokens f s = (r, s')" and "\<And>c. f (db_tokens s) = (r, c) \<Longrightarrow> tokens_from F (db_tokens s) c"
  shows "user_guar L F K s s'"
  using assms by (auto simp: on_tokens_eq intro: guar_tokens)

lemma token_calls_from:
  assumes "lawful token_conflict M"
  shows "refreshTokenRepository_FindByJTIHash M k c = (r1, c') \<Longrightarrow> tokens_from F c c'"
    and "refreshTokenRepository_Revoke M k c = (r2, c') \<Longrightarrow> tokens_from F c c'"
    and "refreshTokenRepository_RevokeAllForUser M k c = (r2, c') \<Longrightarrow> tokens_from F c c'"
    and "refreshTokenRepository_Create M t c = (r2, c') \<Longrightarrow> rt_jti_hash t \<in> F \<Longrightarrow> tokens_from F c c'"
proof -
  show "refreshTokenRepository_FindByJTIHash M k c = (r1, c') \<Longrightarrow> tokens_from F c c'"
    by (rule tokens_from_same [OF token_by_hash(1) [OF assms]])
  show "refreshTokenRepository_Revoke M k c = (r2, c') \<Longrightarrow> tokens_from F c c'"
    using token_Revoke_cases(1) [OF assms] tokens_from_same tokens_from_updated by blast
  show "refreshTokenRepository_RevokeAllForUser M k c = (r2, c') \<Longrightarrow> tokens_from F c c'"
    by (rule tokens_from_many [OF token_RevokeAll_cases(1) [OF assms]])
  assume "refreshTokenRepository_Create M t c = (r2, c')" and F: "rt_jti_hash t \<in> F"
  from token_Create_cases(1) [OF assms this(1)] show "tokens_from F c c'"
  proof (elim disjE conjE)
    assume "docs c' = docs c @ [token_ms t]" "\<forall>x \<in> set (docs c). \<not> token_conflict x (token_ms t)"
    then show ?thesis by (rule tokens_from_insert) (simp add: token_ms_def F)
  qed (rule tokens_from_same)
qed

lemma guar_token_calls:
  assumes "lawful_user D"
  shows "on_tokens (refreshTokenRepository_FindByJTIHash (m_tokens D) k) s = (r1, s') \<Longrightarrow> user_guar L F K s s'"
    and "on_tokens (refreshTokenRepository_Revoke (m_tokens D) k) s = (r2, s') \<Longrightarrow> user_guar L F K s s'"
    and "on_tokens (refreshTokenRepository_RevokeAllForUser (m_tokens D) k) s = (r2, s') \<Longrightarrow> user_guar L F K s s'"
  by (erule guar_on_tokens, rule token_calls_from(1-3) [OF lawful_userD(3) [OF assms]], assumption)+

lemma guar_find:
  assumes "lawful_user D"
  shows "on_users (userRepository_FindByEmail (m_users D) email) s = (r, s') \<Longrightarrow> user_guar L F K s s'"
    and "on_users (userRepository_FindByID (m_users D) k) s = (r, s') \<Longrightarrow> user_guar L F K s s'"
    and "on_settings (settingsRepository_FindByUserID (m_settings D) k) s = (r2, s') \<Longrightarrow> user_guar L F K s s'"
  by (erule guar_read_users guar_read_settings,
      rule user_by_email(1) [OF lawful_userD(1) [OF assms]] user_by_id(1) [OF lawful_userD(1) [OF assms]]
        settings_by_user(1) [OF lawful_userD(2) [OF assms]], assumption)+

lemma issue_safe:
  assumes D: "lawful_user D" and F: "hashJTI A jti \<in> F" and P: "stable (user_guar L F K) P"
  shows "safe (user_guar L F K) P (issueTokenPair_prog A D now jti tid u) (\<lambda>_. P)"
proof -
  have "safe (user_guar L F K) P (ok_then w (\<lambda>_. Done (Inr x))) (\<lambda>_. P)" for w :: "unit res" and x :: login_result
    by (cases w) (auto intro: safe_Done [OF P])
  moreover have "user_guar L F K s s'"
    if "on_tokens (refreshTokenRepository_Create (m_tokens D) t) s = (r, s')" "rt_jti_hash t \<in> F" for t s r s'
    by (rule guar_on_tokens [OF that(1)]) (rule token_calls_from(4) [OF lawful_userD(3) [OF D] _ that(2)])
  ultimately show ?thesis
    unfolding issueTokenPair_prog_def using F
    by (auto intro!: safe_Done [OF P] safe_step_quiet [OF P] split: option.split)
qed

text \<open>A time and a token that \<open>Refresh\<close> and \<open>Logout\<close> take for the hash \<open>h\<close>.\<close>

definition carries :: "auth \<Rightarrow> string \<Rightarrow> gotime \<Rightarrow> string \<Rightarrow> bool" where
  "carries A h now tok \<longleftrightarrow> (case jwtx_Parse (au_jwt A) now (au_refresh_secret A) tok TypeRefresh of
     None \<Rightarrow> False | Some cl \<Rightarrow> hashJTI A (cl_jti cl) = h)"

lemma revoked_dead:
  assumes inv: "tok_inv c" and only: "only_id h i c" and upd: "one_updated (\<lambda>d. rt_id d = i) set_revoked (docs c) (docs c')"
  shows "dead h c'"
proof -
  obtain xs d ys where d: "docs c = xs @ d # ys" "rt_id d = i" "docs c' = xs @ set_revoked d # ys"
    using upd by (auto simp: one_updated_def)
  have "rt_jti_hash x \<noteq> h" if "x \<in> set xs \<union> set ys" for x
  proof
    assume "rt_jti_hash x = h"
    then have "rt_id x = rt_id d" using only that d by (auto simp: only_id_def)
    then show False using inv d(1) that by (auto simp: tok_inv_def image_iff)
  qed
  then show ?thesis using d(3) by (auto simp: dead_def)
qed

text \<open>What is known of a token that was found unrevoked: it is not a dead one, and its id will do to revoke it.\<close>

definition found_live :: "string \<Rightarrow> bool \<Rightarrow> refresh_token \<Rightarrow> 'e user_db \<Rightarrow> bool" where
  "found_live h B rt s \<longleftrightarrow> (rt_jti_hash rt = h \<and> \<not> rt_revoked rt \<longrightarrow> \<not> B \<and> only_id h (rt_id rt) (db_tokens s))"

lemma stable_found_live: "h \<notin> F \<Longrightarrow> stable (user_guar L F K) (found_live h B rt)"
  unfolding found_live_def by (intro stable_imp stable_conj stable_const stable_only_id)

lemma find_live:
  assumes D: "lawful_user D" and calm: "calm_db L h B s"
    and f: "on_tokens (refreshTokenRepository_FindByJTIHash (m_tokens D) k) s = (Inr rt, s')"
  shows "rt_jti_hash rt = k \<and> found_live h B rt s' \<and> (rt_jti_hash rt = h \<and> rt_revoked rt \<longrightarrow> dead h (db_tokens s'))"
proof -
  obtain c where c: "refreshTokenRepository_FindByJTIHash (m_tokens D) k (db_tokens s) = (Inr rt, c)" "s' = s\<lparr>db_tokens := c\<rparr>"
    using f by (auto simp: on_tokens_eq)
  note t = token_by_hash(1,2) [OF lawful_userD(3) [OF D] c(1)]
  have rt: "rt \<in> set (docs (db_tokens s))" "rt_jti_hash rt = k" using t(2) by simp_all
  have "d = rt" if "d \<in> set (docs (db_tokens s))" "rt_jti_hash d = rt_jti_hash rt" for d
    using calm that rt(1) by (auto simp: calm_db_def user_inv_def tok_inv_def distinct_map dest: inj_onD)
  then have uniq: "d = rt" if "d \<in> set (docs (db_tokens s'))" "rt_jti_hash d = rt_jti_hash rt" for d
    using that c(2) t(1) by simp
  have "only_id (rt_jti_hash rt) (rt_id rt) (db_tokens s')" unfolding only_id_def using uniq by blast
  moreover have "\<not> B" if "rt_jti_hash rt = h" "\<not> rt_revoked rt" using calm rt(1) that by (auto simp: calm_db_def dead_def)
  moreover have "dead (rt_jti_hash rt) (db_tokens s')" if "rt_revoked rt" unfolding dead_def using uniq that by blast
  ultimately show ?thesis using rt(2) by (auto simp: found_live_def)
qed

text \<open>Revoking a token that was found live kills its hash; \<open>z\<close> says whether it is the token of interest.\<close>

lemma revoke_step:
  assumes D: "lawful_user D" and live: "\<not> rt_revoked rt" and calm: "calm_db L h B s"
    and z: "z \<Longrightarrow> rt_jti_hash rt = h \<and> found_live h B rt s"
    and rv: "on_tokens (refreshTokenRepository_Revoke (m_tokens D) (rt_id rt)) s = (w, s')"
  shows "user_guar L F K s s' \<and> (z \<and> (\<exists>y. w = Inr y) \<longrightarrow> \<not> B \<and> dead h (db_tokens s'))"
proof -
  obtain c where c: "refreshTokenRepository_Revoke (m_tokens D) (rt_id rt) (db_tokens s) = (w, c)" "s' = s\<lparr>db_tokens := c\<rparr>"
    using rv by (auto simp: on_tokens_eq)
  have "dead h c" if "z" "w = Inr y" for y
    by (rule revoked_dead [OF _ _ token_Revoke_cases(2) [OF lawful_userD(3) [OF D] c(1) that(2)]])
       (use calm live z [OF that(1)] in \<open>auto simp: calm_db_def user_inv_def found_live_def\<close>)
  moreover have "\<not> B" if "z" using live z [OF that] by (simp add: found_live_def)
  ultimately show ?thesis using guar_token_calls(2) [OF D rv] c(2) by auto
qed

lemma rotate_safe:
  assumes D: "lawful_user D" and h: "h \<notin> F" and F: "hashJTI A jti \<in> F" and live: "\<not> rt_revoked rt"
  shows "safe (user_guar L F K) (\<lambda>s. calm_db L h B s \<and> (z \<longrightarrow> rt_jti_hash rt = h \<and> found_live h B rt s))
    (step (on_tokens (refreshTokenRepository_Revoke (m_tokens D) (rt_id rt))) (\<lambda>w. ok_then w (\<lambda>_. issueTokenPair_prog A D now jti tid u)))
    (\<lambda>r s. z \<and> (\<exists>x. r = Inr x) \<longrightarrow> \<not> B \<and> dead h (db_tokens s))"
proof -
  let ?G = "user_guar L F K" and ?P = "\<lambda>s. calm_db L h B s \<and> (z \<longrightarrow> rt_jti_hash rt = h \<and> found_live h B rt s)"
  let ?R = "\<lambda>s. calm_db L h B s \<and> (z \<longrightarrow> \<not> B \<and> dead h (db_tokens s))" and ?Q = "\<lambda>r s. z \<and> (\<exists>x. r = Inr x) \<longrightarrow> \<not> B \<and> dead h (db_tokens s)"
  have sP: "stable ?G ?P" and sR: "stable ?G ?R"
    by (intro stable_conj stable_calm [OF h] stable_imp stable_found_live [OF h] stable_dead [OF h] stable_const)+
  have issue: "safe ?G ?R (issueTokenPair_prog A D now jti tid u) ?Q"
    by (rule safe_post [OF issue_safe [OF D F sR]]) simp
  show ?thesis
  proof (rule safe_step_and [where E = "\<lambda>w s. z \<and> (\<exists>y. w = Inr y) \<longrightarrow> \<not> B \<and> dead h (db_tokens s)", OF sP], goal_cases)
    case (1 w)
    show ?case by (intro stable_imp stable_conj stable_const stable_dead [OF h])
  next
    case (2 s w s')
    then show ?case by (intro revoke_step [OF D live]) auto
  next
    case (3 w)
    have st: "stable ?G (\<lambda>s. ?P s \<and> (z \<longrightarrow> \<not> B \<and> dead h (db_tokens s)))"
      by (intro stable_conj [OF sP] stable_imp stable_conj stable_const stable_dead [OF h])
    show ?case using safe_pre [OF issue st] by (cases w) (auto intro!: safe_Done [OF sP])
  qed
qed

lemma Refresh_safe:
  assumes D: "lawful_user D" and h: "h \<notin> F" and F: "hashJTI A jti \<in> F"
  shows "safe (user_guar L F K) (calm_db L h B) (Refresh_prog A D now jti tid tok)
    (\<lambda>r s. carries A h now tok \<and> (\<exists>x. r = Inr x) \<longrightarrow> \<not> B \<and> dead h (db_tokens s))"
proof (cases "jwtx_Parse (au_jwt A) now (au_refresh_secret A) tok TypeRefresh")
  case None
  then show ?thesis by (auto simp: Refresh_prog_def intro: safe_Done stable_calm [OF h])
next
  case cl: (Some cl)
  let ?G = "user_guar L F K" and ?hc = "hashJTI A (cl_jti cl)"
  let ?Q = "\<lambda>r s. carries A h now tok \<and> (\<exists>x. r = Inr x) \<longrightarrow> \<not> B \<and> dead h (db_tokens s)"
  have hc: "carries A h now tok \<longleftrightarrow> ?hc = h" by (simp add: carries_def cl)
  note sc = stable_calm [OF h, of L K B]
  let ?P = "\<lambda>rt s. calm_db L h B s \<and> (?hc = h \<longrightarrow> rt_jti_hash rt = h \<and> found_live h B rt s)"
  have sP: "stable ?G (?P rt)" for rt by (intro stable_conj sc stable_imp stable_found_live [OF h] stable_const)
  have fail: "safe ?G P (Done (Inl e)) ?Q" if "stable ?G P" for P e by (rule safe_Done [OF that]) simp
  have rotate: "safe ?G (?P rt) (step (on_tokens (refreshTokenRepository_Revoke (m_tokens D) (rt_id rt)))
      (\<lambda>w. ok_then w (\<lambda>_. issueTokenPair_prog A D now jti tid u))) ?Q" if live: "\<not> rt_revoked rt" for rt u
    by (rule safe_post [OF rotate_safe [OF D h F live]]) (simp add: hc)
  have user: "safe ?G (?P rt) (step (on_users (userRepository_FindByID (m_users D) (cl_user cl))) (\<lambda>v. case v of
      Inl e \<Rightarrow> Done (Inl (if e = ErrNotFound then ErrInvalidToken else e))
    | Inr u \<Rightarrow> step (on_tokens (refreshTokenRepository_Revoke (m_tokens D) (rt_id rt)))
        (\<lambda>w. ok_then w (\<lambda>_. issueTokenPair_prog A D now jti tid u)))) ?Q" if "\<not> rt_revoked rt" for rt
    by (auto intro!: safe_step_quiet [OF sP] fail [OF sP] rotate [OF that] intro: guar_find [OF D] split: sum.split)
  have replay: "safe ?G (?P rt) (step (on_tokens (refreshTokenRepository_RevokeAllForUser (m_tokens D) (rt_user rt)))
      (\<lambda>w. ok_then w (\<lambda>_. Done (Inl ErrInvalidToken)))) ?Q" for rt
    by (rule safe_step_quiet [OF sP], erule guar_token_calls(3) [OF D])
       (auto simp: ok_then_def intro: fail [OF sP] split: sum.split)
  show ?thesis unfolding Refresh_prog_def cl option.case
  proof (rule safe_step_and [where E = "\<lambda>q s. \<forall>rt. q = Inr rt \<longrightarrow> ?hc = h \<longrightarrow> rt_jti_hash rt = h \<and> found_live h B rt s", OF sc])
    fix q :: "refresh_token res"
    show "stable ?G (\<lambda>s. \<forall>rt. q = Inr rt \<longrightarrow> ?hc = h \<longrightarrow> rt_jti_hash rt = h \<and> found_live h B rt s)"
      using stable_found_live [OF h, of L K B] unfolding stable_def by blast
  next
    fix s q s' assume "calm_db L h B s" "on_tokens (refreshTokenRepository_FindByJTIHash (m_tokens D) ?hc) s = (q, s')"
    then show "?G s s' \<and> (\<forall>rt. q = Inr rt \<longrightarrow> ?hc = h \<longrightarrow> rt_jti_hash rt = h \<and> found_live h B rt s')"
      using find_live [OF D] guar_token_calls(1) [OF D] by blast
  next
    fix q :: "refresh_token res"
    show "safe ?G (\<lambda>s. calm_db L h B s \<and> (\<forall>rt. q = Inr rt \<longrightarrow> ?hc = h \<longrightarrow> rt_jti_hash rt = h \<and> found_live h B rt s))
      (case q of Inl e \<Rightarrow> Done (Inl (if e = ErrNotFound then ErrInvalidToken else e))
       | Inr rt \<Rightarrow>
          if rt_revoked rt then step (on_tokens (refreshTokenRepository_RevokeAllForUser (m_tokens D) (rt_user rt)))
            (\<lambda>w. ok_then w (\<lambda>_. Done (Inl ErrInvalidToken)))
          else if time_after now (rt_expires rt) then Done (Inl ErrInvalidToken)
          else step (on_users (userRepository_FindByID (m_users D) (cl_user cl))) (\<lambda>v. case v of
              Inl e \<Rightarrow> Done (Inl (if e = ErrNotFound then ErrInvalidToken else e))
            | Inr u \<Rightarrow> step (on_tokens (refreshTokenRepository_Revoke (m_tokens D) (rt_id rt)))
                (\<lambda>w. ok_then w (\<lambda>_. issueTokenPair_prog A D now jti tid u)))) ?Q"
      by (cases q) (simp_all add: fail sc sP replay user)
  qed
qed

lemma Logout_safe:
  assumes D: "lawful_user D" and h: "h \<notin> F"
  shows "safe (user_guar L F K) (calm_db L h B) (Logout_prog A D now tok)
    (\<lambda>r s. carries A h now tok \<and> r = Inr () \<longrightarrow> dead h (db_tokens s))"
proof (cases "jwtx_Parse (au_jwt A) now (au_refresh_secret A) tok TypeRefresh")
  case None
  then show ?thesis by (auto simp: Logout_prog_def carries_def intro: safe_Done stable_calm [OF h])
next
  case cl: (Some cl)
  let ?G = "user_guar L F K" and ?hc = "hashJTI A (cl_jti cl)"
  let ?Q = "\<lambda>r s. carries A h now tok \<and> r = Inr () \<longrightarrow> dead h (db_tokens s)"
  have hc: "carries A h now tok \<longleftrightarrow> ?hc = h" by (simp add: carries_def cl)
  note sc = stable_calm [OF h, of L K B] and sd = stable_dead [OF h, of L K]
  let ?E = "\<lambda>q s. ?hc = h \<longrightarrow> (case q of
      Inl e \<Rightarrow> e = ErrNotFound \<longrightarrow> dead h (db_tokens s)
    | Inr rt \<Rightarrow> rt_jti_hash rt = h \<and> found_live h B rt s \<and> (rt_revoked rt \<longrightarrow> dead h (db_tokens s)))"
  have sE: "stable ?G (?E q)" for q
    by (cases q) (simp_all, (intro stable_imp stable_conj stable_const sd stable_found_live [OF h])+)
  have revoke: "safe ?G (\<lambda>s. calm_db L h B s \<and> ?E (Inr rt) s) (step (on_tokens (refreshTokenRepository_Revoke (m_tokens D) (rt_id rt))) Done) ?Q"
    if live: "\<not> rt_revoked rt" for rt
  proof (rule safe_step_and [where E = "\<lambda>w s. ?hc = h \<and> w = Inr () \<longrightarrow> dead h (db_tokens s)"])
    fix s w s' assume P: "calm_db L h B s \<and> ?E (Inr rt) s"
      and rv: "on_tokens (refreshTokenRepository_Revoke (m_tokens D) (rt_id rt)) s = (w, s')"
    have "?G s s' \<and> (?hc = h \<and> (\<exists>y. w = Inr y) \<longrightarrow> \<not> B \<and> dead h (db_tokens s'))"
      by (rule revoke_step [OF D live _ _ rv]) (use P in auto)
    then show "?G s s' \<and> (?hc = h \<and> w = Inr () \<longrightarrow> dead h (db_tokens s'))" by simp
  next
    fix w :: "unit res"
    have "stable ?G (\<lambda>s. (calm_db L h B s \<and> ?E (Inr rt) s) \<and> (?hc = h \<and> w = Inr () \<longrightarrow> dead h (db_tokens s)))"
      by (intro stable_conj [OF stable_conj [OF sc sE]] stable_imp sd)
    then show "safe ?G (\<lambda>s. (calm_db L h B s \<and> ?E (Inr rt) s) \<and> (?hc = h \<and> w = Inr () \<longrightarrow> dead h (db_tokens s))) (Done w) ?Q"
      by (rule safe_Done) (simp add: hc)
  qed (intro stable_conj sc sE stable_imp sd)+
  show ?thesis unfolding Logout_prog_def cl option.case
  proof (rule safe_step_and [where E = ?E, OF sc sE])
    fix s q s' assume P: "calm_db L h B s" and f: "on_tokens (refreshTokenRepository_FindByJTIHash (m_tokens D) ?hc) s = (q, s')"
    obtain c where c: "refreshTokenRepository_FindByJTIHash (m_tokens D) ?hc (db_tokens s) = (q, c)" "s' = s\<lparr>db_tokens := c\<rparr>"
      using f by (auto simp: on_tokens_eq)
    have "?E q s'"
    proof (cases q)
      case (Inl e)
      with token_by_hash(1,3) [OF lawful_userD(3) [OF D] c(1)] c(2) show ?thesis by (auto simp: dead_def)
    next
      case (Inr rt)
      with find_live [OF D P] f show ?thesis by simp
    qed
    with guar_token_calls(1) [OF D f] show "?G s s' \<and> ?E q s'" by simp
  next
    fix q :: "refresh_token res"
    note fin = safe_Done [OF stable_conj [OF sc sE]]
    show "safe ?G (\<lambda>s. calm_db L h B s \<and> ?E q s)
      (case q of Inl e \<Rightarrow> Done (if e = ErrNotFound then Inr () else Inl e)
       | Inr rt \<Rightarrow> if rt_revoked rt then Done (Inr ())
          else step (on_tokens (refreshTokenRepository_Revoke (m_tokens D) (rt_id rt))) Done) ?Q"
    proof (cases q)
      case (Inl e)
      show ?thesis unfolding Inl sum.case(1) by (rule fin [of "Inl e", simplified sum.case]) (auto simp: hc)
    next
      case (Inr rt)
      show ?thesis
      proof (cases "rt_revoked rt")
        case True
        show ?thesis unfolding Inr sum.case(2) if_P [OF True] by (rule fin [of "Inr rt", simplified sum.case]) (auto simp: hc True)
      next
        case False
        with revoke [OF False] Inr show ?thesis by simp
      qed
    qed
  qed
qed

lemma Login_safe:
  assumes D: "lawful_user D" and F: "hashJTI A jti \<in> F" and P: "stable (user_guar L F K) P"
  shows "safe (user_guar L F K) P (Login_prog A D now jti tid email pw) (\<lambda>_. P)"
  unfolding Login_prog_def
  by (auto intro!: safe_step_quiet [OF P] safe_Done [OF P] issue_safe [OF D F P] intro: guar_find [OF D] split: sum.split)

lemma read_safe:
  assumes D: "lawful_user D" and P: "stable (user_guar L F K) P"
  shows "safe (user_guar L F K) P (RequestPasswordReset_prog A D email) (\<lambda>_. P)"
    and "safe (user_guar L F K) P (GetProfile_prog D u) (\<lambda>_. P)"
    and "safe (user_guar L F K) P (GetSettings_prog D u) (\<lambda>_. P)"
  unfolding RequestPasswordReset_prog_def GetProfile_prog_def GetSettings_prog_def
  by (auto intro!: safe_step_quiet [OF P] safe_Done [OF P] intro: guar_find [OF D])

text \<open>The writers of users and settings need the invariant, which \<open>calm_db\<close> has.\<close>

lemma known_persona: "d \<in> set (docs (db_users s)) \<Longrightarrow> persona u d \<Longrightarrow> known u s"
  by (auto simp: known_def)

lemma guar_upsert:
  assumes D: "lawful_user D" and inv: "user_inv L s" and k: "se_user x \<in> K" and ok: "settings_ok L x"
    and up: "on_settings (settingsRepository_Upsert (m_settings D) x) s = (r, s')"
  shows "user_guar L F K s s'"
proof -
  obtain c where c: "settingsRepository_Upsert (m_settings D) x (db_settings s) = (r, c)" "s' = s\<lparr>db_settings := c\<rparr>"
    using up by (auto simp: on_settings_eq)
  have "settings_step (settings_ok L) (se_user x) (db_settings s) c"
    using settings_Upsert_step [OF lawful_userD(2) [OF D] c(1), of "settings_ok L"] ok by simp
  then show ?thesis by (intro guar_profile [OF inv k]) (simp_all add: c(2) users_step_same)
qed

lemma guar_create:
  assumes D: "lawful_user D" and inv: "user_inv L s" and k: "us_id u \<in> K"
    and cr: "on_users (userRepository_Create (m_users D) u) s = (r, s')"
  shows "user_guar L F K s s'" and "r = Inr w \<Longrightarrow> known u s'"
proof -
  obtain c where c: "userRepository_Create (m_users D) u (db_users s) = (r, c)" "s' = s\<lparr>db_users := c\<rparr>"
    using cr by (auto simp: on_users_eq)
  note cc = userRepository_Create_cases [OF lawful_userD(1) [OF D] c(1)]
  have "users_step (us_id u) (db_users s) c" using cc(1) by (auto simp: users_step_def)
  then show "user_guar L F K s s'" by (intro guar_profile [OF inv k]) (simp_all add: c(2) settings_step_same)
  show "known u s'" if "r = Inr w" using cc(2) [OF that] c(2) by (auto simp: known_def intro: persona_simps)
qed

lemma guar_update:
  assumes D: "lawful_user D" and inv: "user_inv L s" and k: "us_id x \<in> K" and kn: "known x s"
    and up: "on_users (userRepository_Update (m_users D) (x\<lparr>us_name := n, us_updated := t\<rparr>)) s = (r, s')"
  shows "user_guar L F K s s'"
proof -
  let ?x = "x\<lparr>us_name := n, us_updated := t\<rparr>"
  obtain c where c: "userRepository_Update (m_users D) ?x (db_users s) = (r, c)" "s' = s\<lparr>db_users := c\<rparr>"
    using up by (auto simp: on_users_eq)
  obtain d where d: "d \<in> set (docs (db_users s))" "persona x d" using kn by (auto simp: known_def)
  obtain w c0 where w: "update_one (m_users D) (\<lambda>d. us_id d = us_id x) (\<lambda>_. user_ms ?x) (db_users s) = (w, c0)"
    by (cases "update_one (m_users D) (\<lambda>d. us_id d = us_id x) (\<lambda>_. user_ms ?x) (db_users s)")
  have "c = c0" using c(1) w by (auto simp: userRepository_Update_def split: sum.splits if_splits)
  then have "users_step (us_id x) (db_users s) c"
    using update_one_cases [OF lawful_userD(1) [OF D] w] d unfolding persona_edit [OF d(2)] users_step_def persona_def by auto
  then show ?thesis by (intro guar_profile [OF inv k]) (simp_all add: c(2) settings_step_same)
qed

lemma Register_safe:
  assumes D: "lawful_user D" and h: "h \<notin> F" and k: "uid \<in> K" and L: "L ''UTC''"
  shows "safe (user_guar L F K) (calm_db L h B) (Register_prog A D now salt uid inp)
    (\<lambda>r s. \<forall>u. r = Inr u \<longrightarrow> us_id u = uid \<and> us_email u = normalizeEmail A (ri_email inp) \<and> known u s \<and> user_inv L s)"
proof -
  let ?G = "user_guar L F K" and ?em = "normalizeEmail A (ri_email inp)"
  let ?Q = "\<lambda>r s. \<forall>u. r = Inr u \<longrightarrow> us_id u = uid \<and> us_email u = ?em \<and> known u s \<and> user_inv L s"
  note sc = stable_calm [OF h, of L K B]
  have fail: "safe ?G P (Done (Inl e)) ?Q" if "stable ?G P" for P e by (rule safe_Done [OF that]) simp
  have "currencyPattern ''USD''" by code_simp
  then have ok: "settings_ok L \<lparr>se_user = uid, se_currency = ''USD'', se_timezone = ''UTC'', se_updated = t\<rparr>" for t
    using L by (simp add: settings_ok_def)
  have inv: "calm_db L h B s \<Longrightarrow> user_inv L s" for s by (simp add: calm_db_def)
  have rest: "safe ?G (calm_db L h B) (step (on_users (userRepository_Create (m_users D) u)) (\<lambda>w. ok_then w (\<lambda>_.
      step (on_settings (settingsRepository_Upsert (m_settings D)
          \<lparr>se_user = uid, se_currency = ''USD'', se_timezone = ''UTC'', se_updated = utc now\<rparr>))
        (\<lambda>v. ok_then v (\<lambda>_. Done (Inr u)))))) ?Q" if u: "us_id u = uid" "us_email u = ?em" for u
  proof (rule safe_step_and [where E = "\<lambda>w s. (\<exists>y. w = Inr y) \<longrightarrow> known u s", OF sc])
    fix s w s' assume "calm_db L h B s" "on_users (userRepository_Create (m_users D) u) s = (w, s')"
    with guar_create [OF D inv] u(1) k show "?G s s' \<and> ((\<exists>y. w = Inr y) \<longrightarrow> known u s')" by blast
  next
    fix w :: "unit res"
    have st: "stable ?G (\<lambda>s. calm_db L h B s \<and> known u s)" by (intro stable_conj sc stable_known)
    have fin: "safe ?G (\<lambda>s. calm_db L h B s \<and> known u s) (ok_then v (\<lambda>_. Done (Inr u))) ?Q" for v :: "unit res"
    proof (cases v)
      case (Inr y)
      have "safe ?G (\<lambda>s. calm_db L h B s \<and> known u s) (Done (Inr u)) ?Q" by (rule safe_Done [OF st]) (simp add: u calm_db_def)
      with Inr show ?thesis by simp
    qed (simp add: fail [OF st])
    have put: "safe ?G (\<lambda>s. calm_db L h B s \<and> known u s) (step (on_settings (settingsRepository_Upsert (m_settings D)
          \<lparr>se_user = uid, se_currency = ''USD'', se_timezone = ''UTC'', se_updated = utc now\<rparr>)) (\<lambda>v. ok_then v (\<lambda>_. Done (Inr u)))) ?Q"
      by (rule safe_step_quiet [OF st _ fin]) (use guar_upsert [OF D inv _ ok] k in auto)
    show "safe ?G (\<lambda>s. calm_db L h B s \<and> ((\<exists>y. w = Inr y) \<longrightarrow> known u s)) (ok_then w (\<lambda>_.
      step (on_settings (settingsRepository_Upsert (m_settings D)
          \<lparr>se_user = uid, se_currency = ''USD'', se_timezone = ''UTC'', se_updated = utc now\<rparr>))
        (\<lambda>v. ok_then v (\<lambda>_. Done (Inr u))))) ?Q"
      by (cases w) (simp_all add: fail sc put)
  qed (intro stable_imp stable_known)
  show ?thesis unfolding Register_prog_def Let_def
    by (rule safe_step_quiet [OF sc], erule guar_find [OF D])
       (auto intro!: fail [OF sc] rest split: sum.split option.split)
qed

lemma UpdateProfile_safe:
  fixes D :: "'e user_drivers"
  assumes D: "lawful_user D" and h: "h \<notin> F" and k: "u \<in> K"
  shows "safe (user_guar L F K) (calm_db L h B) (UpdateProfile_prog D now u nm) (\<lambda>_ _. True)"
proof -
  let ?G = "user_guar L F K" and ?Q = "\<lambda>_ _. True"
  note sc = stable_calm [OF h, of L K B]
  have fin: "safe ?G P (Done r) ?Q" if "stable ?G P" for P and r :: "user res" by (rule safe_Done [OF that]) simp
  have put: "safe ?G (\<lambda>s. calm_db L h B s \<and> (us_id x = u \<and> known x s))
      (step (on_users (userRepository_Update (m_users D) (x\<lparr>us_name := n, us_updated := t\<rparr>))) (\<lambda>w. ok_then w (\<lambda>_. Done r))) ?Q"
    for x n t and r :: "user res"
  proof -
    have st: "stable ?G (\<lambda>s :: 'e user_db. calm_db L h B s \<and> (us_id x = u \<and> known x s))" by (intro stable_conj sc stable_const stable_known)
    have "safe ?G (\<lambda>s :: 'e user_db. calm_db L h B s \<and> (us_id x = u \<and> known x s)) (ok_then w (\<lambda>_. Done r)) ?Q" for w :: "unit res"
      by (cases w) (simp_all add: fin [OF st])
    moreover have "?G s s'" if "calm_db L h B s \<and> (us_id x = u \<and> known x s)"
      "on_users (userRepository_Update (m_users D) (x\<lparr>us_name := n, us_updated := t\<rparr>)) s = (w, s')" for s w s'
      by (rule guar_update [OF D _ _ _ that(2)]) (use that(1) k in \<open>auto simp: calm_db_def\<close>)
    ultimately show ?thesis by (intro safe_step_quiet [OF st]) blast+
  qed
  have edit: "safe ?G (calm_db L h B) (step (on_users (userRepository_FindByID (m_users D) u)) (\<lambda>q. ok_then q (\<lambda>x.
      step (on_users (userRepository_Update (m_users D) (x\<lparr>us_name := n, us_updated := t\<rparr>)))
        (\<lambda>w. ok_then w (\<lambda>_. Done (Inr (x\<lparr>us_name := n, us_updated := t\<rparr>))))))) ?Q" for n t
  proof (rule safe_step_and [where E = "\<lambda>q s. \<forall>x. q = Inr x \<longrightarrow> us_id x = u \<and> known x s", OF sc])
    fix q :: "user res" show "stable ?G (\<lambda>s. \<forall>x. q = Inr x \<longrightarrow> us_id x = u \<and> known x s)"
      using stable_known [of L F K] unfolding stable_def by blast
  next
    fix s q s' assume f: "on_users (userRepository_FindByID (m_users D) u) s = (q, s')"
    then obtain c where c: "userRepository_FindByID (m_users D) u (db_users s) = (q, c)" "s' = s\<lparr>db_users := c\<rparr>" by (auto simp: on_users_eq)
    have "us_id x = u \<and> known x s'" if "q = Inr x" for x
      using user_by_id(1,2) [OF lawful_userD(1) [OF D] c(1)] that c(2) by (auto intro: known_persona persona_simps)
    with guar_find(2) [OF D f] show "?G s s' \<and> (\<forall>x. q = Inr x \<longrightarrow> us_id x = u \<and> known x s')" by blast
  next
    fix q :: "user res"
    show "safe ?G (\<lambda>s. calm_db L h B s \<and> (\<forall>x. q = Inr x \<longrightarrow> us_id x = u \<and> known x s)) (ok_then q (\<lambda>x.
      step (on_users (userRepository_Update (m_users D) (x\<lparr>us_name := n, us_updated := t\<rparr>)))
        (\<lambda>w. ok_then w (\<lambda>_. Done (Inr (x\<lparr>us_name := n, us_updated := t\<rparr>)))))) ?Q"
      by (cases q) (simp_all add: fin sc put)
  qed
  show ?thesis unfolding UpdateProfile_prog_def Let_def by (simp add: fin sc edit)
qed

lemma UpdateSettings_safe:
  fixes D :: "'e user_drivers"
  assumes D: "lawful_user D" and h: "h \<notin> F" and k: "u \<in> K" and L: "L ''UTC''"
  shows "safe (user_guar L F K) (calm_db L h B) (UpdateSettings_prog L D now u inp) (\<lambda>_ _. True)"
proof -
  let ?G = "user_guar L F K" and ?Q = "\<lambda>_ _. True"
  let ?c = "trim_space (us_currency inp)" and ?t = "trim_space (us_timezone inp)"
  note sc = stable_calm [OF h, of L K B]
  have fin: "safe ?G (calm_db L h B) (Done r) ?Q" for r :: "settings res" by (rule safe_Done [OF sc]) simp
  have inv: "calm_db L h B s \<Longrightarrow> user_inv L s" for s by (simp add: calm_db_def)
  have "currencyPattern ''USD''" by code_simp
  then have dflt: "settings_ok L \<lparr>se_user = u, se_currency = ''USD'', se_timezone = ''UTC'', se_updated = zero_time\<rparr>"
    using L by (simp add: settings_ok_def)
  let ?x = "\<lambda>x. \<lparr>se_user = u, se_currency = (if ?c \<noteq> '''' then ?c else se_currency x),
                 se_timezone = (if ?t \<noteq> '''' then ?t else se_timezone x), se_updated = utc now\<rparr>"
  have put: "safe ?G (calm_db L h B) (step (on_settings (settingsRepository_Upsert (m_settings D) (?x x))) (\<lambda>w. ok_then w (\<lambda>_. Done (Inr (?x x))))) ?Q"
    if "settings_ok L (?x x)" for x
  proof (rule safe_step_quiet [OF sc])
    fix s w s' assume "calm_db L h B s" "on_settings (settingsRepository_Upsert (m_settings D) (?x x)) s = (w, s')"
    from guar_upsert [OF D inv [OF this(1)] _ that this(2)] k show "?G s s'" by simp
  next
    fix w :: "unit res" show "safe ?G (calm_db L h B) (ok_then w (\<lambda>_. Done (Inr (?x x)))) ?Q" by (cases w) (simp_all add: fin)
  qed
  have edit: "safe ?G (calm_db L h B) (step (on_settings (settingsRepository_FindByUserID (m_settings D) u)) (\<lambda>q. ok_then (settings_found u q) (\<lambda>x.
      step (on_settings (settingsRepository_Upsert (m_settings D) (?x x))) (\<lambda>w. ok_then w (\<lambda>_. Done (Inr (?x x))))))) ?Q"
    if val: "?c = '''' \<or> currencyPattern ?c" "?t = '''' \<or> L ?t"
  proof (rule safe_step_and [where E = "\<lambda>q _. \<forall>x. settings_found u q = Inr x \<longrightarrow> settings_ok L x", OF sc stable_const])
    fix s q s' assume P: "calm_db L h B s" and f: "on_settings (settingsRepository_FindByUserID (m_settings D) u) s = (q, s')"
    then obtain c where c: "settingsRepository_FindByUserID (m_settings D) u (db_settings s) = (q, c)" by (auto simp: on_settings_eq)
    have "\<forall>d \<in> set (docs (db_settings s)). settings_ok L d" using P by (simp add: calm_db_def user_inv_def)
    then have "settings_ok L x" if "settings_found u q = Inr x" for x
      using that dflt settings_by_user(2) [OF lawful_userD(2) [OF D] c] by (cases q) (auto simp: settings_found_def split: if_splits)
    with guar_find(3) [OF D f] show "?G s s' \<and> (\<forall>x. settings_found u q = Inr x \<longrightarrow> settings_ok L x)" by blast
  next
    fix q :: "settings res"
    show "safe ?G (\<lambda>s. calm_db L h B s \<and> (\<forall>x. settings_found u q = Inr x \<longrightarrow> settings_ok L x)) (ok_then (settings_found u q) (\<lambda>x.
      step (on_settings (settingsRepository_Upsert (m_settings D) (?x x))) (\<lambda>w. ok_then w (\<lambda>_. Done (Inr (?x x)))))) ?Q"
    proof (cases "\<forall>x. settings_found u q = Inr x \<longrightarrow> settings_ok L x")
      case True
      then have ok: "settings_ok L (?x x)" if "settings_found u q = Inr x" for x
        using val that by (auto simp: settings_ok_def)
      show ?thesis
      proof (cases "settings_found u q")
        case (Inr x)
        from safe_pre [OF put [OF ok [OF Inr]] stable_conj [OF sc stable_const]] Inr show ?thesis by simp
      qed (use True in \<open>simp add: fin\<close>)
    next
      case False
      then obtain x where "settings_found u q = Inr x" "\<not> settings_ok L x" by blast
      then show ?thesis by (intro safe_pre [OF safe_False]) (auto simp: stable_def)
    qed
  qed
  show ?thesis unfolding UpdateSettings_prog_def Let_def using edit by (auto simp: fin)
qed

section \<open>Overlapping requests\<close>

text \<open>The calls with what they draw, among them the sweep of the TTL index, and their results.\<close>

datatype user_call =
    CRegister gotime string string register_input
  | CLogin gotime string string string string
  | CRefresh gotime string string string
  | CLogout gotime string
  | CReset string
  | CGetProfile string
  | CUpdateProfile gotime string string
  | CGetSettings string
  | CUpdateSettings gotime string update_settings_input
  | CSweep gotime

datatype user_result =
    GotUser "user res"
  | GotLogin "login_result res"
  | GotUnit "unit res"
  | GotSettings "settings res"

fun user_prog :: "(string \<Rightarrow> bool) \<Rightarrow> auth \<Rightarrow> 'e user_drivers \<Rightarrow> user_call \<Rightarrow> ('e user_db, user_result) prog" where
  "user_prog L A D (CRegister now salt uid inp) = map_prog GotUser (Register_prog A D now salt uid inp)"
| "user_prog L A D (CLogin now jti tid email pw) = map_prog GotLogin (Login_prog A D now jti tid email pw)"
| "user_prog L A D (CRefresh now jti tid tok) = map_prog GotLogin (Refresh_prog A D now jti tid tok)"
| "user_prog L A D (CLogout now tok) = map_prog GotUnit (Logout_prog A D now tok)"
| "user_prog L A D (CReset email) = map_prog GotUnit (RequestPasswordReset_prog A D email)"
| "user_prog L A D (CGetProfile u) = map_prog GotUser (GetProfile_prog D u)"
| "user_prog L A D (CUpdateProfile now u nm) = map_prog GotUser (UpdateProfile_prog D now u nm)"
| "user_prog L A D (CGetSettings u) = map_prog GotSettings (GetSettings_prog D u)"
| "user_prog L A D (CUpdateSettings now u inp) = map_prog GotSettings (UpdateSettings_prog L D now u inp)"
| "user_prog L A D (CSweep now) = step (\<lambda>s. ((), sweep_tokens now s)) (\<lambda>_. Done (GotUnit (Inr ())))"

text \<open>Whose profile and settings a call may change, and the JTI hashes that it may store.\<close>

fun on_behalf :: "user_call \<Rightarrow> string set" where
  "on_behalf (CRegister now salt uid inp) = {uid}"
| "on_behalf (CUpdateProfile now u nm) = {u}"
| "on_behalf (CUpdateSettings now u inp) = {u}"
| "on_behalf _ = {}"

fun draws :: "auth \<Rightarrow> user_call \<Rightarrow> string set" where
  "draws A (CLogin now jti tid email pw) = {hashJTI A jti}"
| "draws A (CRefresh now jti tid tok) = {hashJTI A jti}"
| "draws A _ = {}"

fun spends :: "auth \<Rightarrow> string \<Rightarrow> user_call \<Rightarrow> user_result \<Rightarrow> bool" where
  "spends A h (CRefresh now jti tid tok) (GotLogin r) \<longleftrightarrow> carries A h now tok \<and> (\<exists>x. r = Inr x)"
| "spends A h (CLogout now tok) (GotUnit r) \<longleftrightarrow> carries A h now tok \<and> r = Inr ()"
| "spends A h _ _ \<longleftrightarrow> False"

fun refreshes :: "auth \<Rightarrow> string \<Rightarrow> user_call \<Rightarrow> user_result \<Rightarrow> bool" where
  "refreshes A h (CRefresh now jti tid tok) (GotLogin r) \<longleftrightarrow> carries A h now tok \<and> (\<exists>x. r = Inr x)"
| "refreshes A h _ _ \<longleftrightarrow> False"

fun registers :: "auth \<Rightarrow> user_call \<Rightarrow> user_result \<Rightarrow> (string \<times> string) option" where
  "registers A (CRegister now salt uid inp) (GotUser (Inr u)) = Some (uid, normalizeEmail A (ri_email inp))"
| "registers A _ _ = None"

definition keeps_word :: "(string \<Rightarrow> bool) \<Rightarrow> auth \<Rightarrow> string \<Rightarrow> bool \<Rightarrow> user_call \<Rightarrow> user_result \<Rightarrow> 'e user_db \<Rightarrow> bool" where
  "keeps_word L A h B c r s \<longleftrightarrow> (spends A h c r \<longrightarrow> dead h (db_tokens s)) \<and> (B \<longrightarrow> \<not> refreshes A h c r) \<and>
     (\<forall>k e. registers A c r = Some (k, e) \<longrightarrow> (\<exists>d \<in> set (docs (db_users s)). us_id d = k \<and> us_email d = e))"

lemma sweep_guar: "user_guar L F K s (sweep_tokens now s)"
  by (rule guar_tokens) (auto simp: sweep_tokens_def tokens_from_def tok_inv_def distinct_map inj_on_def)

lemma call_safe:
  assumes D: "lawful_user D" and L: "L ''UTC''" and h: "h \<notin> F" and F: "draws A c \<subseteq> F" and K: "on_behalf c \<subseteq> K"
  shows "safe (user_guar L F K) (calm_db L h B) (user_prog L A D c) (keeps_word L A h B c)"
proof (cases c)
  case (CRegister now salt uid inp)
  have "keeps_word L A h B c (GotUser r) s"
    if "\<forall>u. r = Inr u \<longrightarrow> us_id u = uid \<and> us_email u = normalizeEmail A (ri_email inp) \<and> known u s \<and> user_inv L s" for r s
    using that CRegister by (cases r) (auto simp: keeps_word_def known_def persona_def)
  with CRegister K show ?thesis by (auto intro!: safe_map safe_post [OF Register_safe [where L = L, OF D h _ L]])
next
  case (CRefresh now jti tid tok)
  have "keeps_word L A h B c (GotLogin r) s"
    if "carries A h now tok \<and> (\<exists>x. r = Inr x) \<longrightarrow> \<not> B \<and> dead h (db_tokens s)" for r s
    using that CRefresh by (auto simp: keeps_word_def)
  with CRefresh F show ?thesis by (auto intro!: safe_map safe_post [OF Refresh_safe [OF D h]])
next
  case (CLogout now tok)
  then show ?thesis by (auto simp: keeps_word_def intro!: safe_map safe_post [OF Logout_safe [OF D h]])
next
  case (CSweep now)
  then show ?thesis
    by (auto simp: keeps_word_def intro!: safe_step_quiet safe_Done stable_calm [OF h] sweep_guar)
next
  case (CLogin now jti tid email pw)
  with F show ?thesis
    by (auto simp: keeps_word_def intro!: safe_map safe_post [OF Login_safe [OF D _ stable_calm [OF h]]])
qed (use D L h K in \<open>auto simp: keeps_word_def intro!: safe_map safe_post [OF UpdateProfile_safe] safe_post [OF UpdateSettings_safe]
    safe_post [OF read_safe(1) [OF D stable_calm]] safe_post [OF read_safe(2) [OF D stable_calm]] safe_post [OF read_safe(3) [OF D stable_calm]]\<close>)

section \<open>Under every schedule\<close>

lemma calls_pool_safe:
  assumes D: "lawful_user D" and L: "L ''UTC''" and s: "calm_db L h B s" and h: "h \<notin> F"
    and cs: "\<And>c. c \<in> set cs \<Longrightarrow> draws A c \<subseteq> F \<and> on_behalf c \<subseteq> K"
  shows "ug.pool_safe L F K (map (user_prog L A D) cs, s) (\<lambda>i. keeps_word L A h B (cs ! i))"
  unfolding ug.pool_safe_def
proof (intro allI impI)
  fix i assume "i < length (fst (map (user_prog L A D) cs, s))"
  then have i: "i < length cs" by simp
  then have "draws A (cs ! i) \<subseteq> F" "on_behalf (cs ! i) \<subseteq> K" using cs nth_mem by blast+
  from call_safe [where L = L, OF D L h this] s i
  show "\<exists>P. P (snd (map (user_prog L A D) cs, s)) \<and>
      safe (user_guar L F K) P (fst (map (user_prog L A D) cs, s) ! i) (keeps_word L A h B (cs ! i))"
    by (intro exI [of _ "calm_db L h B"]) simp
qed

lemma some_other_hash: "\<exists>h. h \<notin> (\<Union>c \<in> set cs. draws A c)"
proof -
  have "finite (draws A c)" for c by (cases c) simp_all
  then have "finite (\<Union>c \<in> set cs. draws A c)" by simp
  then show ?thesis using ex_new_if_finite [OF infinite_UNIV_listI] by blast
qed

text \<open>
  C19. Requests may overlap in any way: whatever calls run at the same time (with sweeps of the TTL
  index between them), in whatever order their database calls happen, and however many are still
  unfinished or have failed, the user database stays well formed, with unique ids and emails, unique
  token ids and hashes and valid settings, and the profile and settings of a user on whose behalf
  nobody acts stay as they are.
\<close>

theorem overlapping_requests_inv:
  assumes "lawful_user D" and "L ''UTC''" and "user_inv L s"
    and "schedule is (map (user_prog L A D) cs, s) = (ps, s')"
  shows "user_inv L s' \<and> (\<forall>v. v \<notin> (\<Union>c \<in> set cs. on_behalf c) \<longrightarrow>
    filter (\<lambda>d. us_id d = v) (docs (db_users s')) = filter (\<lambda>d. us_id d = v) (docs (db_users s)) \<and>
    filter (\<lambda>d. se_user d = v) (docs (db_settings s')) = filter (\<lambda>d. se_user d = v) (docs (db_settings s)))"
proof -
  let ?F = "\<Union>c \<in> set cs. draws A c" and ?K = "\<Union>c \<in> set cs. on_behalf c"
  obtain h where h: "h \<notin> ?F" using some_other_hash by blast
  have "calm_db L h False s" using assms(3) by (simp add: calm_db_def)
  from ug.pool_schedule [OF calls_pool_safe [where L = L and F = ?F and K = ?K, OF assms(1,2) this h], of cs A "is"]
  have "user_guar L ?F ?K s s'" using assms(4) by auto
  with assms(3) show ?thesis by (simp add: user_guar_def)
qed

text \<open>
  C20. An email has one owner even when registrations race: of any number of overlapping requests, two
  registrations that were both answered with success never have the same email after
  normalisation, provided that they drew different user ids.
\<close>

theorem racing_registrations:
  assumes "lawful_user D" and "L ''UTC''" and "user_inv L s"
    and "schedule is (map (user_prog L A D) cs, s) = (ps, s')" and "i < length cs" and "j < length cs"
    and "ps ! i = Done r" and "ps ! j = Done q"
    and "registers A (cs ! i) r = Some (k, e)" and "registers A (cs ! j) q = Some (k', e')" and "k \<noteq> k'"
  shows "e \<noteq> e'"
proof -
  let ?F = "\<Union>c \<in> set cs. draws A c" and ?K = "\<Union>c \<in> set cs. on_behalf c"
  obtain h where h: "h \<notin> ?F" using some_other_hash by blast
  have "calm_db L h False s" using assms(3) by (simp add: calm_db_def)
  note p = calls_pool_safe [where L = L and F = ?F and K = ?K and A = A and cs = cs, OF assms(1,2) this h]
  have "keeps_word L A h False (cs ! i) r s'" "keeps_word L A h False (cs ! j) q s'"
    using ug.pool_result [OF p, of i "is" r] ug.pool_result [OF p, of j "is" q] assms(4-8) by auto
  then obtain d d' where d: "d \<in> set (docs (db_users s'))" "us_id d = k" "us_email d = e"
    "d' \<in> set (docs (db_users s'))" "us_id d' = k'" "us_email d' = e'"
    using assms(9,10) by (auto simp: keeps_word_def)
  have "user_guar L ?F ?K s s'" using ug.pool_schedule [OF p, of "is"] assms(4) by auto
  then have "users_inv (db_users s')" using assms(3) by (simp add: user_guar_def user_inv_def)
  with d assms(11) show ?thesis by (auto simp: users_inv_def distinct_map dest: inj_onD)
qed

text \<open>
  C18. A spent token stays spent under concurrency: once, among any overlapping requests, one
  \<open>Refresh\<close> of a token was answered with a session, or one \<open>Logout\<close> of it with success, no
  \<open>Refresh\<close> of that token that starts afterwards is ever answered with a session, whatever
  runs at the same time, as long as nobody draws a JTI with the same hash.
\<close>

theorem spent_token_refused:
  assumes "lawful_user D" and "L ''UTC''" and "user_inv L s" and "h \<notin> (\<Union>c \<in> set (cs @ ds). draws A c)"
    and "schedule is (map (user_prog L A D) cs, s) = (ps, s1)"
    and "i < length cs" and "ps ! i = Done r" and "spends A h (cs ! i) r"
    and "schedule js (ps @ map (user_prog L A D) ds, s1) = (qs, s2)"
    and "j < length ds" and "qs ! (length cs + j) = Done q"
  shows "\<not> refreshes A h (ds ! j) q"
proof -
  let ?F = "\<Union>c \<in> set (cs @ ds). draws A c" and ?K = "\<Union>c \<in> set (cs @ ds). on_behalf c"
  let ?Q = "\<lambda>i. keeps_word L A h False (cs ! i)" and ?R = "\<lambda>j. keeps_word L A h True (ds ! j)"
  have "calm_db L h False s" using assms(3) by (simp add: calm_db_def)
  note p = calls_pool_safe [where L = L and F = ?F and K = ?K and A = A and cs = cs, OF assms(1,2) this assms(4)]
  have len: "length ps = length cs" using schedule_length [of "is" "(map (user_prog L A D) cs, s)"] assms(5) by simp
  have "keeps_word L A h False (cs ! i) r s1" using ug.pool_result [OF p, of i "is" r] assms(5-7) by auto
  then have dead: "dead h (db_tokens s1)" using assms(8) by (simp add: keeps_word_def)
  from ug.pool_schedule [OF p, of "is"] assms(5) have one: "ug.pool_safe L ?F ?K (ps, s1) ?Q" "user_guar L ?F ?K s s1" by auto
  have "calm_db L h True s1" using dead one(2) assms(3) by (simp add: calm_db_def user_guar_def)
  then have q: "ug.pool_safe L ?F ?K (map (user_prog L A D) ds, s1) ?R"
    by (rule calls_pool_safe [where L = L, OF assms(1,2) _ assms(4)]) auto
  have "ug.pool_safe L ?F ?K (ps @ map (user_prog L A D) ds, s1) (\<lambda>i. if i < length ps then ?Q i else ?R (i - length ps))"
  proof (rule ug.pool_join [OF one(1)])
    fix m assume "m < length (map (user_prog L A D) ds)"
    with q show "\<exists>P. P s1 \<and> safe (user_guar L ?F ?K) P (map (user_prog L A D) ds ! m) (?R m)" by (simp add: ug.pool_safe_def)
  qed
  from ug.pool_result [OF this, of "length cs + j" js q] have "?R j q s2"
    using assms(9-11) len by simp
  then show ?thesis by (simp add: keeps_word_def)
qed

section \<open>Concrete schedules\<close>

definition demo_registration :: "string \<Rightarrow> register_input" where
  "demo_registration email = \<lparr>ri_email = email, ri_password = ''pw-of-eve'', ri_name = ''Eve''\<rparr>"

theorem overlapping_requests_inv_witness:
  "\<exists>ps s'. schedule [0, 1, 0, 1, 2, 0] (map (user_prog (\<lambda>z. z = ''UTC'') demo_auth demo_udrivers)
      [CRegister demo_now ''salt'' ''u2'' (demo_registration ''e@x.io''), CRefresh demo_now ''j2'' ''t2'' demo_tok, CSweep demo_now],
      demo_udb False) = (ps, s') \<and> user_inv (\<lambda>z. z = ''UTC'') s'"
proof -
  let ?p = "map (user_prog (\<lambda>z. z = ''UTC'') demo_auth demo_udrivers)
      [CRegister demo_now ''salt'' ''u2'' (demo_registration ''e@x.io''), CRefresh demo_now ''j2'' ''t2'' demo_tok, CSweep demo_now]"
  obtain ps s' where r: "schedule [0, 1, 0, 1, 2, 0] (?p, demo_udb False) = (ps, s')"
    by (cases "schedule [0, 1, 0, 1, 2, 0] (?p, demo_udb False)")
  from overlapping_requests_inv [where L = "\<lambda>z. z = ''UTC''", OF lawful_demo_user(1) refl demo_user_inv r] r show ?thesis by blast
qed

definition demo_race :: "bool list user_db \<Rightarrow> (bool list user_db, user_result) pool" where
  "demo_race s = schedule [0, 1, 0, 1, 0, 1] (map (user_prog (\<lambda>z. z = ''UTC'') demo_auth demo_udrivers)
     [CRegister demo_now ''salt'' ''u2'' (demo_registration ''e@x.io''), CRegister demo_now ''salt'' ''u3'' (demo_registration ''f@x.io'')], s)"

definition both_registered :: "(bool list user_db, user_result) pool \<Rightarrow> bool" where
  "both_registered st = (case fst st of
      [Done (GotUser (Inr u)), Done (GotUser (Inr v))] \<Rightarrow> True | _ \<Rightarrow> False)"

lemma demo_race_results: "both_registered (demo_race (demo_udb False))"
  by code_simp

theorem racing_registrations_witness:
  "\<exists>u v s'. demo_race (demo_udb False) = ([Done (GotUser (Inr u)), Done (GotUser (Inr v))], s') \<and> ''e@x.io'' \<noteq> ''f@x.io''"
proof -
  obtain u v s' where r: "demo_race (demo_udb False) = ([Done (GotUser (Inr u)), Done (GotUser (Inr v))], s')"
    using demo_race_results
    by (cases "demo_race (demo_udb False)") (auto simp: both_registered_def split: list.splits prog.splits user_result.splits sum.splits)
  have e: "normalizeEmail demo_auth ''e@x.io'' = ''e@x.io''" "normalizeEmail demo_auth ''f@x.io'' = ''f@x.io''" by code_simp+
  have g: "registers demo_auth (CRegister demo_now ''salt'' ''u2'' (demo_registration ''e@x.io'')) (GotUser (Inr u)) = Some (''u2'', ''e@x.io'')"
    "registers demo_auth (CRegister demo_now ''salt'' ''u3'' (demo_registration ''f@x.io'')) (GotUser (Inr v)) = Some (''u3'', ''f@x.io'')"
    unfolding registers.simps demo_registration_def register_input.simps e by (rule refl)+
  let ?cs = "[CRegister demo_now ''salt'' ''u2'' (demo_registration ''e@x.io''), CRegister demo_now ''salt'' ''u3'' (demo_registration ''f@x.io'')]"
  have n: "0 < length ?cs" "1 < length ?cs" "[Done (GotUser (Inr u)), Done (GotUser (Inr v))] ! 0 = Done (GotUser (Inr u))"
    "[Done (GotUser (Inr u)), Done (GotUser (Inr v))] ! 1 = Done (GotUser (Inr v))" by simp_all
  have c: "registers demo_auth (?cs ! 0) (GotUser (Inr u)) = Some (''u2'', ''e@x.io'')"
    "registers demo_auth (?cs ! 1) (GotUser (Inr v)) = Some (''u3'', ''f@x.io'')"
    unfolding One_nat_def nth_Cons_0 nth_Cons_Suc by (rule g)+
  have k: "''u2'' \<noteq> ''u3''" by simp
  have "''e@x.io'' \<noteq> ''f@x.io''"
    by (rule racing_registrations [where L = "\<lambda>z. z = ''UTC''", OF lawful_demo_user(1) refl demo_user_inv r [unfolded demo_race_def] n c k])
  with r show ?thesis by blast
qed

definition demo_logout :: "(bool list user_db, user_result) pool" where
  "demo_logout = schedule [0, 0] (map (user_prog (\<lambda>z. z = ''UTC'') demo_auth demo_udrivers) [CLogout demo_now demo_tok], demo_udb False)"

definition demo_after_logout :: "(bool list user_db, user_result) pool" where
  "demo_after_logout = schedule [1, 1] (fst demo_logout @
     map (user_prog (\<lambda>z. z = ''UTC'') demo_auth demo_udrivers) [CRefresh demo_now ''j2'' ''t2'' demo_tok], snd demo_logout)"

lemma demo_logout_done: "(case fst demo_logout of [Done (GotUnit (Inr _))] \<Rightarrow> True | _ \<Rightarrow> False)"
  by code_simp

lemma demo_refresh_done: "(case fst demo_after_logout of [_, Done (GotLogin (Inl ErrInvalidToken))] \<Rightarrow> True | _ \<Rightarrow> False)"
  by code_simp

theorem spent_token_refused_witness:
  "\<exists>qs s2 q. demo_after_logout = (qs, s2) \<and> qs ! 1 = Done q \<and> \<not> refreshes demo_auth ''j1'' (CRefresh demo_now ''j2'' ''t2'' demo_tok) q"
proof -
  have "fst demo_logout = [Done (GotUnit (Inr ()))]"
    using demo_logout_done by (auto split: list.splits prog.splits user_result.splits sum.splits)
  then obtain s1 where l: "demo_logout = ([Done (GotUnit (Inr ()))], s1)" by (metis prod.collapse)
  obtain p where "fst demo_after_logout = [p, Done (GotLogin (Inl ErrInvalidToken))]"
    using demo_refresh_done by (auto split: list.splits prog.splits user_result.splits sum.splits go_error.splits)
  then obtain s2 where a: "demo_after_logout = ([p, Done (GotLogin (Inl ErrInvalidToken))], s2)" by (metis prod.collapse)
  have h: "carries demo_auth ''j1'' demo_now demo_tok" by (simp add: carries_def) (simp add: demo_claims_def hashJTI_def demo_auth_def)
  let ?cs = "[CLogout demo_now demo_tok]" and ?ds = "[CRefresh demo_now ''j2'' ''t2'' demo_tok]"
  have j: "hashJTI demo_auth ''j2'' = ''j2''" by (simp add: hashJTI_def demo_auth_def)
  have f: "''j1'' \<notin> (\<Union>c \<in> set (?cs @ ?ds). draws demo_auth c)" by (simp add: j)
  have n: "0 < length ?cs" "[Done (GotUnit (Inr ()))] ! 0 = Done (GotUnit (Inr ()))" "0 < length ?ds"
    "[p, Done (GotLogin (Inl ErrInvalidToken))] ! (length ?cs + 0) = Done (GotLogin (Inl ErrInvalidToken))" by simp_all
  have p: "spends demo_auth ''j1'' (?cs ! 0) (GotUnit (Inr ()))" using h by simp
  have "\<not> refreshes demo_auth ''j1'' (?ds ! 0) (GotLogin (Inl ErrInvalidToken))"
    by (rule spent_token_refused [where L = "\<lambda>z. z = ''UTC''", OF lawful_demo_user(1) refl demo_user_inv f
        l [unfolded demo_logout_def] n(1,2) p a [unfolded demo_after_logout_def l fst_conv snd_conv] n(3,4)])
  with a show ?thesis by auto
qed

end
