(* ===== verification/Expense_Concurrent.thy ===== *)
theory Expense_Concurrent imports Interleave Expense_System begin

text \<open>
  expense-service with overlapping requests. Each operation of \<open>service/account_service.go\<close>,
  \<open>service/category_service.go\<close>, \<open>service/transaction_service.go\<close> and
  \<open>service/transaction_import.go\<close> is the program of its database calls; run alone it is the
  operation of the sequential model. The invariant, the isolation of the users and the ownership of what is
  answered hold under every schedule; an update of an account that says nothing of the balance
  may still take back the balance that another request has just set.
\<close>

section \<open>The operations as programs\<close>

type_synonym ('e, 'a) expense_prog = "('e expense_db, 'a) prog"

text \<open>What \<open>Update\<close> does with the account that it has read.\<close>

definition account_edit_prog ::
  "'e expense_drivers \<Rightarrow> gotime \<Rightarrow> update_account_input \<Rightarrow> account \<Rightarrow> ('e, account res) expense_prog" where
  "account_edit_prog D now inp acct =
    (let name = trim_space (ua_name inp) in
     if name = '''' then Done (Inl (ValidationError ''name'' ''name is required''))
     else if \<not> ValidAccountType (ua_type inp) then
       Done (Inl (ValidationError ''type'' ''type must be one of: checking, savings, credit, cash''))
     else
       (let currency = trim_space (ua_currency inp) in
        if currency = '''' then Done (Inl (ValidationError ''currency'' ''currency is required''))
        else
          (let acct1 = acct\<lparr>a_name := name, a_type := ua_type inp, a_currency := currency,
                         a_balance := (case ua_balance inp of None \<Rightarrow> a_balance acct | Some b \<Rightarrow> b),
                         a_updated := utc now\<rparr>
           in step (on_acc (AccountRepository_Update (m_acc D) acct1)) (\<lambda>w. ok_then w (\<lambda>_. Done (Inr acct1))))))"

definition accountService_Update_prog ::
  "'e expense_drivers \<Rightarrow> gotime \<Rightarrow> string \<Rightarrow> string \<Rightarrow> update_account_input \<Rightarrow> ('e, account res) expense_prog" where
  "accountService_Update_prog D now u k inp =
    step (on_acc (AccountRepository_GetByIDForUser (m_acc D) k u)) (\<lambda>q. ok_then q (account_edit_prog D now inp))"

text \<open>The check of an absent category makes no call and is a step in which nothing happens.\<close>

definition transactionService_Create_prog ::
  "'e expense_drivers \<Rightarrow> gotime \<Rightarrow> oid \<Rightarrow> oid \<Rightarrow> string \<Rightarrow> transaction_input \<Rightarrow> ('e, transaction res) expense_prog" where
  "transactionService_Create_prog D now i j u inp =
    (case transactionService_validateCommon (ti_account inp) (ti_type inp) (ti_amount inp) (ti_currency inp) (ti_date inp) of
       Some e \<Rightarrow> Done (Inl e)
     | None \<Rightarrow>
        step (check_account D u (ti_account inp)) (\<lambda>a. ok_then a (\<lambda>_.
        step (check_category D u (ti_category inp)) (\<lambda>k. ok_then k (\<lambda>_.
        step (on_tx (TransactionRepository_Create (m_tx D) i
                 \<lparr>tx_id = '''', tx_user = u, tx_account = ti_account inp, tx_category = ti_category inp,
                  tx_type = ti_type inp, tx_amount = ti_amount inp, tx_currency = ti_currency inp,
                  tx_date = ti_date inp, tx_note = ti_note inp, tx_created = utc now, tx_updated = utc now\<rparr>)) (\<lambda>q. ok_then q (\<lambda>t.
        step (\<lambda>s. ((), transactionService_publishCreated D now j t s)) (\<lambda>_. Done (Inr t)))))))))"

text \<open>The count and the page are two calls.\<close>

definition transactionService_List_prog ::
  "'e expense_drivers \<Rightarrow> string \<Rightarrow> list_transactions_input \<Rightarrow> ('e, transaction_page res) expense_prog" where
  "transactionService_List_prog D u inp =
    (if (case (li_from inp, li_to inp) of (Some f, Some t) \<Rightarrow> time_before t f | _ \<Rightarrow> False)
     then Done (Inl (ValidationError ''to'' ''to must not be before from''))
     else
       (let page = (if li_page inp <s 1 then defaultPage else li_page inp);
            pageSize0 = (if li_page_size inp <s 1 then defaultPageSize else li_page_size inp);
            pageSize = (if maxPageSize <s pageSize0 then maxPageSize else pageSize0);
            q = buildTransactionFilter u \<lparr>tf_account = li_account inp, tf_category = li_category inp, tf_from = li_from inp,
                    tf_to = li_to inp, tf_page = page, tf_page_size = pageSize\<rparr>
        in step (on_tx (count_docs (m_tx D) q)) (\<lambda>n. case n of
             Inl e \<Rightarrow> Done (Inl (db_err e))
           | Inr cnt \<Rightarrow>
               (let skip = (repo_page page - 1) * repo_page_size pageSize
                in step (on_tx (find_all (m_tx D) q
                     \<lparr>sort_desc = td_date, skip_of = sint skip, limit_of = nat (sint (repo_page_size pageSize))\<rparr>)) (\<lambda>r. case r of
                        Inl e \<Rightarrow> Done (Inl (db_err e))
                      | Inr ds \<Rightarrow> Done (Inr \<lparr>tp_transactions = map (transaction_toDomain (m_tx D)) ds, tp_page = page,
                          tp_page_size = pageSize, tp_total = cnt\<rparr>))))))"

definition transactionService_Update_prog ::
  "'e expense_drivers \<Rightarrow> gotime \<Rightarrow> string \<Rightarrow> string \<Rightarrow> transaction_input \<Rightarrow> ('e, transaction res) expense_prog" where
  "transactionService_Update_prog D now u k inp =
    step (on_tx (TransactionRepository_GetByIDForUser (m_tx D) k u)) (\<lambda>q. ok_then q (\<lambda>t.
    case transactionService_validateCommon (ti_account inp) (ti_type inp) (ti_amount inp) (ti_currency inp) (ti_date inp) of
       Some e \<Rightarrow> Done (Inl e)
     | None \<Rightarrow>
        step (\<lambda>s. if ti_account inp \<noteq> tx_account t
               then on_ok (check_account D u (ti_account inp) s) (\<lambda>_ x. (Inr (), x)) else (Inr (), s)) (\<lambda>a. ok_then a (\<lambda>_.
        step (check_category D u (ti_category inp)) (\<lambda>c. ok_then c (\<lambda>_.
          let t1 = t\<lparr>tx_account := ti_account inp, tx_category := ti_category inp, tx_type := ti_type inp,
                     tx_amount := ti_amount inp, tx_currency := ti_currency inp, tx_date := ti_date inp,
                     tx_note := ti_note inp, tx_updated := utc now\<rparr>
          in step (on_tx (TransactionRepository_Update (m_tx D) t1)) (\<lambda>w. ok_then w (\<lambda>_. Done (Inr t1)))))))))"

fun import_rows_prog ::
  "unicode \<Rightarrow> 'e expense_drivers \<Rightarrow> gotime \<Rightarrow> (nat \<Rightarrow> oid \<times> oid) \<Rightarrow> string \<Rightarrow> account \<Rightarrow> nat \<Rightarrow> import_row list \<Rightarrow>
   import_result \<Rightarrow> ('e, import_result res) expense_prog" where
  "import_rows_prog U D now gen u account n [] result = Done (Inr result)"
| "import_rows_prog U D now gen u account n (row # rows) result =
    (case buildImportedTransaction U u account row now of
       Inl e \<Rightarrow> import_rows_prog U D now gen u account (Suc n) rows
                 (appendImportError (result\<lparr>im_skipped := im_skipped result + 1\<rparr>) (n + 2) e)
     | Inr t \<Rightarrow>
        step (on_tx (TransactionRepository_Create (m_tx D) (fst (gen n)) t)) (\<lambda>q. case q of
           Inl e \<Rightarrow> import_rows_prog U D now gen u account (Suc n) rows
             (appendImportError (result\<lparr>im_skipped := im_skipped result + 1\<rparr>) (n + 2) (''failed to save: '' @ err_text e))
         | Inr t1 \<Rightarrow> step (\<lambda>s. ((), transactionService_publishCreated D now (snd (gen n)) t1 s)) (\<lambda>_.
             import_rows_prog U D now gen u account (Suc n) rows (result\<lparr>im_imported := im_imported result + 1\<rparr>))))"

definition transactionService_Import_prog ::
  "unicode \<Rightarrow> 'e expense_drivers \<Rightarrow> gotime \<Rightarrow> (nat \<Rightarrow> oid \<times> oid) \<Rightarrow> string \<Rightarrow> string \<Rightarrow> import_row list \<Rightarrow>
   ('e, import_result res) expense_prog" where
  "transactionService_Import_prog U D now gen u accountID rows =
    (if trim_space accountID = '''' then Done (Inl (ValidationError ''account_id'' ''account_id is required''))
     else if length rows > maxImportRows then
       Done (Inl (ValidationError ''file'' (''file has more than '' @ show_nat maxImportRows @
          '' rows; split it into smaller files'')))
     else
       step (check_account D u accountID) (\<lambda>a. ok_then a (\<lambda>account.
         import_rows_prog U D (utc now) gen u account 0 rows \<lparr>im_imported = 0, im_skipped = 0, im_errors = []\<rparr>)))"

section \<open>Without overlap the programs are the operations\<close>

lemma run_account_update:
  "run (accountService_Update_prog D now u k inp) s = on_acc (accountService_Update (m_acc D) now u k inp) s"
  by (auto simp: accountService_Update_prog_def account_edit_prog_def accountService_Update_def on_acc_def Let_def ok_then_def on_ok_def split: prod.split sum.split)

lemma run_Create: "run (transactionService_Create_prog D now i j u inp) s = transactionService_Create D now i j u inp s"
  by (simp add: transactionService_Create_prog_def transactionService_Create_def run_ok_then on_ok_def split: prod.split sum.split option.split)

lemma run_List: "run (transactionService_List_prog D u inp) s = transactionService_List D u inp s"
proof (cases "case (li_from inp, li_to inp) of (Some f, Some t) \<Rightarrow> time_before t f | _ \<Rightarrow> False")
  case False
  then show ?thesis
    by (simp add: transactionService_List_prog_def transactionService_List_def TransactionRepository_ListByUser_def on_tx_def Let_def on_ok_def
        split: prod.split sum.split split del: if_split)
qed (simp add: transactionService_List_prog_def transactionService_List_def)

lemma run_Update: "run (transactionService_Update_prog D now u k inp) s = transactionService_Update D now u k inp s"
  by (simp add: transactionService_Update_prog_def transactionService_Update_def run_ok_then on_ok_def Let_def split: prod.split sum.split option.split)

lemma run_import_rows:
  "run (import_rows_prog U D now gen u account n rows res) s =
    (case import_rows U D now gen u account n rows (res, s) of (r, s') \<Rightarrow> (Inr r, s'))"
  by (induction rows arbitrary: n res s) (simp_all add: import_one_def Let_def split: prod.split sum.split)

lemma run_Import: "run (transactionService_Import_prog U D now gen u k rows) s = transactionService_Import U D now gen u k rows s"
  by (simp add: transactionService_Import_prog_def transactionService_Import_def run_import_rows run_ok_then on_ok_def split: prod.split sum.split)

section \<open>What the programs guarantee each other\<close>

text \<open>
  The invariant is kept, users outside \<open>K\<close> keep what they have, and the outbox only grows, by
  events that report a transaction of a user in \<open>S\<close>.
\<close>

definition reports :: "string set \<Rightarrow> oid \<times> string \<times> json \<times> string \<Rightarrow> bool" where
  "reports S m \<longleftrightarrow> (\<exists>i p t. m = (i, TransactionCreatedSubject, p, tx_id t) \<and> tx_user t \<in> S \<and> transaction_event t = Some p)"

definition expense_guar :: "string set \<Rightarrow> 'e expense_db \<Rightarrow> 'e expense_db \<Rightarrow> bool" where
  "expense_guar K s s' \<longleftrightarrow> (expense_inv s \<longrightarrow> expense_inv s') \<and> (\<forall>v. v \<notin> K \<longrightarrow> tenant v s' = tenant v s) \<and>
     (\<exists>new. queue_of (db_out s') = queue_of (db_out s) @ new \<and> list_all (reports K) new)"

interpretation eg: interference "expense_guar K"
proof
  fix a b c :: "'a expense_db" assume g: "expense_guar K a b" "expense_guar K b c"
  obtain new new' where "queue_of (db_out b) = queue_of (db_out a) @ new" "list_all (reports K) new"
    "queue_of (db_out c) = queue_of (db_out b) @ new'" "list_all (reports K) new'"
    using g unfolding expense_guar_def by blast
  then have "queue_of (db_out c) = queue_of (db_out a) @ (new @ new') \<and> list_all (reports K) (new @ new')" by simp
  moreover have "tenant v c = tenant v a" if "v \<notin> K" for v using g that by (simp add: expense_guar_def)
  ultimately show "expense_guar K a c" using g unfolding expense_guar_def by blast
qed (simp add: expense_guar_def)

lemma guar_good:
  assumes "good_step u s s'" and "u \<in> K" and "docs (db_out s') = docs (db_out s)"
  shows "expense_guar K s s'"
proof -
  have "tenant v s' = tenant v s" if "v \<notin> K" for v
  proof -
    have "v \<noteq> u" using that assms(2) by blast
    with assms(1) show ?thesis by (simp add: good_step_def)
  qed
  with assms(1,3) show ?thesis by (simp add: expense_guar_def good_step_def queue_of_def)
qed

lemma guar_same: "same_docs s s' \<Longrightarrow> expense_guar K s s'"
  using good_step_same [of s s']
  by (auto simp: expense_guar_def good_step_def queue_of_def same_docs_def tenant_def view_def)

lemma guar_publish:
  assumes D: "lawful_expense D" and t: "tx_user t \<in> K"
  shows "expense_guar K s (transactionService_publishCreated D now j t s)"
proof -
  let ?s = "transactionService_publishCreated D now j t s"
  have q: "\<exists>new. queue_of (db_out ?s) = queue_of (db_out s) @ new \<and> list_all (reports K) new"
    using publishCreated_cases(4) [OF D, of now j t s]
  proof (elim disjE exE conjE)
    fix p ev assume e: "transaction_event t = Some p" "ev_subject ev = TransactionCreatedSubject" "ev_payload ev = p" "ev_msg_id ev = tx_id t"
      "docs (db_out ?s) = docs (db_out s) @ [ev]"
    have "reports K (ev_id ev, message ev)" unfolding reports_def message_def using e t by blast
    with e(5) show ?thesis by (intro exI [of _ "[(ev_id ev, message ev)]"]) (simp add: queue_of_def)
  qed (simp add: queue_of_def)
  have g: "good_step u s ?s" for u by (rule good_step_publish [OF D])
  have "tenant v ?s = tenant v s" for v by (simp add: tenant_def publishCreated_cases(1-3) [OF D])
  with g q show ?thesis by (simp add: expense_guar_def good_step_def)
qed

lemma stable_inv: "stable (expense_guar K) expense_inv"
  by rule (simp add: expense_guar_def)

section \<open>Every program is safe\<close>

text \<open>The checks write nothing.\<close>

lemma guar_check:
  assumes D: "lawful_expense D"
  shows "check_account D u k s = (r, s') \<Longrightarrow> expense_guar K s s'"
    and "check_category D u c s = (w, s') \<Longrightarrow> expense_guar K s s'"
  using guar_same check_account_same [OF D] check_category_same [OF D] by blast+

text \<open>The writes: what is written belongs to \<open>u\<close> and is valid whatever it overwrites.\<close>

lemma guar_acc_update:
  assumes D: "lawful_expense D" and u: "a_user a = u" "u \<in> K" and wf: "\<And>d. wf_account_doc (account_set a d)"
    and r: "on_acc (AccountRepository_Update (m_acc D) a) s = (w, s')"
  shows "expense_guar K s s'"
proof -
  note M = lawful_expenseD(1) [OF D]
  obtain c where c: "AccountRepository_Update (m_acc D) a (db_acc s) = (w, c)" "s' = s\<lparr>db_acc := c\<rparr>" using r by (auto simp: on_acc_eq)
  have "accounts_inv c" if "accounts_inv (db_acc s)"
    using acc.update_distinct [OF M c(1)] acc.update_any [OF M c(1)] that wf by (auto simp: accounts_inv_def dest: one_updated_set)
  then have "good_step u s s'" using acc.update_foreign [OF M c(1)] u(1) by (auto simp: good_step_def expense_inv_def tenant_def c(2))
  then show ?thesis by (rule guar_good [OF _ u(2)]) (simp add: c(2))
qed

lemma guar_tx_update:
  assumes D: "lawful_expense D" and u: "tx_user t = u" "u \<in> K" and wf: "\<And>d. wf_tx_doc (transaction_set t d)"
    and r: "on_tx (TransactionRepository_Update (m_tx D) t) s = (w, s')"
  shows "expense_guar K s s'"
proof -
  note M = lawful_expenseD(3) [OF D]
  obtain c where c: "TransactionRepository_Update (m_tx D) t (db_tx s) = (w, c)" "s' = s\<lparr>db_tx := c\<rparr>" using r by (auto simp: on_tx_eq)
  have "(\<forall>d \<in> set (docs (db_tx s)). wf_tx_doc d) \<longrightarrow> (\<forall>d \<in> set (docs c). wf_tx_doc d)"
    using txr.update_any [OF M c(1)] wf by (auto dest: one_updated_set)
  then have "good_step u s s'"
    using txr.update_distinct [OF M c(1)] txr.update_foreign [OF M c(1)] u(1) by (auto simp: good_step_def expense_inv_def tenant_def c(2))
  then show ?thesis by (rule guar_good [OF _ u(2)]) (simp add: c(2))
qed

lemma insert_tx_step:
  assumes D: "lawful_expense D" and u: "tx_user t = u" "u \<in> K" and wf: "wf_tx_doc (transaction_newDoc i t)"
    and r: "on_tx (TransactionRepository_Create (m_tx D) i t) s = (q, s')"
  shows "expense_guar K s s' \<and> (\<forall>t1. q = Inr t1 \<longrightarrow> tx_user t1 = u)"
proof -
  obtain c where c: "TransactionRepository_Create (m_tx D) i t (db_tx s) = (q, c)" "s' = s\<lparr>db_tx := c\<rparr>" using r by (auto simp: on_tx_eq)
  have "expense_guar K s s'" by (rule guar_good [OF good_step_tx_insert [OF D c(1) u(1) wf, folded c(2)] u(2)]) (simp add: c(2))
  moreover have "\<forall>t1. q = Inr t1 \<longrightarrow> tx_user t1 = u"
    using c(1) u(1) by (auto simp: TransactionRepository_Create_def split: prod.splits sum.splits)
  ultimately show ?thesis ..
qed

lemma account_update_safe:
  assumes D: "lawful_expense D" and u: "u \<in> K"
  shows "safe (expense_guar K) expense_inv (accountService_Update_prog D now u k inp) (\<lambda>r s. \<forall>a. r = Inr a \<longrightarrow> a_user a = u)"
  unfolding accountService_Update_prog_def
proof (rule safe_step_pure [where E = "\<lambda>q. \<forall>a. q = Inr a \<longrightarrow> a_user a = u", OF stable_inv], goal_cases)
  case (1 s q s')
  then obtain c where g: "AccountRepository_GetByIDForUser (m_acc D) k u (db_acc s) = (q, c)" "s' = s\<lparr>db_acc := c\<rparr>" by (auto simp: on_acc_eq)
  have "same_docs s s'" using acc.get_docs [OF lawful_expenseD(1) [OF D] g(1)] g(2) by (simp add: same_docs_def)
  with guar_same acc.get_owner [OF lawful_expenseD(1) [OF D]] g(1) show ?case by blast
next
  case (2 q)
  show ?case
  proof (cases "\<exists>a. q = Inr a \<and> trim_space (ua_name inp) \<noteq> '''' \<and> ValidAccountType (ua_type inp) \<and> trim_space (ua_currency inp) \<noteq> ''''")
    case True
    then obtain a where a: "q = Inr a" "trim_space (ua_name inp) \<noteq> ''''" "ValidAccountType (ua_type inp)" "trim_space (ua_currency inp) \<noteq> ''''" by blast
    let ?a = "a\<lparr>a_name := trim_space (ua_name inp), a_type := ua_type inp, a_currency := trim_space (ua_currency inp),
      a_balance := (case ua_balance inp of None \<Rightarrow> a_balance a | Some b \<Rightarrow> b), a_updated := utc now\<rparr>"
    have own: "a_user ?a = u" using a(1) 2 by simp
    have "safe (expense_guar K) expense_inv (step (on_acc (AccountRepository_Update (m_acc D) ?a)) (\<lambda>w. ok_then w (\<lambda>_. Done (Inr ?a))))
       (\<lambda>r s. \<forall>a. r = Inr a \<longrightarrow> a_user a = u)"
    proof (rule safe_step_quiet [OF stable_inv], goal_cases)
      case (1 s w s')
      show ?case by (rule guar_acc_update [OF D own u _ 1(2)]) (use a in \<open>simp add: wf_account_doc_def account_set_def\<close>)
    next
      case (2 w)
      show ?case using own by (cases w) (auto intro!: safe_Done stable_inv)
    qed
    with a show ?thesis by (simp add: account_edit_prog_def Let_def)
  qed (cases q; auto simp: account_edit_prog_def Let_def intro!: safe_Done stable_inv)
qed

lemma publish_then_safe:
  assumes D: "lawful_expense D" and t: "tx_user t \<in> K" and k: "safe (expense_guar K) expense_inv p Q"
  shows "safe (expense_guar K) expense_inv (step (\<lambda>s. ((), transactionService_publishCreated D now j t s)) (\<lambda>_. p)) Q"
  by (rule safe_step_quiet [OF stable_inv _ k]) (use guar_publish [OF D t] in auto)

lemma Create_safe:
  assumes D: "lawful_expense D" and u: "u \<in> K"
  shows "safe (expense_guar K) expense_inv (transactionService_Create_prog D now i j u inp) (\<lambda>r s. \<forall>t. r = Inr t \<longrightarrow> tx_user t = u)"
proof (cases "transactionService_validateCommon (ti_account inp) (ti_type inp) (ti_amount inp) (ti_currency inp) (ti_date inp)")
  case None
  let ?Q = "\<lambda>r (s :: 'a expense_db). \<forall>t. r = Inr t \<longrightarrow> tx_user t = u"
  let ?t = "\<lparr>tx_id = '''', tx_user = u, tx_account = ti_account inp, tx_category = ti_category inp,
                  tx_type = ti_type inp, tx_amount = ti_amount inp, tx_currency = ti_currency inp,
                  tx_date = ti_date inp, tx_note = ti_note inp, tx_created = utc now, tx_updated = utc now\<rparr>"
  have wf: "wf_tx_doc (transaction_newDoc i ?t)" using validateCommon_None [OF None] by (simp add: wf_tx_doc_def transaction_newDoc_def)
  have ins: "safe (expense_guar K) expense_inv (step (on_tx (TransactionRepository_Create (m_tx D) i ?t)) (\<lambda>q. ok_then q (\<lambda>t.
        step (\<lambda>s. ((), transactionService_publishCreated D now j t s)) (\<lambda>_. Done (Inr t))))) ?Q"
  proof (rule safe_step_pure [where E = "\<lambda>q. \<forall>t. q = Inr t \<longrightarrow> tx_user t = u", OF stable_inv], goal_cases)
    case (1 s q s')
    show ?case by (rule insert_tx_step [OF D _ u wf 1(2)]) simp
  next
    case (2 q)
    with u show ?case by (cases q) (auto intro!: publish_then_safe [OF D] safe_Done stable_inv)
  qed
  have cat: "safe (expense_guar K) expense_inv (step (check_category D u (ti_category inp)) (\<lambda>k. ok_then k (\<lambda>_.
      step (on_tx (TransactionRepository_Create (m_tx D) i ?t)) (\<lambda>q. ok_then q (\<lambda>t.
        step (\<lambda>s. ((), transactionService_publishCreated D now j t s)) (\<lambda>_. Done (Inr t))))))) ?Q"
    by (rule safe_step_quiet [OF stable_inv guar_check(2) [OF D]]) (use ins in \<open>auto simp: ok_then_def split: sum.split intro!: safe_Done stable_inv\<close>)
  show ?thesis unfolding transactionService_Create_prog_def None option.case
    by (rule safe_step_quiet [OF stable_inv guar_check(1) [OF D]]) (use cat in \<open>auto simp: ok_then_def split: sum.split intro!: safe_Done stable_inv\<close>)
qed (auto simp: transactionService_Create_prog_def intro!: safe_Done stable_inv)

lemma read_tx_guar:
  assumes "on_tx f s = (r, s')" and "docs (snd (f (db_tx s))) = docs (db_tx s)"
  shows "expense_guar K s s'"
  by (rule guar_same) (use assms in \<open>auto simp: on_tx_def same_docs_def split: prod.splits\<close>)

lemma List_safe:
  assumes D: "lawful_expense D"
  shows "safe (expense_guar K) expense_inv (transactionService_List_prog D u inp) (\<lambda>r s. \<forall>pg. r = Inr pg \<longrightarrow> (\<forall>t \<in> set (tp_transactions pg). tx_user t = u))"
proof -
  note M = lawful_expenseD(3) [OF D]
  have page: "safe (expense_guar K) expense_inv (step (on_tx (find_all (m_tx D) (buildTransactionFilter u f) fo)) (\<lambda>r. case r of
      Inl e \<Rightarrow> Done (Inl (db_err e))
    | Inr ds \<Rightarrow> Done (Inr \<lparr>tp_transactions = map (transaction_toDomain (m_tx D)) ds, tp_page = page, tp_page_size = pageSize, tp_total = cnt\<rparr>)))
      (\<lambda>r s. \<forall>pg. r = Inr pg \<longrightarrow> (\<forall>t \<in> set (tp_transactions pg). tx_user t = u))" for f fo page pageSize cnt
  proof (rule safe_step_pure [where E = "\<lambda>r. \<forall>ds. r = Inr ds \<longrightarrow> (\<forall>d \<in> set ds. td_user d = u)", OF stable_inv], goal_cases)
    case (1 s r s')
    then obtain c where c: "find_all (m_tx D) (buildTransactionFilter u f) fo (db_tx s) = (r, c)" by (auto simp: on_tx_eq)
    have "expense_guar K s s'" by (rule read_tx_guar [OF 1(2)]) (simp add: c find_all_docs [OF M c])
    moreover have "\<forall>d \<in> set ds. td_user d = u" if "r = Inr ds" for ds
    proof -
      have "find_all (m_tx D) (buildTransactionFilter u f) fo (db_tx s) = (Inr ds, c)" using c that by simp
      then obtain ys where ys: "mset ys = mset (filter (buildTransactionFilter u f) (docs (db_tx s)))" "ds = page_cut fo ys"
        using find_all_ok [OF M] by blast
      then have "set ys = set (filter (buildTransactionFilter u f) (docs (db_tx s)))" by (metis mset_eq_setD)
      with ys(2) show ?thesis using page_cut_subset [of fo ys] by (auto simp: buildTransactionFilter_def)
    qed
    ultimately show ?case by blast
  next
    case (2 r)
    then show ?case by (cases r) (auto simp: transaction_toDomain_def intro!: safe_Done stable_inv)
  qed
  have count: "safe (expense_guar K) expense_inv (step (on_tx (count_docs (m_tx D) q)) k) Q"
    if "\<And>n. safe (expense_guar K) expense_inv (k n) Q" for q k and Q :: "transaction_page res \<Rightarrow> 'a expense_db \<Rightarrow> bool"
  proof (rule safe_step_quiet [OF stable_inv _ that], goal_cases)
    case (1 s n s')
    then obtain c where c: "count_docs (m_tx D) q (db_tx s) = (n, c)" by (auto simp: on_tx_eq)
    show ?case by (rule read_tx_guar [OF 1(2)]) (simp add: c count_docs_docs [OF M c])
  qed
  show ?thesis unfolding transactionService_List_prog_def Let_def
    by (auto simp del: if_split intro!: count page safe_Done stable_inv split: sum.split if_splits)
qed

lemma Tx_update_safe:
  assumes D: "lawful_expense D" and u: "u \<in> K"
  shows "safe (expense_guar K) expense_inv (transactionService_Update_prog D now u k inp) (\<lambda>r s. \<forall>t. r = Inr t \<longrightarrow> tx_user t = u)"
  unfolding transactionService_Update_prog_def
proof (rule safe_step_pure [where E = "\<lambda>q. \<forall>t. q = Inr t \<longrightarrow> tx_user t = u", OF stable_inv], goal_cases)
  case (1 s q s')
  then obtain c where g: "TransactionRepository_GetByIDForUser (m_tx D) k u (db_tx s) = (q, c)" by (auto simp: on_tx_eq)
  have "expense_guar K s s'" by (rule read_tx_guar [OF 1(2)]) (simp add: g txr.get_docs [OF lawful_expenseD(3) [OF D] g])
  with txr.get_owner [OF lawful_expenseD(3) [OF D]] g show ?case by blast
next
  case (2 q)
  let ?Q = "\<lambda>r (s :: 'a expense_db). \<forall>t. r = Inr t \<longrightarrow> tx_user t = u"
  show ?case
  proof (cases "\<exists>t. q = Inr t \<and> transactionService_validateCommon (ti_account inp) (ti_type inp) (ti_amount inp) (ti_currency inp) (ti_date inp) = None")
    case True
    then obtain t where t: "q = Inr t" and None: "transactionService_validateCommon (ti_account inp) (ti_type inp) (ti_amount inp) (ti_currency inp) (ti_date inp) = None" by blast
    let ?t = "t\<lparr>tx_account := ti_account inp, tx_category := ti_category inp, tx_type := ti_type inp,
                     tx_amount := ti_amount inp, tx_currency := ti_currency inp, tx_date := ti_date inp,
                     tx_note := ti_note inp, tx_updated := utc now\<rparr>"
    have own: "tx_user ?t = u" using t 2 by simp
    have wf: "wf_tx_doc (transaction_set ?t d)" for d using validateCommon_None [OF None] by (simp add: wf_tx_doc_def transaction_set_def)
    have upd: "safe (expense_guar K) expense_inv (step (on_tx (TransactionRepository_Update (m_tx D) ?t)) (\<lambda>w. ok_then w (\<lambda>_. Done (Inr ?t)))) ?Q"
    proof (rule safe_step_quiet [OF stable_inv], goal_cases)
      case (1 s w s')
      show ?case by (rule guar_tx_update [OF D own u wf 1(2)])
    next
      case (2 w)
      show ?case using own by (cases w) (auto intro!: safe_Done stable_inv)
    qed
    have cat: "safe (expense_guar K) expense_inv (step (check_category D u (ti_category inp)) (\<lambda>c. ok_then c (\<lambda>_.
        step (on_tx (TransactionRepository_Update (m_tx D) ?t)) (\<lambda>w. ok_then w (\<lambda>_. Done (Inr ?t)))))) ?Q"
      by (rule safe_step_quiet [OF stable_inv guar_check(2) [OF D]]) (use upd in \<open>auto simp: ok_then_def split: sum.split intro!: safe_Done stable_inv\<close>)
    have "safe (expense_guar K) expense_inv (step (\<lambda>s. if ti_account inp \<noteq> tx_account t
               then on_ok (check_account D u (ti_account inp) s) (\<lambda>_ x. (Inr (), x)) else (Inr (), s)) (\<lambda>a. ok_then a (\<lambda>_.
        step (check_category D u (ti_category inp)) (\<lambda>c. ok_then c (\<lambda>_.
        step (on_tx (TransactionRepository_Update (m_tx D) ?t)) (\<lambda>w. ok_then w (\<lambda>_. Done (Inr ?t)))))))) ?Q"
    proof (rule safe_step_quiet [OF stable_inv], goal_cases)
      case (1 s a s')
      then show ?case using guar_check(1) [OF D] eg.refl by (auto split: if_splits elim!: on_okE)
    next
      case (2 a)
      show ?case using cat by (cases a) (auto intro!: safe_Done stable_inv)
    qed
    with t None show ?thesis by (simp add: Let_def)
  qed (cases q; auto split: option.splits intro!: safe_Done stable_inv)
qed

lemma import_rows_safe:
  assumes D: "lawful_expense D" and u: "u \<in> K" and a: "trim_space (a_currency account) \<noteq> ''''"
  shows "safe (expense_guar K) expense_inv (import_rows_prog U D now gen u account n rows res) (\<lambda>r s. True)"
proof (induction rows arbitrary: n res)
  case Nil
  show ?case by (auto intro: safe_Done stable_inv)
next
  case (Cons row rows)
  show ?case
  proof (cases "buildImportedTransaction U u account row now")
    case (Inr t)
    have own: "tx_user t = u" by (rule build_fields(1) [OF Inr])
    have wf: "wf_tx_doc (transaction_newDoc i t)" for i using build_fields(3,5,6) [OF Inr] a by (simp add: wf_tx_doc_def transaction_newDoc_def)
    show ?thesis unfolding import_rows_prog.simps Inr sum.case
    proof (rule safe_step_pure [where E = "\<lambda>q. \<forall>t1. q = Inr t1 \<longrightarrow> tx_user t1 = u", OF stable_inv], goal_cases)
      case (1 s q s')
      show ?case by (rule insert_tx_step [OF D own u wf 1(2)])
    next
      case (2 q)
      with Cons u show ?case by (cases q) (auto intro!: publish_then_safe [OF D])
    qed
  qed (simp add: Cons)
qed

lemma Import_safe:
  assumes D: "lawful_expense D" and u: "u \<in> K"
  shows "safe (expense_guar K) expense_inv (transactionService_Import_prog U D now gen u k rows) (\<lambda>r s. True)"
proof -
  have "safe (expense_guar K) expense_inv (step (check_account D u k) (\<lambda>a. ok_then a (\<lambda>account.
         import_rows_prog U D (utc now) gen u account 0 rows \<lparr>im_imported = 0, im_skipped = 0, im_errors = []\<rparr>))) (\<lambda>r s. True)"
  proof (rule safe_step_pure [where E = "\<lambda>a. \<forall>x. a = Inr x \<longrightarrow> trim_space (a_currency x) \<noteq> ''''", OF stable_inv], goal_cases)
    case (1 s a s')
    have "trim_space (a_currency x) \<noteq> ''''" if x: "a = Inr x" for x
      using check_account_ok(3) [OF D 1(2) [unfolded x]] 1(1)
      by (auto simp: expense_inv_def accounts_inv_def wf_account_doc_def account_toDomain_def)
    with guar_check(1) [OF D 1(2)] show ?case by blast
  next
    case (2 a)
    then show ?case by (cases a) (auto intro!: safe_Done stable_inv import_rows_safe [OF D u])
  qed
  then show ?thesis by (auto simp: transactionService_Import_prog_def intro!: safe_Done stable_inv)
qed

section \<open>Overlapping calls\<close>

datatype expense_call =
    CCreateAccount gotime oid string create_account_input
  | CListAccounts string
  | CGetAccount string string
  | CUpdateAccount gotime string string update_account_input
  | CDeleteAccount string string
  | CCreateCategory gotime oid string create_category_input
  | CListCategories string
  | CCreateTransaction gotime oid oid string transaction_input
  | CListTransactions string list_transactions_input
  | CGetTransaction string string
  | CUpdateTransaction gotime string string transaction_input
  | CDeleteTransaction string string
  | CImport gotime "nat \<Rightarrow> oid \<times> oid" string string "import_row list"

datatype expense_outcome =
    GotAccount "account res"
  | GotAccounts "account list res"
  | GotCategory "category res"
  | GotCategories "category list res"
  | GotTransaction "transaction res"
  | GotTransactions "transaction_page res"
  | GotImport "import_result res"
  | GotDeleted "unit res"

fun expense_call_prog :: "unicode \<Rightarrow> 'e expense_drivers \<Rightarrow> expense_call \<Rightarrow> ('e, expense_outcome) expense_prog" where
  "expense_call_prog U D (CCreateAccount now i u inp) = step (on_acc (accountService_Create (m_acc D) now i u inp)) (\<lambda>r. Done (GotAccount r))"
| "expense_call_prog U D (CListAccounts u) = step (on_acc (accountService_List (m_acc D) u)) (\<lambda>r. Done (GotAccounts r))"
| "expense_call_prog U D (CGetAccount u k) = step (on_acc (accountService_Get (m_acc D) u k)) (\<lambda>r. Done (GotAccount r))"
| "expense_call_prog U D (CUpdateAccount now u k inp) = map_prog GotAccount (accountService_Update_prog D now u k inp)"
| "expense_call_prog U D (CDeleteAccount u k) = step (on_acc (accountService_Delete (m_acc D) u k)) (\<lambda>r. Done (GotDeleted r))"
| "expense_call_prog U D (CCreateCategory now i u inp) = step (on_cat (categoryService_Create (m_cat D) now i u inp)) (\<lambda>r. Done (GotCategory r))"
| "expense_call_prog U D (CListCategories u) = step (on_cat (categoryService_List (m_cat D) u)) (\<lambda>r. Done (GotCategories r))"
| "expense_call_prog U D (CCreateTransaction now i j u inp) = map_prog GotTransaction (transactionService_Create_prog D now i j u inp)"
| "expense_call_prog U D (CListTransactions u inp) = map_prog GotTransactions (transactionService_List_prog D u inp)"
| "expense_call_prog U D (CGetTransaction u k) = step (transactionService_Get D u k) (\<lambda>r. Done (GotTransaction r))"
| "expense_call_prog U D (CUpdateTransaction now u k inp) = map_prog GotTransaction (transactionService_Update_prog D now u k inp)"
| "expense_call_prog U D (CDeleteTransaction u k) = step (transactionService_Delete D u k) (\<lambda>r. Done (GotDeleted r))"
| "expense_call_prog U D (CImport now gen u k rows) = map_prog GotImport (transactionService_Import_prog U D now gen u k rows)"

fun caller :: "expense_call \<Rightarrow> string" where
  "caller (CCreateAccount now i u inp) = u"
| "caller (CListAccounts u) = u"
| "caller (CGetAccount u k) = u"
| "caller (CUpdateAccount now u k inp) = u"
| "caller (CDeleteAccount u k) = u"
| "caller (CCreateCategory now i u inp) = u"
| "caller (CListCategories u) = u"
| "caller (CCreateTransaction now i j u inp) = u"
| "caller (CListTransactions u inp) = u"
| "caller (CGetTransaction u k) = u"
| "caller (CUpdateTransaction now u k inp) = u"
| "caller (CDeleteTransaction u k) = u"
| "caller (CImport now gen u k rows) = u"

text \<open>The users whose data an outcome shows.\<close>

fun reveals :: "expense_outcome \<Rightarrow> string set" where
  "reveals (GotAccount (Inr a)) = {a_user a}"
| "reveals (GotAccounts (Inr as)) = a_user ` set as"
| "reveals (GotCategory (Inr c)) = {c_user c}"
| "reveals (GotCategories (Inr cs)) = c_user ` set cs"
| "reveals (GotTransaction (Inr t)) = {tx_user t}"
| "reveals (GotTransactions (Inr pg)) = tx_user ` set (tp_transactions pg)"
| "reveals _ = {}"

lemma revealsI:
  "\<forall>a. ra = Inr a \<longrightarrow> a_user a = u \<Longrightarrow> reveals (GotAccount ra) \<subseteq> {u}"
  "\<forall>as. rb = Inr as \<longrightarrow> (\<forall>a \<in> set as. a_user a = u) \<Longrightarrow> reveals (GotAccounts rb) \<subseteq> {u}"
  "\<forall>c. rc = Inr c \<longrightarrow> c_user c = u \<Longrightarrow> reveals (GotCategory rc) \<subseteq> {u}"
  "\<forall>cs. rd = Inr cs \<longrightarrow> (\<forall>c \<in> set cs. c_user c = u) \<Longrightarrow> reveals (GotCategories rd) \<subseteq> {u}"
  "\<forall>t. rt = Inr t \<longrightarrow> tx_user t = u \<Longrightarrow> reveals (GotTransaction rt) \<subseteq> {u}"
  "\<forall>pg. rp = Inr pg \<longrightarrow> (\<forall>t \<in> set (tp_transactions pg). tx_user t = u) \<Longrightarrow> reveals (GotTransactions rp) \<subseteq> {u}"
  by (cases ra; auto) (cases rb; auto; fail | cases rc; auto; fail | cases rd; auto; fail | cases rt; auto; fail | cases rp; auto; fail)+

lemma single_call_safe:
  assumes "\<And>s. good_step u s (snd (f s))" and "u \<in> K" and "\<And>s. docs (db_out (snd (f s))) = docs (db_out s)"
    and "\<And>s r s'. f s = (r, s') \<Longrightarrow> reveals (g r) \<subseteq> {u}"
  shows "safe (expense_guar K) expense_inv (step f (\<lambda>r. Done (g r))) (\<lambda>r s. reveals r \<subseteq> {u})"
proof (rule safe_step_pure [where E = "\<lambda>r. reveals (g r) \<subseteq> {u}", OF stable_inv], goal_cases)
  case (1 s r s')
  then have "s' = snd (f s)" by simp
  then show ?case using guar_good [OF assms(1,2)] assms(3,4) 1(2) by blast
qed (auto intro!: safe_Done stable_inv)

lemma single_results_own:
  assumes D: "lawful_expense D"
  shows "on_acc (accountService_Create (m_acc D) now i u ca) s = (ra, s') \<Longrightarrow> \<forall>a. ra = Inr a \<longrightarrow> a_user a = u"
    and "on_acc (accountService_List (m_acc D) u) s = (rb, s') \<Longrightarrow> \<forall>as. rb = Inr as \<longrightarrow> (\<forall>a \<in> set as. a_user a = u)"
    and "on_acc (accountService_Get (m_acc D) u k) s = (ra, s') \<Longrightarrow> \<forall>a. ra = Inr a \<longrightarrow> a_user a = u"
    and "on_cat (categoryService_Create (m_cat D) now i u cc) s = (rc, s') \<Longrightarrow> \<forall>c. rc = Inr c \<longrightarrow> c_user c = u"
    and "on_cat (categoryService_List (m_cat D) u) s = (rd, s') \<Longrightarrow> \<forall>cs. rd = Inr cs \<longrightarrow> (\<forall>c \<in> set cs. c_user c = u)"
    and "transactionService_Get D u k s = (rt, s') \<Longrightarrow> \<forall>t. rt = Inr t \<longrightarrow> tx_user t = u"
  using accl.list_owner [OF lawful_expenseD(1) [OF D]] acc.get_owner [OF lawful_expenseD(1) [OF D]]
    catl.list_owner [OF lawful_expenseD(2) [OF D]] txr.get_owner [OF lawful_expenseD(3) [OF D]]
  by (auto simp: on_acc_eq on_cat_eq on_tx_eq accountService_List_def accountService_Get_def categoryService_List_def transactionService_Get_def
      accountService_Create_def AccountRepository_Create_def categoryService_Create_def CategoryRepository_Create_def Let_def
      split: if_splits prod.splits sum.splits)

lemma expense_call_safe:
  assumes D: "lawful_expense D" and u: "caller c \<in> K"
  shows "safe (expense_guar K) expense_inv (expense_call_prog U D c) (\<lambda>r s. reveals r \<subseteq> {caller c})"
proof -
  note own = single_results_own [OF D]
  note acc_op = good_step_acc [OF D]
  show ?thesis
  proof (cases c)
    case (CUpdateAccount now v k inp)
    with u show ?thesis by (auto intro!: safe_map safe_post [OF account_update_safe [OF D]] revealsI)
  next
    case (CCreateTransaction now i j v inp)
    with u show ?thesis by (auto intro!: safe_map safe_post [OF Create_safe [OF D]] revealsI)
  next
    case (CListTransactions v inp)
    then show ?thesis by (auto intro!: safe_map safe_post [OF List_safe [OF D]] revealsI)
  next
    case (CUpdateTransaction now v k inp)
    with u show ?thesis by (auto intro!: safe_map safe_post [OF Tx_update_safe [OF D]] revealsI)
  next
    case (CImport now gen v k rows)
    with u show ?thesis by (auto intro!: safe_map safe_post [OF Import_safe [OF D]])
  next
    case (CCreateAccount now i v inp)
    show ?thesis unfolding CCreateAccount expense_call_prog.simps caller.simps
      by (rule single_call_safe) (use CCreateAccount u acc_op [where op = "AccCreate now i inp"] own(1) in \<open>auto simp: snd_on_acc intro!: revealsI\<close>)
  next
    case (CListAccounts v)
    show ?thesis unfolding CListAccounts expense_call_prog.simps caller.simps
      by (rule single_call_safe) (use CListAccounts u acc_op [where op = AccList] own(2) in \<open>auto simp: snd_on_acc intro!: revealsI\<close>)
  next
    case (CGetAccount v k)
    show ?thesis unfolding CGetAccount expense_call_prog.simps caller.simps
      by (rule single_call_safe) (use CGetAccount u acc_op [where op = "AccGet k"] own(3) in \<open>auto simp: snd_on_acc intro!: revealsI\<close>)
  next
    case (CDeleteAccount v k)
    show ?thesis unfolding CDeleteAccount expense_call_prog.simps caller.simps
      by (rule single_call_safe) (use CDeleteAccount u acc_op [where op = "AccDelete k"] in \<open>auto simp: snd_on_acc\<close>)
  next
    case (CCreateCategory now i v inp)
    show ?thesis unfolding CCreateCategory expense_call_prog.simps caller.simps
      by (rule single_call_safe) (use CCreateCategory u good_step_cat(1) [OF D] own(4) in \<open>auto simp: snd_on_cat intro!: revealsI\<close>)
  next
    case (CListCategories v)
    show ?thesis unfolding CListCategories expense_call_prog.simps caller.simps
      by (rule single_call_safe) (use CListCategories u good_step_cat(2) [OF D] own(5) in \<open>auto simp: snd_on_cat intro!: revealsI\<close>)
  next
    case (CGetTransaction v k)
    show ?thesis unfolding CGetTransaction expense_call_prog.simps caller.simps
      by (rule single_call_safe) (use CGetTransaction u good_step_Get [OF D] own(6) in \<open>auto simp: transactionService_Get_def snd_on_tx intro!: revealsI\<close>)
  next
    case (CDeleteTransaction v k)
    show ?thesis unfolding CDeleteTransaction expense_call_prog.simps caller.simps
      by (rule single_call_safe) (use CDeleteTransaction u good_step_Delete [OF D] in \<open>auto simp: transactionService_Delete_def snd_on_tx\<close>)
  qed
qed

section \<open>Under every schedule\<close>

lemma expense_pool_safe:
  assumes D: "lawful_expense D" and s: "expense_inv s"
  shows "eg.pool_safe (caller ` set cs) (map (expense_call_prog U D) cs, s) (\<lambda>i r s. reveals r \<subseteq> {caller (cs ! i)})"
  unfolding eg.pool_safe_def
proof (intro allI impI)
  fix i assume "i < length (fst (map (expense_call_prog U D) cs, s))"
  then have i: "i < length cs" by simp
  then have "caller (cs ! i) \<in> caller ` set cs" by simp
  from expense_call_safe [OF D this] i s
  show "\<exists>P. P (snd (map (expense_call_prog U D) cs, s)) \<and>
      safe (expense_guar (caller ` set cs)) P (fst (map (expense_call_prog U D) cs, s) ! i) (\<lambda>r s. reveals r \<subseteq> {caller (cs ! i)})"
    by (intro exI [of _ expense_inv]) simp
qed

text \<open>
  C3. expense-service may serve any requests at the same time: in whatever order their database
  calls happen, however many are unfinished and whatever fails, what is stored stays well formed, users for
  whom no request runs keep exactly what they have, every answer shows the caller's own data only, and
  the outbox keeps its events and gains only reports of transactions of the callers.
\<close>

theorem overlapping_expense_calls:
  assumes "lawful_expense D" and "expense_inv s" and "schedule is (map (expense_call_prog U D) cs, s) = (ps, s')"
  shows "expense_inv s' \<and> (\<forall>v. v \<notin> caller ` set cs \<longrightarrow> tenant v s' = tenant v s) \<and>
    (\<forall>i < length cs. \<forall>r. ps ! i = Done r \<longrightarrow> reveals r \<subseteq> {caller (cs ! i)}) \<and>
    (\<exists>new. queue_of (db_out s') = queue_of (db_out s) @ new \<and> list_all (reports (caller ` set cs)) new)"
proof -
  note p = expense_pool_safe [OF assms(1,2), of cs U]
  have "reveals r \<subseteq> {caller (cs ! i)}" if "i < length cs" "ps ! i = Done r" for i r
    using eg.pool_result [OF p, of i "is" r] assms(3) that by simp
  moreover have "expense_guar (caller ` set cs) s s'" using eg.pool_schedule [OF p, of "is"] assms(3) by simp
  ultimately show ?thesis using assms(2) by (simp add: expense_guar_def)
qed

section \<open>A balance that comes back\<close>

lemma account_update_told:
  assumes M: "lawful (same_id ad_id) M" and ids: "ids_distinct ad_id c" and d: "d \<in> set (docs c)"
    and u: "accountService_Update M now (ad_user d) (hex M (ad_id d)) inp c = (Inr b', c')"
  shows "a_balance b' = (case ua_balance inp of None \<Rightarrow> ad_balance d | Some b \<Rightarrow> b)"
    and "ids_distinct ad_id c'" and "\<exists>d' \<in> set (docs c'). ad_id d' = ad_id d \<and> ad_user d' = ad_user d \<and> ad_balance d' = a_balance b'"
proof -
  from M u obtain a b c1 q where g: "AccountRepository_GetByIDForUser M (hex M (ad_id d)) (ad_user d) c = (Inr b, c1)" "docs c1 = docs c"
    and w: "AccountRepository_Update M a c1 = (Inr q, c')" "b' = a"
    and a: "a = b\<lparr>a_name := trim_space (ua_name inp), a_type := ua_type inp, a_currency := trim_space (ua_currency inp),
           a_balance := (case ua_balance inp of None \<Rightarrow> a_balance b | Some x \<Rightarrow> x), a_updated := utc now\<rparr>"
    by (cases rule: accountService_Update_cases) (auto split: sum.splits)
  have b: "b = account_toDomain M d" using acc.get_unique [OF M ids d refl g(1)] by simp
  show "a_balance b' = (case ua_balance inp of None \<Rightarrow> ad_balance d | Some b \<Rightarrow> b)"
    by (simp add: w(2) a b account_toDomain_def split: option.split)
  have one: "one_updated (\<lambda>x. ad_id x = ad_id d \<and> ad_user x = ad_user d) (account_set a) (docs c1) (docs c')"
    using acc.update_ok [OF M w(1)] hex_roundtrip [OF M] by (auto simp: a b account_toDomain_def)
  have i1: "ids_distinct ad_id c1" using ids g(2) by (simp add: ids_distinct_def)
  note up = one_updated_unique [where did = ad_id, OF i1 one _ d [folded g(2)] refl]
  show "ids_distinct ad_id c'" by (rule up(1)) (simp add: account_set_def)
  have "account_set a d \<in> set (docs c')" by (rule up(2)) (simp add: account_set_def)
  then show "\<exists>d' \<in> set (docs c'). ad_id d' = ad_id d \<and> ad_user d' = ad_user d \<and> ad_balance d' = a_balance b'"
    by (intro bexI [of _ "account_set a d"]) (simp_all add: account_set_def w(2))
qed

text \<open>
  C13. An update of an account that leaves the balance out can take back a balance that another
  request sets: when it has read the account, the other update is served and answered with the new
  balance, and then it writes, then both are answered with success and the stored balance is the
  old one.
\<close>

theorem rename_restores_balance:
  assumes D: "lawful_expense D" and inv: "expense_inv s" and d: "d \<in> set (docs (db_acc s))"
    and quiet: "ua_balance inp = None" and new: "ua_balance inp' = Some y"
    and run: "schedule [0, 1, 1, 0] (map (expense_call_prog U D)
       [CUpdateAccount now (ad_user d) (hex (m_acc D) (ad_id d)) inp, CUpdateAccount now' (ad_user d) (hex (m_acc D) (ad_id d)) inp'], s) =
       ([Done (GotAccount (Inr a)), Done (GotAccount (Inr b))], s')"
    and x: "x \<in> set (docs (db_acc s'))" "ad_id x = ad_id d"
  shows "a_balance b = y \<and> a_balance a = ad_balance d \<and> ad_balance x = ad_balance d"
proof -
  note M = lawful_expenseD(1) [OF D]
  let ?k = "hex (m_acc D) (ad_id d)" and ?v = "expense_call_prog U D (CUpdateAccount now' (ad_user d) (hex (m_acc D) (ad_id d)) inp')"
  let ?a = "\<lambda>acct. acct\<lparr>a_name := trim_space (ua_name inp), a_type := ua_type inp, a_currency := trim_space (ua_currency inp), a_balance := a_balance acct, a_updated := utc now\<rparr>"
  obtain q s1 where q: "on_acc (AccountRepository_GetByIDForUser (m_acc D) ?k (ad_user d)) s = (q, s1)"
    by (cases "on_acc (AccountRepository_GetByIDForUser (m_acc D) ?k (ad_user d)) s")
  then obtain c where g: "AccountRepository_GetByIDForUser (m_acc D) ?k (ad_user d) (db_acc s) = (q, c)" "s1 = s\<lparr>db_acc := c\<rparr>" by (auto simp: on_acc_eq)
  define p0 where "p0 = map_prog GotAccount (ok_then q (account_edit_prog D now inp))"
  have first: "turn 0 (map (expense_call_prog U D) [CUpdateAccount now (ad_user d) ?k inp, CUpdateAccount now' (ad_user d) ?k inp'], s) = ([p0, ?v], s1)"
    using q by (simp add: accountService_Update_prog_def map_step p0_def) (simp add: step_def)
  have p0: "(\<exists>e. p0 = Done (GotAccount (Inl e))) \<or> (\<exists>acct. q = Inr acct \<and>
      p0 = step (on_acc (AccountRepository_Update (m_acc D) (?a acct))) (\<lambda>w. map_prog GotAccount (ok_then w (\<lambda>_. Done (Inr (?a acct))))))"
    using quiet by (cases q) (simp_all add: p0_def account_edit_prog_def map_step Let_def)
  obtain qs s2 where two: "schedule (replicate 2 1) ([p0, ?v], s1) = (qs, s2)" by (cases "schedule (replicate 2 1) ([p0, ?v], s1)")
  have last: "turn 0 (qs, s2) = ([Done (GotAccount (Inr a)), Done (GotAccount (Inr b))], s')"
    using run first two by (simp add: numeral_2_eq_2)
  have "qs ! 1 = Done (GotAccount (Inr b))" using turn_other [OF last, of 1] by simp
  with schedule_solo [OF _ two] have solo: "run ?v s1 = (GotAccount (Inr b), s2)" "qs = [p0, Done (GotAccount (Inr b))]" by simp_all
  then have "on_acc (accountService_Update (m_acc D) now' (ad_user d) ?k inp') s1 = (Inr b, s2)"
    by (auto simp: run_map run_account_update map_prod_def split: prod.splits)
  then have u: "accountService_Update (m_acc D) now' (ad_user d) ?k inp' c = (Inr b, db_acc s2)" by (auto simp: on_acc_eq g(2))
  have c: "docs c = docs (db_acc s)" by (rule acc.get_docs [OF M g(1)])
  have i0: "ids_distinct ad_id (db_acc s)" using inv by (simp add: expense_inv_def accounts_inv_def)
  then have ids: "ids_distinct ad_id c" using c by (simp add: ids_distinct_def)
  note t = account_update_told [OF M ids d [folded c] u]
  obtain d' where d': "d' \<in> set (docs (db_acc s2))" "ad_id d' = ad_id d" "ad_user d' = ad_user d" using t(3) by blast
  from p0 show ?thesis
  proof (elim disjE exE conjE)
    fix e assume "p0 = Done (GotAccount (Inl e))"
    with last solo(2) show ?thesis by simp
  next
    fix acct assume acct: "q = Inr acct"
      and p0: "p0 = step (on_acc (AccountRepository_Update (m_acc D) (?a acct))) (\<lambda>w. map_prog GotAccount (ok_then w (\<lambda>_. Done (Inr (?a acct)))))"
    have old: "acct = account_toDomain (m_acc D) d" using acc.get_unique [OF M i0 d refl g(1)] acct by simp
    obtain w c3 where w: "AccountRepository_Update (m_acc D) (?a acct) (db_acc s2) = (w, c3)" by (cases "AccountRepository_Update (m_acc D) (?a acct) (db_acc s2)")
    then have fin: "w = Inr ()" "a = ?a acct" "s' = s2\<lparr>db_acc := c3\<rparr>"
      using last solo(2) p0 by (cases w; auto simp: step_def on_acc_def)+
    have one: "one_updated (\<lambda>x. ad_id x = ad_id d \<and> ad_user x = ad_user d) (account_set (?a acct)) (docs (db_acc s2)) (docs c3)"
      using acc.update_ok [OF M w [unfolded fin(1)]] hex_roundtrip [OF M] by (auto simp: old account_toDomain_def)
    have "x = account_set (?a acct) d'"
      by (rule one_updated_unique(3) [where did = ad_id, OF t(2) one _ d'(1,2)]) (use x fin(3) in \<open>simp_all add: account_set_def\<close>)
    then show ?thesis using t(1) new fin(2) by (simp add: account_set_def old account_toDomain_def)
  qed
qed

section \<open>Concrete schedules\<close>

definition demo_rename :: update_account_input where
  "demo_rename = \<lparr>ua_name = ''Main'', ua_type = ''checking'', ua_currency = ''EUR'', ua_balance = None\<rparr>"

definition demo_topup :: update_account_input where
  "demo_topup = \<lparr>ua_name = ''Cash'', ua_type = ''cash'', ua_currency = ''EUR'', ua_balance = Some (Fin False 5)\<rparr>"

theorem overlapping_expense_calls_witness:
  "\<exists>ps s'. schedule [0, 1, 2, 0, 1, 0, 2, 1, 0, 2] (map (expense_call_prog demo_unicode demo_drivers)
      [CCreateTransaction zero_time 50 51 ''ann'' demo_input, CUpdateAccount zero_time ''ann'' (mem_hex 7) demo_rename,
       CImport zero_time demo_gen ''ann'' (mem_hex 7) demo_rows], demo_db) = (ps, s') \<and> expense_inv s' \<and> tenant ''bob'' s' = tenant ''bob'' demo_db"
proof -
  let ?cs = "[CCreateTransaction zero_time 50 51 ''ann'' demo_input, CUpdateAccount zero_time ''ann'' (mem_hex 7) demo_rename,
       CImport zero_time demo_gen ''ann'' (mem_hex 7) demo_rows]"
  obtain ps s' where r: "schedule [0, 1, 2, 0, 1, 0, 2, 1, 0, 2] (map (expense_call_prog demo_unicode demo_drivers) ?cs, demo_db) = (ps, s')"
    by (cases "schedule [0, 1, 2, 0, 1, 0, 2, 1, 0, 2] (map (expense_call_prog demo_unicode demo_drivers) ?cs, demo_db)")
  have "''bob'' \<notin> caller ` set ?cs" by simp
  with overlapping_expense_calls [OF lawful_demo demo_inv r] r show ?thesis by blast
qed

lemma demo_rename_race:
  "case schedule [0, 1, 1, 0] (map (expense_call_prog demo_unicode demo_drivers)
      [CUpdateAccount zero_time ''ann'' (mem_hex 7) demo_rename, CUpdateAccount zero_time ''ann'' (mem_hex 7) demo_topup], demo_db) of
     ([Done (GotAccount (Inr a)), Done (GotAccount (Inr b))], s') \<Rightarrow> list_ex (\<lambda>x. ad_id x = 7) (docs (db_acc s')) | _ \<Rightarrow> False"
  by code_simp

lemma demo_ann: "\<exists>d \<in> set (docs (db_acc demo_db)). ad_id d = 7 \<and> ad_user d = ''ann'' \<and> ad_balance d = Fin False 0"
  by (simp add: demo_db_def demo_accounts_def mem_coll_def)

theorem rename_restores_balance_witness:
  "\<exists>a b s'. schedule [0, 1, 1, 0] (map (expense_call_prog demo_unicode demo_drivers)
      [CUpdateAccount zero_time ''ann'' (mem_hex 7) demo_rename, CUpdateAccount zero_time ''ann'' (mem_hex 7) demo_topup], demo_db) =
      ([Done (GotAccount (Inr a)), Done (GotAccount (Inr b))], s') \<and> a_balance b = Fin False 5 \<and>
     (\<exists>x \<in> set (docs (db_acc s')). ad_id x = 7 \<and> ad_balance x = Fin False 0)"
proof -
  obtain d where d: "d \<in> set (docs (db_acc demo_db))" "ad_id d = 7" "ad_user d = ''ann''" "ad_balance d = Fin False 0" using demo_ann by blast
  have h: "hex (m_acc demo_drivers) (ad_id d) = mem_hex 7" by (simp add: d(2) demo_drivers_def mem_driver_def)
  have u: "ua_balance demo_rename = None" "ua_balance demo_topup = Some (Fin False 5)" by (simp_all add: demo_rename_def demo_topup_def)
  obtain a b s' x where r: "schedule [0, 1, 1, 0] (map (expense_call_prog demo_unicode demo_drivers)
      [CUpdateAccount zero_time ''ann'' (mem_hex 7) demo_rename, CUpdateAccount zero_time ''ann'' (mem_hex 7) demo_topup], demo_db) =
      ([Done (GotAccount (Inr a)), Done (GotAccount (Inr b))], s')"
    and x: "x \<in> set (docs (db_acc s'))" "ad_id x = 7"
    using demo_rename_race by (auto simp: list_ex_iff split: prod.splits list.splits prog.splits expense_outcome.splits sum.splits)
  note r' = r [folded h d(3)]
  have "a_balance b = Fin False 5 \<and> a_balance a = ad_balance d \<and> ad_balance x = ad_balance d"
    by (rule rename_restores_balance [OF lawful_demo demo_inv d(1) u r' x(1)]) (simp add: x(2) d(2))
  with r x d(4) show ?thesis by metis
qed

end
