(* ===== verification/Budget_Concurrent.thy ===== *)
theory Budget_Concurrent imports Interleave Budget_Http begin

text \<open>
  budget-service with overlapping requests, transaction events and passes of the outbox relay. Each
  operation is the program of its database calls and of its requests to other services, in the
  order of \<open>service/budget_service.go\<close>, \<open>service/goal_service.go\<close>, \<open>service/report_service.go\<close>,
  \<open>service/overspend_service.go\<close>, \<open>client/expense_client.go\<close> and \<open>outbox.go\<close>; run alone it is the
  operation of the sequential model. The state is the database beside the network, which is
  expense-service and the bus together. The invariants hold under every schedule; that nothing is
  lost between the check and the record of an announcement does not, and is refuted here.
\<close>

section \<open>Steps\<close>

definition at_budgets :: "('e budget_coll \<Rightarrow> 'r \<times> 'e budget_coll) \<Rightarrow> 'e budget_db \<times> 's \<Rightarrow> 'r \<times> 'e budget_db \<times> 's" where
  "at_budgets f st = (case f (db_budgets (fst st)) of (r, c) \<Rightarrow> (r, ((fst st)\<lparr>db_budgets := c\<rparr>, snd st)))"

definition at_goals :: "('e goal_coll \<Rightarrow> 'r \<times> 'e goal_coll) \<Rightarrow> 'e budget_db \<times> 's \<Rightarrow> 'r \<times> 'e budget_db \<times> 's" where
  "at_goals f st = (case f (db_goals (fst st)) of (r, c) \<Rightarrow> (r, ((fst st)\<lparr>db_goals := c\<rparr>, snd st)))"

definition at_outbox :: "('e outbox_coll \<Rightarrow> 'r \<times> 'e outbox_coll) \<Rightarrow> 'e budget_db \<times> 's \<Rightarrow> 'r \<times> 'e budget_db \<times> 's" where
  "at_outbox f st = (case f (db_bout (fst st)) of (r, c) \<Rightarrow> (r, ((fst st)\<lparr>db_bout := c\<rparr>, snd st)))"

definition at_net :: "('s \<Rightarrow> 'r \<times> 's) \<Rightarrow> 'e budget_db \<times> 's \<Rightarrow> 'r \<times> 'e budget_db \<times> 's" where
  "at_net f st = (case f (snd st) of (r, n) \<Rightarrow> (r, (fst st, n)))"

lemmas at_defs = at_budgets_def at_goals_def at_outbox_def at_net_def

type_synonym ('e, 's, 'a) budget_prog = "('e budget_db \<times> 's, 'a) prog"

section \<open>The operations as programs\<close>

definition budgetService_Update_prog ::
  "'e budget_drivers \<Rightarrow> gotime \<Rightarrow> string \<Rightarrow> string \<Rightarrow> budget_input \<Rightarrow> ('e, 's, budget res) budget_prog" where
  "budgetService_Update_prog D now u k inp = (case validate_budget inp of
      Some e \<Rightarrow> Done (Inl e)
    | None \<Rightarrow> step (at_budgets (MongoBudgetRepository_GetByIDForUser (m_budgets D) k u)) (\<lambda>q. ok_then q (\<lambda>b.
        let b1 = b\<lparr>b_category := bi_category inp, b_amount := bi_amount inp, b_period := bi_period inp\<rparr>
        in step (at_budgets (MongoBudgetRepository_Update now (m_budgets D) b1)) (\<lambda>w. ok_then w (\<lambda>_.
             Done (Inr (b1\<lparr>b_updated := utc now\<rparr>)))))))"

definition goalService_Update_prog ::
  "'e budget_drivers \<Rightarrow> gotime \<Rightarrow> string \<Rightarrow> string \<Rightarrow> update_goal_input \<Rightarrow> ('e, 's, goal res) budget_prog" where
  "goalService_Update_prog D now u k inp = (case validate_goal_update inp of
      Some e \<Rightarrow> Done (Inl e)
    | None \<Rightarrow> step (at_goals (MongoGoalRepository_GetByIDForUser (m_goals D) k u)) (\<lambda>q. ok_then q (\<lambda>g.
        if \<not> time_equal (ug_date inp) (g_date g) \<and> time_before (ug_date inp) (utc now)
        then Done (Inl (ErrValidation ''target_date must be in the future''))
        else (let g1 = g\<lparr>g_name := ug_name inp, g_target := ug_target inp, g_date := ug_date inp, g_current := ug_current inp\<rparr>
          in step (at_goals (MongoGoalRepository_Update now (m_goals D) g1)) (\<lambda>w. ok_then w (\<lambda>_.
               Done (Inr (g1\<lparr>g_updated := utc now\<rparr>))))))))"

text \<open>The client of expense-service, one step per request; \<open>k\<close> is what the caller does with the sum.\<close>

fun sum_pages_prog ::
  "'s expense_http \<Rightarrow> string \<Rightarrow> string \<Rightarrow> gotime \<Rightarrow> gotime \<Rightarrow> nat \<Rightarrow> nat \<Rightarrow> f64 \<Rightarrow>
   (f64 res \<Rightarrow> ('e, 's, 'a) budget_prog) \<Rightarrow> ('e, 's, 'a) budget_prog" where
  "sum_pages_prog H u cid from to 0 page acc k = k (Inr acc)"
| "sum_pages_prog H u cid from to (Suc n) page acc k =
    step (at_net (doGet H u (GetTransactions (page_query cid from to page)))) (\<lambda>q. case q of
        Inl e \<Rightarrow> k (Inl e)
      | Inr data \<Rightarrow> (let txs = decode_transactions data; acc1 = add_expenses acc txs
          in if length txs < reportPageSize then k (Inr acc1) else sum_pages_prog H u cid from to n (Suc page) acc1 k))"

definition SumExpensesByCategory_prog ::
  "unicode \<Rightarrow> 's expense_http \<Rightarrow> string \<Rightarrow> string \<Rightarrow> gotime \<Rightarrow> gotime \<Rightarrow>
   (f64 res \<Rightarrow> ('e, 's, 'a) budget_prog) \<Rightarrow> ('e, 's, 'a) budget_prog" where
  "SumExpensesByCategory_prog U H u name from to k =
    step (at_net (findCategoryIDByName U H u name)) (\<lambda>q. case q of
        Inl e \<Rightarrow> k (Inl e)
      | Inr found \<Rightarrow> (case found of None \<Rightarrow> k (Inr f0)
          | Some cid \<Rightarrow> sum_pages_prog H u cid from to maxReportPages 1 f0 k))"

fun summary_prog ::
  "unicode \<Rightarrow> 's expense_http \<Rightarrow> string \<Rightarrow> gotime \<Rightarrow> gotime \<Rightarrow> budget list \<Rightarrow> report_summary \<Rightarrow>
   ('e, 's, report_summary res) budget_prog" where
  "summary_prog U H u from to [] acc = Done (Inr acc)"
| "summary_prog U H u from to (b # bs) acc =
    SumExpensesByCategory_prog U H u (b_category b) from to (\<lambda>q. ok_then q (\<lambda>actual.
      summary_prog U H u from to bs
        (acc\<lparr>rs_categories := rs_categories acc @ [\<lparr>cs_category = b_category b, cs_period = b_period b, cs_budgeted = b_amount b,
               cs_actual = actual, cs_remaining = fsub (b_amount b) actual\<rparr>],
             rs_budgeted := fadd (rs_budgeted acc) (b_amount b),
             rs_actual := fadd (rs_actual acc) actual\<rparr>)))"

definition reportService_Summary_prog ::
  "unicode \<Rightarrow> 's expense_http \<Rightarrow> 'e budget_drivers \<Rightarrow> string \<Rightarrow> gotime \<Rightarrow> gotime \<Rightarrow> ('e, 's, report_summary res) budget_prog" where
  "reportService_Summary_prog U H D u from to =
    step (at_budgets (MongoBudgetRepository_ListByUser (m_budgets D) u)) (\<lambda>q. ok_then q (\<lambda>budgets.
      summary_prog U H u from to budgets
        \<lparr>rs_from = format_rfc3339 from, rs_to = format_rfc3339 to, rs_categories = [], rs_budgeted = f0, rs_actual = f0\<rparr>))"

text \<open>The announcement and its record are two calls; errors of both are logged and dropped.\<close>

definition notify_prog ::
  "'e budget_drivers \<Rightarrow> gotime \<times> oid \<Rightarrow> string \<Rightarrow> budget \<Rightarrow> f64 \<Rightarrow> gotime \<Rightarrow> ('e, 's, 'a) budget_prog \<Rightarrow> ('e, 's, 'a) budget_prog" where
  "notify_prog D g u b actual from k =
    (if (case b_notified b of None \<Rightarrow> False | Some t \<Rightarrow> time_equal t from) then k
     else step (at_outbox (OutboxPublisher_PublishBudgetOverspent (m_bout D) (fst g) (snd g) (overspent_of u b actual from))) (\<lambda>q.
       case q of
         Inl _ \<Rightarrow> k
       | Inr _ \<Rightarrow> step (at_budgets (MongoBudgetRepository_Update (fst g) (m_budgets D) (b\<lparr>b_notified := Some from\<rparr>))) (\<lambda>_. k)))"

fun overspend_prog ::
  "unicode \<Rightarrow> 's expense_http \<Rightarrow> 'e budget_drivers \<Rightarrow> (nat \<Rightarrow> gotime \<times> oid) \<Rightarrow> string \<Rightarrow> gotime \<Rightarrow> nat \<Rightarrow> budget list \<Rightarrow>
   ('e, 's, unit res) budget_prog" where
  "overspend_prog U H D gen u now k [] = Done (Inr ())"
| "overspend_prog U H D gen u now k (b # bs) =
    (let from = currentPeriodStart (b_period b) now in
     SumExpensesByCategory_prog U H u (b_category b) from now (\<lambda>q. case q of
       Inl _ \<Rightarrow> overspend_prog U H D gen u now (Suc k) bs
     | Inr actual \<Rightarrow>
        if flt (fsub (b_amount b) actual) f0
        then notify_prog D (gen k) u b actual from (overspend_prog U H D gen u now (Suc k) bs)
        else overspend_prog U H D gen u now (Suc k) bs))"

definition HandleTransactionCreated_prog ::
  "unicode \<Rightarrow> 's expense_http \<Rightarrow> 'e budget_drivers \<Rightarrow> (nat \<Rightarrow> gotime \<times> oid) \<Rightarrow> string \<Rightarrow> gotime \<Rightarrow> ('e, 's, unit res) budget_prog" where
  "HandleTransactionCreated_prog U H D gen u now =
    step (at_budgets (MongoBudgetRepository_ListByUser (m_budgets D) u)) (\<lambda>q. ok_then q (overspend_prog U H D gen u now 0))"

text \<open>A pass of the relay: publish, then mark, event by event.\<close>

fun relay_events_prog ::
  "'e outbox_driver \<Rightarrow> 's publisher \<Rightarrow> gotime \<Rightarrow> outbox_event list \<Rightarrow> ('e, 's, unit res) budget_prog" where
  "relay_events_prog M pub now [] = Done (Inr ())"
| "relay_events_prog M pub now (ev # evs) =
    step (at_net (pub (ev_subject ev) (ev_payload ev) (ev_msg_id ev))) (\<lambda>q. case q of
        Inl _ \<Rightarrow> relay_events_prog M pub now evs
      | Inr _ \<Rightarrow> step (at_outbox (update_one M (\<lambda>d. ev_id d = ev_id ev) (set_published now))) (\<lambda>_. relay_events_prog M pub now evs))"

definition RelayOnce_prog :: "'e outbox_driver \<Rightarrow> 's publisher \<Rightarrow> gotime \<Rightarrow> nat \<Rightarrow> ('e, 's, unit res) budget_prog" where
  "RelayOnce_prog M pub now delivered =
    step (at_outbox (find_all M (\<lambda>d. ev_published d = None) (find_sorted (\<lambda>_. 0)))) (\<lambda>q. case q of
        Inl _ \<Rightarrow> Done (Inr ())
      | Inr evs \<Rightarrow> relay_events_prog M pub now (take delivered evs))"

section \<open>Without overlap the programs are the operations\<close>

lemma run_updates:
  "run (budgetService_Update_prog D now u k inp) st = at_budgets (budgetService_Update (m_budgets D) now u k inp) st"
  "run (goalService_Update_prog D now u k upd) st = at_goals (goalService_Update (m_goals D) now u k upd) st"
  by (auto simp: budgetService_Update_prog_def budgetService_Update_def goalService_Update_prog_def goalService_Update_def
      at_defs Let_def ok_then_def on_ok_def split: prod.split sum.split option.split)

lemma run_sum_pages:
  "run (sum_pages_prog H u cid from to n page acc k) (s, net) =
    (case sum_pages H u cid from to n page acc net of (r, net1) \<Rightarrow> run (k r) (s, net1))"
  by (induction n arbitrary: page acc net) (simp_all add: at_net_def Let_def on_ok_def split: prod.split sum.split)

lemma run_sum:
  "run (SumExpensesByCategory_prog U H u name from to k) (s, net) =
    (case SumExpensesByCategory U H u name from to net of (r, net1) \<Rightarrow> run (k r) (s, net1))"
  by (simp add: SumExpensesByCategory_prog_def SumExpensesByCategory_def at_net_def run_sum_pages on_ok_def split: prod.split sum.split option.split)

lemma run_summary:
  "run (summary_prog U H u from to bs acc) (s, net) = (case summary_loop U H u from to bs acc net of (r, net1) \<Rightarrow> (r, (s, net1)))"
  by (induction bs arbitrary: acc net) (simp_all add: run_sum run_ok_then on_ok_def split: prod.split sum.split)

lemma run_Summary:
  "run (reportService_Summary_prog U H D u from to) (s, net) =
    (case reportService_Summary U H (m_budgets D) u from to (db_budgets s, net) of (r, (c, net1)) \<Rightarrow> (r, (s\<lparr>db_budgets := c\<rparr>, net1)))"
  by (simp add: reportService_Summary_prog_def reportService_Summary_def at_budgets_def run_summary run_ok_then on_ok_def split: prod.split sum.split)

lemma run_notify:
  "run (notify_prog D g u b actual from k) (s, net) = run k (notifyIfOverspent D g u b actual from s, net)"
  by (cases "case b_notified b of None \<Rightarrow> False | Some t \<Rightarrow> time_equal t from")
    (simp_all add: notify_prog_def notifyIfOverspent_def at_defs split: prod.split sum.split)

lemma run_overspend: "run (overspend_prog U H D gen u now k bs) (s, net) = (Inr (), overspend_loop U H D gen u now k bs s net)"
  by (induction bs arbitrary: k s net) (simp_all add: run_sum run_notify Let_def split: prod.split sum.split)

lemma run_Handle: "run (HandleTransactionCreated_prog U H D gen u now) st = HandleTransactionCreated U H D gen u now st"
  by (cases st) (simp add: HandleTransactionCreated_prog_def HandleTransactionCreated_def at_budgets_def run_overspend run_ok_then on_ok_def
      split: prod.split sum.split)

lemma run_relay_events:
  "run (relay_events_prog M pub now evs) (s, net) =
    (case fold (relay_event M pub now) evs (db_bout s, net) of (c, net1) \<Rightarrow> (Inr (), (s\<lparr>db_bout := c\<rparr>, net1)))"
proof (induction evs arbitrary: s net)
  case (Cons ev evs)
  then show ?case by (simp add: relay_event_def at_defs split: prod.split sum.split)
qed simp

lemma run_RelayOnce:
  "run (RelayOnce_prog M pub now n) (s, net) =
    (case Relay_RelayOnce M pub now n (db_bout s, net) of (c, net1) \<Rightarrow> (Inr (), (s\<lparr>db_bout := c\<rparr>, net1)))"
  by (simp add: RelayOnce_prog_def Relay_RelayOnce_def at_outbox_def run_relay_events split: prod.split sum.split)

section \<open>What the programs guarantee each other\<close>

text \<open>
  The stored budgets and goals stay well formed, users outside \<open>K\<close> keep theirs, the outbox only
  grows, by announcements of overspent budgets of users in \<open>S\<close>, the bus forgets nothing, and an event
  that is marked as published has been sent.
\<close>

definition announces :: "string set \<Rightarrow> oid \<times> string \<times> json \<times> string \<Rightarrow> bool" where
  "announces S m \<longleftrightarrow> (\<exists>e u b actual from. m = (ev_id e, message e) \<and> u \<in> S \<and> overspent_msg u b actual from e \<and>
     b_user b = u \<and> flt (b_amount b) actual)"

definition budget_guar ::
  "('s \<Rightarrow> (string \<times> json \<times> string) set) \<Rightarrow> string set \<Rightarrow> string set \<Rightarrow> 'e budget_db \<times> 's \<Rightarrow> 'e budget_db \<times> 's \<Rightarrow> bool" where
  "budget_guar sent K S st st' \<longleftrightarrow>
     (budget_inv (fst st) \<longrightarrow> budget_inv (fst st')) \<and>
     (\<forall>v. v \<notin> K \<longrightarrow> budget_tenant v (fst st') = budget_tenant v (fst st)) \<and>
     (\<exists>new. queue_of (db_bout (fst st')) = queue_of (db_bout (fst st)) @ new \<and> list_all (announces S) new) \<and>
     sent (snd st) \<subseteq> sent (snd st') \<and>
     (outbox_inv sent (db_bout (fst st)) (snd st) \<longrightarrow> outbox_inv sent (db_bout (fst st')) (snd st'))"

interpretation bg: interference "budget_guar sent K S"
proof
  fix a b c :: "'e budget_db \<times> 'a" assume g: "budget_guar sent K S a b" "budget_guar sent K S b c"
  obtain new new' where "queue_of (db_bout (fst b)) = queue_of (db_bout (fst a)) @ new" "list_all (announces S) new"
    "queue_of (db_bout (fst c)) = queue_of (db_bout (fst b)) @ new'" "list_all (announces S) new'"
    using g unfolding budget_guar_def by blast
  then have "queue_of (db_bout (fst c)) = queue_of (db_bout (fst a)) @ (new @ new') \<and> list_all (announces S) (new @ new')" by simp
  moreover have "budget_tenant v (fst c) = budget_tenant v (fst a)" if "v \<notin> K" for v using g that by (simp add: budget_guar_def)
  moreover have "sent (snd a) \<subseteq> sent (snd c)" using g by (auto simp: budget_guar_def)
  ultimately show "budget_guar sent K S a c" using g unfolding budget_guar_def by blast
qed (simp add: budget_guar_def)

text \<open>The steps.\<close>

lemma guar_local:
  assumes "acts_for u (fst st) (fst st')" and "u \<in> K" and "db_bout (fst st') = db_bout (fst st)" and "snd st' = snd st"
  shows "budget_guar sent K S st st'"
proof -
  have "budget_tenant v (fst st') = budget_tenant v (fst st)" if "v \<notin> K" for v
    by (rule acts_for_tenant [OF assms(1)]) (use that assms(2) in blast)
  with acts_for_inv [OF assms(1)] assms(3,4) show ?thesis by (simp add: budget_guar_def)
qed

lemma guar_budgets:
  assumes "at_budgets f st = (r, st')" and "budget_moves u (db_budgets (fst st)) (snd (f (db_budgets (fst st))))" and "u \<in> K"
  shows "budget_guar sent K S st st'"
  by (rule guar_local [of u]) (use assms in \<open>auto simp: at_budgets_def acts_for_def split: prod.splits\<close>)

lemma guar_goals:
  assumes "at_goals f st = (r, st')" and "goal_moves u (db_goals (fst st)) (snd (f (db_goals (fst st))))" and "u \<in> K"
  shows "budget_guar sent K S st st'"
  by (rule guar_local [of u]) (use assms in \<open>auto simp: at_goals_def acts_for_def split: prod.splits\<close>)

lemma guar_net:
  assumes "at_net f st = (r, st')" and "sent (snd st) \<subseteq> sent (snd (f (snd st)))"
  shows "budget_guar sent K S st st'"
  proof -
  have "st' = (fst st, snd (f (snd st)))" using assms(1) by (auto simp: at_net_def split: prod.splits)
  with assms(2) show ?thesis by (auto simp: budget_guar_def outbox_inv_def)
qed

lemma guar_outbox:
  assumes "at_outbox f st = (r, st')" and "f (db_bout (fst st)) = (r, c)"
    and "queue_of c = queue_of (db_bout (fst st)) @ new" and "list_all (announces S) new"
    and "outbox_inv sent (db_bout (fst st)) (snd st) \<Longrightarrow> outbox_inv sent c (snd st)"
  shows "budget_guar sent K S st st'"
  using assms by (auto simp: at_outbox_def budget_guar_def budget_inv_def budget_tenant_def split: prod.splits)

text \<open>What the others cannot take away: the invariants, a queued message, and a sent one.\<close>

definition tidy :: "('s \<Rightarrow> (string \<times> json \<times> string) set) \<Rightarrow> 'e budget_db \<times> 's \<Rightarrow> bool" where
  "tidy sent st \<longleftrightarrow> budget_inv (fst st) \<and> outbox_inv sent (db_bout (fst st)) (snd st)"

lemma stable_tidy: "stable (budget_guar sent K S) (tidy sent)"
  by rule (simp add: tidy_def budget_guar_def)

lemma stable_queued: "stable (budget_guar sent K S) (\<lambda>st. A \<subseteq> set (queue_of (db_bout (fst st))))"
  by rule (auto simp: budget_guar_def)

lemma stable_sent: "stable (budget_guar sent K S) (\<lambda>st. m \<in> sent (snd st))"
  by rule (auto simp: budget_guar_def)

text \<open>Who the result belongs to.\<close>

lemma list_owned:
  assumes M: "lawful (same_id bd_id) M" and l: "MongoBudgetRepository_ListByUser M u c = (Inr bs, c')" and inv: "budgets_inv c"
  shows "listed u bs"
  by (rule list_listed(1) [OF M inv l])

lemma list_budgets_step:
  assumes D: "lawful_budget D" and P: "budget_inv (fst st)"
    and r: "at_budgets (MongoBudgetRepository_ListByUser (m_budgets D) u) st = (r, st')" and u: "u \<in> K"
  shows "budget_guar sent K S st st' \<and> (\<forall>bs. r = Inr bs \<longrightarrow> listed u bs)"
proof (rule conjI)
  note M = lawful_budgetD(1) [OF D]
  show "budget_guar sent K S st st'"
    by (rule guar_budgets [OF r _ u]) (use budgetService_moves(2) [OF M, of u] in \<open>simp add: budgetService_List_def\<close>)
  show "\<forall>bs. r = Inr bs \<longrightarrow> listed u bs"
    using r P list_listed(1) [OF M] by (auto simp: at_budgets_def budget_inv_def split: prod.splits)
qed

section \<open>Every program is safe\<close>

text \<open>Expense-service takes nothing from the bus.\<close>

definition keeps_sent :: "('s \<Rightarrow> 'm set) \<Rightarrow> 's expense_http \<Rightarrow> bool" where
  "keeps_sent sent H \<longleftrightarrow> (\<forall>u q n. sent n \<subseteq> sent (snd (H u q n)))"

lemma keeps_sent_net: "keeps_sent sent H \<Longrightarrow> net_step (\<lambda>a b. sent a \<subseteq> sent b) u H"
  by (auto simp: keeps_sent_def net_step_def reflp_def transp_def)

lemma doGet_sent: "keeps_sent sent H \<Longrightarrow> sent n \<subseteq> sent (snd (doGet H u q n))"
  using doGet_net [OF keeps_sent_net] by (metis prod.collapse)

lemma find_sent: "keeps_sent sent H \<Longrightarrow> sent n \<subseteq> sent (snd (findCategoryIDByName U H u name n))"
  using doGet_sent [of sent H n u GetCategories] by (auto simp: findCategoryIDByName_def on_ok_def split: prod.splits sum.splits)

lemma sum_pages_safe:
  assumes H: "keeps_sent sent H" and P: "stable (budget_guar sent K S) P" and k: "\<And>r. safe (budget_guar sent K S) P (k r) Q"
  shows "safe (budget_guar sent K S) P (sum_pages_prog H u cid from to n page acc k) Q"
proof (induction n arbitrary: page acc)
  case (Suc n)
  show ?case unfolding sum_pages_prog.simps
  proof (rule safe_step_quiet [OF P])
    show "budget_guar sent K S st st'" if "at_net (doGet H u (GetTransactions (page_query cid from to page))) st = (r, st')" for st r st'
      by (rule guar_net [OF that]) (rule doGet_sent [OF H])
  qed (use k Suc in \<open>auto simp: Let_def split: sum.split\<close>)
qed (simp add: k)

lemma sum_safe:
  assumes H: "keeps_sent sent H" and P: "stable (budget_guar sent K S) P" and k: "\<And>r. safe (budget_guar sent K S) P (k r) Q"
  shows "safe (budget_guar sent K S) P (SumExpensesByCategory_prog U H u name from to k) Q"
  unfolding SumExpensesByCategory_prog_def
proof (rule safe_step_quiet [OF P])
  show "budget_guar sent K S st st'" if "at_net (findCategoryIDByName U H u name) st = (r, st')" for st r st'
    by (rule guar_net [OF that]) (rule find_sent [OF H])
qed (use k sum_pages_safe [OF H P k] in \<open>auto split: sum.split option.split\<close>)

lemma summary_safe:
  assumes H: "keeps_sent sent H"
  shows "safe (budget_guar sent K S) (tidy sent) (summary_prog U H u from to bs acc) (\<lambda>r st. True)"
proof (induction bs arbitrary: acc)
  case Nil
  show ?case by (auto intro: safe_Done stable_tidy)
next
  case (Cons b bs)
  show ?case unfolding summary_prog.simps
  proof (rule sum_safe [OF H stable_tidy], goal_cases)
    case (1 r)
    with Cons show ?case by (cases r) (auto intro: safe_Done stable_tidy)
  qed
qed

lemma Summary_safe:
  assumes D: "lawful_budget D" and H: "keeps_sent sent H" and u: "u \<in> K"
  shows "safe (budget_guar sent K S) (tidy sent) (reportService_Summary_prog U H D u from to) (\<lambda>r st. True)"
  unfolding reportService_Summary_prog_def
proof (rule safe_step_quiet [OF stable_tidy], goal_cases)
  case (1 st r st')
  then show ?case using list_budgets_step [OF D _ 1(2) u] by (simp add: tidy_def)
next
  case (2 q)
  then show ?case by (cases q) (auto intro: safe_Done stable_tidy summary_safe [OF H])
qed

text \<open>The updates: what is written back belongs to the caller and is valid whatever it overwrites.\<close>

lemma Budget_update_safe:
  assumes D: "lawful_budget D" and u: "u \<in> K"
  shows "safe (budget_guar sent K S) (tidy sent) (budgetService_Update_prog D now u k inp) (\<lambda>r st. \<forall>b. r = Inr b \<longrightarrow> b_user b = u)"
proof (cases "validate_budget inp")
  case None
  note M = lawful_budgetD(1) [OF D]
  show ?thesis unfolding budgetService_Update_prog_def None option.case
  proof (rule safe_step_pure [where E = "\<lambda>q. \<forall>b. q = Inr b \<longrightarrow> b_user b = u", OF stable_tidy], goal_cases)
    case (1 st q st')
    obtain c where g: "MongoBudgetRepository_GetByIDForUser (m_budgets D) k u (db_budgets (fst st)) = (q, c)"
      using 1(2) by (auto simp: at_budgets_def split: prod.splits)
    have "budget_guar sent K S st st'" by (rule guar_budgets [OF 1(2) _ u]) (simp add: g bud.get_docs [OF M g] moves_docs)
    with bud.get_owner [OF M] g show ?case by blast
  next
    case (2 q)
    show ?case
    proof (cases q)
      case (Inr b)
      let ?b = "b\<lparr>b_category := bi_category inp, b_amount := bi_amount inp, b_period := bi_period inp\<rparr>"
      have m: "budget_moves u c (snd (MongoBudgetRepository_Update now (m_budgets D) ?b c))" for c
      proof (rule bud.update_moves [OF M])
        show "MongoBudgetRepository_Update now (m_budgets D) ?b c = (fst (MongoBudgetRepository_Update now (m_budgets D) ?b c),
          snd (MongoBudgetRepository_Update now (m_budgets D) ?b c))" by simp
      qed (use None validate_budget_ok(1) [of inp] 2 Inr in \<open>simp_all add: budget_set_def wf_budget_doc_def\<close>)
      show ?thesis unfolding Inr ok_then_simps Let_def
      proof (rule safe_step_quiet [OF stable_tidy], goal_cases)
        case (1 st w st')
        show ?case by (rule guar_budgets [OF 1(2) m u])
      next
        case (2 w)
        show ?case by (cases w) (use \<open>\<forall>b. q = Inr b \<longrightarrow> b_user b = u\<close> Inr in \<open>auto intro!: safe_Done stable_tidy\<close>)
      qed
    qed (auto intro!: safe_Done stable_tidy)
  qed
qed (auto simp: budgetService_Update_prog_def intro!: safe_Done stable_tidy)

lemma Goal_update_safe:
  assumes D: "lawful_budget D" and u: "u \<in> K"
  shows "safe (budget_guar sent K S) (tidy sent) (goalService_Update_prog D now u k inp) (\<lambda>r st. \<forall>g. r = Inr g \<longrightarrow> g_user g = u)"
proof (cases "validate_goal_update inp")
  case None
  note M = lawful_budgetD(2) [OF D]
  show ?thesis unfolding goalService_Update_prog_def None option.case
  proof (rule safe_step_pure [where E = "\<lambda>q. \<forall>g. q = Inr g \<longrightarrow> g_user g = u", OF stable_tidy], goal_cases)
    case (1 st q st')
    obtain c where g: "MongoGoalRepository_GetByIDForUser (m_goals D) k u (db_goals (fst st)) = (q, c)"
      using 1(2) by (auto simp: at_goals_def split: prod.splits)
    have "budget_guar sent K S st st'" by (rule guar_goals [OF 1(2) _ u]) (simp add: g goal.get_docs [OF M g] moves_docs)
    with goal.get_owner [OF M] g show ?case by blast
  next
    case (2 q)
    show ?case
    proof (cases q)
      case (Inr g)
      let ?g = "g\<lparr>g_name := ug_name inp, g_target := ug_target inp, g_date := ug_date inp, g_current := ug_current inp\<rparr>"
      have m: "goal_moves u c (snd (MongoGoalRepository_Update now (m_goals D) ?g c))" for c
      proof (rule goal.update_moves [OF M])
        show "MongoGoalRepository_Update now (m_goals D) ?g c = (fst (MongoGoalRepository_Update now (m_goals D) ?g c),
          snd (MongoGoalRepository_Update now (m_goals D) ?g c))" by simp
      qed (use None validate_goal_update_ok(1) [of inp] 2 Inr in \<open>simp_all add: goal_set_def wf_goal_doc_def\<close>)
      have "safe (budget_guar sent K S) (tidy sent) (step (at_goals (MongoGoalRepository_Update now (m_goals D) ?g))
        (\<lambda>w. ok_then w (\<lambda>_. Done (Inr (?g\<lparr>g_updated := utc now\<rparr>))))) (\<lambda>r st. \<forall>g. r = Inr g \<longrightarrow> g_user g = u)"
      proof (rule safe_step_quiet [OF stable_tidy], goal_cases)
        case (1 st w st')
        show ?case by (rule guar_goals [OF 1(2) m u])
      next
        case (2 w)
        show ?case by (cases w) (use \<open>\<forall>g. q = Inr g \<longrightarrow> g_user g = u\<close> Inr in \<open>auto intro!: safe_Done stable_tidy\<close>)
      qed
      then show ?thesis by (auto simp: Inr Let_def intro!: safe_Done stable_tidy)
    qed (auto intro!: safe_Done stable_tidy)
  qed
qed (auto simp: goalService_Update_prog_def intro!: safe_Done stable_tidy)

text \<open>The announcement of a budget that was listed for \<open>u\<close> and is overspent, and its record.\<close>

lemma publish_guar:
  assumes D: "lawful_budget D" and u: "u \<in> S" "b_user b = u" and a: "flt (b_amount b) actual"
    and r: "at_outbox (OutboxPublisher_PublishBudgetOverspent (m_bout D) now i (overspent_of u b actual from)) st = (r, st')"
  shows "budget_guar sent K S st st'"
proof -
  note M = lawful_budgetD(3) [OF D]
  obtain c where p: "OutboxPublisher_PublishBudgetOverspent (m_bout D) now i (overspent_of u b actual from) (db_bout (fst st)) = (r, c)"
    using r by (auto simp: at_outbox_def split: prod.splits)
  have an: "announces S (ev_id e, message e)" if "overspent_msg u b actual from e" for e
    unfolding announces_def using that u a by blast
  have "\<exists>new. queue_of c = queue_of (db_bout (fst st)) @ new \<and> list_all (announces S) new"
    using enqueue_overspent(1) [OF M p]
  proof (elim disjE exE conjE)
    fix e assume "docs c = docs (db_bout (fst st)) @ [e]" "overspent_msg u b actual from e"
    with an show ?thesis by (intro exI [of _ "[(ev_id e, message e)]"]) (simp add: queue_of_def)
  qed (simp add: queue_of_def)
  then obtain new where new: "queue_of c = queue_of (db_bout (fst st)) @ new" "list_all (announces S) new" by blast
  have M': "lawful (\<lambda>x y. ev_id x = ev_id y) (m_bout D)" using M by (simp add: same_id_def [abs_def])
  have inv: "outbox_inv sent c (snd st)" if "outbox_inv sent (db_bout (fst st)) (snd st)"
    using p that enqueue_inv [OF M' that] by (auto simp: OutboxPublisher_PublishBudgetOverspent_def split: option.splits)
  show ?thesis by (rule guar_outbox [OF r p new inv])
qed

lemma notify_safe:
  assumes D: "lawful_budget D" and u: "u \<in> S" "u \<in> K" and b: "listed u (b # bs)" and a: "flt (b_amount b) actual"
    and k: "safe (budget_guar sent K S) (tidy sent) p Q"
  shows "safe (budget_guar sent K S) (tidy sent) (notify_prog D g u b actual from p) Q"
proof -
  have own: "b_user b = u" using b by (simp add: listed_def)
  have m: "budget_moves u c (snd (MongoBudgetRepository_Update now (m_budgets D) (b\<lparr>b_notified := t\<rparr>) c))" for c now t
  proof (rule bud.update_moves [OF lawful_budgetD(1) [OF D]])
    show "MongoBudgetRepository_Update now (m_budgets D) (b\<lparr>b_notified := t\<rparr>) c =
      (fst (MongoBudgetRepository_Update now (m_budgets D) (b\<lparr>b_notified := t\<rparr>) c),
       snd (MongoBudgetRepository_Update now (m_budgets D) (b\<lparr>b_notified := t\<rparr>) c))" by simp
  qed (use b in \<open>simp_all add: listed_def\<close>)
  have rec: "safe (budget_guar sent K S) (tidy sent)
     (step (at_budgets (MongoBudgetRepository_Update (fst g) (m_budgets D) (b\<lparr>b_notified := Some from\<rparr>))) (\<lambda>_. p)) Q"
    by (rule safe_step_quiet [OF stable_tidy guar_budgets k]) (use u(2) m in auto)
  have "safe (budget_guar sent K S) (tidy sent)
     (step (at_outbox (OutboxPublisher_PublishBudgetOverspent (m_bout D) (fst g) (snd g) (overspent_of u b actual from))) (\<lambda>q. case q of
         Inl _ \<Rightarrow> p
       | Inr _ \<Rightarrow> step (at_budgets (MongoBudgetRepository_Update (fst g) (m_budgets D) (b\<lparr>b_notified := Some from\<rparr>))) (\<lambda>_. p))) Q"
  proof (rule safe_step_quiet [OF stable_tidy], goal_cases)
    case (1 st r st')
    show ?case by (rule publish_guar [OF D u(1) own a 1(2)])
  qed (use rec k in \<open>auto split: sum.split\<close>)
  with k show ?thesis by (auto simp: notify_prog_def)
qed

lemma overspend_safe:
  assumes D: "lawful_budget D" and H: "keeps_sent sent H" and u: "u \<in> S" "u \<in> K"
  shows "listed u bs \<Longrightarrow> safe (budget_guar sent K S) (tidy sent) (overspend_prog U H D gen u now k bs) (\<lambda>r st. True)"
proof (induction bs arbitrary: k)
  case Nil
  show ?case by (auto intro: safe_Done stable_tidy)
next
  case (Cons b bs)
  note IH = Cons.IH [OF listed_Cons [OF Cons.prems]]
  show ?case unfolding overspend_prog.simps Let_def
  proof (rule sum_safe [OF H stable_tidy], goal_cases)
    case (1 r)
    show ?case using IH notify_safe [OF D u Cons.prems _ IH] by (cases r) (auto simp: flt_fsub_zero)
  qed
qed

lemma Handle_safe:
  assumes D: "lawful_budget D" and H: "keeps_sent sent H" and u: "u \<in> S" "u \<in> K"
  shows "safe (budget_guar sent K S) (tidy sent) (HandleTransactionCreated_prog U H D gen u now) (\<lambda>r st. True)"
  unfolding HandleTransactionCreated_prog_def
proof (rule safe_step_pure [where E = "\<lambda>q. \<forall>bs. q = Inr bs \<longrightarrow> listed u bs", OF stable_tidy], goal_cases)
  case (1 st q st')
  show ?case by (rule list_budgets_step [OF D _ 1(2) u(2)]) (use 1(1) in \<open>simp add: tidy_def\<close>)
next
  case (2 q)
  then show ?case by (cases q) (auto intro!: safe_Done stable_tidy overspend_safe [OF D H u])
qed

text \<open>The relay: a mark follows an acknowledgement of the message that is queued under that id.\<close>

lemma relay_events_safe:
  assumes M: "lawful cf M" and h: "honest sent pub"
  shows "safe (budget_guar sent K S) (\<lambda>st. tidy sent st \<and> (\<lambda>e. (ev_id e, message e)) ` set evs \<subseteq> set (queue_of (db_bout (fst st))))
    (relay_events_prog M pub now evs) (\<lambda>r st. True)"
proof (induction evs)
  case Nil
  show ?case by (auto intro: safe_Done stable_conj stable_tidy stable_const)
next
  case (Cons ev evs)
  let ?P = "\<lambda>evs st. tidy sent st \<and> (\<lambda>e. (ev_id e, message e)) ` set evs \<subseteq> set (queue_of (db_bout (fst st)))"
  have P: "stable (budget_guar sent K S) (?P es)" for es by (intro stable_conj stable_tidy stable_queued)
  have rest: "safe (budget_guar sent K S) (?P (ev # evs)) (relay_events_prog M pub now evs) (\<lambda>r st. True)"
    by (rule safe_pre [OF Cons P]) auto
  show ?case unfolding relay_events_prog.simps
  proof (rule safe_step_and [where E = "\<lambda>r st. r = Inr () \<longrightarrow> message ev \<in> sent (snd st)", OF P], goal_cases)
    case (1 r)
    show ?case by (intro stable_imp stable_sent)
  next
    case (2 st r st')
    then have pub: "pub (ev_subject ev) (ev_payload ev) (ev_msg_id ev) (snd st) = (r, snd st')" by (auto simp: at_net_def split: prod.splits)
    then have "sent (snd st) \<subseteq> sent (snd st')" "r = Inr () \<longrightarrow> message ev \<in> sent (snd st')"
      using h unfolding honest_def message_def by blast+
    with guar_net [OF 2(2)] pub show ?case by simp
  next
    case (3 r)
    show ?case
    proof (cases r)
      case (Inl e)
      with rest show ?thesis by (auto intro: safe_pre stable_conj P stable_const)
    next
      case (Inr w)
      let ?R = "\<lambda>st. ?P (ev # evs) st \<and> (r = Inr () \<longrightarrow> message ev \<in> sent (snd st))"
      have R: "stable (budget_guar sent K S) ?R" by (intro stable_conj stable_imp stable_sent stable_tidy stable_queued)
      have "safe (budget_guar sent K S) ?R (step (at_outbox (update_one M (\<lambda>d. ev_id d = ev_id ev) (set_published now)))
        (\<lambda>_. relay_events_prog M pub now evs)) (\<lambda>r st. True)"
      proof (rule safe_step_quiet [OF R], goal_cases)
        case (1 st q st')
        obtain c where u: "update_one M (\<lambda>d. ev_id d = ev_id ev) (set_published now) (db_bout (fst st)) = (q, c)"
          using 1(2) by (auto simp: at_outbox_def split: prod.splits)
        have o: "outbox_inv sent (db_bout (fst st)) (snd st)" "(ev_id ev, message ev) \<in> set (queue_of (db_bout (fst st)))" "message ev \<in> sent (snd st)"
          using 1(1) Inr by (auto simp: tidy_def)
        show ?case by (rule guar_outbox [OF 1(2) u, where new = "[]"]) (use mark_inv [OF M o u] in simp_all)
      next
        case (2 q)
        show ?case by (rule safe_pre [OF rest R]) blast
      qed
      with Inr show ?thesis by simp
    qed
  qed
qed

lemma stable_fetched:
  "stable (budget_guar sent K S) (\<lambda>st. \<forall>evs. r = Inr evs \<longrightarrow> (\<lambda>e. (ev_id e, message e)) ` set evs \<subseteq> set (queue_of (db_bout (fst st))))"
  unfolding stable_def budget_guar_def by fastforce

lemma Relay_safe:
  assumes M: "lawful cf M" and h: "honest sent pub"
  shows "safe (budget_guar sent K S) (tidy sent) (RelayOnce_prog M pub now n) (\<lambda>r st. True)"
  unfolding RelayOnce_prog_def
proof (rule safe_step_and [where E = "\<lambda>r st. \<forall>evs. r = Inr evs \<longrightarrow>
      (\<lambda>e. (ev_id e, message e)) ` set evs \<subseteq> set (queue_of (db_bout (fst st)))", OF stable_tidy], goal_cases)
  case (1 r)
  show ?case by (rule stable_fetched)
next
  case (2 st r st')
  obtain c where f: "find_all M (\<lambda>d. ev_published d = None) (find_sorted (\<lambda>_. 0)) (db_bout (fst st)) = (r, c)" and st': "db_bout (fst st') = c"
    using 2(2) by (auto simp: at_outbox_def split: prod.splits)
  have c: "docs c = docs (db_bout (fst st))" by (rule find_all_docs [OF M f])
  have "set evs \<subseteq> set (docs c)" if "r = Inr evs" for evs
    using find_sorted_ok(1) [OF M f [unfolded that]] c by (metis filter_is_subset mset_eq_setD)
  moreover have "budget_guar sent K S st st'"
    by (rule guar_outbox [OF 2(2) f, where new = "[]"]) (simp_all add: c queue_of_def outbox_inv_def)
  ultimately show ?case using st' queue_mem by fastforce
next
  case (3 r)
  show ?case
  proof (cases r)
    case (Inl e)
    show ?thesis unfolding Inl sum.case by (rule safe_Done) (auto intro!: stable_conj stable_tidy stable_const simp: Inl)
  next
    case (Inr evs)
    show ?thesis unfolding Inr sum.case
      by (rule safe_pre [OF relay_events_safe [OF M h] stable_conj [OF stable_tidy stable_fetched]]) (use Inr set_take_subset [of n evs] in blast)
  qed
qed

section \<open>Overlapping calls\<close>

datatype budget_call =
    CCreateBudget gotime oid string budget_input
  | CListBudgets string
  | CGetBudget string string
  | CUpdateBudget gotime string string budget_input
  | CDeleteBudget string string
  | CCreateGoal gotime oid string create_goal_input
  | CListGoals string
  | CGetGoal string string
  | CUpdateGoal gotime string string update_goal_input
  | CDeleteGoal string string
  | CSummary string gotime gotime
  | CCreated "nat \<Rightarrow> gotime \<times> oid" string gotime
  | CRelay gotime nat

datatype budget_outcome =
    GotBudget "budget res"
  | GotBudgets "budget list res"
  | GotGoal "goal res"
  | GotGoals "goal list res"
  | GotNothing "unit res"
  | GotSummary "report_summary res"

text \<open>An operation of one database call is one step.\<close>

fun budget_call_prog ::
  "unicode \<Rightarrow> 's expense_http \<Rightarrow> 's publisher \<Rightarrow> 'e budget_drivers \<Rightarrow> budget_call \<Rightarrow> ('e, 's, budget_outcome) budget_prog" where
  "budget_call_prog U H pub D (CCreateBudget now i u inp) =
     step (at_budgets (budgetService_Create (m_budgets D) now i u inp)) (\<lambda>r. Done (GotBudget r))"
| "budget_call_prog U H pub D (CListBudgets u) = step (at_budgets (budgetService_List (m_budgets D) u)) (\<lambda>r. Done (GotBudgets r))"
| "budget_call_prog U H pub D (CGetBudget u k) = step (at_budgets (budgetService_Get (m_budgets D) u k)) (\<lambda>r. Done (GotBudget r))"
| "budget_call_prog U H pub D (CUpdateBudget now u k inp) = map_prog GotBudget (budgetService_Update_prog D now u k inp)"
| "budget_call_prog U H pub D (CDeleteBudget u k) = step (at_budgets (budgetService_Delete (m_budgets D) u k)) (\<lambda>r. Done (GotNothing r))"
| "budget_call_prog U H pub D (CCreateGoal now i u inp) =
     step (at_goals (goalService_Create (m_goals D) now i u inp)) (\<lambda>r. Done (GotGoal r))"
| "budget_call_prog U H pub D (CListGoals u) = step (at_goals (goalService_List (m_goals D) u)) (\<lambda>r. Done (GotGoals r))"
| "budget_call_prog U H pub D (CGetGoal u k) = step (at_goals (goalService_Get (m_goals D) u k)) (\<lambda>r. Done (GotGoal r))"
| "budget_call_prog U H pub D (CUpdateGoal now u k inp) = map_prog GotGoal (goalService_Update_prog D now u k inp)"
| "budget_call_prog U H pub D (CDeleteGoal u k) = step (at_goals (goalService_Delete (m_goals D) u k)) (\<lambda>r. Done (GotNothing r))"
| "budget_call_prog U H pub D (CSummary u from to) = map_prog GotSummary (reportService_Summary_prog U H D u from to)"
| "budget_call_prog U H pub D (CCreated gen u now) = map_prog GotNothing (HandleTransactionCreated_prog U H D gen u now)"
| "budget_call_prog U H pub D (CRelay now n) = map_prog GotNothing (RelayOnce_prog (m_bout D) pub now n)"

text \<open>For whom a call acts, whose announcements it may queue, and whose data its result shows.\<close>

fun acting :: "budget_call \<Rightarrow> string set" where
  "acting (CCreateBudget now i u inp) = {u}"
| "acting (CListBudgets u) = {u}"
| "acting (CGetBudget u k) = {u}"
| "acting (CUpdateBudget now u k inp) = {u}"
| "acting (CDeleteBudget u k) = {u}"
| "acting (CCreateGoal now i u inp) = {u}"
| "acting (CListGoals u) = {u}"
| "acting (CGetGoal u k) = {u}"
| "acting (CUpdateGoal now u k inp) = {u}"
| "acting (CDeleteGoal u k) = {u}"
| "acting (CSummary u from to) = {u}"
| "acting (CCreated gen u now) = {u}"
| "acting (CRelay now n) = {}"

fun announcing :: "budget_call \<Rightarrow> string set" where
  "announcing (CCreated gen u now) = {u}"
| "announcing _ = {}"

fun shows_user :: "budget_outcome \<Rightarrow> string set" where
  "shows_user (GotBudget (Inr b)) = {b_user b}"
| "shows_user (GotBudgets (Inr bs)) = b_user ` set bs"
| "shows_user (GotGoal (Inr g)) = {g_user g}"
| "shows_user (GotGoals (Inr gs)) = g_user ` set gs"
| "shows_user _ = {}"

lemma shows_userI:
  "\<forall>b. r = Inr b \<longrightarrow> b_user b = u \<Longrightarrow> shows_user (GotBudget r) \<subseteq> {u}"
  "\<forall>bs. r' = Inr bs \<longrightarrow> (\<forall>b \<in> set bs. b_user b = u) \<Longrightarrow> shows_user (GotBudgets r') \<subseteq> {u}"
  "\<forall>g. q = Inr g \<longrightarrow> g_user g = u \<Longrightarrow> shows_user (GotGoal q) \<subseteq> {u}"
  "\<forall>gs. q' = Inr gs \<longrightarrow> (\<forall>g \<in> set gs. g_user g = u) \<Longrightarrow> shows_user (GotGoals q') \<subseteq> {u}"
proof -
  show "\<forall>b. r = Inr b \<longrightarrow> b_user b = u \<Longrightarrow> shows_user (GotBudget r) \<subseteq> {u}" by (cases r) auto
  show "\<forall>bs. r' = Inr bs \<longrightarrow> (\<forall>b \<in> set bs. b_user b = u) \<Longrightarrow> shows_user (GotBudgets r') \<subseteq> {u}" by (cases r') auto
  show "\<forall>g. q = Inr g \<longrightarrow> g_user g = u \<Longrightarrow> shows_user (GotGoal q) \<subseteq> {u}" by (cases q) auto
  show "\<forall>gs. q' = Inr gs \<longrightarrow> (\<forall>g \<in> set gs. g_user g = u) \<Longrightarrow> shows_user (GotGoals q') \<subseteq> {u}" by (cases q') auto
qed

text \<open>The operations of one call, with what their results show.\<close>

lemma single_safe:
  assumes u: "u \<in> K" and E: "\<And>st r st'. f st = (r, st') \<Longrightarrow> budget_guar sent K S st st' \<and> shows_user (g r) \<subseteq> {u}"
  shows "safe (budget_guar sent K S) (tidy sent) (step f (\<lambda>r. Done (g r))) (\<lambda>r st. shows_user r \<subseteq> {u})"
  by (rule safe_step_pure [where E = "\<lambda>r. shows_user (g r) \<subseteq> {u}", OF stable_tidy E safe_Done]) (auto intro: stable_tidy)

lemma budget_single_safe:
  assumes u: "u \<in> K" and m: "\<And>c. budget_moves u c (snd (f c))" and E: "\<And>c r c'. f c = (r, c') \<Longrightarrow> shows_user (g r) \<subseteq> {u}"
  shows "safe (budget_guar sent K S) (tidy sent) (step (at_budgets f) (\<lambda>r. Done (g r))) (\<lambda>r st. shows_user r \<subseteq> {u})"
proof (rule single_safe [OF u])
  fix st :: "'a budget_db \<times> 'c" and r st' assume s: "at_budgets f st = (r, st')"
  then have "f (db_budgets (fst st)) = (r, db_budgets (fst st'))" by (auto simp: at_budgets_def split: prod.splits)
  with E guar_budgets [OF s m u] show "budget_guar sent K S st st' \<and> shows_user (g r) \<subseteq> {u}" by blast
qed

lemma goal_single_safe:
  assumes u: "u \<in> K" and m: "\<And>c. goal_moves u c (snd (f c))" and E: "\<And>c r c'. f c = (r, c') \<Longrightarrow> shows_user (g r) \<subseteq> {u}"
  shows "safe (budget_guar sent K S) (tidy sent) (step (at_goals f) (\<lambda>r. Done (g r))) (\<lambda>r st. shows_user r \<subseteq> {u})"
proof (rule single_safe [OF u])
  fix st :: "'a budget_db \<times> 'c" and r st' assume s: "at_goals f st = (r, st')"
  then have "f (db_goals (fst st)) = (r, db_goals (fst st'))" by (auto simp: at_goals_def split: prod.splits)
  with E guar_goals [OF s m u] show "budget_guar sent K S st st' \<and> shows_user (g r) \<subseteq> {u}" by blast
qed

lemma budget_results_own:
  assumes M: "lawful (same_id bd_id) M"
  shows "budgetService_Create M now i u inp c = (r, c') \<Longrightarrow> \<forall>b. r = Inr b \<longrightarrow> b_user b = u"
    and "budgetService_List M u c = (q, c') \<Longrightarrow> \<forall>bs. q = Inr bs \<longrightarrow> (\<forall>b \<in> set bs. b_user b = u)"
    and "budgetService_Get M u k c = (r, c') \<Longrightarrow> \<forall>b. r = Inr b \<longrightarrow> b_user b = u"
  using budl.list_owner [OF M] bud.get_owner [OF M]
  by (auto simp: budgetService_Create_def budgetService_List_def budgetService_Get_def MongoBudgetRepository_Create_def
      split: option.splits prod.splits sum.splits)

lemma goal_results_own:
  assumes M: "lawful (same_id gd_id) M"
  shows "goalService_Create M now i u inp c = (r, c') \<Longrightarrow> \<forall>g. r = Inr g \<longrightarrow> g_user g = u"
    and "goalService_List M u c = (q, c') \<Longrightarrow> \<forall>gs. q = Inr gs \<longrightarrow> (\<forall>g \<in> set gs. g_user g = u)"
    and "goalService_Get M u k c = (r, c') \<Longrightarrow> \<forall>g. r = Inr g \<longrightarrow> g_user g = u"
  using goall.list_owner [OF M] goal.get_owner [OF M]
  by (auto simp: goalService_Create_def goalService_List_def goalService_Get_def MongoGoalRepository_Create_def
      split: if_splits prod.splits sum.splits)

lemma budget_call_safe:
  assumes D: "lawful_budget D" and H: "keeps_sent sent H" and h: "honest sent pub"
    and K: "acting c \<subseteq> K" and S: "announcing c \<subseteq> S"
  shows "safe (budget_guar sent K S) (tidy sent) (budget_call_prog U H pub D c) (\<lambda>r st. shows_user r \<subseteq> acting c)"
proof -
  note M = lawful_budgetD [OF D]
  note B = budgetService_moves [OF M(1)] goalService_moves [OF M(2)]
  note own = budget_results_own [OF M(1)] goal_results_own [OF M(2)]
  show ?thesis
  proof (cases c)
    case (CUpdateBudget now u k inp)
    with K show ?thesis by (auto intro!: safe_map safe_post [OF Budget_update_safe [OF D]] shows_userI)
  next
    case (CUpdateGoal now u k inp)
    with K show ?thesis by (auto intro!: safe_map safe_post [OF Goal_update_safe [OF D]] shows_userI)
  next
    case (CSummary u f t)
    with K show ?thesis by (auto intro!: safe_map safe_post [OF Summary_safe [OF D H]])
  next
    case (CCreated gen u now)
    with K S show ?thesis by (auto intro!: safe_map safe_post [OF Handle_safe [OF D H]])
  next
    case (CRelay now n)
    then show ?thesis by (auto intro!: safe_map safe_post [OF Relay_safe [OF M(3) h]])
  next
    case (CCreateBudget now i u inp)
    have "safe (budget_guar sent K S) (tidy sent) (step (at_budgets (budgetService_Create (m_budgets D) now i u inp)) (\<lambda>r. Done (GotBudget r)))
      (\<lambda>r st. shows_user r \<subseteq> {u})"
      by (rule budget_single_safe) (use CCreateBudget K B own in \<open>auto intro!: shows_userI\<close>)
    with CCreateBudget show ?thesis by simp
  qed (use K B own in \<open>simp_all add: budget_single_safe goal_single_safe shows_userI\<close>)
qed

section \<open>Under every schedule\<close>

lemma budget_pool_safe:
  assumes D: "lawful_budget D" and H: "keeps_sent sent H" and h: "honest sent pub" and st: "tidy sent st"
  shows "bg.pool_safe sent (\<Union>c \<in> set cs. acting c) (\<Union>c \<in> set cs. announcing c) (map (budget_call_prog U H pub D) cs, st)
    (\<lambda>i r st. shows_user r \<subseteq> acting (cs ! i))"
  unfolding bg.pool_safe_def
proof (intro allI impI)
  let ?K = "\<Union>c \<in> set cs. acting c" and ?S = "\<Union>c \<in> set cs. announcing c"
  fix i assume "i < length (fst (map (budget_call_prog U H pub D) cs, st))"
  then have i: "i < length cs" by simp
  then have "acting (cs ! i) \<subseteq> ?K" "announcing (cs ! i) \<subseteq> ?S" using nth_mem by blast+
  from budget_call_safe [OF D H h this] i st
  show "\<exists>P. P (snd (map (budget_call_prog U H pub D) cs, st)) \<and>
      safe (budget_guar sent ?K ?S) P (fst (map (budget_call_prog U H pub D) cs, st) ! i) (\<lambda>r st. shows_user r \<subseteq> acting (cs ! i))"
    by (intro exI [of _ "tidy sent"]) simp
qed


text \<open>
  C6. Delivery survives concurrency: with any number of relay passes, requests and overspend checks
  running at once, no queued event is lost or changed, what joins the queue are announcements of budgets
  that are overspent, for users whose transactions were reported, and an event is marked as published
  only when the bus has acknowledged that very message.
\<close>

theorem overlapping_relays:
  assumes "lawful_budget D" and "keeps_sent sent H" and "honest sent pub"
    and "budget_inv (fst st)" and "outbox_inv sent (db_bout (fst st)) (snd st)"
    and "schedule is (map (budget_call_prog U H pub D) cs, st) = (ps, st')"
  shows "outbox_inv sent (db_bout (fst st')) (snd st') \<and> sent (snd st) \<subseteq> sent (snd st') \<and>
    (\<exists>new. queue_of (db_bout (fst st')) = queue_of (db_bout (fst st)) @ new \<and> list_all (announces (\<Union>c \<in> set cs. announcing c)) new)"
proof -
  have "tidy sent st" using assms(4,5) by (simp add: tidy_def)
  from bg.pool_schedule [OF budget_pool_safe [OF assms(1-3) this, of cs U], of "is"] assms(6)
  have "budget_guar sent (\<Union>c \<in> set cs. acting c) (\<Union>c \<in> set cs. announcing c) st st'" by simp
  with assms(5) show ?thesis by (simp add: budget_guar_def)
qed

section \<open>A lost update\<close>

lemma Update_told:
  assumes M: "lawful (same_id bd_id) M" and ids: "ids_distinct bd_id c" and d: "d \<in> set (docs c)"
    and u: "budgetService_Update M now (bd_user d) (hex M (bd_id d)) inp c = (Inr b', c')"
  shows "b_category b' = bi_category inp \<and> b_amount b' = bi_amount inp \<and> b_period b' = bi_period inp"
    and "ids_distinct bd_id c'"
    and "\<exists>d' \<in> set (docs c'). bd_id d' = bd_id d \<and> bd_user d' = bd_user d \<and> bd_notified d' = bd_notified d"
proof -
  have "validate_budget inp = None" using u by (simp add: budgetService_Update_def split: option.splits)
  then obtain b c1 w where g: "MongoBudgetRepository_GetByIDForUser M (hex M (bd_id d)) (bd_user d) c = (Inr b, c1)"
    and w: "MongoBudgetRepository_Update now M (b\<lparr>b_category := bi_category inp, b_amount := bi_amount inp, b_period := bi_period inp\<rparr>) c1 = (Inr w, c')"
    and b': "b' = b\<lparr>b_category := bi_category inp, b_amount := bi_amount inp, b_period := bi_period inp, b_updated := utc now\<rparr>"
    using u by (auto simp: budgetService_Update_def Let_def elim!: on_okE)
  show "b_category b' = bi_category inp \<and> b_amount b' = bi_amount inp \<and> b_period b' = bi_period inp" by (simp add: b')
  have b: "b = budget_toDomain M d" using bud.get_unique [OF M ids d refl g] by simp
  have c1: "docs c1 = docs c" by (rule bud.get_docs [OF M g])
  let ?b = "b\<lparr>b_category := bi_category inp, b_amount := bi_amount inp, b_period := bi_period inp\<rparr>"
  have one: "one_updated (\<lambda>x. bd_id x = bd_id d \<and> bd_user x = bd_user d) (budget_set now ?b) (docs c1) (docs c')"
    using bud.update_ok [OF M w] hex_roundtrip [OF M] by (auto simp: b budget_toDomain_def)
  have i1: "ids_distinct bd_id c1" using ids c1 by (simp add: ids_distinct_def)
  note up = one_updated_unique [where did = bd_id, OF i1 one _ d [folded c1] refl]
  show "ids_distinct bd_id c'" by (rule up(1)) (simp add: budget_set_def)
  have "budget_set now ?b d \<in> set (docs c')" by (rule up(2)) (simp add: budget_set_def)
  moreover have "bd_notified (budget_set now ?b d) = bd_notified d"
    by (cases "bd_notified d") (simp_all add: budget_set_def b budget_toDomain_def)
  ultimately show "\<exists>d' \<in> set (docs c'). bd_id d' = bd_id d \<and> bd_user d' = bd_user d \<and> bd_notified d' = bd_notified d"
    by (intro bexI [of _ "budget_set now ?b d"]) (simp_all add: budget_set_def)
qed

lemma at_budgets_fst: "at_budgets f st = (r, st') \<Longrightarrow> f (db_budgets (fst st)) = (r, db_budgets (fst st'))"
  by (auto simp: at_budgets_def split: prod.splits)

text \<open>
  C32. The record of an announcement undoes a change that the user made meanwhile: when an update of the
  budget is answered with success between the announcement and its record, and the record is
  written, then the stored category, amount and period are the old ones, not those that the
  user was told.
\<close>

theorem announcement_loses_update:
  fixes st :: "'e budget_db \<times> 's"
  assumes D: "lawful_budget D" and inv: "budget_inv (fst st)" and d: "d \<in> set (docs (db_budgets (fst st)))"
    and b: "b = budget_toDomain (m_budgets D) d" and from_b: "from = currentPeriodStart (b_period b) t" and fresh: "\<not> already_notified b from"
    and run: "schedule [0, 1, 1, 0]
      ([notify_prog D g (bd_user d) b actual from (Done (GotNothing (Inr ()))), budget_call_prog U H pub D (CUpdateBudget now (bd_user d) (b_id b) inp)], st) =
      (ps, st')"
    and told: "ps ! 1 = Done (GotBudget (Inr b'))"
    and x: "x \<in> set (docs (db_budgets (fst st')))" "bd_id x = bd_id d" "bd_notified x = Some (bson_time from)"
  shows "b_category b' = bi_category inp \<and> b_amount b' = bi_amount inp \<and> b_period b' = bi_period inp \<and>
    bd_category x = bd_category d \<and> bd_amount x = bd_amount d \<and> bd_period x = bd_period d"
proof -
  note M = lawful_budgetD(1) [OF D]
  let ?u = "bd_user d" and ?upd = "budget_call_prog U H pub D (CUpdateBudget now (bd_user d) (b_id b) inp)"
  let ?pub = "at_outbox (OutboxPublisher_PublishBudgetOverspent (m_bout D) (fst g) (snd g) (overspent_of ?u b actual from))"
  let ?rec = "at_budgets (MongoBudgetRepository_Update (fst g) (m_budgets D) (b\<lparr>b_notified := Some from\<rparr>))"
  obtain r st1 where p: "?pub st = (r, st1)" by (cases "?pub st")
  then have same: "db_budgets (fst st1) = db_budgets (fst st)" by (auto simp: at_outbox_def split: prod.splits)
  define p0 :: "('e budget_db \<times> 's, budget_outcome) prog" where "p0 = (case r of Inl _ \<Rightarrow> Done (GotNothing (Inr ())) | Inr _ \<Rightarrow> step ?rec (\<lambda>_. Done (GotNothing (Inr ()))))"
  obtain qs st2 where two: "schedule (replicate 2 1) ([p0, ?upd], st1) = (qs, st2)" by (cases "schedule (replicate 2 1) ([p0, ?upd], st1)")
  have "turn 0 ([notify_prog D g ?u b actual from (Done (GotNothing (Inr ()))), ?upd], st) = ([p0, ?upd], st1)"
    using p fresh by (simp add: notify_prog_def already_notified_def step_def p0_def split: sum.split)
  with run two have last: "turn 0 (qs, st2) = (ps, st')" by (simp add: numeral_2_eq_2)
  have "qs ! 1 = Done (GotBudget (Inr b'))" using turn_other [OF last, of 1] told by simp
  with schedule_solo [OF _ two] have solo: "run ?upd st1 = (GotBudget (Inr b'), st2)" "qs = [p0, Done (GotBudget (Inr b'))]" by simp_all
  then have "at_budgets (budgetService_Update (m_budgets D) now ?u (b_id b) inp) st1 = (Inr b', st2)"
    by (auto simp: run_map run_updates map_prod_def split: prod.splits)
  note u = at_budgets_fst [OF this, unfolded same, unfolded b budget_toDomain_def budget.simps]
  have ids: "ids_distinct bd_id (db_budgets (fst st))" using inv by (simp add: budget_inv_def budgets_inv_def coll_ok_def)
  note t = Update_told [OF M ids d u]
  obtain d' where d': "d' \<in> set (docs (db_budgets (fst st2)))" "bd_id d' = bd_id d" "bd_user d' = bd_user d" "bd_notified d' = bd_notified d" using t(3) by blast
  have old: "bd_notified d \<noteq> Some (bson_time from)"
    using fresh period_start_exact [of "b_period b" t] by (auto simp: already_notified_def b budget_toDomain_def from_b time_equal_def)
  show ?thesis
  proof (cases r)
    case (Inl e)
    then have "st' = st2" using last solo(2) by (simp add: p0_def)
    then have "x = d'" using ids_distinct_unique [OF t(2)] x(1,2) d'(1,2) by simp
    with x(3) d'(4) old show ?thesis by simp
  next
    case (Inr w)
    obtain q where "?rec st2 = (q, st')" using last solo(2) Inr by (auto simp: p0_def step_def split: prod.splits)
    note w = at_budgets_fst [OF this]
    from bud.update_any [OF M w] show ?thesis
    proof (elim disjE exE conjE)
      assume "docs (db_budgets (fst st')) = docs (db_budgets (fst st2))"
      then have "x = d'" using ids_distinct_unique [OF t(2)] x(1,2) d'(1,2) by simp
      with x(3) d'(4) old show ?thesis by simp
    next
      fix i
      assume i: "from_hex (m_budgets D) (b_id (b\<lparr>b_notified := Some from\<rparr>)) = Some i"
        and one: "one_updated (\<lambda>d. bd_id d = i \<and> bd_user d = b_user (b\<lparr>b_notified := Some from\<rparr>))
          (budget_set (fst g) (b\<lparr>b_notified := Some from\<rparr>)) (docs (db_budgets (fst st2))) (docs (db_budgets (fst st')))"
      have i: "bd_id d' = i" using i d'(2) hex_roundtrip [OF M] by (simp add: b budget_toDomain_def)
      have "x = budget_set (fst g) (b\<lparr>b_notified := Some from\<rparr>) d'"
        by (rule one_updated_unique(3) [where did = bd_id, OF t(2) one _ d'(1) i x(1)]) (use x(2) d'(2) i in \<open>simp_all add: budget_set_def\<close>)
      with t(1) show ?thesis by (simp add: budget_set_def b budget_toDomain_def)
    qed
  qed
qed

section \<open>Concrete schedules\<close>

text \<open>An expense-service that answers, and a bus that keeps a log of what it acknowledged.\<close>

definition demo_outside :: "(nat \<times> (string \<times> json \<times> string) list) expense_http" where
  "demo_outside u q w = (case demo_net u q (fst w) of (r, n) \<Rightarrow> (r, (n, snd w)))"

definition demo_log :: "(nat \<times> (string \<times> json \<times> string) list) publisher" where
  "demo_log s d m w = (Inr (), (fst w, (s, d, m) # snd w))"

definition demo_change :: budget_input where
  "demo_change = \<lparr>bi_category = ''food'', bi_amount = Fin False 500, bi_period = ''monthly''\<rparr>"

definition demo_calls :: "budget_call list" where
  "demo_calls = [CCreated (\<lambda>k. (demo_march, 40 + of_nat k)) ''ann'' demo_march, CRelay demo_march 5,
     CUpdateBudget demo_march ''ann'' (mem_hex 7) demo_change, CRelay demo_march 5]"

lemma demo_outside_honest: "keeps_sent (set \<circ> snd) demo_outside" "honest (set \<circ> snd) demo_log"
  by (auto simp: keeps_sent_def demo_outside_def honest_def demo_log_def split: prod.splits)

lemma demo_bdb_tidy: "budget_inv (fst (demo_bdb, w))" "outbox_inv (set \<circ> snd) (db_bout (fst (demo_bdb, w))) (snd (demo_bdb, w))"
  using demo_bdb_inv demo_goals_inv by (simp_all add: budget_inv_def outbox_inv_def demo_bdb_def mem_coll_def)


theorem overlapping_relays_witness:
  "\<exists>ps st'. schedule [0, 2, 0, 0, 2, 0, 0, 1, 3, 1, 3] (map (budget_call_prog demo_unicode demo_outside demo_log demo_bdrivers) demo_calls,
      (demo_bdb, (0, []))) = (ps, st') \<and> list_all (announces {''ann''}) (queue_of (db_bout (fst st')))"
proof -
  obtain ps st' where r: "schedule [0, 2, 0, 0, 2, 0, 0, 1, 3, 1, 3] (map (budget_call_prog demo_unicode demo_outside demo_log demo_bdrivers) demo_calls,
      (demo_bdb, (0, []))) = (ps, st')" by (meson surj_pair)
  have a: "(\<Union>c \<in> set demo_calls. announcing c) = {''ann''}" by (simp add: demo_calls_def)
  have e: "queue_of (db_bout (fst (demo_bdb, w))) = []" for w :: "nat \<times> (string \<times> json \<times> string) list" by (simp add: demo_bdb_def mem_coll_def queue_of_def)
  from overlapping_relays [OF lawful_demo_budget demo_outside_honest demo_bdb_tidy r, unfolded a e] r show ?thesis by auto
qed

definition demo_budget_doc :: budget_doc where
  "demo_budget_doc = \<lparr>bd_id = 7, bd_user = ''ann'', bd_category = ''food'', bd_amount = Fin False 1, bd_period = ''monthly'',
     bd_created = 0, bd_updated = 0, bd_notified = None\<rparr>"

lemma demo_change_valid: "validate_budget demo_change = None"
  by (simp add: demo_change_def validate_budget_def fle_def budget_maxAmount_val f64_one_def ValidPeriod_def PeriodMonthly_def)

lemma demo_lost:
  "\<exists>st' b' x. schedule [0, 1, 1, 0]
      ([notify_prog demo_bdrivers (demo_march, 40) ''ann'' (budget_toDomain (m_budgets demo_bdrivers) demo_budget_doc) (Fin False 2)
          (currentPeriodStart ''monthly'' demo_march) (Done (GotNothing (Inr ()))),
        budget_call_prog demo_unicode demo_outside demo_log demo_bdrivers (CUpdateBudget demo_march ''ann'' (mem_hex 7) demo_change)], (demo_bdb, (0, []))) =
      ([Done (GotNothing (Inr ())), Done (GotBudget (Inr b'))], st') \<and>
    x \<in> set (docs (db_budgets (fst st'))) \<and> bd_id x = 7 \<and> bd_notified x = Some (bson_time (currentPeriodStart ''monthly'' demo_march))"
  by (simp add: notify_prog_def budgetService_Update_prog_def demo_change_valid step_def at_defs
     MongoBudgetRepository_GetByIDForUser_def demo_bdrivers_def demo_bdb_def mem_driver_def mem_call_def mem_coll_def demo_budget_doc_def
     budget_toDomain_def demo_march_period OutboxPublisher_PublishBudgetOverspent_def
     overspent_json_def overspent_of_def json_float_def Store_Enqueue_def MongoBudgetRepository_Update_def budget_set_def Let_def)

theorem announcement_loses_update_witness:
  "\<exists>b' x. b_amount b' = bi_amount demo_change \<and> bd_amount x = Fin False 1 \<and> bi_amount demo_change \<noteq> Fin False 1 \<and>
     (\<exists>st'. schedule [0, 1, 1, 0]
        ([notify_prog demo_bdrivers (demo_march, 40) ''ann'' (budget_toDomain (m_budgets demo_bdrivers) demo_budget_doc) (Fin False 2)
            (currentPeriodStart ''monthly'' demo_march) (Done (GotNothing (Inr ()))),
          budget_call_prog demo_unicode demo_outside demo_log demo_bdrivers (CUpdateBudget demo_march ''ann'' (mem_hex 7) demo_change)], (demo_bdb, (0, []))) =
        ([Done (GotNothing (Inr ())), Done (GotBudget (Inr b'))], st') \<and> x \<in> set (docs (db_budgets (fst st'))))"
proof -
  let ?b = "budget_toDomain (m_budgets demo_bdrivers) demo_budget_doc"
  obtain st' b' x where r: "schedule [0, 1, 1, 0]
      ([notify_prog demo_bdrivers (demo_march, 40) ''ann'' ?b (Fin False 2)
          (currentPeriodStart ''monthly'' demo_march) (Done (GotNothing (Inr ()))),
        budget_call_prog demo_unicode demo_outside demo_log demo_bdrivers (CUpdateBudget demo_march ''ann'' (mem_hex 7) demo_change)], (demo_bdb, (0, []))) =
      ([Done (GotNothing (Inr ())), Done (GotBudget (Inr b'))], st')"
    and x: "x \<in> set (docs (db_budgets (fst st')))" "bd_id x = 7" "bd_notified x = Some (bson_time (currentPeriodStart ''monthly'' demo_march))"
    using demo_lost by blast
  have d: "demo_budget_doc \<in> set (docs (db_budgets (fst (demo_bdb, w))))" for w :: "nat \<times> (string \<times> json \<times> string) list"
    by (simp add: demo_bdb_def mem_coll_def demo_budget_doc_def)
  have b: "bd_user demo_budget_doc = ''ann''" "b_id ?b = mem_hex 7" "b_period ?b = ''monthly''" "bd_id demo_budget_doc = 7" "bd_amount demo_budget_doc = Fin False 1"
    by (simp_all add: demo_budget_doc_def budget_toDomain_def demo_bdrivers_def mem_driver_def)
  have n: "\<not> already_notified ?b (currentPeriodStart ''monthly'' demo_march)"
    by (simp add: already_notified_def demo_budget_doc_def budget_toDomain_def)
  have t: "[Done (GotNothing (Inr ())), Done (GotBudget (Inr b'))] ! 1 = Done (GotBudget (Inr b'))" by simp
  from announcement_loses_update [where b = ?b and t = demo_march, OF lawful_demo_budget demo_bdb_tidy(1) d refl, unfolded b, OF refl n r t x]
  have "b_amount b' = bi_amount demo_change" "bd_amount x = Fin False 1" by simp_all
  moreover have "bi_amount demo_change \<noteq> Fin False 1" by (simp add: demo_change_def)
  ultimately show ?thesis using r x(1) by blast
qed

end
