(* ===== verification/Spec2Isabelle.thy ===== *)
theory Spec2Isabelle
  imports Prelude Go_Float Go_Strings Go_ParseFloat Go_Time Mongo Paging Repo_Spec Outbox Httpx
    Expense_Account Account_Spec Expense_Category Expense_Transaction Expense_Import Expense_Http Expense_System
    Jwtx User_Repo User_Auth User_Profile User_Http
    Budget_Budget Budget_Goal Budget_Client Budget_Period Budget_Overspend Budget_Http Report_System
    Notif_Service Notif_Http Event_Bus Go_Config Gateway Platform Service_Boot Service_Http
    Interleave User_Concurrent Expense_Concurrent Budget_Concurrent
begin

text \<open>
  Finora, a personal finance tracker of five Go processes: a gateway that is the only one to face
  clients, and user-service, expense-service, budget-service and notification-service behind it,
  each with its own MongoDB. The gateway checks the access token and forwards the user id in a
  header that the services trust. expense-service queues an event for every recorded transaction
  in an outbox, which a relay publishes on NATS; budget-service consumes it, sums the period through
  the HTTP API of expense-service and queues an event for every budget newly overspent;
  notification-service consumes that and writes a notification. All Go code under \<open>src/services\<close> and
  \<open>src/shared\<close> is modelled except what is listed at the end.

  \<^bold>\<open>How the code is read.\<close> A service object becomes functions over the collections it uses, which
  return the result and the new collections. An \<open>error\<close> is a value of \<open>go_error\<close> on the left of a
  sum. Amounts are IEEE doubles written out (\<open>Go_Float\<close>, with the rounding of \<open>strconv\<close> in
  \<open>Go_ParseFloat\<close>), \<open>int\<close> is a 64-bit word, times are instants with nanoseconds and an offset
  (\<open>Go_Time\<close>), strings are byte lists (\<open>Go_Strings\<close>). Random ids and the clock are arguments of the
  calls that draw them. The third-party code is a parameter: the MongoDB driver (\<open>Mongo\<close>: any
  operation may fail; \<open>lawful\<close> says what a success did and that duplicates of \<open>_id\<close> and of unique
  keys are refused), the JWT library and bcrypt (\<open>Jwtx\<close>, \<open>User_Auth\<close>), NATS (\<open>Outbox\<close>, \<open>Event_Bus\<close>),
  \<open>golang.org/x/time/rate\<close> (\<open>Gateway\<close>), the time zone database, the Unicode tables and the mail
  sender. Every law assumed of one of them holds of a concrete instance (\<open>mem_driver\<close>, \<open>demo_bus\<close> and
  the like), on which the witnesses evaluate.

  \<^bold>\<open>The theories and their sources.\<close>
  \<^item> \<open>Prelude\<close>, \<open>Paging\<close>, \<open>Repo_Spec\<close>: shared vocabulary; the pagination of the list endpoints; the
    interface of a repository whose queries all carry the owner. Its locales \<open>owned_repo\<close>,
    \<open>listed_repo\<close> and \<open>mutable_repo\<close> are interpreted on the models of the account, category,
    transaction, budget and goal repositories, and the services rest on their lemmas.
  \<^item> \<open>Expense_Account\<close>, \<open>Expense_Category\<close>, \<open>Expense_Transaction\<close>, \<open>Expense_Import\<close>, \<open>Expense_Http\<close>:
    \<open>services/expense-service/internal\<close> (domain, repository, service, events, handler, router);
    \<open>Expense_System\<close> runs whole sequences of requests over it. \<open>Account_Spec\<close> states what the account
    service promises as a relation over an abstract account book, and shows that it refines it.
  \<^item> \<open>Jwtx\<close>, \<open>User_Repo\<close>, \<open>User_Auth\<close>, \<open>User_Profile\<close>, \<open>User_Http\<close>: \<open>shared/jwtx\<close> and
    \<open>services/user-service/internal\<close>, with the expiry index as a sweep that may run at any time.
  \<^item> \<open>Budget_Budget\<close>, \<open>Budget_Goal\<close>, \<open>Budget_Client\<close>, \<open>Budget_Period\<close>, \<open>Budget_Overspend\<close>,
    \<open>Budget_Http\<close>: \<open>services/budget-service/internal\<close> and the event callback of its \<open>main\<close>;
    \<open>Report_System\<close> composes the client with the model of expense-service.
  \<^item> \<open>Notif_Service\<close>, \<open>Notif_Http\<close>: \<open>services/notification-service\<close>.
  \<^item> \<open>Outbox\<close>, \<open>Event_Bus\<close>: \<open>shared/outbox\<close>, \<open>shared/eventbus\<close> and the chain of events.
  \<^item> \<open>Httpx\<close>, \<open>Go_Config\<close>, \<open>Gateway\<close>: \<open>shared/httpx\<close>, \<open>shared/middleware\<close>, \<open>shared/config\<close>,
    \<open>shared/health\<close> and \<open>services/gateway\<close>.
  \<^item> \<open>Platform\<close>: the gateway, the four services and the deliveries of the bus in one state.
  \<^item> \<open>Service_Boot\<close>, \<open>Service_Http\<close>: the five \<open>main\<close> functions, the configurations, \<open>shared/mongox\<close>,
    \<open>shared/server\<close>, \<open>shared/openapidoc\<close>, \<open>shared/logger\<close> and the indexes; the full routers.

  \<^item> \<open>Interleave\<close>: what runs at the same time. A request is a program of atomic calls of the database and
    the network, a schedule says whose call is next, and the reasoning is rely-guarantee; its locale
    \<open>interference\<close> is interpreted on the guarantee of each of three services. \<open>User_Concurrent\<close>,
    \<open>Expense_Concurrent\<close> and \<open>Budget_Concurrent\<close> give every operation of user-service,
    expense-service and budget-service as such a program, with the sweep of the expiry index
    and the passes of the outbox relay, and show that run alone it is the sequential operation.

  \<^bold>\<open>What the lemmas show.\<close> Per repository and service: each operation on every branch, the invariant
  of the collection and its preservation, and that it touches documents of its user only (the
  \<open>_cases\<close>, \<open>_inv\<close> and \<open>_isolated\<close> lemmas). Per service: the same for sequences of requests with any
  database faults. Across services: the identity that reaches a backend comes from a verified
  token; over the whole platform nothing stored about a user changes without a token, an event or
  a registration of that user; an event stays within its user from the transaction to the
  notification; a report equals the sum that expense-service stores. Security of sessions: a refresh
  token is accepted at most once, a replay revokes every session, a logged-out token stays dead,
  and the race of two overlapping refreshes is shown to exist. Processes: nothing is served before
  configuration, databases, indexes and bus are there. Overlapping requests: under every schedule
  and with any faults the stores stay well formed, users stay isolated, answers show the caller's own
  data, the outbox loses nothing, an email has one owner and a spent refresh token stays spent; three
  races that the code does have are proved to exist (two refreshes of one token, an announcement
  that undoes an update of the budget, an update that takes back the balance of an account).

  \<^bold>\<open>Bounds.\<close> No recursion of the model needs fuel beyond a bound of the code: a category sum walks at
  most 50 pages of 100 transactions (\<open>maxReportPages\<close>, \<open>reportPageSize\<close>) and is exact up to 5000 of
  them; a message is delivered at most ten times (\<open>MaxDeliver\<close>); an import reads at most
  \<open>maxImportRows\<close> rows; the relay does one pass per tick of a given list of ticks; the rate limiter
  forgets a client after three idle minutes, as the code does.

  \<^bold>\<open>Not modelled.\<close> The web client and the infrastructure files (not Go); \<open>shared/mongotest\<close> and
  \<open>shared/natstest\<close>, which serve the integration tests only; constructors that store their arguments,
  and Go interfaces, whose operations are modelled where they are implemented; log lines that only
  inform; wire formats of JSON, BSON, HTTP, CSV quoting and multipart forms, which the standard
  library and third-party packages decode (a handler gets the decoded value or the failure to
  decode); request timeouts and cancellation of contexts other than as a failing call; the overlap
  of two requests inside notification-service, whose writes are single calls, and inside the
  gateway, which keeps no state but the rate limiter; the relay of expense-service among its own requests
  (it is the same code as that of budget-service).
\<close>

end
